(* ===== verification/Prelude.thy ===== *)
theory Prelude
  imports Complex_Main "HOL-Library.AList"
begin

text \<open>
  Shared ground of the development: the values a Python program of this repository passes
  around (JSON values, dictionaries as association lists in insertion order, moments as whole
  microseconds), the text functions of the Python language it uses on them, and the lemma
  collections the component theories draw on.

  Text is a char list; the model is about code points below 128, on which Python's
  \<open>str\<close> operations and those of the list agree.  A float is kept as its shortest decimal
  \<open>JDec m e\<close>, the number \<open>m * 10 ^ e\<close>, which is what \<open>json.dumps\<close> writes and
  \<open>json.loads\<close> reads back; not-a-number and the infinities are no JSON values.
\<close>

named_theorems dict_simps "characterisations of dictionary operations through map_of"
named_theorems store_simps "effects of the statements on one row of a store"

section \<open>JSON values\<close>

datatype json =
    JNull
  | JBool bool
  | JInt int
  | JDec int int
  | JStr string
  | JList "json list"
  | JObj "(string \<times> json) list"

type_synonym dict = "(string \<times> json) list"

fun dec_val :: "int \<Rightarrow> int \<Rightarrow> rat" where
  "dec_val m e = (if 0 \<le> e then of_int (m * 10 ^ nat e) else of_int m / of_int (10 ^ nat (- e)))"

text \<open>The number a value compares as; \<open>None\<close> for what is no number (a bool is none here).\<close>

fun num_val :: "json \<Rightarrow> rat option" where
  "num_val (JInt i) = Some (of_int i)"
| "num_val (JDec m e) = Some (dec_val m e)"
| "num_val _ = None"

fun is_obj :: "json \<Rightarrow> bool" where
  "is_obj (JObj _) = True"
| "is_obj _ = False"

fun is_scalar :: "json \<Rightarrow> bool" where
  "is_scalar (JStr _) = True"
| "is_scalar (JInt _) = True"
| "is_scalar (JDec _ _) = True"
| "is_scalar (JBool _) = True"
| "is_scalar _ = False"

text \<open>Python truth of a value.\<close>

fun truthy :: "json \<Rightarrow> bool" where
  "truthy JNull = False"
| "truthy (JBool b) = b"
| "truthy (JInt i) = (i \<noteq> 0)"
| "truthy (JDec m e) = (m \<noteq> 0)"
| "truthy (JStr s) = (s \<noteq> [])"
| "truthy (JList xs) = (xs \<noteq> [])"
| "truthy (JObj kvs) = (kvs \<noteq> [])"

text \<open>\<open>value in (None, "")\<close>.\<close>

definition blank :: "json \<Rightarrow> bool" where
  "blank v \<longleftrightarrow> v = JNull \<or> v = JStr []"

section \<open>Dictionaries\<close>

text \<open>\<open>d.get(k)\<close>: a missing key and a stored null both read as None.\<close>

definition dget :: "dict \<Rightarrow> string \<Rightarrow> json" where
  "dget d k = (case map_of d k of None \<Rightarrow> JNull | Some v \<Rightarrow> v)"

text \<open>
  \<open>{**a, **b}\<close> and \<open>a.update(b)\<close>: the pairs of \<open>b\<close> are stored one after the other, an
  existing key keeps its place.  \<open>AList.update\<close> is one such store.
\<close>

definition dmerge :: "('k \<times> 'v) list \<Rightarrow> ('k \<times> 'v) list \<Rightarrow> ('k \<times> 'v) list" where
  "dmerge a b = fold (\<lambda>(k, v) d. AList.update k v d) b a"

lemma find_append: "find P (xs @ ys) = (case find P xs of None \<Rightarrow> find P ys | Some x \<Rightarrow> Some x)"
  by (induction xs) auto

lemma map_of_rev_distinct: "distinct (map fst b) \<Longrightarrow> map_of (rev b) = map_of b"
proof (induction b)
  case (Cons p b)
  then have "map_of b (fst p) = None" by (simp add: map_of_eq_None_iff)
  with Cons show ?case by (auto simp: fun_eq_iff map_add_def split: option.splits)
qed simp

lemma map_of_dmerge [dict_simps]: "map_of (dmerge a b) = map_of a ++ map_of (rev b)"
proof (induction b arbitrary: a)
  case Nil
  then show ?case by (simp add: dmerge_def)
next
  case (Cons p b)
  have "dmerge a (p # b) = dmerge (AList.update (fst p) (snd p) a) b"
    by (simp add: dmerge_def split_beta)
  then show ?case
    by (auto simp: Cons.IH update_conv' map_add_def fun_eq_iff split: option.splits)
qed

lemma map_of_dmerge_distinct [dict_simps]:
  "distinct (map fst b) \<Longrightarrow> map_of (dmerge a b) = map_of a ++ map_of b"
  by (simp add: map_of_dmerge map_of_rev_distinct)

lemma dom_dmerge [dict_simps]: "dom (map_of (dmerge a b)) = fst ` set a \<union> fst ` set b"
  by (auto simp: map_of_dmerge dom_map_of_conv_image_fst)

lemma keys_dmerge [dict_simps]: "fst ` set (dmerge a b) = fst ` set a \<union> fst ` set b"
  using dom_dmerge [of a b] by (simp add: dom_map_of_conv_image_fst)

lemma distinct_dmerge: "distinct (map fst a) \<Longrightarrow> distinct (map fst (dmerge a b))"
proof (induction b arbitrary: a)
  case Nil
  then show ?case by (simp add: dmerge_def)
next
  case (Cons p b)
  then show ?case
    using Cons.IH [of "AList.update (fst p) (snd p) a"] distinct_update [of a "fst p" "snd p"]
    by (simp add: dmerge_def split_beta)
qed

lemma dmerge_Nil [simp]: "dmerge a [] = a"
  by (simp add: dmerge_def)

lemma dmerge_Cons: "dmerge a ((k, v) # b) = dmerge (AList.update k v a) b"
  by (simp add: dmerge_def)

lemma map_of_delete [dict_simps]: "map_of (AList.delete k d) = (map_of d)(k := None)"
  by (simp add: delete_conv')

lemma keys_update [dict_simps]: "fst ` set (AList.update k v d) = insert k (fst ` set d)"
  by (induction d) auto

lemma dget_update [dict_simps]: "dget (AList.update k v d) k' = (if k' = k then v else dget d k')"
  by (simp add: dget_def update_conv')

lemma dget_delete [dict_simps]: "dget (AList.delete k d) k' = (if k' = k then JNull else dget d k')"
  by (simp add: dget_def map_of_delete)

lemma dget_Nil [simp]: "dget [] k = JNull"
  by (simp add: dget_def)

lemma dget_dmerge_other [dict_simps]: "k \<notin> fst ` set b \<Longrightarrow> dget (dmerge a b) k = dget a k"
  using map_of_eq_None_iff [of "rev b" k]
  by (auto simp: dget_def map_of_dmerge map_add_def split: option.splits)

lemma map_of_dmerge_other [dict_simps]:
  "k \<notin> fst ` set b \<Longrightarrow> map_of (dmerge a b) k = map_of a k"
  using map_of_eq_None_iff [of "rev b" k]
  by (auto simp: map_of_dmerge map_add_def split: option.splits)

lemma map_of_filter_key [dict_simps]:
  "map_of (filter (\<lambda>(k, v). P k) d) k = (if P k then map_of d k else None)"
  by (induction d) auto

section \<open>Text\<close>

definition prefix_of :: "string \<Rightarrow> string \<Rightarrow> bool" where
  "prefix_of p s \<longleftrightarrow> take (length p) s = p"

lemma prefix_of_append [simp]: "prefix_of p (p @ s)"
  by (simp add: prefix_of_def)

lemma prefix_of_split: "prefix_of p s \<Longrightarrow> s = p @ drop (length p) s"
  by (metis append_take_drop_id prefix_of_def)

fun infix_of :: "string \<Rightarrow> string \<Rightarrow> bool" where
  "infix_of p [] \<longleftrightarrow> p = []"
| "infix_of p (c # s) \<longleftrightarrow> prefix_of p (c # s) \<or> infix_of p s"

lemma infix_of_iff: "infix_of p s \<longleftrightarrow> (\<exists>a b. s = a @ p @ b)"
proof (induction s)
  case Nil
  then show ?case by auto
next
  case (Cons c s)
  show ?case
  proof
    assume "infix_of p (c # s)"
    then show "\<exists>a b. c # s = a @ p @ b"
      using Cons.IH prefix_of_split [of p "c # s"] by (metis append_Cons append_Nil infix_of.simps(2))
  next
    assume "\<exists>a b. c # s = a @ p @ b"
    then obtain a b where ab: "c # s = a @ p @ b" by blast
    then show "infix_of p (c # s)"
    proof (cases a)
      case Nil
      then have "prefix_of p (c # s)" using ab by simp
      then show ?thesis by simp
    next
      case (Cons d a')
      then show ?thesis using ab Cons.IH by auto
    qed
  qed
qed

definition is_digit :: "char \<Rightarrow> bool" where
  "is_digit c \<longleftrightarrow> c \<in> set ''0123456789''"

definition is_upper :: "char \<Rightarrow> bool" where
  "is_upper c \<longleftrightarrow> c \<in> set ''ABCDEFGHIJKLMNOPQRSTUVWXYZ''"

definition is_lower :: "char \<Rightarrow> bool" where
  "is_lower c \<longleftrightarrow> c \<in> set ''abcdefghijklmnopqrstuvwxyz''"

definition is_space :: "char \<Rightarrow> bool" where
  "is_space c \<longleftrightarrow> c \<in> {CHR '' '', CHR 0x09, CHR 0x0A, CHR 0x0B, CHR 0x0C, CHR 0x0D,
                    CHR 0x1C, CHR 0x1D, CHR 0x1E, CHR 0x1F}"

definition lower_char :: "char \<Rightarrow> char" where
  "lower_char c = (case map_of (zip ''ABCDEFGHIJKLMNOPQRSTUVWXYZ'' ''abcdefghijklmnopqrstuvwxyz'') c
                   of None \<Rightarrow> c | Some d \<Rightarrow> d)"

text \<open>\<open>str.lower\<close> and \<open>str.casefold\<close> agree on the code points of the model.\<close>

definition lower :: "string \<Rightarrow> string" where
  "lower s = map lower_char s"

definition strip :: "string \<Rightarrow> string" where
  "strip s = rev (dropWhile is_space (rev (dropWhile is_space s)))"

text \<open>\<open>s.split(c)\<close> for a one-character separator.\<close>

fun split_on :: "char \<Rightarrow> string \<Rightarrow> string list" where
  "split_on c [] = [[]]"
| "split_on c (x # xs) =
     (if x = c then [] # split_on c xs
      else (case split_on c xs of [] \<Rightarrow> [[x]] | w # ws \<Rightarrow> (x # w) # ws))"

lemma split_on_nonempty [simp]: "split_on c s \<noteq> []"
  by (induction s) (auto split: list.splits)

definition digit_char :: "nat \<Rightarrow> char" where
  "digit_char d = ''0123456789'' ! d"

fun nat_text :: "nat \<Rightarrow> string" where
  "nat_text n = (if n < 10 then [digit_char n] else nat_text (n div 10) @ [digit_char (n mod 10)])"

declare nat_text.simps [simp del]

definition int_text :: "int \<Rightarrow> string" where
  "int_text i = (if i < 0 then ''-'' @ nat_text (nat (- i)) else nat_text (nat i))"

text \<open>
  \<open>repr\<close> of a float from its shortest decimal: positional between \<open>1e-4\<close> and \<open>1e16\<close>,
  with an exponent outside.
\<close>

definition dec_digits_text :: "nat \<Rightarrow> int \<Rightarrow> string" where
  "dec_digits_text m e =
     (let ds = nat_text m; n = int (length ds); pt = n + e in
      if 0 \<le> e then ds @ replicate (nat e) (CHR ''0'') @ ''.0''
      else if 0 < pt then take (nat pt) ds @ ''.'' @ drop (nat pt) ds
      else ''0.'' @ replicate (nat (- pt)) (CHR ''0'') @ ds)"

definition dec_text :: "int \<Rightarrow> int \<Rightarrow> string" where
  "dec_text m e =
     (let a = nat (abs m); ds = nat_text a; n = int (length ds); pt = n + e;
          body = (if m = 0 \<or> (- 4 < pt \<and> pt \<le> 16) then dec_digits_text a (if m = 0 then 0 else e)
                  else take 1 ds @ (if n = 1 then [] else ''.'' @ drop 1 ds) @ ''e'' @
                       (if pt - 1 < 0 then ''-'' else ''+'') @
                       (let x = nat_text (nat (abs (pt - 1))) in
                        (if length x < 2 then ''0'' @ x else x)))
      in (if m < 0 then ''-'' @ body else body))"

text \<open>\<open>repr\<close> of a text, for the texts inside a printed list or object.\<close>

definition hex_char :: "nat \<Rightarrow> char" where
  "hex_char d = ''0123456789abcdef'' ! d"

definition repr_char :: "char \<Rightarrow> char \<Rightarrow> string" where
  "repr_char q c =
     (if c = q \<or> c = CHR 0x5C then [CHR 0x5C, c]
      else if c = CHR 0x0A then [CHR 0x5C, CHR ''n'']
      else if c = CHR 0x0D then [CHR 0x5C, CHR ''r'']
      else if c = CHR 0x09 then [CHR 0x5C, CHR ''t'']
      else let n = (of_char c :: nat) in
           if n < 32 \<or> n = 127 then [CHR 0x5C, CHR ''x'', hex_char (n div 16), hex_char (n mod 16)]
           else [c])"

definition repr_text :: "string \<Rightarrow> string" where
  "repr_text s =
     (let q = (if CHR 0x27 \<in> set s \<and> CHR 0x22 \<notin> set s then CHR 0x22 else CHR 0x27)
      in [q] @ concat (map (repr_char q) s) @ [q])"

fun join_with :: "string \<Rightarrow> string list \<Rightarrow> string" where
  "join_with sep [] = []"
| "join_with sep [x] = x"
| "join_with sep (x # y # xs) = x @ sep @ join_with sep (y # xs)"

fun py_repr :: "json \<Rightarrow> string" where
  "py_repr JNull = ''None''"
| "py_repr (JBool b) = (if b then ''True'' else ''False'')"
| "py_repr (JInt i) = int_text i"
| "py_repr (JDec m e) = dec_text m e"
| "py_repr (JStr s) = repr_text s"
| "py_repr (JList xs) = ''['' @ join_with '', '' (map py_repr xs) @ '']''"
| "py_repr (JObj kvs) =
     ''{'' @ join_with '', '' (map (\<lambda>(k, v). repr_text k @ '': '' @ v)
                               (map (map_prod id py_repr) kvs)) @ ''}''"

text \<open>\<open>str(value)\<close>.\<close>

fun py_str :: "json \<Rightarrow> string" where
  "py_str (JStr s) = s"
| "py_str v = py_repr v"

text \<open>
  The text Postgres gives for \<open>payload ->> key\<close>: a string is itself, null is NULL, a boolean is
  \<open>true\<close> or \<open>false\<close>, a number its numeric text, a container its JSON text.
\<close>

definition json_char :: "char \<Rightarrow> string" where
  "json_char c =
     (if c = CHR 0x22 \<or> c = CHR 0x5C then [CHR 0x5C, c]
      else if c = CHR 0x0A then [CHR 0x5C, CHR ''n'']
      else if c = CHR 0x0D then [CHR 0x5C, CHR ''r'']
      else if c = CHR 0x09 then [CHR 0x5C, CHR ''t'']
      else [c])"

definition json_str :: "string \<Rightarrow> string" where
  "json_str s = [CHR 0x22] @ concat (map json_char s) @ [CHR 0x22]"

definition pg_dec :: "int \<Rightarrow> int \<Rightarrow> string" where
  "pg_dec m e =
     (let a = nat (abs m); pt = int (length (nat_text a)) + e;
          body = (if m = 0 then ''0.0''
                  else if - 4 < pt \<and> pt \<le> 16 then dec_digits_text a e
                  else if 0 \<le> e then nat_text a @ replicate (nat e) (CHR ''0'')
                  else dec_digits_text a e)
      in (if m < 0 then ''-'' @ body else body))"

fun json_text :: "json \<Rightarrow> string" where
  "json_text JNull = ''null''"
| "json_text (JBool b) = (if b then ''true'' else ''false'')"
| "json_text (JInt i) = int_text i"
| "json_text (JDec m e) = pg_dec m e"
| "json_text (JStr s) = json_str s"
| "json_text (JList xs) = ''['' @ join_with '', '' (map json_text xs) @ '']''"
| "json_text (JObj kvs) =
     ''{'' @ join_with '', '' (map (\<lambda>(k, v). json_str k @ '': '' @ v)
                               (map (map_prod id json_text) kvs)) @ ''}''"

fun pg_text :: "json \<Rightarrow> string option" where
  "pg_text JNull = None"
| "pg_text (JStr s) = Some s"
| "pg_text v = Some (json_text v)"

section \<open>Moments\<close>

text \<open>
  An aware \<open>datetime\<close> is its instant in microseconds since the epoch (the resolution of
  \<open>datetime\<close> and of \<open>timestamptz\<close> alike).  \<open>timedelta(minutes = x)\<close> rounds to a whole
  microsecond, halves to even, as Python's \<open>round\<close> does.
\<close>

type_synonym time = int

definition minute_us :: int where "minute_us = 60000000"
definition second_us :: int where "second_us = 1000000"
definition day_us :: int where "day_us = 86400000000"

definition py_round :: "rat \<Rightarrow> int" where
  "py_round x = (let f = \<lfloor>x\<rfloor>; d = x - of_int f in
     if d < 1 / 2 then f else if d > 1 / 2 then f + 1 else if even f then f else f + 1)"

lemma py_round_of_int [simp]: "py_round (of_int n) = n"
  by (simp add: py_round_def)

lemma py_round_numeral [simp]: "py_round (numeral n) = numeral n"
  using py_round_of_int [of "numeral n"] by simp

lemma py_round_zero [simp]: "py_round 0 = 0"
  using py_round_of_int [of 0] by simp

lemma py_round_one [simp]: "py_round 1 = 1"
  using py_round_of_int [of 1] by simp

lemma py_round_bounds: "of_int (py_round x) \<le> x + 1 / 2" "x - 1 / 2 \<le> of_int (py_round x)"
proof -
  define f where "f = (of_int \<lfloor>x\<rfloor> :: rat)"
  have f: "f \<le> x" "x < f + 1" unfolding f_def by linarith+
  have r: "of_int (py_round x) = (if x - f < 1 / 2 then f else if x - f > 1 / 2 then f + 1
      else if even \<lfloor>x\<rfloor> then f else f + 1)"
    by (simp add: py_round_def Let_def f_def)
  show "of_int (py_round x) \<le> x + 1 / 2" and "x - 1 / 2 \<le> of_int (py_round x)"
    unfolding r using f by auto
qed

lemma py_round_nonneg: "0 \<le> x \<Longrightarrow> 0 \<le> py_round x"
  using floor_mono [of 0 x] by (auto simp: py_round_def Let_def)

lemma py_round_le: "x \<le> of_int n \<Longrightarrow> py_round x \<le> n"
proof -
  assume le: "x \<le> of_int n"
  have "of_int (py_round x) \<le> (of_int n + 1 / 2 :: rat)"
    using py_round_bounds(1) [of x] le by linarith
  then have "of_int (2 * py_round x) \<le> (of_int (2 * n + 1) :: rat)" by simp
  then have "2 * py_round x \<le> 2 * n + 1" by (simp only: of_int_le_iff)
  then show ?thesis by simp
qed

lemma py_round_ge: "of_int n \<le> x \<Longrightarrow> n \<le> py_round x"
proof -
  assume le: "of_int n \<le> x"
  have "(of_int n - 1 / 2 :: rat) \<le> of_int (py_round x)"
    using py_round_bounds(2) [of x] le by linarith
  then have "(of_int (2 * n - 1) :: rat) \<le> of_int (2 * py_round x)" by simp
  then have "2 * n - 1 \<le> 2 * py_round x" by (simp only: of_int_le_iff)
  then show ?thesis by simp
qed

definition td_minutes :: "rat \<Rightarrow> int" where
  "td_minutes m = py_round (m * of_int minute_us)"

definition td_hours :: "rat \<Rightarrow> int" where
  "td_hours h = py_round (h * of_int (60 * minute_us))"

definition td_days :: "rat \<Rightarrow> int" where
  "td_days d = py_round (d * of_int day_us)"

lemma td_minutes_nonneg: "0 \<le> m \<Longrightarrow> 0 \<le> td_minutes m"
  by (simp add: td_minutes_def minute_us_def py_round_nonneg)

lemma td_days_nonneg: "0 \<le> d \<Longrightarrow> 0 \<le> td_days d"
  by (simp add: td_days_def day_us_def py_round_nonneg)

section \<open>Lists\<close>

lemma filter_eq_single: "distinct xs \<Longrightarrow> x \<in> set xs \<Longrightarrow> filter (\<lambda>y. y = x) xs = [x]"
  by (induction xs) (auto simp: filter_empty_conv)

lemma find_Some_set: "find P xs = Some x \<Longrightarrow> x \<in> set xs \<and> P x"
  by (auto simp: find_Some_iff)

lemma find_None_iff_set: "find P xs = None \<longleftrightarrow> (\<forall>x\<in>set xs. \<not> P x)"
  by (auto simp: find_None_iff)

section \<open>Equality of values\<close>

text \<open>
  Python's \<open>==\<close> on JSON values: dictionaries without regard to order, a boolean as the number
  it is.
\<close>

fun eq_num :: "json \<Rightarrow> rat option" where
  "eq_num (JBool b) = Some (if b then 1 else 0)"
| "eq_num v = num_val v"

fun py_equal :: "json \<Rightarrow> json \<Rightarrow> bool"
  and py_equal_list :: "json list \<Rightarrow> json list \<Rightarrow> bool"
  and py_equal_items :: "dict \<Rightarrow> dict \<Rightarrow> bool" where
  "py_equal (JObj d) v = (case v of JObj e \<Rightarrow> length d = length e \<and> py_equal_items d e | _ \<Rightarrow> False)"
| "py_equal (JList xs) v = (case v of JList ys \<Rightarrow> py_equal_list xs ys | _ \<Rightarrow> False)"
| "py_equal (JStr s) v = (v = JStr s)"
| "py_equal JNull v = (v = JNull)"
| "py_equal (JBool b) v = (eq_num v = Some (if b then 1 else 0))"
| "py_equal (JInt i) v = (eq_num v = Some (of_int i))"
| "py_equal (JDec m e) v = (eq_num v = Some (dec_val m e))"
| "py_equal_list [] ys = (ys = [])"
| "py_equal_list (x # xs) ys = (case ys of [] \<Rightarrow> False | y # zs \<Rightarrow> py_equal x y \<and> py_equal_list xs zs)"
| "py_equal_items [] e = True"
| "py_equal_items ((k, v) # d) e =
     ((case map_of e k of None \<Rightarrow> False | Some u \<Rightarrow> py_equal v u) \<and> py_equal_items d e)"

end
