(* ===== verification/Schemas.thy ===== *)
theory Schemas
  imports Prelude
begin

text \<open>
  The leaf shapes of the workflow engine, field by field as \<open>app/crm/outreach/schemas.py\<close>
  (and \<open>app/crm/shared/predicate.py\<close> for conditions) declares them: the plan document
  (doors, squares, arrows, goal tiers, exits), the run (the token), the letter (an event) and
  the library functions of the Python distribution the engine asks for
  (\<open>datetime.fromisoformat\<close>, \<open>zoneinfo\<close>, \<open>hashlib.sha256\<close>), which are the fields of the
  record \<open>lib\<close>, beside the table of derived fields the providers' connectors fill.  Documents here are documents pydantic has accepted; the shape laws it
  enforces that a proof needs are the predicates \<open>..._ok\<close>.
\<close>

section \<open>The library of the language\<close>

text \<open>
  A zone gives the local wall clock of an instant, as microseconds of local time, and the
  instant of a wall clock reading (the first one when the clock is set back, \<open>fold = 0\<close>).
  \<open>iso_parse\<close> tells an aware moment from a naive one.
\<close>

record zone =
  z_local :: "time \<Rightarrow> int"
  z_utc :: "int \<Rightarrow> time"

datatype pydt = Aware time | Naive int

record lib =
  iso_parse :: "string \<Rightarrow> pydt option"
  iso_format :: "time \<Rightarrow> string"
  zone_of :: "string \<Rightarrow> zone"
  date_iso :: "int \<Rightarrow> string"
  naive_ts :: "int \<Rightarrow> time"
  sha256_hex :: "string \<Rightarrow> string"
  deriver :: "string \<times> string \<Rightarrow> (string \<times> (dict \<Rightarrow> json)) list"
  derived_names :: "string list"

section \<open>Conditions\<close>

datatype op = Is | Is_not | In | Gt | Ge | Lt | Le | Equals | Exists | Not_exists | Includes | Contains

record condition =
  c_field :: string
  c_op :: op
  c_value :: json

section \<open>The plan document\<close>

record entry =
  e_topic :: string
  e_where :: "condition list"
  e_reenter :: bool
  e_cooldown_hours :: rat
  e_key :: "string option"
  e_on_repeat :: string
  e_debounce_minutes :: rat
  e_restart_on_repeat :: bool

text \<open>A door is an entry and the square its runs start on.\<close>

record door = entry +
  e_start :: string

record goal_key =
  gk_event :: string
  gk_run :: string

record goal =
  g_topics :: "string list"
  g_key :: "goal_key option"
  g_where :: "condition list"
  g_exit_reason :: string

definition goal_exit_reasons :: "string list" where
  "goal_exit_reasons = [''goal_met'', ''converted_elsewhere'', ''withdrawn'']"

record exits =
  x_max_age_days :: rat
  x_max_calls_per_day :: "int option"
  x_timezone :: "string option"

text \<open>A ceiling names its clock, and the age is positive.\<close>

definition exits_ok :: "exits \<Rightarrow> bool" where
  "exits_ok x \<longleftrightarrow> 0 < x_max_age_days x
     \<and> (case x_max_calls_per_day x of None \<Rightarrow> True
        | Some n \<Rightarrow> 1 \<le> n \<and> (case x_timezone x of None \<Rightarrow> False | Some z \<Rightarrow> z \<noteq> []))"

record wmatch =
  m_payload :: string
  m_run :: string

record window =
  w_opens :: string
  w_closes :: string
  w_timezone :: string
  w_held_first_minutes :: nat

text \<open>\<open>HH:MM\<close> on the 24-hour clock.\<close>

definition hh_mm :: "string \<Rightarrow> bool" where
  "hh_mm s \<longleftrightarrow> length s = 5 \<and> s ! 2 = CHR '':''
     \<and> ((s ! 0 \<in> set ''01'' \<and> is_digit (s ! 1)) \<or> (s ! 0 = CHR ''2'' \<and> s ! 1 \<in> set ''0123''))
     \<and> s ! 3 \<in> set ''012345'' \<and> is_digit (s ! 4)"

definition window_ok :: "window \<Rightarrow> bool" where
  "window_ok w \<longleftrightarrow> hh_mm (w_opens w) \<and> hh_mm (w_closes w) \<and> w_opens w \<noteq> w_closes w"

datatype node_type = Wait | Send | Call | Action | Condition | Split

record rule =
  ru_on :: string
  ru_if :: "condition list"

record arm =
  a_on :: string
  a_percent :: int

record node =
  n_id :: string
  n_type :: node_type
  n_minutes :: "rat option"
  n_channel :: "string option"
  n_template :: "string option"
  n_template_id :: "string option"
  n_topics :: "string list"
  n_key :: "string option"
  n_connector :: "string option"
  n_action :: "string option"
  n_args :: dict
  n_stage :: "string option"
  n_match :: "wmatch option"
  n_window :: "window option"
  n_variables :: "(string \<times> string) list"
  n_rules :: "rule list"
  n_arms :: "arm list"
  n_blocks :: "string list"

definition blank_node :: "string \<Rightarrow> node_type \<Rightarrow> node" where
  "blank_node i ty =
     \<lparr>n_id = i, n_type = ty, n_minutes = None, n_channel = None, n_template = None,
      n_template_id = None, n_topics = [], n_key = None, n_connector = None, n_action = None,
      n_args = [], n_stage = None, n_match = None, n_window = None, n_variables = [],
      n_rules = [], n_arms = [], n_blocks = []\<rparr>"

text \<open>A label of a rule or an arm is none of the walker's own words.\<close>

definition walker_words :: "string list" where
  "walker_words = [''else'', ''timeout'']"

definition rule_ok :: "rule \<Rightarrow> bool" where
  "rule_ok r \<longleftrightarrow> ru_on r \<noteq> [] \<and> ru_on r \<notin> set walker_words \<and> ru_if r \<noteq> []"

definition arm_ok :: "arm \<Rightarrow> bool" where
  "arm_ok a \<longleftrightarrow> a_on a \<noteq> [] \<and> 0 \<le> a_percent a \<and> a_percent a \<le> 100 \<and> a_on a \<notin> set walker_words"

datatype say = Line string | Lines "string list"

record block_row =
  b_when :: "condition list"
  b_say :: say

record transform =
  t_function :: "string list"
  t_params :: dict

record playbook =
  pb_lines :: "(string \<times> string) list"
  pb_blocks :: "(string \<times> block_row list) list"
  pb_transform :: "(string \<times> transform) list"

datatype publish_mode = Pin | Migrate

text \<open>\<open>entry\<close> is one object, whose run starts on the first square, or a list of doors.\<close>

datatype entry_spec = Single entry | Doors "door list"

text \<open>An arrow \<open>[from, to]\<close> or \<open>[from, to, on]\<close>.\<close>

type_synonym edge = "string \<times> string \<times> string option"

record workflow_definition =
  d_entry :: entry_spec
  d_nodes :: "node list"
  d_edges :: "edge list"
  d_goals :: "goal list"
  d_exits :: exits
  d_on_publish :: publish_mode
  d_playbook :: "playbook option"
  d_purpose_key :: "string option"

definition with_start :: "entry \<Rightarrow> string \<Rightarrow> door" where
  "with_start e s = \<lparr>e_topic = e_topic e, e_where = e_where e, e_reenter = e_reenter e,
     e_cooldown_hours = e_cooldown_hours e, e_key = e_key e, e_on_repeat = e_on_repeat e,
     e_debounce_minutes = e_debounce_minutes e, e_restart_on_repeat = e_restart_on_repeat e,
     e_start = s\<rparr>"

text \<open>
  The doors in document order.  A document has at least one square (\<open>min_length=1\<close>), so the
  first square exists; without one \<open>self.nodes[0]\<close> raises, which is \<open>None\<close>.
\<close>

definition entries :: "workflow_definition \<Rightarrow> door list option" where
  "entries d = (case d_entry d of
       Doors ds \<Rightarrow> Some ds
     | Single e \<Rightarrow> (case d_nodes d of [] \<Rightarrow> None | n # _ \<Rightarrow> Some [with_start e (n_id n)]))"

definition doors :: "workflow_definition \<Rightarrow> door list" where
  "doors d = (case entries d of None \<Rightarrow> [] | Some ds \<Rightarrow> ds)"

text \<open>The tiers to judge, keyed first; with a topic only those listening for it.\<close>

definition goal_tiers :: "workflow_definition \<Rightarrow> string option \<Rightarrow> goal list" where
  "goal_tiers d topic =
     (let tiers = filter (\<lambda>t. case topic of None \<Rightarrow> True | Some x \<Rightarrow> x \<in> set (g_topics t)) (d_goals d)
      in filter (\<lambda>t. g_key t \<noteq> None) tiers @ filter (\<lambda>t. g_key t = None) tiers)"

text \<open>The arrows out of one square, in document order.\<close>

definition outgoing :: "workflow_definition \<Rightarrow> string \<Rightarrow> (string \<times> string option) list" where
  "outgoing d src = map snd (filter (\<lambda>e. fst e = src) (d_edges d))"

definition opt_text :: "string option \<Rightarrow> bool" where
  "opt_text x \<longleftrightarrow> x \<noteq> None \<and> x \<noteq> Some []"

definition send_templates :: "workflow_definition \<Rightarrow> (string \<times> string) list" where
  "send_templates d = concat (map (\<lambda>n.
     if n_type n = Send \<and> opt_text (n_channel n) \<and> opt_text (n_template n)
     then [(the (n_channel n), the (n_template n))] else []) (d_nodes d))"

text \<open>
  \<open>{node.id: node for node in nodes}\<close> keeps the last square of an id; the readers that say
  \<open>next(n for n in nodes if n.id == x)\<close> take the first.
\<close>

definition node_table :: "workflow_definition \<Rightarrow> string \<Rightarrow> node option" where
  "node_table d x = find (\<lambda>n. n_id n = x) (rev (d_nodes d))"

definition first_node :: "workflow_definition \<Rightarrow> string \<Rightarrow> node option" where
  "first_node d x = find (\<lambda>n. n_id n = x) (d_nodes d)"

section \<open>Runs and letters\<close>

datatype run_status = Waiting | Parked | Exited

record run =
  r_id :: string
  r_merchant :: string
  r_workflow :: string
  r_version :: int
  r_customer :: string
  r_status :: run_status
  r_node :: string
  r_wake :: "time option"
  r_entered :: time
  r_exited :: "time option"
  r_exit_reason :: "string option"
  r_context :: dict
  r_key :: string
  r_attempts :: nat
  r_error :: "string option"
  r_arrived :: "time option"

record letter =
  ev_id :: string
  ev_merchant :: string
  ev_source :: string
  ev_topic :: string
  ev_payload :: dict
  ev_received :: time
  ev_occurred :: "time option"
  ev_customer :: "string option"

definition letter_time :: "letter \<Rightarrow> time" where
  "letter_time e = (case ev_occurred e of Some t \<Rightarrow> t | None \<Rightarrow> ev_received e)"

section \<open>Facts about documents\<close>

lemma node_table_Some:
  "node_table d x = Some n \<Longrightarrow> n \<in> set (d_nodes d) \<and> n_id n = x"
  using find_Some_set [of "\<lambda>n. n_id n = x" "rev (d_nodes d)" n] by (simp add: node_table_def)

lemma node_table_None: "node_table d x = None \<longleftrightarrow> x \<notin> n_id ` set (d_nodes d)"
  by (auto simp: node_table_def find_None_iff_set)

lemma first_node_Some: "first_node d x = Some n \<Longrightarrow> n \<in> set (d_nodes d) \<and> n_id n = x"
  using find_Some_set [of "\<lambda>n. n_id n = x" "d_nodes d" n] by (simp add: first_node_def)

lemma first_node_None: "first_node d x = None \<longleftrightarrow> x \<notin> n_id ` set (d_nodes d)"
  by (auto simp: first_node_def find_None_iff_set)

text \<open>Where no id occurs twice the two lookups agree.\<close>

lemma distinct_ids_inj:
  "distinct (map n_id ns) \<Longrightarrow> n \<in> set ns \<Longrightarrow> m \<in> set ns \<Longrightarrow> n_id n = n_id m \<Longrightarrow> n = m"
  by (auto simp: distinct_map dest: inj_onD)

lemma node_table_eq_first:
  assumes "distinct (map n_id (d_nodes d))"
  shows "node_table d x = first_node d x"
proof (cases "first_node d x")
  case None
  then have "node_table d x = None" by (simp add: node_table_None first_node_None)
  with None show ?thesis by simp
next
  case (Some n)
  then obtain m where m: "node_table d x = Some m"
    using node_table_None first_node_None by (metis option.distinct(1) option.exhaust)
  show ?thesis
    using distinct_ids_inj [OF assms] node_table_Some [OF m] first_node_Some [OF Some] m Some
    by auto
qed

lemma outgoing_in_edges: "(dst, on) \<in> set (outgoing d src) \<longleftrightarrow> (src, dst, on) \<in> set (d_edges d)"
  by (force simp: outgoing_def)

lemma goal_tiers_set: "set (goal_tiers d None) = set (d_goals d)"
  by (auto simp: goal_tiers_def Let_def)

end
