(* ===== verification/Where_Grammar.thy ===== *)
theory Where_Grammar
  imports Schemas
begin

text \<open>
  The where-grammar of \<open>app/crm/shared/predicate.py\<close>: the closed set of operations, the shape
  law of one condition, and the one evaluator every door, goal tier, condition square and
  playbook row is judged by.
\<close>

section \<open>The operations by what they compare\<close>

definition text_ops :: "op list" where "text_ops = [Is, Is_not, In]"
definition order_ops :: "op list" where "order_ops = [Gt, Ge, Lt, Le]"
definition presence_ops :: "op list" where "presence_ops = [Exists, Not_exists]"
definition partial_ops :: "op list" where "partial_ops = [Contains]"

definition is_container :: "json \<Rightarrow> bool" where
  "is_container v \<longleftrightarrow> (case v of JList _ \<Rightarrow> True | JObj _ \<Rightarrow> True | _ \<Rightarrow> False)"

text \<open>\<open>_value_matches_op\<close>: which value an operation may carry.\<close>

definition condition_ok :: "condition \<Rightarrow> bool" where
  "condition_ok c \<longleftrightarrow> c_field c \<noteq> [] \<and>
     (if c_op c = In then
        (case c_value c of JList vs \<Rightarrow> vs \<noteq> [] \<and> (\<forall>v\<in>set vs. \<not> is_container v \<and> v \<noteq> JNull) | _ \<Rightarrow> False)
      else if c_op c \<in> set partial_ops then
        (case c_value c of
           JList vs \<Rightarrow> vs \<noteq> [] \<and> (\<forall>v\<in>set vs. case v of JStr s \<Rightarrow> strip s \<noteq> [] | _ \<Rightarrow> False)
         | _ \<Rightarrow> False)
      else if c_op c \<in> set presence_ops then c_value c = JNull
      else c_value c \<noteq> JNull \<and> \<not> is_container (c_value c))"

section \<open>Numbers and moments\<close>

text \<open>The number a run of digits means, read from the left.\<close>

definition digit_val :: "char \<Rightarrow> nat" where
  "digit_val c = length (takeWhile (\<lambda>d. d \<noteq> c) ''0123456789'')"

definition digits_val :: "string \<Rightarrow> nat" where
  "digits_val s = fold (\<lambda>c n. 10 * n + digit_val c) s 0"

definition all_digits :: "string \<Rightarrow> bool" where
  "all_digits s \<longleftrightarrow> s \<noteq> [] \<and> list_all is_digit s"

text \<open>
  \<open>_NUMBER = ^-?\d+(\.\d+)?$\<close> and the \<open>float\<close> of a text that matches it; \<open>$\<close> also
  matches before a final line feed, but the text is stripped first.
\<close>

definition number_text :: "string \<Rightarrow> rat option" where
  "number_text s =
     (let neg = (take 1 s = ''-''); body = (if neg then drop 1 s else s);
          sgn = (if neg then - 1 else 1 :: rat) in
      (case split_on (CHR ''.'') body of
         [a] \<Rightarrow> (if all_digits a then Some (sgn * of_nat (digits_val a)) else None)
       | [a, b] \<Rightarrow> (if all_digits a \<and> all_digits b
                   then Some (sgn * (of_nat (digits_val a) + of_nat (digits_val b) / of_nat (10 ^ length b)))
                   else None)
       | _ \<Rightarrow> None))"

fun as_number :: "json \<Rightarrow> rat option" where
  "as_number (JInt i) = Some (of_int i)"
| "as_number (JDec m e) = Some (dec_val m e)"
| "as_number (JStr s) = number_text (strip s)"
| "as_number _ = None"

text \<open>\<open>value.replace("Z", "+00:00")\<close> before \<open>fromisoformat\<close>.\<close>

definition zulu :: "string \<Rightarrow> string" where
  "zulu s = concat (map (\<lambda>c. if c = CHR ''Z'' then ''+00:00'' else [c]) s)"

fun as_datetime :: "lib \<Rightarrow> json \<Rightarrow> pydt option" where
  "as_datetime L (JStr s) = iso_parse L (zulu s)"
| "as_datetime L _ = None"

text \<open>Like with like, strictly: a boolean with a boolean, text with text, a number with a number.\<close>

fun same :: "json \<Rightarrow> json \<Rightarrow> bool" where
  "same (JBool a) (JBool b) = (a = b)"
| "same (JStr a) (JStr b) = (a = b)"
| "same a b = (case (num_val a, num_val b) of (Some x, Some y) \<Rightarrow> x = y | _ \<Rightarrow> False)"

text \<open>The op of \<open>_ordered\<close>: the last branch is \<open><=\<close> for whatever was not named before it.\<close>

definition order_op :: "op \<Rightarrow> 'a::linorder \<Rightarrow> 'a \<Rightarrow> bool" where
  "order_op o1 a b = (if o1 = Gt then b < a else if o1 = Ge then b \<le> a else if o1 = Lt then a < b else a \<le> b)"

definition ordered :: "lib \<Rightarrow> op \<Rightarrow> json \<Rightarrow> json \<Rightarrow> bool" where
  "ordered L o1 actual expected =
     (case (as_number actual, as_number expected) of
        (Some a, Some b) \<Rightarrow> order_op o1 a b
      | _ \<Rightarrow>
        (case (as_datetime L actual, as_datetime L expected) of
           (Some (Aware a), Some (Aware b)) \<Rightarrow> order_op o1 a b
         | (Some (Naive a), Some (Naive b)) \<Rightarrow> order_op o1 (naive_ts L a) (naive_ts L b)
         | _ \<Rightarrow> False))"

section \<open>The evaluator\<close>

text \<open>\<open>for v in condition.value\<close>: only a list is iterated over; the shape law guarantees one.\<close>

fun list_items :: "json \<Rightarrow> json list" where
  "list_items (JList vs) = vs"
| "list_items _ = []"

fun one_or_many :: "json \<Rightarrow> json list" where
  "one_or_many (JList vs) = vs"
| "one_or_many v = [v]"

fun texts_of :: "json list \<Rightarrow> string list" where
  "texts_of [] = []"
| "texts_of (JStr s # vs) = s # texts_of vs"
| "texts_of (_ # vs) = texts_of vs"

definition evaluate :: "lib \<Rightarrow> condition \<Rightarrow> json \<Rightarrow> bool" where
  "evaluate L c actual =
     (if c_op c = Not_exists then actual = JNull
      else if actual = JNull then False
      else case c_op c of
        Exists \<Rightarrow> True
      | Is \<Rightarrow> same actual (c_value c)
      | Is_not \<Rightarrow> \<not> same actual (c_value c)
      | In \<Rightarrow> list_ex (same actual) (list_items (c_value c))
      | Includes \<Rightarrow> list_ex (\<lambda>v. same v (c_value c)) (one_or_many actual)
      | Contains \<Rightarrow>
          (let pieces = map lower (texts_of (list_items (c_value c)));
               texts = map lower (texts_of (one_or_many actual))
           in list_ex (\<lambda>t. list_ex (\<lambda>p. infix_of p t) pieces) texts)
      | Equals \<Rightarrow> (case (as_number actual, as_number (c_value c)) of
                    (Some a, Some b) \<Rightarrow> a = b | _ \<Rightarrow> False)
      | _ \<Rightarrow> ordered L (c_op c) actual (c_value c))"

text \<open>ANDed over the caller's field resolver.\<close>

definition matches :: "lib \<Rightarrow> condition list \<Rightarrow> (string \<Rightarrow> json) \<Rightarrow> bool" where
  "matches L cs lookup = list_all (\<lambda>c. evaluate L c (lookup (c_field c))) cs"

text \<open>The pre-catalog equality map, as the conditions it meant.\<close>

definition from_equality_map :: "dict \<Rightarrow> condition list" where
  "from_equality_map m = map (\<lambda>(k, v). \<lparr>c_field = ''payload.'' @ k, c_op = Is, c_value = v\<rparr>) m"

section \<open>Facts\<close>

lemma matches_Nil [simp]: "matches L [] f"
  by (simp add: matches_def)

lemma matches_Cons [simp]:
  "matches L (c # cs) f \<longleftrightarrow> evaluate L c (f (c_field c)) \<and> matches L cs f"
  by (simp add: matches_def)

lemma matches_append: "matches L (cs @ ds) f \<longleftrightarrow> matches L cs f \<and> matches L ds f"
  by (simp add: matches_def)

lemma matches_cong: "(\<And>c. c \<in> set cs \<Longrightarrow> f (c_field c) = g (c_field c)) \<Longrightarrow> matches L cs f = matches L cs g"
  by (induction cs) simp_all

lemma evaluate_absent: "evaluate L c JNull \<longleftrightarrow> c_op c = Not_exists"
  by (simp add: evaluate_def)

lemma same_sym: "same a b = same b a"
  by (cases a; cases b) (auto split: option.splits)

lemma same_null [simp]: "\<not> same v JNull" "\<not> same JNull v"
  by (cases v; simp)+

lemma same_self_kind:
  "same a b \<Longrightarrow> (\<exists>x y. a = JBool x \<and> b = JBool y) \<or> (\<exists>x y. a = JStr x \<and> b = JStr y)
     \<or> (num_val a \<noteq> None \<and> num_val a = num_val b)"
  by (cases a; cases b) (auto split: option.splits)

lemma texts_of_set: "s \<in> set (texts_of vs) \<longleftrightarrow> JStr s \<in> set vs"
  by (induction vs rule: texts_of.induct) auto

text \<open>
  The order operations are mutually exclusive and, where both sides read as numbers, total:
  exactly one of \<open><\<close>, \<open>=\<close> and \<open>>\<close> holds.
\<close>

lemma order_trichotomy:
  assumes "as_number a = Some x" and "as_number b = Some y"
  shows "(ordered L Lt a b \<or> x = y \<or> ordered L Gt a b)
    \<and> \<not> (ordered L Lt a b \<and> ordered L Gt a b)
    \<and> (ordered L Le a b = (\<not> ordered L Gt a b)) \<and> (ordered L Ge a b = (\<not> ordered L Lt a b))"
  using assms by (auto simp: ordered_def order_op_def)

end
