(* ===== verification/Decode.thy ===== *)
theory Decode
  imports Where_Grammar
begin

text \<open>
  Reading a letter: the path helpers of \<open>app/crm/record/extractors/engine.py\<close>, the two path
  functions of \<open>app/crm/record/catalog.py\<close>, and \<open>conditions_match\<close> of
  \<open>app/crm/outreach/conditions.py\<close>, the one judgement of a where-clause against a letter.
\<close>

section \<open>Paths\<close>

definition payload_prefix :: string where
  "payload_prefix = ''payload.''"

fun dig_steps :: "json \<Rightarrow> string list \<Rightarrow> json" where
  "dig_steps v [] = v"
| "dig_steps (JObj d) (s # ss) = dig_steps (dget d s) ss"
| "dig_steps _ (s # ss) = JNull"

definition dig :: "json \<Rightarrow> string \<Rightarrow> json" where
  "dig v path = dig_steps v (split_on (CHR ''.'') path)"

definition element_holds :: "lib \<Rightarrow> json \<Rightarrow> condition list \<Rightarrow> bool" where
  "element_holds L element item_where =
     matches L item_where (\<lambda>path. let v = dig element path in if v = JList [] then JNull else v)"

definition scalars_of :: "dict \<Rightarrow> dict" where
  "scalars_of d = filter (\<lambda>(k, v). is_scalar v) d"

text \<open>The list walk; \<open>inherited\<close> is the enclosing elements' scalar fields.\<close>

definition scope_of :: "dict \<Rightarrow> json \<Rightarrow> dict" where
  "scope_of inherited e = (case e of JObj d \<Rightarrow> dmerge inherited (scalars_of d) | _ \<Rightarrow> inherited)"

definition spread :: "json \<Rightarrow> json list" where
  "spread v = (case v of JList ys \<Rightarrow> ys | _ \<Rightarrow> [v])"

definition with_inherited :: "dict \<Rightarrow> json \<Rightarrow> json" where
  "with_inherited inherited v =
     (case v of JList xs \<Rightarrow>
        (if inherited = [] then v
         else JList (map (\<lambda>e. case e of JObj d \<Rightarrow> JObj (dmerge inherited d) | _ \<Rightarrow> e) xs))
      | _ \<Rightarrow> v)"

function walk :: "json \<Rightarrow> string list \<Rightarrow> dict \<Rightarrow> json" where
  "walk v [] inherited = with_inherited inherited v"
| "walk (JList xs) (s # ss) inherited =
     JList (concat (map (\<lambda>e. spread (walk e (s # ss) (scope_of inherited e))) xs))"
| "walk (JObj d) (s # ss) inherited = walk (dget d s) ss inherited"
| "walk JNull (s # ss) inherited = JNull"
| "walk (JBool b) (s # ss) inherited = JNull"
| "walk (JInt i) (s # ss) inherited = JNull"
| "walk (JDec m e) (s # ss) inherited = JNull"
| "walk (JStr t) (s # ss) inherited = JNull"
  by pat_completeness auto
termination
proof (relation "measures [\<lambda>(v, ss, i). length ss, \<lambda>(v, ss, i). size v]")
  fix xs :: "json list" and s :: string and ss i and e :: json
  assume "e \<in> set xs"
  then show "((e, s # ss, scope_of i e), (JList xs, s # ss, i))
      \<in> measures [\<lambda>(v, ss, i). length ss, \<lambda>(v, ss, i). size v]"
    using size_list_estimation' [of e xs "size e" size] by (simp add: less_Suc_eq_le)
qed simp_all

definition where_elements :: "lib \<Rightarrow> condition list \<Rightarrow> json list \<Rightarrow> json list" where
  "where_elements L item_where xs =
     (if item_where = [] then xs else filter (\<lambda>e. is_obj e \<and> element_holds L e item_where) xs)"

fun list_values_steps :: "lib \<Rightarrow> json \<Rightarrow> string list \<Rightarrow> condition list \<Rightarrow> json list option" where
  "list_values_steps L (JList xs) [] w = Some (where_elements L w xs)"
| "list_values_steps L v [] w = None"
| "list_values_steps L (JList xs) (s # ss) w =
     (case walk (JList (where_elements L w xs)) (s # ss) [] of JList ys \<Rightarrow> Some ys | _ \<Rightarrow> None)"
| "list_values_steps L (JObj d) (s # ss) w = list_values_steps L (dget d s) ss w"
| "list_values_steps L _ (s # ss) w = None"

definition list_values :: "lib \<Rightarrow> dict \<Rightarrow> string \<Rightarrow> condition list \<Rightarrow> json list option" where
  "list_values L payload path item_where =
     (if \<not> prefix_of payload_prefix path then None
      else list_values_steps L (JObj payload)
             (split_on (CHR ''.'') (drop (length payload_prefix) path)) item_where)"

text \<open>A derived field that raises reads as None; the parameter returns JNull there.\<close>

definition field_value :: "dict \<Rightarrow> string \<Rightarrow> (string \<times> (dict \<Rightarrow> json)) list \<Rightarrow> json" where
  "field_value payload path derive =
     (if prefix_of payload_prefix path then dig (JObj payload) (drop (length payload_prefix) path)
      else case map_of derive path of Some f \<Rightarrow> f payload | None \<Rightarrow> dget payload path)"

definition variable_name :: "string \<Rightarrow> string" where
  "variable_name path =
     (if prefix_of payload_prefix path then last (split_on (CHR ''.'') path) else path)"

definition derive_for :: "lib \<Rightarrow> string \<Rightarrow> string \<Rightarrow> (string \<times> (dict \<Rightarrow> json)) list" where
  "derive_for L source topic = deriver L (source, topic)"

definition canonical_path :: "lib \<Rightarrow> string \<Rightarrow> string" where
  "canonical_path L path =
     (if prefix_of payload_prefix path \<or> path \<in> set (derived_names L) then path
      else payload_prefix @ path)"

section \<open>A where-clause against a letter\<close>

definition letter_field :: "lib \<Rightarrow> letter \<Rightarrow> string \<Rightarrow> json" where
  "letter_field L ev path =
     (case list_values L (ev_payload ev) path [] of
        Some vs \<Rightarrow> (if list_all (\<lambda>v. v = JNull) vs then JNull else JList vs)
      | None \<Rightarrow> field_value (ev_payload ev) path (derive_for L (ev_source ev) (ev_topic ev)))"

definition conditions_match :: "lib \<Rightarrow> condition list \<Rightarrow> letter \<Rightarrow> bool" where
  "conditions_match L cs ev = (cs = [] \<or> matches L cs (letter_field L ev))"

section \<open>Facts\<close>

lemma spread_walk_list: "\<exists>ys. walk (JList xs) (s # ss) i = JList ys"
  by simp

lemma dig_steps_null [simp]: "dig_steps JNull ss = JNull"
  by (cases ss) simp_all

lemma dig_steps_append: "dig_steps v (xs @ ys) = dig_steps (dig_steps v xs) ys"
proof (induction v xs rule: dig_steps.induct)
  case (1 v)
  then show ?case by simp
next
  case (2 d s ss)
  then show ?case by simp
qed simp_all

text \<open>The dot-walk never crosses an array: below a list there is nothing.\<close>

lemma dig_steps_list: "dig_steps (JList xs) (s # ss) = JNull"
  by simp

lemma canonical_path_idem: "canonical_path L (canonical_path L p) = canonical_path L p"
  by (simp add: canonical_path_def)

text \<open>A path that crosses no array reads through the list walk as nothing at all.\<close>

fun crosses_list :: "json \<Rightarrow> string list \<Rightarrow> bool" where
  "crosses_list (JList xs) ss = True"
| "crosses_list (JObj d) (s # ss) = crosses_list (dget d s) ss"
| "crosses_list _ _ = False"

lemma list_values_steps_None:
  "list_values_steps L v ss [] = None \<longleftrightarrow> \<not> crosses_list v ss"
  by (induction L v ss "[] :: condition list" rule: list_values_steps.induct) simp_all

text \<open>
  Where the path does cross an array the where-grammar still gets a value: the list of what the
  elements hold, or an absent field when none of them holds anything.
\<close>

lemma letter_field_scalar:
  assumes "prefix_of payload_prefix path"
    and "\<not> crosses_list (JObj (ev_payload ev)) (split_on (CHR ''.'') (drop (length payload_prefix) path))"
  shows "letter_field L ev path = dig (JObj (ev_payload ev)) (drop (length payload_prefix) path)"
proof -
  have "list_values L (ev_payload ev) path [] = None"
    using assms by (simp add: list_values_def list_values_steps_None)
  then show ?thesis
    using assms(1) by (simp add: letter_field_def field_value_def)
qed

lemma conditions_match_Nil [simp]: "conditions_match L [] ev"
  by (simp add: conditions_match_def)

end
