(* ===== verification/Run_Context.thy ===== *)
theory Run_Context
  imports Decode
begin

text \<open>
  What in a run's context is the engine's own and what is the producer's:
  \<open>app/crm/outreach/nodes/context.py\<close>.  Every reader (the call payload, the send variables,
  the condition square) goes through \<open>run_facts\<close>; every writer of a letter's facts goes
  through \<open>is_bookkeeping\<close>.
\<close>

section \<open>The keys\<close>

definition bookkeeping_keys :: "string list" where
  "bookkeeping_keys =
     [''source_event_id'', ''entered_event_at'', ''goal'', ''phone'', ''customer_mobile_number'',
      ''repeat_event_ids'', ''repeat_items'', ''facts'', ''latest_letter'', ''cut_short_by'',
      ''current_node'', ''current_stage'', ''_outcome'', ''calls_today'']"

definition cut_short_by_key :: string where "cut_short_by_key = ''cut_short_by''"
definition latest_letter_key :: string where "latest_letter_key = ''latest_letter''"
definition outcome_key :: string where "outcome_key = ''_outcome''"

definition dispatch_prefixes :: "string list" where
  "dispatch_prefixes = [''lead_'', ''message_'']"

definition bookkeeping_prefixes :: "string list" where
  "bookkeeping_prefixes = dispatch_prefixes @ [''reply_'', ''action_'', ''split_'', ''playbook_'']"

definition is_bookkeeping :: "string \<Rightarrow> bool" where
  "is_bookkeeping key \<longleftrightarrow> key \<in> set bookkeeping_keys \<or> list_ex (\<lambda>p. prefix_of p key) bookkeeping_prefixes"

definition reply_key :: "string \<Rightarrow> string" where "reply_key n = ''reply_'' @ n"
definition split_key :: "string \<Rightarrow> string" where "split_key n = ''split_'' @ n"
definition playbook_key :: "string \<Rightarrow> string" where "playbook_key n = ''playbook_'' @ n"
definition lead_key :: "string \<Rightarrow> string" where "lead_key n = ''lead_'' @ n"
definition message_key :: "string \<Rightarrow> string" where "message_key n = ''message_'' @ n"
definition action_key :: "string \<Rightarrow> string" where "action_key n = ''action_'' @ n"

definition dispatch_id :: "dict \<Rightarrow> string \<Rightarrow> string option" where
  "dispatch_id patch node_id =
     (case find (\<lambda>p. \<not> blank (dget patch (p @ node_id))) dispatch_prefixes of
        None \<Rightarrow> None
      | Some p \<Rightarrow> Some (py_str (dget patch (p @ node_id))))"

definition without_reply :: "dict \<Rightarrow> string \<Rightarrow> dict" where
  "without_reply context node_id = filter (\<lambda>(k, v). k \<noteq> reply_key node_id) context"

definition request_id_keys :: "string list" where
  "request_id_keys = [''order_id'', ''request_id'']"

definition lead_request_id :: "dict \<Rightarrow> string \<Rightarrow> string option \<Rightarrow> string" where
  "lead_request_id context run_id enrollment_key =
     (if opt_text enrollment_key then the enrollment_key
      else case find (\<lambda>k. \<not> blank (dget context k)) request_id_keys of
        Some k \<Rightarrow> py_str (dget context k)
      | None \<Rightarrow> ''wf-'' @ run_id)"

section \<open>The run's facts\<close>

definition obj_or_empty :: "json \<Rightarrow> dict" where
  "obj_or_empty v = (case v of JObj d \<Rightarrow> d | _ \<Rightarrow> [])"

definition letter_facts :: "dict \<Rightarrow> dict" where
  "letter_facts by_square =
     concat (map (\<lambda>(square, letter). map (\<lambda>(k, v). (''facts_'' @ square @ ''_'' @ k, v))
                                     (obj_or_empty letter)) by_square)"

definition latest_facts :: "dict \<Rightarrow> dict \<Rightarrow> dict" where
  "latest_facts context by_square =
     (case dget context latest_letter_key of
        JStr latest \<Rightarrow> obj_or_empty (dget by_square latest) | _ \<Rightarrow> [])"

definition square_facts :: "dict \<Rightarrow> node \<Rightarrow> dict" where
  "square_facts by_square nd =
     obj_or_empty (dget by_square (n_id nd)) @ [(''current_node'', JStr (n_id nd))]
       @ (if opt_text (n_stage nd) then [(''current_stage'', JStr (the (n_stage nd)))] else [])"

definition run_facts :: "dict \<Rightarrow> node option \<Rightarrow> dict" where
  "run_facts context nd =
     (let by_square = obj_or_empty (dget context ''facts'');
          facts = filter (\<lambda>(k, v). \<not> is_bookkeeping k) context;
          facts = dmerge facts (letter_facts by_square);
          facts = dmerge facts (latest_facts context by_square);
          facts = (case nd of None \<Rightarrow> facts | Some n \<Rightarrow> dmerge facts (square_facts by_square n))
      in filter (\<lambda>(k, v). v \<noteq> JNull) facts)"

section \<open>The send square's parameters\<close>

datatype map_error = Missing_fact string | Bad_value string

definition has_line_break :: "string \<Rightarrow> bool" where
  "has_line_break s \<longleftrightarrow> CHR 0x0A \<in> set s \<or> CHR 0x0D \<in> set s"

definition blank_value :: "string \<Rightarrow> json \<Rightarrow> map_error + json" where
  "blank_value fname v = (case v of
       JStr s \<Rightarrow> (if has_line_break s then Inl (Bad_value fname) else Inr v)
     | JInt _ \<Rightarrow> Inr v
     | JDec _ _ \<Rightarrow> Inr v
     | _ \<Rightarrow> Inl (Bad_value fname))"

fun map_blanks :: "(string \<times> string) list \<Rightarrow> dict \<Rightarrow> map_error + dict" where
  "map_blanks [] facts = Inr []"
| "map_blanks ((blk, fname) # rest) facts =
     (case map_of facts fname of
        None \<Rightarrow> Inl (Missing_fact fname)
      | Some v \<Rightarrow> (case blank_value fname v of
          Inl e \<Rightarrow> Inl e
        | Inr w \<Rightarrow> (case map_blanks rest facts of Inl e \<Rightarrow> Inl e | Inr ws \<Rightarrow> Inr ((blk, w) # ws))))"

definition send_variables ::
    "(string \<times> string) list \<Rightarrow> dict \<Rightarrow> node option \<Rightarrow> dict \<Rightarrow> map_error + dict" where
  "send_variables mapping context nd extra = map_blanks mapping (dmerge (run_facts context nd) extra)"

section \<open>Facts\<close>

lemma prefix_reply [simp]: "is_bookkeeping (reply_key n)"
  by (simp add: is_bookkeeping_def bookkeeping_prefixes_def reply_key_def prefix_of_def)

lemma prefix_split [simp]: "is_bookkeeping (split_key n)"
  by (simp add: is_bookkeeping_def bookkeeping_prefixes_def split_key_def prefix_of_def)

lemma prefix_playbook [simp]: "is_bookkeeping (playbook_key n)"
  by (simp add: is_bookkeeping_def bookkeeping_prefixes_def playbook_key_def prefix_of_def)

lemma prefix_lead [simp]: "is_bookkeeping (lead_key n)"
  by (simp add: is_bookkeeping_def bookkeeping_prefixes_def dispatch_prefixes_def lead_key_def prefix_of_def)

lemma prefix_message [simp]: "is_bookkeeping (message_key n)"
  by (simp add: is_bookkeeping_def bookkeeping_prefixes_def dispatch_prefixes_def message_key_def prefix_of_def)

lemma prefix_action [simp]: "is_bookkeeping (action_key n)"
  by (simp add: is_bookkeeping_def bookkeeping_prefixes_def action_key_def prefix_of_def)

text \<open>Two squares never share an answer, and a square's several keys never meet.\<close>

lemma reply_key_inj [simp]: "reply_key a = reply_key b \<longleftrightarrow> a = b"
  by (simp add: reply_key_def)

lemma reply_not_fixed [simp]:
  "reply_key n \<noteq> ''source_event_id''" "reply_key n \<noteq> ''entered_event_at''"
  "reply_key n \<noteq> ''cut_short_by''" "reply_key n \<noteq> ''facts''" "reply_key n \<noteq> ''latest_letter''"
  "reply_key n \<noteq> ''goal''" "reply_key n \<noteq> ''_outcome''" "reply_key n \<noteq> ''repeat_event_ids''"
  by (simp_all add: reply_key_def)

lemma without_reply_get [dict_simps]:
  "dget (without_reply c n) k = (if k = reply_key n then JNull else dget c k)"
  using map_of_filter_key [of "\<lambda>k. k \<noteq> reply_key n" c k] by (simp add: dget_def without_reply_def)

lemma map_of_without_reply [dict_simps]:
  "map_of (without_reply c n) k = (if k = reply_key n then None else map_of c k)"
  using map_of_filter_key [of "\<lambda>k. k \<noteq> reply_key n" c k] by (simp add: without_reply_def)

lemma facts_key_not_bookkeeping: "\<not> is_bookkeeping (''facts_'' @ s)"
  by (simp add: is_bookkeeping_def bookkeeping_keys_def bookkeeping_prefixes_def
      dispatch_prefixes_def prefix_of_def)

text \<open>
  A letter is filtered when its facts pass the same filter the entry side applies
  (\<open>entry._context_from_payload\<close>).
\<close>

definition letters_filtered :: "dict \<Rightarrow> bool" where
  "letters_filtered context \<longleftrightarrow>
     (\<forall>(square, letter) \<in> set (obj_or_empty (dget context ''facts'')).
        \<forall>(k, v) \<in> set (obj_or_empty letter). \<not> is_bookkeeping k)"

lemma obj_or_empty_dget:
  "letters_filtered context \<Longrightarrow>
   (k, v) \<in> set (obj_or_empty (dget (obj_or_empty (dget context ''facts'')) sq)) \<Longrightarrow> \<not> is_bookkeeping k"
  by (fastforce simp: letters_filtered_def dget_def obj_or_empty_def split: option.splits dest: map_of_SomeD)

lemma keys_run_facts:
  assumes "k \<in> fst ` set (run_facts context nd)"
  shows "(\<not> is_bookkeeping k \<and> k \<in> fst ` set context)
    \<or> k \<in> fst ` set (letter_facts (obj_or_empty (dget context ''facts'')))
    \<or> k \<in> fst ` set (latest_facts context (obj_or_empty (dget context ''facts'')))
    \<or> (\<exists>n. nd = Some n \<and> k \<in> fst ` set (square_facts (obj_or_empty (dget context ''facts'')) n))"
proof -
  let ?bs = "obj_or_empty (dget context ''facts'')"
  let ?own = "filter (\<lambda>(k, v). \<not> is_bookkeeping k) context"
  let ?three = "dmerge (dmerge ?own (letter_facts ?bs)) (latest_facts context ?bs)"
  have own: "k \<in> fst ` set ?own \<Longrightarrow> \<not> is_bookkeeping k \<and> k \<in> fst ` set context" by force
  have "k \<in> fst ` set (case nd of None \<Rightarrow> ?three | Some n \<Rightarrow> dmerge ?three (square_facts ?bs n))"
    using assms by (auto simp: run_facts_def Let_def)
  then show ?thesis
    using own by (cases nd) (simp_all add: keys_dmerge, blast+)
qed

lemma letter_facts_keys: "k \<in> fst ` set (letter_facts bs) \<Longrightarrow> \<exists>s. k = ''facts_'' @ s"
  by (auto simp: letter_facts_def)

lemma latest_facts_keys:
  "k \<in> fst ` set (latest_facts context bs) \<Longrightarrow> \<exists>sq v. (k, v) \<in> set (obj_or_empty (dget bs sq))"
proof (cases "dget context latest_letter_key")
  case (JStr x)
  moreover assume "k \<in> fst ` set (latest_facts context bs)"
  ultimately have "k \<in> fst ` set (obj_or_empty (dget bs x))" by (simp add: latest_facts_def)
  then show ?thesis by (metis imageE prod.collapse)
qed (simp_all add: latest_facts_def)

lemma square_facts_keys:
  "k \<in> fst ` set (square_facts bs n) \<Longrightarrow>
     (\<exists>v. (k, v) \<in> set (obj_or_empty (dget bs (n_id n)))) \<or> k = ''current_node'' \<or> k = ''current_stage''"
  by (auto simp: square_facts_def split: if_splits)

text \<open>No null ever leaves the filter.\<close>

lemma run_facts_not_null: "(k, v) \<in> set (run_facts context nd) \<Longrightarrow> v \<noteq> JNull"
  by (auto simp: run_facts_def Let_def)

text \<open>The engine's own keys stay inside: only the two words about the square are added.\<close>

lemma run_facts_no_bookkeeping:
  assumes "letters_filtered context" and "k \<in> fst ` set (run_facts context nd)"
  shows "\<not> is_bookkeeping k \<or> k = ''current_node'' \<or> k = ''current_stage''"
proof -
  let ?bs = "obj_or_empty (dget context ''facts'')"
  consider (a) "\<not> is_bookkeeping k" | (lf) "k \<in> fst ` set (letter_facts ?bs)"
    | (lt) "k \<in> fst ` set (latest_facts context ?bs)"
    | (sq) n where "nd = Some n" and "k \<in> fst ` set (square_facts ?bs n)"
    using keys_run_facts [OF assms(2)] by blast
  then show ?thesis
  proof cases
    case lf
    then obtain s where "k = ''facts_'' @ s" using letter_facts_keys by blast
    then show ?thesis using facts_key_not_bookkeeping [of s] by (simp only: simp_thms)
  next
    case lt
    then obtain x v where "(k, v) \<in> set (obj_or_empty (dget ?bs x))" using latest_facts_keys by blast
    from obj_or_empty_dget [OF assms(1) this] show ?thesis by (simp only: simp_thms)
  next
    case sq
    from square_facts_keys [OF sq(2)] show ?thesis
    proof (elim disjE exE)
      fix v assume "(k, v) \<in> set (obj_or_empty (dget ?bs (n_id n)))"
      from obj_or_empty_dget [OF assms(1) this] show ?thesis by (simp only: simp_thms)
    qed (simp_all only: simp_thms)
  qed simp
qed

definition postable :: "json \<Rightarrow> bool" where
  "postable v = (case v of JStr s \<Rightarrow> \<not> has_line_break s | JInt _ \<Rightarrow> True | JDec _ _ \<Rightarrow> True | _ \<Rightarrow> False)"

lemma blank_value_Inr: "blank_value f v = Inr w \<Longrightarrow> w = v \<and> postable w"
  by (cases v) (auto simp: blank_value_def postable_def split: if_splits)

lemma map_blanks_Cons_Inr:
  "map_blanks ((b, f) # m) facts = Inr vs \<longleftrightarrow>
     (\<exists>v ws. map_of facts f = Some v \<and> blank_value f v = Inr v \<and> map_blanks m facts = Inr ws
        \<and> vs = (b, v) # ws)"
proof -
  have "blank_value f v = Inr w \<Longrightarrow> w = v" for v w using blank_value_Inr by blast
  then show ?thesis
    by (cases "map_of facts f"; simp; cases "blank_value f (the (map_of facts f))"; simp;
        cases "map_blanks m facts"; simp) blast
qed

lemma map_blanks_values: "map_blanks m facts = Inr vs \<Longrightarrow> list_all (\<lambda>(b, v). postable v) vs"
proof (induction m arbitrary: vs)
  case (Cons p m)
  obtain b f where p: "p = (b, f)" by (cases p)
  then show ?case
    using Cons.prems Cons.IH by (auto simp: map_blanks_Cons_Inr simp del: map_blanks.simps dest: blank_value_Inr)
qed simp

lemma map_blanks_keys: "map_blanks m facts = Inr vs \<Longrightarrow> map fst vs = map fst m"
proof (induction m arbitrary: vs)
  case (Cons p m)
  obtain b f where p: "p = (b, f)" by (cases p)
  then show ?case
    using Cons.prems Cons.IH by (auto simp: map_blanks_Cons_Inr simp del: map_blanks.simps)
qed simp

end
