(* ===== verification/Window.thy ===== *)
theory Window
  imports Run_Context
begin

text \<open>
  Scheduling on the plan's clock: the calling window (\<open>app/crm/outreach/window.py\<close>) and the
  daily call ceiling (\<open>app/crm/outreach/ceiling.py\<close>).  Both are pure arithmetic over a zone
  of the time-zone database, which is a parameter; what is proved of every zone without clock
  changes is proved once, in the locale \<open>steady_zone\<close>.
\<close>

section \<open>The window\<close>

definition clock :: "string \<Rightarrow> int" where
  "clock s = (int (digits_val (take 2 s)) * 60 + int (digits_val (drop 3 s))) * minute_us"

text \<open>\<open>start <= now < end\<close>, and around midnight when the window spans it.\<close>

definition inside :: "int \<Rightarrow> int \<Rightarrow> int \<Rightarrow> bool" where
  "inside open_at close_at now =
     (if open_at < close_at then open_at \<le> now \<and> now < close_at else open_at \<le> now \<or> now < close_at)"

definition local_time :: "zone \<Rightarrow> time \<Rightarrow> int" where
  "local_time z now = z_local z now mod day_us"

definition local_date :: "zone \<Rightarrow> time \<Rightarrow> int" where
  "local_date z now = z_local z now div day_us"

definition in_hours :: "zone \<Rightarrow> window \<Rightarrow> time \<Rightarrow> bool" where
  "in_hours z w now = inside (clock (w_opens w)) (clock (w_closes w)) (local_time z now)"

definition opens_at :: "zone \<Rightarrow> time \<Rightarrow> window \<Rightarrow> time" where
  "opens_at z now w =
     (if in_hours z w now then now
      else let opening = local_date z now * day_us + clock (w_opens w);
               opening = (if opening \<le> z_local z now
                          then (local_date z now + 1) * day_us + clock (w_opens w) else opening)
           in z_utc z opening)"

definition past_the_end :: int where
  "past_the_end = minute_us"

definition in_reserved_period :: "zone \<Rightarrow> time \<Rightarrow> window \<Rightarrow> bool" where
  "in_reserved_period z now w =
     (if w_held_first_minutes w = 0 then False
      else let opening = local_date z now * day_us + clock (w_opens w)
           in opening \<le> z_local z now \<and> z_local z now < opening + int (w_held_first_minutes w) * minute_us)"

definition alarm :: "lib \<Rightarrow> node \<Rightarrow> time \<Rightarrow> time \<Rightarrow> time" where
  "alarm L nd now run_ends_at =
     (let minutes = (case n_minutes nd of None \<Rightarrow> 0 | Some m \<Rightarrow> m);
          wake = (if minutes \<noteq> 0 then
                    (case n_window nd of
                       Some w \<Rightarrow> (if in_reserved_period (zone_of L (w_timezone w)) now w
                                 then now + td_minutes (minutes + of_nat (w_held_first_minutes w))
                                 else now + td_minutes minutes)
                     | None \<Rightarrow> now + td_minutes minutes)
                  else if n_topics nd \<noteq> [] then max run_ends_at now + past_the_end
                  else now)
      in (case n_window nd of None \<Rightarrow> wake | Some w \<Rightarrow> opens_at (zone_of L (w_timezone w)) wake w))"

section \<open>The call ceiling\<close>

definition calls_today_key :: string where
  "calls_today_key = ''calls_today''"

definition today_on :: "lib \<Rightarrow> exits \<Rightarrow> time \<Rightarrow> string" where
  "today_on L x now =
     (if opt_text (x_timezone x) then date_iso L (local_date (zone_of L (the (x_timezone x))) now)
      else date_iso L (now div day_us))"

text \<open>A Python bool is an int, so a stored \<open>True\<close> counts as one call.\<close>

definition calls_today :: "dict \<Rightarrow> string \<Rightarrow> int" where
  "calls_today context day =
     (case dget context calls_today_key of
        JObj ledger \<Rightarrow>
          (if dget ledger ''day'' \<noteq> JStr day then 0
           else case dget ledger ''n'' of
             JInt n \<Rightarrow> (if 0 \<le> n then n else 0)
           | JBool b \<Rightarrow> (if b then 1 else 0)
           | _ \<Rightarrow> 0)
      | _ \<Rightarrow> 0)"

definition max_calls_reached :: "lib \<Rightarrow> dict \<Rightarrow> exits \<Rightarrow> time \<Rightarrow> bool" where
  "max_calls_reached L context x now =
     (case x_max_calls_per_day x of None \<Rightarrow> False
      | Some cap \<Rightarrow> cap \<le> calls_today context (today_on L x now))"

section \<open>Clock readings\<close>

lemma digit_val_simps [simp]:
  "digit_val (CHR ''0'') = 0" "digit_val (CHR ''1'') = 1" "digit_val (CHR ''2'') = 2"
  "digit_val (CHR ''3'') = 3" "digit_val (CHR ''4'') = 4" "digit_val (CHR ''5'') = 5"
  "digit_val (CHR ''6'') = 6" "digit_val (CHR ''7'') = 7" "digit_val (CHR ''8'') = 8"
  "digit_val (CHR ''9'') = 9"
  by (simp_all add: digit_val_def)

lemma is_digit_cases:
  "is_digit c \<longleftrightarrow> c = CHR ''0'' \<or> c = CHR ''1'' \<or> c = CHR ''2'' \<or> c = CHR ''3'' \<or> c = CHR ''4''
     \<or> c = CHR ''5'' \<or> c = CHR ''6'' \<or> c = CHR ''7'' \<or> c = CHR ''8'' \<or> c = CHR ''9''"
  by (simp add: is_digit_def)

lemma digit_val_less: "is_digit c \<Longrightarrow> digit_val c < 10"
  unfolding is_digit_cases by (elim disjE) simp_all

lemma digit_val_inj: "is_digit x \<Longrightarrow> is_digit y \<Longrightarrow> digit_val x = digit_val y \<Longrightarrow> x = y"
  unfolding is_digit_cases by (elim disjE) simp_all

lemma digit_val_below_6: "c \<in> set ''012345'' \<Longrightarrow> digit_val c < 6 \<and> is_digit c"
  by (auto simp: is_digit_cases)

lemma hour_digits:
  "(a \<in> set ''01'' \<and> is_digit b) \<or> (a = CHR ''2'' \<and> b \<in> set ''0123'') \<Longrightarrow>
     digit_val a * 10 + digit_val b < 24 \<and> is_digit a \<and> is_digit b"
proof (elim disjE conjE)
  assume "a \<in> set ''01''" and b: "is_digit b"
  then have "digit_val a \<le> 1" and "is_digit a" by (auto simp: is_digit_cases)
  with digit_val_less [OF b] b show ?thesis by linarith
next
  assume "a = CHR ''2''" and "b \<in> set ''0123''"
  then show ?thesis by (auto simp: is_digit_cases)
qed

lemma digits_val_two: "digits_val [a, b] = 10 * digit_val a + digit_val b"
  by (simp add: digits_val_def)

lemma length_5: "length s = 5 \<Longrightarrow> \<exists>a b c d e. s = [a, b, c, d, e]"
proof -
  assume "length s = 5"
  then have "length s = Suc (Suc (Suc (Suc (Suc 0))))" by simp
  then show ?thesis by (auto simp: length_Suc_conv)
qed

lemma hh_mm_split:
  assumes "hh_mm s"
  shows "take 2 s = [s ! 0, s ! 1]" and "drop 3 s = [s ! 3, s ! 4]"
proof -
  have "length s = 5" using assms by (simp add: hh_mm_def)
  then obtain a b c d e where "s = [a, b, c, d, e]" using length_5 by blast
  then show "take 2 s = [s ! 0, s ! 1]" and "drop 3 s = [s ! 3, s ! 4]" by simp_all
qed

lemma clock_range:
  assumes "hh_mm s"
  shows "0 \<le> clock s" and "clock s < day_us"
proof -
  have h: "digit_val (s ! 0) * 10 + digit_val (s ! 1) < 24"
    using assms hour_digits [of "s ! 0" "s ! 1"] by (simp only: hh_mm_def simp_thms)
  have m: "digit_val (s ! 3) * 10 + digit_val (s ! 4) < 60"
  proof -
    have "s ! 3 \<in> set ''012345''" and "is_digit (s ! 4)" using assms by (simp_all only: hh_mm_def simp_thms)
    then show ?thesis using digit_val_less [of "s ! 4"] digit_val_below_6 [of "s ! 3"] by linarith
  qed
  define hh where "hh = digits_val (take 2 s)"
  define mm where "mm = digits_val (drop 3 s)"
  have "hh < 24" and "mm < 60"
    using h m by (simp_all add: hh_def mm_def hh_mm_split [OF assms] digits_val_two mult.commute)
  then have "int hh * 60 + int mm < 1440" by linarith
  then show "0 \<le> clock s" and "clock s < day_us"
    by (simp_all add: clock_def minute_us_def day_us_def hh_def [symmetric] mm_def [symmetric])
qed

section \<open>Zones without clock changes\<close>

text \<open>
  The laws of a zone whose clock is never set back or forward: the two directions are inverse
  and the local clock runs with the instant.
\<close>

locale steady_zone =
  fixes loc :: "time \<Rightarrow> int" and utc :: "int \<Rightarrow> time"
  assumes loc_utc: "loc (utc l) = l"
    and utc_loc: "utc (loc t) = t"
    and loc_mono: "a \<le> b \<Longrightarrow> loc a \<le> loc b"
begin

lemma loc_less: "loc a < loc b \<Longrightarrow> a < b"
  using loc_mono [of b a] by linarith

lemma utc_mono: "l \<le> m \<Longrightarrow> utc l \<le> utc m"
  using loc_mono [of "utc m" "utc l"] loc_utc utc_loc
  by (metis linorder_le_cases order_antisym)

lemma le_utc: "loc t \<le> l \<Longrightarrow> t \<le> utc l"
  using utc_mono [of "loc t" l] by (simp add: utc_loc)

lemma before_utc: "t < utc l \<Longrightarrow> loc t < l"
  using utc_mono [of l "loc t"] by (metis linorder_not_less utc_loc)

end

definition fixed_zone :: "int \<Rightarrow> zone" where
  "fixed_zone off = \<lparr>z_local = (\<lambda>t. t + off), z_utc = (\<lambda>l. l - off)\<rparr>"

text \<open>Every zone of a constant offset is one, India's among them.\<close>

interpretation fixed: steady_zone "z_local (fixed_zone off)" "z_utc (fixed_zone off)" for off
  by unfold_locales (simp_all add: fixed_zone_def)

text \<open>The opening the code computes, as one local moment.\<close>

definition next_opening :: "int \<Rightarrow> int \<Rightarrow> int" where
  "next_opening start l =
     (let o1 = l div day_us * day_us + start in if o1 \<le> l then o1 + day_us else o1)"

lemma opens_at_alt:
  "opens_at z now w =
     (if in_hours z w now then now else z_utc z (next_opening (clock (w_opens w)) (z_local z now)))"
  by (simp add: opens_at_def next_opening_def local_date_def Let_def algebra_simps)

lemma next_opening_bounds:
  assumes "0 \<le> start" and "start < day_us"
  shows "l < next_opening start l" and "next_opening start l \<le> l + day_us"
    and "next_opening start l mod day_us = start"
proof -
  show "l < next_opening start l"
    using assms unfolding next_opening_def Let_def day_us_def by presburger
  show "next_opening start l \<le> l + day_us"
    using assms unfolding next_opening_def Let_def day_us_def by presburger
  have "(k * day_us + start) mod day_us = start" for k
    using assms by (simp add: mod_pos_pos_trivial)
  from this [of "l div day_us"] this [of "l div day_us + 1"]
  show "next_opening start l mod day_us = start"
    unfolding next_opening_def Let_def by (simp add: algebra_simps)
qed

lemma div_less_days: "m < k * day_us \<Longrightarrow> m div day_us < k"
  by (simp add: div_less_iff_less_mult day_us_def)

text \<open>Between a moment outside the hours and the opening there is no moment inside.\<close>

lemma no_hours_before_opening:
  assumes s: "0 \<le> start" "start < day_us" and e: "0 \<le> close" "close < day_us"
    and out: "\<not> inside start close (l mod day_us)" and l: "l \<le> m" "m < next_opening start l"
  shows "\<not> inside start close (m mod day_us)"
proof -
  let ?q = "l div day_us" and ?r = "l mod day_us"
  have lr: "l = ?q * day_us + ?r" and r: "0 \<le> ?r" "?r < day_us"
    by (simp_all add: day_us_def)
  have mr: "m = m div day_us * day_us + m mod day_us"
    and m: "0 \<le> m mod day_us" "m mod day_us < day_us" by (simp_all add: day_us_def)
  have pos: "0 < day_us" by (simp add: day_us_def)
  show ?thesis
  proof (cases "start \<le> ?r")
    case True
    then have "?q * day_us + start \<le> l" using lr by linarith
    then have no: "next_opening start l = (?q + 1) * day_us + start"
      by (simp add: next_opening_def Let_def algebra_simps)
    have lt: "start < close" and cr: "close \<le> ?r" using out True by (auto simp: inside_def split: if_splits)
    have "m div day_us = ?q \<or> m div day_us = ?q + 1"
    proof -
      have "?q \<le> m div day_us" using l(1) pos by (simp add: zdiv_mono1)
      moreover have "m div day_us < ?q + 2"
        by (rule div_less_days) (use l(2) no s(2) in \<open>simp add: algebra_simps\<close>)
      ultimately show ?thesis by linarith
    qed
    then show ?thesis
    proof
      assume q: "m div day_us = ?q"
      have "?r \<le> m mod day_us" using lr mr [unfolded q] l(1) by linarith
      then show ?thesis using lt cr by (auto simp: inside_def)
    next
      assume q: "m div day_us = ?q + 1"
      have "m mod day_us < start" using mr [unfolded q] no l(2) by linarith
      then show ?thesis using lt by (auto simp: inside_def)
    qed
  next
    case False
    then have "\<not> ?q * day_us + start \<le> l" using lr by linarith
    then have no: "next_opening start l = ?q * day_us + start"
      by (simp add: next_opening_def Let_def)
    have q: "m div day_us = ?q"
    proof -
      have "?q \<le> m div day_us" using l(1) pos by (simp add: zdiv_mono1)
      moreover have "m div day_us < ?q + 1"
        by (rule div_less_days) (use l(2) no s(2) in \<open>simp add: algebra_simps\<close>)
      ultimately show ?thesis by linarith
    qed
    have mm: "?r \<le> m mod day_us" "m mod day_us < start" using lr mr [unfolded q] l no by linarith+
    then show ?thesis using out False by (auto simp: inside_def split: if_splits)
  qed
qed

lemma inside_start: "start \<noteq> close \<Longrightarrow> inside start close start"
  by (auto simp: inside_def)

lemma mixed_radix: "n * (a::nat) + b = n * c + d \<Longrightarrow> b < n \<Longrightarrow> d < n \<Longrightarrow> a = c \<and> b = d"
proof -
  assume e: "n * a + b = n * c + d" and b: "b < n" and d: "d < n"
  have "(n * a + b) div n = a" "(n * c + d) div n = c" using b d by simp_all
  with e have "a = c" by simp
  with e show ?thesis by simp
qed

lemma clock_inj:
  assumes "hh_mm a" "hh_mm b" "clock a = clock b"
  shows "a = b"
proof -
  have shape: "\<exists>c0 c1 c3 c4. c = [c0, c1, CHR '':'', c3, c4]" if "hh_mm c" for c
  proof -
    have "length c = 5" "c ! 2 = CHR '':''" using that by (simp_all add: hh_mm_def)
    moreover from this obtain v w x y z where "c = [v, w, x, y, z]" using length_5 by blast
    ultimately show ?thesis by simp
  qed
  obtain a0 a1 a3 a4 where a: "a = [a0, a1, CHR '':'', a3, a4]" using shape [OF assms(1)] by blast
  obtain b0 b1 b3 b4 where b: "b = [b0, b1, CHR '':'', b3, b4]" using shape [OF assms(2)] by blast
  have da: "is_digit a0" "is_digit a1" "is_digit a4" "digit_val a3 < 6 \<and> is_digit a3"
    using assms(1) hour_digits [of a0 a1] digit_val_below_6 [of a3] by (simp_all add: a hh_mm_def)
  have db: "is_digit b0" "is_digit b1" "is_digit b4" "digit_val b3 < 6 \<and> is_digit b3"
    using assms(2) hour_digits [of b0 b1] digit_val_below_6 [of b3] by (simp_all add: b hh_mm_def)
  have "60 * (10 * digit_val a0 + digit_val a1) + (10 * digit_val a3 + digit_val a4)
      = 60 * (10 * digit_val b0 + digit_val b1) + (10 * digit_val b3 + digit_val b4)"
    using assms(3) by (simp add: clock_def minute_us_def a b digits_val_def)
  then have hm: "10 * digit_val a0 + digit_val a1 = 10 * digit_val b0 + digit_val b1
      \<and> 10 * digit_val a3 + digit_val a4 = 10 * digit_val b3 + digit_val b4"
    by (rule mixed_radix) (use da(4) db(4) digit_val_less [OF da(3)] digit_val_less [OF db(3)] in linarith)+
  have "digit_val a0 = digit_val b0 \<and> digit_val a1 = digit_val b1"
    using hm digit_val_less [OF da(2)] digit_val_less [OF db(2)] by (intro mixed_radix [of 10]) simp_all
  moreover have "digit_val a3 = digit_val b3 \<and> digit_val a4 = digit_val b4"
    using hm digit_val_less [OF da(3)] digit_val_less [OF db(3)] by (intro mixed_radix [of 10]) simp_all
  ultimately have "digit_val a0 = digit_val b0 \<and> digit_val a1 = digit_val b1
      \<and> digit_val a3 = digit_val b3 \<and> digit_val a4 = digit_val b4" by simp
  then show ?thesis using digit_val_inj da db by (simp add: a b)
qed

section \<open>What the window and the ceiling promise\<close>

lemma opens_at_in_hours:
  assumes "window_ok w"
  shows "in_hours (fixed_zone off) w (opens_at (fixed_zone off) now w)"
proof (cases "in_hours (fixed_zone off) w now")
  case True
  then show ?thesis by (simp add: opens_at_alt)
next
  case False
  have r: "0 \<le> clock (w_opens w)" "clock (w_opens w) < day_us"
    using assms clock_range by (auto simp: window_ok_def)
  have ne: "clock (w_opens w) \<noteq> clock (w_closes w)"
    using assms clock_inj by (auto simp: window_ok_def)
  show ?thesis
    using False next_opening_bounds(3) [OF r] inside_start [OF ne]
    by (simp add: opens_at_alt in_hours_def local_time_def fixed.loc_utc)
qed

text \<open>
  In a zone without clock changes the window's answer is the first moment, from the asked
  moment on, that lies inside the plan's hours: it is never early, at most a day away, inside
  the hours, and no moment before it is.
\<close>

theorem opens_at_next_opening:
  assumes "window_ok w"
  shows "now \<le> opens_at (fixed_zone off) now w
    \<and> opens_at (fixed_zone off) now w \<le> now + day_us
    \<and> in_hours (fixed_zone off) w (opens_at (fixed_zone off) now w)
    \<and> (\<forall>t. now \<le> t \<and> t < opens_at (fixed_zone off) now w \<longrightarrow> \<not> in_hours (fixed_zone off) w t)"
proof (cases "in_hours (fixed_zone off) w now")
  case True
  then have "opens_at (fixed_zone off) now w = now" by (simp add: opens_at_alt)
  then show ?thesis using True by (simp add: day_us_def) linarith
next
  case False
  let ?z = "fixed_zone off" and ?s = "clock (w_opens w)" and ?c = "clock (w_closes w)"
  have r: "0 \<le> ?s" "?s < day_us" "0 \<le> ?c" "?c < day_us"
    using assms clock_range by (auto simp: window_ok_def)
  have o: "opens_at ?z now w = z_utc ?z (next_opening ?s (z_local ?z now))"
    using False by (simp add: opens_at_alt)
  note b = next_opening_bounds [OF r(1,2), of "z_local ?z now"]
  have "now \<le> opens_at ?z now w" unfolding o by (rule fixed.le_utc) (use b(1) in simp)
  moreover have "opens_at ?z now w \<le> now + day_us"
    using b(2) unfolding o by (simp add: fixed_zone_def)
  moreover have "\<not> in_hours ?z w t" if t: "now \<le> t" "t < opens_at ?z now w" for t
  proof -
    have "z_local ?z t < next_opening ?s (z_local ?z now)"
      using t(2) unfolding o by (rule fixed.before_utc)
    moreover have "\<not> inside ?s ?c (z_local ?z now mod day_us)"
      using False by (simp add: in_hours_def local_time_def)
    ultimately show ?thesis
      using no_hours_before_opening [OF r] fixed.loc_mono [OF t(1)]
      by (simp add: in_hours_def local_time_def)
  qed
  ultimately show ?thesis using opens_at_in_hours [OF assms] by blast
qed

definition india_window :: window where
  "india_window = \<lparr>w_opens = ''09:00'', w_closes = ''19:00'', w_timezone = ''Asia/Kolkata'',
     w_held_first_minutes = 30\<rparr>"

lemma india_window_ok: "window_ok india_window"
  by (simp add: window_ok_def india_window_def hh_mm_def is_digit_def)

lemma opens_at_next_opening_witness:
  "window_ok india_window \<and> (0::int) \<le> opens_at (fixed_zone 19800000000) 0 india_window"
  using opens_at_next_opening [OF india_window_ok, of 0 19800000000] india_window_ok by blast

text \<open>
  A zone whose clock was set back one hour at instant zero (02:00 became 01:00), and a window
  that opens inside the repeated hour.
\<close>

definition fall_back_zone :: zone where
  "fall_back_zone =
     \<lparr>z_local = (\<lambda>t. if t < 0 then t + 120 * minute_us else t + 60 * minute_us),
      z_utc = (\<lambda>l. if l < 120 * minute_us then l - 120 * minute_us else l - 60 * minute_us)\<rparr>"

definition small_hours_window :: window where
  "small_hours_window = \<lparr>w_opens = ''01:45'', w_closes = ''05:00'', w_timezone = ''Europe/Berlin'',
     w_held_first_minutes = 0\<rparr>"

text \<open>
  In the hour a clock change repeats, the window's answer can lie in the past: asked at
  01:30 for the second time, a window that opens at 01:45 answers with the first 01:45, which
  is forty-five minutes gone.  The hold of the walker, which compares the answer with the
  present, then does not hold.
\<close>

theorem opens_at_in_the_past_when_clocks_go_back:
  "opens_at fall_back_zone (30 * minute_us) small_hours_window = - (15 * minute_us)
   \<and> \<not> in_hours fall_back_zone small_hours_window (30 * minute_us)"
  by (simp add: opens_at_alt in_hours_def local_time_def fall_back_zone_def small_hours_window_def
      clock_def digits_val_def minute_us_def day_us_def inside_def next_opening_def Let_def)

definition zones_fixed :: "lib \<Rightarrow> bool" where
  "zones_fixed L \<longleftrightarrow> (\<forall>n. \<exists>off. zone_of L n = fixed_zone off)"

lemma opens_at_ge_fixed: "window_ok w \<Longrightarrow> now \<le> opens_at (fixed_zone off) now w"
proof (cases "in_hours (fixed_zone off) w now")
  case False
  assume "window_ok w"
  then have r: "0 \<le> clock (w_opens w)" "clock (w_opens w) < day_us"
    using clock_range by (auto simp: window_ok_def)
  show ?thesis
    using False next_opening_bounds(1) [OF r, of "z_local (fixed_zone off) now"]
    by (auto simp: opens_at_alt intro!: fixed.le_utc)
qed (simp add: opens_at_alt)

lemma opens_at_ge: "zones_fixed L \<Longrightarrow> window_ok w \<Longrightarrow> now \<le> opens_at (zone_of L n) now w"
  unfolding zones_fixed_def by (metis opens_at_ge_fixed)

text \<open>
  A wait's alarm is never before the moment it is set, and the alarm of a listening wait
  without minutes lies past the end of the run's life, so such a run is timed out by its age
  and never by its timeout arrow.
\<close>

theorem alarm_bounds:
  assumes "zones_fixed L" and "\<And>w. n_window nd = Some w \<Longrightarrow> window_ok w"
    and "\<And>m. n_minutes nd = Some m \<Longrightarrow> 0 < m"
  shows "now \<le> alarm L nd now ends
    \<and> (n_minutes nd = None \<and> n_topics nd \<noteq> [] \<longrightarrow> ends < alarm L nd now ends)"
proof -
  have td: "0 \<le> m \<Longrightarrow> now \<le> now + td_minutes m" for m
    using td_minutes_nonneg [of m] by simp
  have open_at: "n_window nd = Some w \<Longrightarrow> t \<le> opens_at (zone_of L (w_timezone w)) t w" for t w
    using opens_at_ge [OF assms(1)] assms(2) by blast
  have ends: "now \<le> max ends now + past_the_end" "ends < max ends now + past_the_end"
    by (simp_all add: past_the_end_def minute_us_def)
  show ?thesis
  proof (cases "n_minutes nd")
    case (Some m)
    then have "0 < m" using assms(3) by simp
    then have "0 \<le> m + of_nat k" for k by simp
    then show ?thesis
      using Some td [of m] td \<open>0 < m\<close> open_at order_trans [OF _ open_at]
      by (simp add: alarm_def Let_def split: option.splits)
  next
    case None
    then show ?thesis
      using ends open_at order_trans [OF _ open_at] less_le_trans [OF _ open_at]
      by (simp add: alarm_def Let_def split: option.splits)
  qed
qed

definition listening_wait :: node where
  "listening_wait = (blank_node ''w'' Wait)\<lparr>n_topics := [''customer.replied''],
     n_window := Some india_window\<rparr>"

definition india_lib :: lib where
  "india_lib = \<lparr>iso_parse = (\<lambda>_. None), iso_format = (\<lambda>_. []), zone_of = (\<lambda>_. fixed_zone 19800000000),
     date_iso = (\<lambda>_. []), naive_ts = (\<lambda>t. t), sha256_hex = (\<lambda>_. []),
     deriver = (\<lambda>_. []), derived_names = []\<rparr>"

lemma alarm_bounds_witness:
  "zones_fixed india_lib \<and> window_ok india_window
   \<and> (5::int) \<le> alarm india_lib listening_wait 5 9 \<and> (9::int) < alarm india_lib listening_wait 5 9"
proof -
  have z: "zones_fixed india_lib" by (auto simp: zones_fixed_def india_lib_def)
  have "(5::int) \<le> alarm india_lib listening_wait 5 9
      \<and> (n_minutes listening_wait = None \<and> n_topics listening_wait \<noteq> []
         \<longrightarrow> (9::int) < alarm india_lib listening_wait 5 9)"
    by (rule alarm_bounds [OF z])
      (use india_window_ok in \<open>simp_all add: listening_wait_def blank_node_def\<close>)
  then show ?thesis using z india_window_ok by (simp add: listening_wait_def blank_node_def)
qed

end
