(* ===== verification/Field_Grammar.thy ===== *)
theory Field_Grammar
  imports Run_Context Window
begin

text \<open>
  The condition square's field grammar and its judgement, \<open>app/crm/outreach/predicates.py\<close>:
  which fields a plan may name, the value a field has on a run, the first rule that holds, and
  when the one read of the customer is paid.  A problem is a constructor here where the code
  builds a sentence for the author.
\<close>

section \<open>The grammar\<close>

definition customer_prefix :: string where "customer_prefix = ''customer.''"
definition run_prefix :: string where "run_prefix = ''run.''"

definition customer_columns :: "string list" where
  "customer_columns =
     [''display_name'', ''primary_locale'', ''timezone'', ''has_phone'', ''has_email'']"

definition run_fact_names :: "string list" where
  "run_fact_names = [''max_calls_reached'']"

definition handle_like :: "string list" where
  "handle_like =
     [''phone'', ''email'', ''igsid'', ''shopify_customer_id'', ''external_ref'', ''_handle_history'']"

record customer_facts =
  cf_display_name :: "string option"
  cf_primary_locale :: "string option"
  cf_timezone :: "string option"
  cf_has_phone :: bool
  cf_has_email :: bool
  cf_attributes :: dict

datatype field =
    Ctx string
  | Derived string
  | Stage_fact string string
  | Column string
  | Attribute string

definition is_alpha :: "char \<Rightarrow> bool" where
  "is_alpha c \<longleftrightarrow> is_upper c \<or> is_lower c"

definition is_ident :: "string \<Rightarrow> bool" where
  "is_ident s \<longleftrightarrow> s \<noteq> [] \<and> (is_alpha (hd s) \<or> hd s = CHR ''_'')
     \<and> list_all (\<lambda>c. is_alpha c \<or> is_digit c \<or> c = CHR ''_'') s"

definition is_square_id :: "string \<Rightarrow> bool" where
  "is_square_id s \<longleftrightarrow> s \<noteq> [] \<and> hd s \<noteq> CHR ''-''
     \<and> list_all (\<lambda>c. is_alpha c \<or> is_digit c \<or> c = CHR ''_'' \<or> c = CHR ''-'') s"

text \<open>\<open>$\<close> also matches before one final line feed.\<close>

definition drop_final_newline :: "string \<Rightarrow> string" where
  "drop_final_newline s = (if s \<noteq> [] \<and> last s = CHR 0x0A then butlast s else s)"

text \<open>The alternatives of \<open>_FIELD\<close>; none of the named parts can hold a dot.\<close>

definition parse_parts :: "string list \<Rightarrow> field option" where
  "parse_parts parts = (case parts of
       [w, a] \<Rightarrow>
         (if \<not> is_ident a then None
          else if w = ''context'' then Some (Ctx a)
          else if w = ''run'' then Some (Derived a)
          else if w = ''customer'' then Some (Column a)
          else None)
     | [w, a, b] \<Rightarrow>
         (if \<not> is_ident b then None
          else if w = ''facts'' \<and> is_square_id a then Some (Stage_fact a b)
          else if w = ''customer'' \<and> a = ''attributes'' then Some (Attribute b)
          else None)
     | _ \<Rightarrow> None)"

definition parse_field :: "string \<Rightarrow> field option" where
  "parse_field s = parse_parts (split_on (CHR ''.'') (drop_final_newline s))"

datatype field_problem =
    Not_a_field string
  | No_such_square string
  | Not_a_run_fact string
  | Handle_field string
  | Not_a_column string

definition field_problems :: "string \<Rightarrow> string list \<Rightarrow> field_problem list" where
  "field_problems f node_ids = (case parse_field f of
       None \<Rightarrow> [Not_a_field f]
     | Some (Stage_fact sq _) \<Rightarrow> (if sq \<in> set node_ids then [] else [No_such_square f])
     | Some (Derived n) \<Rightarrow> (if n \<in> set run_fact_names then [] else [Not_a_run_fact f])
     | Some (Attribute a) \<Rightarrow> (if a \<in> set handle_like then [Handle_field f] else [])
     | Some (Column c) \<Rightarrow> (if c \<in> set customer_columns then [] else [Not_a_column f])
     | Some (Ctx _) \<Rightarrow> [])"

section \<open>The judgement\<close>

text \<open>What a derived fact is computed from: the run's context, the plan's exits and the clock.\<close>

record run_lens =
  rl_context :: dict
  rl_exits :: exits

definition opt_json :: "string option \<Rightarrow> json" where
  "opt_json x = (case x of None \<Rightarrow> JNull | Some s \<Rightarrow> JStr s)"

definition customer_column :: "customer_facts \<Rightarrow> string \<Rightarrow> json" where
  "customer_column c col =
     (if col = ''display_name'' then opt_json (cf_display_name c)
      else if col = ''primary_locale'' then opt_json (cf_primary_locale c)
      else if col = ''timezone'' then opt_json (cf_timezone c)
      else if col = ''has_phone'' then JBool (cf_has_phone c)
      else if col = ''has_email'' then JBool (cf_has_email c)
      else JNull)"

definition run_fact :: "lib \<Rightarrow> time \<Rightarrow> string \<Rightarrow> run_lens option \<Rightarrow> json" where
  "run_fact L now n run =
     (case run of None \<Rightarrow> JNull
      | Some r \<Rightarrow> (if n = ''max_calls_reached''
                  then JBool (max_calls_reached L (rl_context r) (rl_exits r) now) else JNull))"

definition lookup_field ::
    "lib \<Rightarrow> time \<Rightarrow> dict \<Rightarrow> dict \<Rightarrow> customer_facts option \<Rightarrow> run_lens option \<Rightarrow> string \<Rightarrow> json" where
  "lookup_field L now facts stage_facts customer run f = (case parse_field f of
       None \<Rightarrow> JNull
     | Some (Ctx k) \<Rightarrow> dget facts k
     | Some (Derived n) \<Rightarrow> run_fact L now n run
     | Some (Stage_fact sq k) \<Rightarrow> (case dget stage_facts sq of JObj l \<Rightarrow> dget l k | _ \<Rightarrow> JNull)
     | Some (Attribute a) \<Rightarrow> (case customer of None \<Rightarrow> JNull | Some c \<Rightarrow> dget (cf_attributes c) a)
     | Some (Column col) \<Rightarrow> (case customer of None \<Rightarrow> JNull | Some c \<Rightarrow>
           (if col \<in> set customer_columns then customer_column c col else JNull)))"

definition choose_arm ::
    "lib \<Rightarrow> time \<Rightarrow> rule list \<Rightarrow> dict \<Rightarrow> dict \<Rightarrow> customer_facts option \<Rightarrow> run_lens option \<Rightarrow> string option" where
  "choose_arm L now rules facts stage_facts customer run =
     map_option ru_on
       (find (\<lambda>r. matches L (ru_if r) (lookup_field L now facts stage_facts customer run)) rules)"

definition names_prefix :: "string \<Rightarrow> rule list \<Rightarrow> bool" where
  "names_prefix p rules \<longleftrightarrow> list_ex (\<lambda>r. list_ex (\<lambda>c. prefix_of p (c_field c)) (ru_if r)) rules"

definition needs_customer :: "rule list \<Rightarrow> bool" where
  "needs_customer rules = names_prefix customer_prefix rules"

definition needs_run :: "rule list \<Rightarrow> bool" where
  "needs_run rules = names_prefix run_prefix rules"

definition fields_named :: "rule list \<Rightarrow> string set" where
  "fields_named rules = (\<Union>r\<in>set rules. c_field ` set (ru_if r))"

section \<open>Facts\<close>

fun show_field :: "field \<Rightarrow> string" where
  "show_field (Ctx k) = ''context.'' @ k"
| "show_field (Derived n) = ''run.'' @ n"
| "show_field (Stage_fact sq k) = ''facts.'' @ sq @ ''.'' @ k"
| "show_field (Column c) = ''customer.'' @ c"
| "show_field (Attribute a) = ''customer.attributes.'' @ a"

fun field_ok :: "field \<Rightarrow> bool" where
  "field_ok (Ctx k) = is_ident k"
| "field_ok (Derived n) = is_ident n"
| "field_ok (Stage_fact sq k) = (is_square_id sq \<and> is_ident k)"
| "field_ok (Column c) = is_ident c"
| "field_ok (Attribute a) = is_ident a"

lemma split_on_no_sep: "c \<notin> set s \<Longrightarrow> split_on c s = [s]"
  by (induction s) auto

lemma split_on_append: "c \<notin> set a \<Longrightarrow> split_on c (a @ c # b) = a # split_on c b"
  by (induction a) auto

lemma join_split: "join_with [c] (split_on c s) = s"
proof (induction s)
  case (Cons x s)
  obtain w ws where w: "split_on c s = w # ws" by (cases "split_on c s") auto
  show ?case
    using Cons w by (cases ws) auto
qed simp

lemma ident_chars:
  "is_alpha c \<or> is_digit c \<or> c = CHR ''_'' \<or> c = CHR ''-'' \<Longrightarrow> c \<noteq> CHR ''.'' \<and> c \<noteq> CHR 0x0A"
  by (auto simp: is_alpha_def is_upper_def is_lower_def is_digit_def)

lemma ident_no_dot:
  assumes "is_ident s" shows "CHR ''.'' \<notin> set s \<and> s \<noteq> [] \<and> last s \<noteq> CHR 0x0A"
proof -
  have "\<forall>c\<in>set s. c \<noteq> CHR ''.'' \<and> c \<noteq> CHR 0x0A"
    using assms ident_chars by (simp only: is_ident_def list_all_iff) blast
  moreover have "s \<noteq> []" using assms by (simp add: is_ident_def)
  ultimately show ?thesis using last_in_set [of s] by blast
qed

lemma square_id_no_dot:
  assumes "is_square_id s" shows "CHR ''.'' \<notin> set s"
  using assms ident_chars by (simp only: is_square_id_def list_all_iff) blast

lemma keep_final: "s \<noteq> [] \<Longrightarrow> last s \<noteq> CHR 0x0A \<Longrightarrow> drop_final_newline (p @ s) = p @ s"
  by (simp add: drop_final_newline_def)

text \<open>Whatever the prefix, the last part of a printed field is an identifier.\<close>

lemma parse_show_two:
  "is_ident a \<Longrightarrow> CHR ''.'' \<notin> set w \<Longrightarrow> parse_field (w @ ''.'' @ a) = parse_parts [w, a]"
  using keep_final [of a "w @ ''.''"] ident_no_dot [of a]
  by (simp add: parse_field_def split_on_append split_on_no_sep)

lemma parse_show_three:
  "is_ident b \<Longrightarrow> CHR ''.'' \<notin> set w \<Longrightarrow> CHR ''.'' \<notin> set a \<Longrightarrow>
     parse_field (w @ ''.'' @ a @ ''.'' @ b) = parse_parts [w, a, b]"
  using keep_final [of b "w @ ''.'' @ a @ ''.''"] ident_no_dot [of b]
  by (simp add: parse_field_def split_on_append split_on_no_sep)

text \<open>
  The field grammar is unambiguous: every well-formed field reads back as itself from the
  text that names it.
\<close>

theorem parse_show_field:
  "field_ok f \<Longrightarrow> parse_field (show_field f) = Some f"
proof (cases f)
  case (Ctx k)
  moreover assume "field_ok f"
  ultimately show ?thesis using parse_show_two [of k "''context''"] by (simp add: parse_parts_def)
next
  case (Derived k)
  moreover assume "field_ok f"
  ultimately show ?thesis using parse_show_two [of k "''run''"] by (simp add: parse_parts_def)
next
  case (Column k)
  moreover assume "field_ok f"
  ultimately show ?thesis using parse_show_two [of k "''customer''"] by (simp add: parse_parts_def)
next
  case (Stage_fact sq k)
  moreover assume "field_ok f"
  ultimately show ?thesis
    using parse_show_three [of k "''facts''" sq] square_id_no_dot [of sq] by (simp add: parse_parts_def)
next
  case (Attribute k)
  moreover assume "field_ok f"
  ultimately show ?thesis
    using parse_show_three [of k "''customer''" "''attributes''"] by (simp add: parse_parts_def)
qed

lemma parse_show_field_witness: "parse_field ''facts.after-call.outcome'' = Some (Stage_fact ''after-call'' ''outcome'')"
  using parse_show_field [of "Stage_fact ''after-call'' ''outcome''"]
  by (simp add: is_ident_def is_square_id_def is_alpha_def is_upper_def is_lower_def is_digit_def)

lemma parse_parts_shape:
  assumes "parse_parts ps = Some f"
  shows "join_with ''.'' ps = show_field f \<and> field_ok f"
proof -
  consider (two) w a where "ps = [w, a]" | (three) w a b where "ps = [w, a, b]"
    using assms by (auto simp: parse_parts_def split: list.splits)
  then show ?thesis
    using assms by cases (auto simp: parse_parts_def split: if_splits)
qed

lemma parse_field_show: "parse_field s = Some f \<Longrightarrow> drop_final_newline s = show_field f \<and> field_ok f"
  using parse_parts_shape [of _ f] join_split [of "CHR ''.''" "drop_final_newline s"]
  by (metis parse_field_def)

lemma prefix_drop_final: "prefix_of p (drop_final_newline s) \<Longrightarrow> prefix_of p s"
proof (cases "s \<noteq> [] \<and> last s = CHR 0x0A")
  case True
  assume "prefix_of p (drop_final_newline s)"
  then have "prefix_of p (butlast s)" using True by (simp add: drop_final_newline_def)
  then obtain t where "butlast s = p @ t" using prefix_of_split by blast
  then have "s = p @ t @ [last s]" using True append_butlast_last_id by fastforce
  then show ?thesis by (metis prefix_of_append)
qed (simp add: drop_final_newline_def)

lemma lookup_without_customer:
  assumes "\<not> prefix_of customer_prefix f"
  shows "lookup_field L now facts st c run f = lookup_field L now facts st c' run f"
proof -
  have "parse_field f \<noteq> Some (Column x) \<and> parse_field f \<noteq> Some (Attribute x)" for x
  proof -
    have "\<not> prefix_of customer_prefix (drop_final_newline f)"
      using assms prefix_drop_final by blast
    then show ?thesis
      using parse_field_show [of f "Column x"] parse_field_show [of f "Attribute x"]
      by (auto simp: customer_prefix_def prefix_of_def)
  qed
  then show ?thesis by (auto simp: lookup_field_def split: option.splits field.splits)
qed

lemma lookup_without_run:
  assumes "\<not> prefix_of run_prefix f"
  shows "lookup_field L now facts st c run f = lookup_field L now facts st c run' f"
proof -
  have "parse_field f \<noteq> Some (Derived x)" for x
    using assms prefix_drop_final [of run_prefix f] parse_field_show [of f "Derived x"]
    by (auto simp: run_prefix_def prefix_of_def)
  then show ?thesis by (auto simp: lookup_field_def split: option.splits field.splits)
qed

lemma choose_arm_cong:
  assumes "\<And>r c. r \<in> set rules \<Longrightarrow> c \<in> set (ru_if r) \<Longrightarrow>
      lookup_field L now facts st cu run (c_field c) = lookup_field L now facts st cu' run' (c_field c)"
  shows "choose_arm L now rules facts st cu run = choose_arm L now rules facts st cu' run'"
proof -
  have "find (\<lambda>r. matches L (ru_if r) (lookup_field L now facts st cu run)) rules
      = find (\<lambda>r. matches L (ru_if r) (lookup_field L now facts st cu' run')) rules"
  proof (rule find_cong [OF refl])
    fix r assume "r \<in> set rules"
    then show "matches L (ru_if r) (lookup_field L now facts st cu run)
        = matches L (ru_if r) (lookup_field L now facts st cu' run')"
      by (intro matches_cong assms)
  qed
  then show ?thesis by (simp add: choose_arm_def)
qed

text \<open>
  The read of the customer that a condition square skips cannot have changed its answer:
  where no rule names a \<open>customer.\<close> field, every two customers, the unknown one included,
  give the same arm.
\<close>

theorem skipped_customer_read_is_harmless:
  assumes "\<not> needs_customer rules"
  shows "choose_arm L now rules facts st c run = choose_arm L now rules facts st c' run"
proof (rule choose_arm_cong)
  fix r k assume "r \<in> set rules" "k \<in> set (ru_if r)"
  then have "\<not> prefix_of customer_prefix (c_field k)"
    using assms by (auto simp: needs_customer_def names_prefix_def list_ex_iff)
  then show "lookup_field L now facts st c run (c_field k) = lookup_field L now facts st c' run (c_field k)"
    by (rule lookup_without_customer)
qed

definition city_rule :: rule where
  "city_rule = \<lparr>ru_on = ''yes'', ru_if = [\<lparr>c_field = ''context.city'', c_op = Is, c_value = JStr ''Pune''\<rparr>]\<rparr>"

lemma skipped_customer_read_is_harmless_witness:
  "\<not> needs_customer [city_rule]
   \<and> choose_arm india_lib 0 [city_rule] [(''city'', JStr ''Pune'')] [] None None
     = choose_arm india_lib 0 [city_rule] [(''city'', JStr ''Pune'')] []
         (Some \<lparr>cf_display_name = None, cf_primary_locale = None, cf_timezone = None,
                cf_has_phone = True, cf_has_email = False, cf_attributes = []\<rparr>) None"
proof -
  have n: "\<not> needs_customer [city_rule]"
    by (simp add: needs_customer_def names_prefix_def city_rule_def customer_prefix_def prefix_of_def)
  show ?thesis using n skipped_customer_read_is_harmless [OF n] by blast
qed

lemma needs_run_sound:
  assumes "\<not> needs_run rules"
  shows "choose_arm L now rules facts st c run = choose_arm L now rules facts st c run'"
proof (rule choose_arm_cong)
  fix r k assume "r \<in> set rules" "k \<in> set (ru_if r)"
  then have "\<not> prefix_of run_prefix (c_field k)"
    using assms by (auto simp: needs_run_def names_prefix_def list_ex_iff)
  then show "lookup_field L now facts st c run (c_field k) = lookup_field L now facts st c run' (c_field k)"
    by (rule lookup_without_run)
qed

text \<open>The arm taken is the first rule in document order whose conditions all hold.\<close>

lemma choose_arm_Some:
  "choose_arm L now rules facts st c run = Some x \<longleftrightarrow>
     (\<exists>i < length rules. ru_on (rules ! i) = x
        \<and> matches L (ru_if (rules ! i)) (lookup_field L now facts st c run)
        \<and> (\<forall>j < i. \<not> matches L (ru_if (rules ! j)) (lookup_field L now facts st c run)))"
  unfolding choose_arm_def map_option_eq_Some find_Some_iff by fastforce

lemma choose_arm_None:
  "choose_arm L now rules facts st c run = None \<longleftrightarrow>
     (\<forall>r\<in>set rules. \<not> matches L (ru_if r) (lookup_field L now facts st c run))"
  by (simp add: choose_arm_def find_None_iff_set)

lemma choose_arm_label: "choose_arm L now rules facts st c run = Some x \<Longrightarrow> x \<in> ru_on ` set rules"
  unfolding choose_arm_Some by (metis imageI nth_mem)

text \<open>A field the validator passes names no handle, whatever the customer holds.\<close>

lemma accepted_field_no_handle:
  "field_problems f ids = [] \<Longrightarrow> parse_field f = Some (Attribute a) \<Longrightarrow> a \<notin> set handle_like"
  by (simp add: field_problems_def split: if_splits)

end
