(* ===== verification/Steps.thy ===== *)
theory Steps
  imports Run_Context
begin

text \<open>
  The trail behind the token, \<open>app/crm/outreach/steps.py\<close>: the record of one closed square, how
  a square came to be walked, the closing row an exit writes, and the union of the closed rows
  with the square the run stands on.  The model of \<open>uuid.UUID(text)\<close> of the Python library is
  here too, since the trail's pointer column is a uuid.
\<close>

section \<open>Records\<close>

datatype arrival = By_door | By_timer | By_letter | By_walk

record step_record =
  st_node :: string
  st_type :: node_type
  st_arrived :: time
  st_left :: time
  st_by :: arrival
  st_outcome :: "string option"
  st_next :: "string option"
  st_attempts :: nat
  st_error :: "string option"
  st_dispatch :: "string option"
  st_cut :: "string option"

section \<open>The uuid of a text\<close>

function remove_all :: "string \<Rightarrow> string \<Rightarrow> string" where
  "remove_all p s =
     (if s = [] then []
      else if p \<noteq> [] \<and> prefix_of p s then remove_all p (drop (length p) s)
      else hd s # remove_all p (tl s))"
  by pat_completeness auto
termination
  by (relation "measure (\<lambda>(p, s). length s)") auto

declare remove_all.simps [simp del]

definition strip_braces :: "string \<Rightarrow> string" where
  "strip_braces s = (let b = (\<lambda>c. c = CHR ''{'' \<or> c = CHR ''}'')
                     in rev (dropWhile b (rev (dropWhile b s))))"

definition hex_digit :: "char \<Rightarrow> nat option" where
  "hex_digit c = (let i = length (takeWhile (\<lambda>d. d \<noteq> lower_char c) ''0123456789abcdef'')
                  in if i < 16 then Some i else None)"

text \<open>\<open>int(text, 16)\<close>: blanks around, a sign, a \<open>0x\<close>, single underscores between digits.\<close>

fun hex_digits :: "string \<Rightarrow> nat \<Rightarrow> nat option" where
  "hex_digits [] acc = None"
| "hex_digits (c # cs) acc =
     (case hex_digit c of None \<Rightarrow> None
      | Some d \<Rightarrow>
         (case cs of [] \<Rightarrow> Some (16 * acc + d)
          | u # us \<Rightarrow> (if u = CHR ''_'' then hex_digits us (16 * acc + d)
                      else hex_digits cs (16 * acc + d))))"

definition int16 :: "string \<Rightarrow> int option" where
  "int16 s =
     (let t = strip s;
          neg = (take 1 t = ''-'');
          u = (if neg \<or> take 1 t = ''+'' then drop 1 t else t);
          v = (if map lower_char (take 2 u) = ''0x''
               then (if take 1 (drop 2 u) = ''_'' then drop 3 u else drop 2 u) else u)
      in map_option (\<lambda>n. if neg then - int n else int n) (hex_digits v 0))"

fun hex_pad :: "nat \<Rightarrow> nat \<Rightarrow> string" where
  "hex_pad 0 n = []"
| "hex_pad (Suc k) n = hex_pad k (n div 16) @ [hex_char (n mod 16)]"

definition uuid_text :: "nat \<Rightarrow> string" where
  "uuid_text n = (let h = hex_pad 32 n in
     take 8 h @ ''-'' @ take 4 (drop 8 h) @ ''-'' @ take 4 (drop 12 h) @ ''-'' @
     take 4 (drop 16 h) @ ''-'' @ drop 20 h)"

definition parse_uuid :: "string \<Rightarrow> string option" where
  "parse_uuid s =
     (let h = filter (\<lambda>c. c \<noteq> CHR ''-'') (strip_braces (remove_all ''uuid:'' (remove_all ''urn:'' s)))
      in if length h \<noteq> 32 then None
         else case int16 h of None \<Rightarrow> None
              | Some i \<Rightarrow> (if 0 \<le> i \<and> i < 2 ^ 128 then Some (uuid_text (nat i)) else None))"

definition as_uuid :: "string option \<Rightarrow> string option" where
  "as_uuid v = (case v of None \<Rightarrow> None | Some s \<Rightarrow> (if s = [] then None else parse_uuid s))"

text \<open>The buffer as the flush takes it: only the pointer changes.\<close>

definition as_rows :: "step_record list \<Rightarrow> step_record list" where
  "as_rows = map (\<lambda>s. s\<lparr>st_cut := as_uuid (st_cut s)\<rparr>)"

section \<open>Closing squares\<close>

definition first_arrival :: "run \<Rightarrow> string option \<Rightarrow> arrival" where
  "first_arrival r ptr =
     (if r_arrived r \<noteq> None \<and> r_arrived r = Some (r_entered r) then By_door
      else if opt_text ptr then By_letter else By_timer)"

definition step ::
    "node \<Rightarrow> time option \<Rightarrow> time \<Rightarrow> arrival \<Rightarrow> string option \<Rightarrow> string option \<Rightarrow> run
     \<Rightarrow> string option \<Rightarrow> bool \<Rightarrow> string option \<Rightarrow> step_record list" where
  "step nd arrived left by outcome nxt r ptr first dispatch =
     (case arrived of None \<Rightarrow> []
      | Some a \<Rightarrow>
        [\<lparr>st_node = n_id nd, st_type = n_type nd, st_arrived = a, st_left = max a left, st_by = by,
          st_outcome = outcome, st_next = nxt,
          st_attempts = (if first then max (r_attempts r) 1 else 1),
          st_error = (if first then r_error r else None),
          st_dispatch = dispatch,
          st_cut = (if first then ptr else None)\<rparr>])"

definition truthy_text :: "json \<Rightarrow> string option" where
  "truthy_text v = (if truthy v then Some (py_str v) else None)"

definition closing ::
    "run \<Rightarrow> workflow_definition option \<Rightarrow> string \<Rightarrow> time \<Rightarrow> string option \<Rightarrow> step_record list" where
  "closing r d outcome now ptr =
     (case (case d of None \<Rightarrow> None | Some doc \<Rightarrow> first_node doc (r_node r)) of
        None \<Rightarrow> []
      | Some nd \<Rightarrow>
          (let pointer = (if opt_text ptr then ptr else truthy_text (dget (r_context r) cut_short_by_key))
           in step nd (r_arrived r) now (first_arrival r pointer) (Some outcome) None r pointer True None))"

section \<open>The timeline\<close>

text \<open>One stored row, and the shape a reader is shown: a square with an open end is the present one.\<close>

record trail_row = step_record +
  tr_merchant :: string
  tr_run :: string
  tr_workflow :: string
  tr_version :: int

record run_step =
  rs_node :: string
  rs_type :: string
  rs_arrived :: time
  rs_left :: "time option"
  rs_by :: arrival
  rs_outcome :: "string option"
  rs_next :: "string option"
  rs_attempts :: nat
  rs_error :: "string option"
  rs_dispatch :: "string option"
  rs_cut :: "string option"
  rs_version :: int

fun type_text :: "node_type \<Rightarrow> string" where
  "type_text Wait = ''wait''"
| "type_text Send = ''send''"
| "type_text Call = ''call''"
| "type_text Action = ''action''"
| "type_text Condition = ''condition''"
| "type_text Split = ''split''"

definition closed_step :: "trail_row \<Rightarrow> run_step" where
  "closed_step t = \<lparr>rs_node = st_node t, rs_type = type_text (st_type t), rs_arrived = st_arrived t,
     rs_left = Some (st_left t), rs_by = st_by t, rs_outcome = st_outcome t, rs_next = st_next t,
     rs_attempts = st_attempts t, rs_error = st_error t, rs_dispatch = st_dispatch t,
     rs_cut = st_cut t, rs_version = tr_version t\<rparr>"

definition open_step :: "run \<Rightarrow> time \<Rightarrow> workflow_definition option \<Rightarrow> run_step" where
  "open_step r arrived d = \<lparr>rs_node = r_node r,
     rs_type = (case (case d of None \<Rightarrow> None | Some doc \<Rightarrow> first_node doc (r_node r)) of
                  None \<Rightarrow> [] | Some nd \<Rightarrow> type_text (n_type nd)),
     rs_arrived = arrived, rs_left = None,
     rs_by = (if arrived = r_entered r then By_door else By_walk),
     rs_outcome = None, rs_next = None, rs_attempts = r_attempts r, rs_error = r_error r,
     rs_dispatch = None, rs_cut = None, rs_version = r_version r\<rparr>"

definition timeline :: "run \<Rightarrow> run_step list \<Rightarrow> workflow_definition option \<Rightarrow> run_step list" where
  "timeline r past d =
     (if r_status r = Exited then past
      else case r_arrived r of None \<Rightarrow> past | Some a \<Rightarrow> past @ [open_step r a d])"

section \<open>Facts\<close>

lemma step_None [simp]: "step nd None left by o1 nx r ptr f dp = []"
  by (simp add: step_def)

text \<open>Every row the walker buffers obeys the table's law, whatever the clocks said.\<close>

definition steps_ok :: "step_record list \<Rightarrow> bool" where
  "steps_ok ss \<longleftrightarrow> (\<forall>s\<in>set ss. st_arrived s \<le> st_left s \<and> 1 \<le> st_attempts s)"

lemma steps_ok_step [simp]: "steps_ok (step nd a left by o1 nx r ptr f dp)"
  by (auto simp: steps_ok_def step_def split: option.splits)

lemma steps_ok_Nil [simp]: "steps_ok []"
  by (simp add: steps_ok_def)

lemma steps_ok_append [simp]: "steps_ok (a @ b) \<longleftrightarrow> steps_ok a \<and> steps_ok b"
  by (auto simp: steps_ok_def)

lemma steps_ok_closing [simp]: "steps_ok (closing r d o1 now ptr)"
  by (simp add: closing_def Let_def split: option.splits)

lemma steps_ok_as_rows [simp]: "steps_ok (as_rows ss) \<longleftrightarrow> steps_ok ss"
  by (auto simp: steps_ok_def as_rows_def)

lemma as_rows_append [simp]: "as_rows (a @ b) = as_rows a @ as_rows b"
  by (simp add: as_rows_def)

lemma as_rows_Nil [simp]: "as_rows [] = []"
  by (simp add: as_rows_def)

lemma closing_shape:
  "closing r d o1 now ptr = [] \<or>
     (\<exists>s. closing r d o1 now ptr = [s] \<and> st_node s = r_node r \<and> r_arrived r = Some (st_arrived s)
        \<and> st_next s = None \<and> st_outcome s = Some o1)"
proof (cases "\<exists>doc nd. d = Some doc \<and> first_node doc (r_node r) = Some nd \<and> r_arrived r \<noteq> None")
  case True
  then obtain doc nd a where "d = Some doc" "first_node doc (r_node r) = Some nd" "r_arrived r = Some a"
    by blast
  then show ?thesis using first_node_Some [of doc "r_node r" nd]
    by (simp add: closing_def step_def Let_def)
next
  case False
  then show ?thesis by (cases "r_arrived r") (auto simp: closing_def step_def Let_def split: option.splits)
qed

lemma hex_pad_length [simp]: "length (hex_pad k n) = k"
  by (induction k arbitrary: n) simp_all

lemma uuid_text_length: "length (uuid_text n) = 36"
  by (simp add: uuid_text_def Let_def)

lemma as_uuid_length: "as_uuid v = Some u \<Longrightarrow> length u = 36"
  using uuid_text_length
  by (auto simp: as_uuid_def parse_uuid_def Let_def split: option.splits if_splits)

text \<open>
  The union law: a run that has an arrival and is not over is shown with exactly one more
  square than the rows say, and that last one is the square it stands on, still open; an exited
  run is shown exactly as its rows say.
\<close>

theorem timeline_union:
  "timeline r (map closed_step rows) d =
     map closed_step rows
       @ (if r_status r \<noteq> Exited \<and> r_arrived r \<noteq> None then [open_step r (the (r_arrived r)) d] else [])
   \<and> (\<forall>x\<in>set (map closed_step rows). rs_left x \<noteq> None)
   \<and> rs_left (open_step r a d) = None \<and> rs_node (open_step r a d) = r_node r"
  by (auto simp: timeline_def closed_step_def open_step_def split: option.splits)

end
