(* ===== verification/Effects.thy ===== *)
theory Effects
  imports Field_Grammar Steps
begin

text \<open>
  What a square may ask of the rest of the system.  A computation with outside effects passes
  the outside world explicitly and ends in one of three ways, as an \<open>execute\<close> does: a value, a
  \<open>NodeParked\<close> (a defect: the run parks) or any other exception (a bad moment: the run retries).
  The calls themselves -- the clock, identity's read of a customer, the built-ins of the buddy
  templates, the manifest, the lead store, the connectors, record's event store, the version
  store, the database refusing a statement -- are other modules' or the system's, and are the
  fields of the record \<open>ext\<close>, arguments of every definition that uses them.
\<close>

datatype 'a outcome = Ok 'a | Park string | Fail string

type_synonym ('w, 'a) io = "'w \<Rightarrow> 'a outcome \<times> 'w"

definition io_return :: "'a \<Rightarrow> ('w, 'a) io" where
  "io_return x = (\<lambda>w. (Ok x, w))"

definition io_bind :: "('w, 'a) io \<Rightarrow> ('a \<Rightarrow> ('w, 'b) io) \<Rightarrow> ('w, 'b) io" where
  "io_bind m f = (\<lambda>w. case m w of
     (Ok x, w') \<Rightarrow> f x w' | (Park e, w') \<Rightarrow> (Park e, w') | (Fail e, w') \<Rightarrow> (Fail e, w'))"

definition io_park :: "string \<Rightarrow> ('w, 'a) io" where
  "io_park e = (\<lambda>w. (Park e, w))"

definition io_fail :: "string \<Rightarrow> ('w, 'a) io" where
  "io_fail e = (\<lambda>w. (Fail e, w))"

text \<open>\<open>[await f(x) for x in xs]\<close>.\<close>

fun io_map :: "('a \<Rightarrow> ('w, 'b) io) \<Rightarrow> 'a list \<Rightarrow> ('w, 'b list) io" where
  "io_map f [] = io_return []"
| "io_map f (x # xs) = io_bind (f x) (\<lambda>y. io_bind (io_map f xs) (\<lambda>ys. io_return (y # ys)))"

section \<open>The calls\<close>

datatype sent = Queued string | Already_queued | Send_refused string | Send_broken string

record message =
  m_merchant :: string
  m_customer :: string
  m_channel :: string
  m_address :: string
  m_source_id :: string
  m_purpose :: string
  m_template :: string
  m_variables :: dict
  m_dedupe :: string

record call_template =
  ct_id :: string
  ct_name :: string
  ct_merchant :: "string option"

datatype made = Lead_made | Lead_none | Lead_duplicate | Lead_broken string

record lead =
  ld_id :: string
  ld_template :: string
  ld_merchant :: string
  ld_next_attempt :: time
  ld_payload :: dict
  ld_run :: string
  ld_request :: string
  ld_finished :: bool
  ld_outcome :: "string option"
  ld_ended :: "time option"

datatype performed = Done json | Defect string | Bad_moment string

record 'w ext =
  x_now :: "'w \<Rightarrow> time \<times> 'w"
  x_customer :: "string \<Rightarrow> string \<Rightarrow> ('w, customer_facts option) io"
  x_builtins :: "string list"
  x_params :: "string \<Rightarrow> (string \<times> bool) list option"
  x_builtin :: "string \<Rightarrow> json \<Rightarrow> dict \<Rightarrow> 'w \<Rightarrow> json option \<times> 'w"
  x_queue :: "message \<Rightarrow> 'w \<Rightarrow> sent \<times> 'w"
  x_template :: "string \<Rightarrow> ('w, call_template option) io"
  x_config :: "string \<Rightarrow> ('w, rat option) io"
  x_lead_id :: "string \<Rightarrow> string"
  x_create_lead :: "lead \<Rightarrow> 'w \<Rightarrow> made \<times> 'w"
  x_find_lead :: "string \<Rightarrow> ('w, bool) io"
  x_stamp_lead :: "string \<Rightarrow> string \<Rightarrow> ('w, unit) io"
  x_action_names :: "string \<Rightarrow> string list"
  x_action_bad :: "string \<Rightarrow> string \<Rightarrow> dict \<Rightarrow> string list"
  x_perform :: "string \<Rightarrow> string \<Rightarrow> string \<Rightarrow> dict \<Rightarrow> string \<Rightarrow> string \<Rightarrow> 'w \<Rightarrow> performed \<times> 'w"
  x_has_event :: "string \<Rightarrow> string \<Rightarrow> string list \<Rightarrow> time \<Rightarrow> (string \<times> string) option \<Rightarrow> ('w, bool) io"
  x_latest_event :: "string \<Rightarrow> string \<Rightarrow> string list \<Rightarrow> time \<Rightarrow> (string \<times> string) option \<Rightarrow> ('w, letter option) io"
  x_status :: "string \<Rightarrow> string \<Rightarrow> ('w, string option) io"
  x_document :: "string \<Rightarrow> string \<Rightarrow> int \<Rightarrow> ('w, workflow_definition option) io"
  x_jitter :: "'w \<Rightarrow> rat \<times> 'w"

definition now_io :: "'w ext \<Rightarrow> ('w, time) io" where
  "now_io X = (\<lambda>w. case x_now X w of (t, w') \<Rightarrow> (Ok t, w'))"

section \<open>Facts\<close>

lemma io_bind_Ok [simp]: "m w = (Ok x, w') \<Longrightarrow> io_bind m f w = f x w'"
  by (simp add: io_bind_def)

lemma io_bind_Park [simp]: "m w = (Park e, w') \<Longrightarrow> io_bind m f w = (Park e, w')"
  by (simp add: io_bind_def)

lemma io_bind_Fail [simp]: "m w = (Fail e, w') \<Longrightarrow> io_bind m f w = (Fail e, w')"
  by (simp add: io_bind_def)

lemma io_return_simp [simp]: "io_return x w = (Ok x, w)"
  by (simp add: io_return_def)

lemma io_park_simp [simp]: "io_park e w = (Park e, w)"
  by (simp add: io_park_def)

lemma io_fail_simp [simp]: "io_fail e w = (Fail e, w)"
  by (simp add: io_fail_def)

lemma io_bind_eq_Ok:
  "io_bind m f w = (Ok y, w'') \<longleftrightarrow> (\<exists>x w'. m w = (Ok x, w') \<and> f x w' = (Ok y, w''))"
  by (auto simp: io_bind_def split: prod.splits outcome.splits)

lemma io_bind_return [simp]: "io_bind (io_return x) f = f x"
  by (simp add: io_bind_def io_return_def)

lemma bind_sum_Ok:
  assumes "io_bind m (\<lambda>(a, b). case g a of Inl e \<Rightarrow> io_park (p e) | Inr v \<Rightarrow> q a b v) w = (Ok y, w')"
  shows "\<exists>a b v w1. m w = (Ok (a, b), w1) \<and> g a = Inr v \<and> q a b v w1 = (Ok y, w')"
proof -
  obtain a b w1 where m: "m w = (Ok (a, b), w1)"
      and c: "(case g a of Inl e \<Rightarrow> io_park (p e) | Inr v \<Rightarrow> q a b v) w1 = (Ok y, w')"
    using assms by (auto simp: io_bind_eq_Ok)
  show ?thesis using m c by (cases "g a") auto
qed

lemma bind_option_Ok:
  assumes "io_bind m (\<lambda>x. case x of None \<Rightarrow> io_park e | Some t \<Rightarrow> q t) w = (Ok y, w')"
  shows "\<exists>t w1. m w = (Ok (Some t), w1) \<and> q t w1 = (Ok y, w')"
proof -
  obtain x w1 where m: "m w = (Ok x, w1)"
      and c: "(case x of None \<Rightarrow> io_park e | Some t \<Rightarrow> q t) w1 = (Ok y, w')"
    using assms by (auto simp: io_bind_eq_Ok)
  show ?thesis using m c by (cases x) auto
qed

lemma io_map_length: "io_map f xs w = (Ok ys, w') \<Longrightarrow> length ys = length xs"
  by (induction xs arbitrary: ys w) (auto simp: io_bind_eq_Ok)

text \<open>An execution that no step of which fails otherwise ends in a value or parks.\<close>

definition never_fails :: "('w, 'a) io \<Rightarrow> bool" where
  "never_fails m \<longleftrightarrow> (\<forall>w e w'. m w \<noteq> (Fail e, w'))"

lemma never_fails_bind:
  "never_fails m \<Longrightarrow> (\<And>x. never_fails (f x)) \<Longrightarrow> never_fails (io_bind m f)"
  by (auto simp: never_fails_def io_bind_def split: prod.splits outcome.splits)

lemma never_fails_return [simp]: "never_fails (io_return x)"
  by (simp add: never_fails_def)

lemma never_fails_park [simp]: "never_fails (io_park e)"
  by (simp add: never_fails_def)

lemma never_fails_map: "(\<And>x. x \<in> set xs \<Longrightarrow> never_fails (f x)) \<Longrightarrow> never_fails (io_map f xs)"
  by (induction xs) (simp_all add: never_fails_bind)

end
