(* ===== verification/Playbook.thy ===== *)
theory Playbook
  imports Effects "HOL-Library.List_Lexorder" "HOL-Library.Char_ord"
begin

text \<open>
  The playbook, \<open>app/crm/outreach/playbook.py\<close>, and the seam through which a square asks for its
  blocks, \<open>nodes/blocks.py\<close>: the holes of a line, the choice of a row, the rendering of the lines
  it names, and the laws publish judges a playbook by (a problem is a constructor where the code
  builds a sentence).
\<close>

section \<open>Lines and holes\<close>

datatype piece = Text char | Hole string

definition ident_char :: "char \<Rightarrow> bool" where
  "ident_char c \<longleftrightarrow> is_alpha c \<or> is_digit c \<or> c = CHR ''_''"

text \<open>The matches of \<open>\{([A-Za-z_][A-Za-z0-9_]*)\}\<close> from the left, and the text between.\<close>

function pieces :: "string \<Rightarrow> piece list" where
  "pieces [] = []"
| "pieces (c # s) =
     (let name = takeWhile ident_char s; rest = dropWhile ident_char s
      in if c = CHR ''{'' \<and> is_ident name \<and> take 1 rest = ''}''
         then Hole name # pieces (drop 1 rest)
         else Text c # pieces s)"
  by pat_completeness auto
termination
proof (relation "measure length")
  fix c :: char and s name rest
  assume "rest = dropWhile ident_char s"
  then have "length rest \<le> length s" by (simp add: length_dropWhile_le)
  then show "(drop 1 rest, c # s) \<in> measure length" by simp
qed auto

fun holes_of :: "piece list \<Rightarrow> string list" where
  "holes_of [] = []"
| "holes_of (Hole h # ps) = h # holes_of ps"
| "holes_of (Text c # ps) = holes_of ps"

definition holes_in :: "string \<Rightarrow> string list" where
  "holes_in s = holes_of (pieces s)"

fun fill_pieces :: "(string \<Rightarrow> string) \<Rightarrow> piece list \<Rightarrow> string" where
  "fill_pieces f [] = []"
| "fill_pieces f (Text c # ps) = c # fill_pieces f ps"
| "fill_pieces f (Hole h # ps) = f h @ fill_pieces f ps"

fun names_said :: "say \<Rightarrow> string list" where
  "names_said (Line l) = [l]"
| "names_said (Lines ls) = ls"

definition is_lines :: "say \<Rightarrow> bool" where
  "is_lines x = (case x of Lines _ \<Rightarrow> True | Line _ \<Rightarrow> False)"

section \<open>What a document declares\<close>

definition block_names :: "workflow_definition \<Rightarrow> string list" where
  "block_names d = (case d_playbook d of None \<Rightarrow> [] | Some pb \<Rightarrow> map fst (pb_blocks pb))"

definition line_holes :: "workflow_definition \<Rightarrow> string list" where
  "line_holes d = (case d_playbook d of None \<Rightarrow> []
     | Some pb \<Rightarrow> concat (map (\<lambda>(l, text). holes_in text) (pb_lines pb)))"

definition multiline_blocks :: "workflow_definition \<Rightarrow> string list" where
  "multiline_blocks d = (case d_playbook d of None \<Rightarrow> []
     | Some pb \<Rightarrow> map fst (filter (\<lambda>(name, rows). list_ex (\<lambda>r. is_lines (b_say r)) rows) (pb_blocks pb)))"

definition block_needs_customer :: "workflow_definition \<Rightarrow> string list \<Rightarrow> bool" where
  "block_needs_customer d wanted = (case d_playbook d of None \<Rightarrow> False
     | Some pb \<Rightarrow> list_ex (\<lambda>name. case map_of (pb_blocks pb) name of None \<Rightarrow> False
         | Some rows \<Rightarrow> list_ex (\<lambda>r. list_ex (\<lambda>c. prefix_of customer_prefix (c_field c)) (b_when r)) rows)
       wanted)"

section \<open>The laws of publish\<close>

datatype playbook_problem =
    Unread_transform string
  | Unknown_builtin string string
  | List_builtin string string
  | Missing_argument string string string
  | Spare_param string string
  | Block_is_bookkeeping string
  | Block_is_reserved string
  | Blocks_on_no_call string
  | Unknown_block string string
  | Many_lines_in_blank string string
  | Block_without_rows string
  | Last_row_conditional string
  | Early_default string nat
  | Row_field string nat field_problem
  | Unknown_line string nat string
  | Blank_line string
  | Broken_line string

definition reserved_payload_keys :: "string list" where
  "reserved_payload_keys = [''customer_mobile_number'', ''reporting_webhook_url'']"

definition list_only :: "string list" where "list_only = [''format_array'']"

definition accepted :: "'w ext \<Rightarrow> string \<Rightarrow> dict \<Rightarrow> dict" where
  "accepted X fn params =
     (case x_params X fn of None \<Rightarrow> []
      | Some ps \<Rightarrow> filter (\<lambda>(k, v). k \<in> fst ` set ps) params)"

definition missing_arguments :: "'w ext \<Rightarrow> string \<Rightarrow> dict \<Rightarrow> string list" where
  "missing_arguments X fn params =
     (case x_params X fn of None \<Rightarrow> []
      | Some ps \<Rightarrow> map fst (filter (\<lambda>(k, required). required \<and> k \<notin> fst ` set params) ps))"

definition transform_problems :: "'w ext \<Rightarrow> string \<Rightarrow> transform \<Rightarrow> playbook_problem list" where
  "transform_problems X fname t =
     concat (map (\<lambda>fn.
        if fn \<notin> set (x_builtins X) then [Unknown_builtin fname fn]
        else if fn \<in> set list_only then [List_builtin fname fn]
        else map (Missing_argument fname fn) (missing_arguments X fn (t_params t))) (t_function t))
     @ map (Spare_param fname)
        (sort (filter (\<lambda>k. \<not> list_ex (\<lambda>fn. fn \<in> set (x_builtins X) \<and>
             (case x_params X fn of None \<Rightarrow> False | Some ps \<Rightarrow> k \<in> fst ` set ps)) (t_function t))
          (map fst (t_params t))))"

definition row_problems ::
    "playbook \<Rightarrow> string list \<Rightarrow> string \<Rightarrow> nat \<Rightarrow> block_row \<Rightarrow> playbook_problem list" where
  "row_problems pb ids name i r =
     concat (map (\<lambda>f. map (Row_field name i) (field_problems f ids)) (sort (remdups (map c_field (b_when r)))))
     @ map (Unknown_line name i) (filter (\<lambda>l. l \<notin> fst ` set (pb_lines pb)) (names_said (b_say r)))"

definition block_problems ::
    "playbook \<Rightarrow> string list \<Rightarrow> string \<Rightarrow> block_row list \<Rightarrow> playbook_problem list" where
  "block_problems pb ids name rows =
     (if rows = [] then [Block_without_rows name]
      else (if b_when (last rows) \<noteq> [] then [Last_row_conditional name] else [])
         @ concat (map (\<lambda>(i, r). if b_when r = [] then [Early_default name i] else [])
                     (zip [0..<length rows - 1] (butlast rows)))
         @ concat (map (\<lambda>(i, r). row_problems pb ids name i r) (zip [0..<length rows] rows)))"

definition node_problems :: "playbook \<Rightarrow> node \<Rightarrow> playbook_problem list" where
  "node_problems pb nd =
     (if n_blocks nd \<noteq> [] \<and> n_type nd \<noteq> Call then [Blocks_on_no_call (n_id nd)] else [])
     @ map (Unknown_block (n_id nd)) (filter (\<lambda>b. b \<notin> fst ` set (pb_blocks pb)) (n_blocks nd))"

definition line_problems :: "string \<Rightarrow> string \<Rightarrow> playbook_problem list" where
  "line_problems l text =
     (if strip text = [] \<and> text \<noteq> [] then [Blank_line l] else [])
     @ (if has_line_break text then [Broken_line l] else [])"

definition playbook_laws :: "'w ext \<Rightarrow> workflow_definition \<Rightarrow> playbook_problem list" where
  "playbook_laws X d = (case d_playbook d of None \<Rightarrow> []
     | Some pb \<Rightarrow>
        map Unread_transform (sort (filter (\<lambda>f. f \<notin> set (line_holes d)) (map fst (pb_transform pb))))
        @ concat (map (\<lambda>(f, t). transform_problems X f t) (sort_key fst (pb_transform pb)))
        @ concat (map (\<lambda>name.
             (if is_bookkeeping name then [Block_is_bookkeeping name] else [])
             @ (if name \<in> set reserved_payload_keys then [Block_is_reserved name] else []))
             (sort (map fst (pb_blocks pb))))
        @ concat (map (node_problems pb) (d_nodes d))
        @ concat (map (\<lambda>nd. concat (map (\<lambda>(blk, f).
             if f \<in> set (multiline_blocks d) then [Many_lines_in_blank (n_id nd) blk] else [])
             (n_variables nd))) (d_nodes d))
        @ concat (map (\<lambda>(name, rows). block_problems pb (map n_id (d_nodes d)) name rows) (pb_blocks pb))
        @ concat (map (\<lambda>(l, text). line_problems l text) (sort_key fst (pb_lines pb))))"

section \<open>Rendering\<close>

definition pick_row :: "lib \<Rightarrow> block_row list \<Rightarrow> (string \<Rightarrow> json) \<Rightarrow> block_row" where
  "pick_row L rows lookup =
     (case find (\<lambda>r. matches L (b_when r) lookup) rows of Some r \<Rightarrow> r | None \<Rightarrow> last rows)"

definition hole_value :: "json \<Rightarrow> bool" where
  "hole_value v = (case v of JStr _ \<Rightarrow> True | JInt _ \<Rightarrow> True | JDec _ _ \<Rightarrow> True | _ \<Rightarrow> False)"

text \<open>The pipeline; \<open>None\<close> when a built-in is unknown or raised, and the value stays raw.\<close>

fun run_builtins :: "'w ext \<Rightarrow> dict \<Rightarrow> string list \<Rightarrow> json \<Rightarrow> 'w \<Rightarrow> json option \<times> 'w" where
  "run_builtins X params [] v w = (Some v, w)"
| "run_builtins X params (fn # fns) v w =
     (if fn \<notin> set (x_builtins X) then (None, w)
      else case x_builtin X fn v (accepted X fn params) w of
             (None, w') \<Rightarrow> (None, w')
           | (Some v', w') \<Rightarrow> run_builtins X params fns v' w')"

definition hole_text :: "json \<Rightarrow> json option \<Rightarrow> string" where
  "hole_text v rendered =
     (case rendered of None \<Rightarrow> py_str v
      | Some r \<Rightarrow> (if strip (py_str r) \<noteq> [] then py_str r else py_str v))"

definition answer_hole ::
    "'w ext \<Rightarrow> dict \<Rightarrow> string \<Rightarrow> (string \<times> transform) list \<Rightarrow> string \<Rightarrow> ('w, string) io" where
  "answer_hole X facts line tr h =
     (let v = dget facts h in
      if \<not> hole_value v
      then io_park (''playbook line '' @ repr_text line @ '': {'' @ h @ ''} has no value on this run'')
      else (\<lambda>w. case map_of tr h of
                  None \<Rightarrow> (Ok (hole_text v (Some v)), w)
                | Some t \<Rightarrow> (case run_builtins X (t_params t) (t_function t) v w of
                    (r, w') \<Rightarrow> (Ok (hole_text v r), w'))))"

text \<open>Each fact renders once per line; \<open>remdups\<close> of the reversed list keeps first places.\<close>

definition fill_line ::
    "'w ext \<Rightarrow> dict \<Rightarrow> (string \<times> transform) list \<Rightarrow> string \<Rightarrow> string \<Rightarrow> ('w, string) io" where
  "fill_line X facts tr line text =
     (let firsts = rev (remdups (rev (holes_in text)))
      in io_bind (io_map (answer_hole X facts line tr) firsts)
           (\<lambda>answers. io_return (fill_pieces (\<lambda>h. the (map_of (zip firsts answers) h)) (pieces text))))"

definition step_line :: "string \<Rightarrow> string \<Rightarrow> string" where
  "step_line name text = ''- '' @ name @ '': '' @ [CHR 0x22] @ text @ [CHR 0x22]"

definition render_say ::
    "'w ext \<Rightarrow> playbook \<Rightarrow> dict \<Rightarrow> say \<Rightarrow> ('w, string) io" where
  "render_say X pb facts x =
     io_bind (io_map (\<lambda>line. case map_of (pb_lines pb) line of
                 None \<Rightarrow> io_fail (''KeyError: '' @ line)
               | Some text \<Rightarrow> fill_line X facts (pb_transform pb) line text) (names_said x))
       (\<lambda>rendered. io_return (if is_lines x
          then join_with [CHR 0x0A] (map (\<lambda>(l, t). step_line l t) (zip (names_said x) rendered))
          else hd rendered))"

definition said_name :: "say \<Rightarrow> string" where
  "said_name x = (case x of Line l \<Rightarrow> l | Lines ls \<Rightarrow> join_with '','' ls)"

text \<open>(rendered, chosen), the blocks in the order they are asked for.\<close>

fun resolve_blocks ::
    "lib \<Rightarrow> 'w ext \<Rightarrow> playbook \<Rightarrow> (string \<Rightarrow> json) \<Rightarrow> dict \<Rightarrow> string list \<Rightarrow> dict \<times> dict
     \<Rightarrow> ('w, dict \<times> dict) io" where
  "resolve_blocks L X pb lookup facts [] acc = io_return acc"
| "resolve_blocks L X pb lookup facts (name # names) (out, chosen) =
     (case map_of (pb_blocks pb) name of
        None \<Rightarrow> resolve_blocks L X pb lookup facts names (out, chosen)
      | Some rows \<Rightarrow>
         (if rows = [] then resolve_blocks L X pb lookup facts names (out, chosen)
          else let row = pick_row L rows lookup
               in io_bind (render_say X pb facts (b_say row)) (\<lambda>text.
                    resolve_blocks L X pb lookup facts names
                      (AList.update name (JStr text) out,
                       AList.update name (JStr (said_name (b_say row))) chosen))))"

definition resolve ::
    "lib \<Rightarrow> 'w ext \<Rightarrow> workflow_definition \<Rightarrow> string list \<Rightarrow> dict \<Rightarrow> dict \<Rightarrow> customer_facts option
     \<Rightarrow> run_lens option \<Rightarrow> time \<Rightarrow> ('w, dict \<times> dict) io" where
  "resolve L X d wanted facts stage_facts customer run now = (case d_playbook d of
     None \<Rightarrow> io_return ([], [])
   | Some pb \<Rightarrow> resolve_blocks L X pb (lookup_field L now facts stage_facts customer run) facts wanted ([], []))"

section \<open>The seam\<close>

definition run_lens_of :: "run \<Rightarrow> workflow_definition \<Rightarrow> run_lens" where
  "run_lens_of r d = \<lparr>rl_context = r_context r, rl_exits = d_exits d\<rparr>"

text \<open>The clock is read where \<open>run.max_calls_reached\<close> asks for it.\<close>

definition blocks_for ::
    "lib \<Rightarrow> 'w ext \<Rightarrow> run \<Rightarrow> node \<Rightarrow> workflow_definition \<Rightarrow> string list \<Rightarrow> ('w, dict \<times> dict) io" where
  "blocks_for L X r nd d asked = (case d_playbook d of
     None \<Rightarrow> io_return ([], [])
   | Some pb \<Rightarrow>
      (let wanted = filter (\<lambda>n. n \<in> fst ` set (pb_blocks pb)) asked
       in if wanted = [] then io_return ([], [])
          else io_bind (if block_needs_customer d wanted
                        then x_customer X (r_merchant r) (r_customer r) else io_return None) (\<lambda>customer.
               io_bind (now_io X) (\<lambda>now.
                 resolve L X d wanted (run_facts (r_context r) (Some nd))
                   (obj_or_empty (dget (r_context r) ''facts'')) customer
                   (Some (run_lens_of r d)) now))))"

section \<open>A published playbook renders\<close>

definition total_io :: "('w, 'a) io \<Rightarrow> bool" where
  "total_io m \<longleftrightarrow> (\<forall>w. \<exists>y w'. m w = (Ok y, w'))"

lemma total_return [simp]: "total_io (io_return x)"
  by (simp add: total_io_def)

lemma total_bind: "total_io m \<Longrightarrow> (\<And>x. total_io (f x)) \<Longrightarrow> total_io (io_bind m f)"
  unfolding total_io_def by (metis io_bind_Ok)

lemma total_map: "(\<And>x. x \<in> set xs \<Longrightarrow> total_io (f x)) \<Longrightarrow> total_io (io_map f xs)"
  by (induction xs) (simp_all add: total_bind)

lemma total_answer: "hole_value (dget facts h) \<Longrightarrow> total_io (answer_hole X facts line tr h)"
  by (auto simp: total_io_def answer_hole_def Let_def split: option.splits prod.splits)

lemma total_fill:
  assumes "\<And>h. h \<in> set (holes_in text) \<Longrightarrow> hole_value (dget facts h)"
  shows "total_io (fill_line X facts tr line text)"
  unfolding fill_line_def Let_def
  by (intro total_bind total_map total_return total_answer assms) simp

definition lines_fill :: "playbook \<Rightarrow> dict \<Rightarrow> bool" where
  "lines_fill pb facts \<longleftrightarrow> (\<forall>(l, text) \<in> set (pb_lines pb). \<forall>h\<in>set (holes_in text). hole_value (dget facts h))"

lemma total_render:
  assumes "lines_fill pb facts" and "\<And>l. l \<in> set (names_said x) \<Longrightarrow> l \<in> fst ` set (pb_lines pb)"
  shows "total_io (render_say X pb facts x)"
  unfolding render_say_def
proof (intro total_bind total_map total_return)
  fix l assume "l \<in> set (names_said x)"
  then obtain tx where t: "map_of (pb_lines pb) l = Some tx"
    using assms(2) map_of_eq_None_iff [of "pb_lines pb" l] by fastforce
  then have "(l, tx) \<in> set (pb_lines pb)" by (rule map_of_SomeD)
  then show "total_io (case map_of (pb_lines pb) l of None \<Rightarrow> io_fail (''KeyError: '' @ l)
      | Some text \<Rightarrow> fill_line X facts (pb_transform pb) l text)"
    using t by (simp, intro total_fill) (use assms(1) in \<open>fastforce simp: lines_fill_def\<close>)
qed

lemma pick_row_in: "rows \<noteq> [] \<Longrightarrow> pick_row L rows lookup \<in> set rows"
  using find_Some_set [of _ rows] by (fastforce simp: pick_row_def split: option.splits)

text \<open>With an unconditional last row the choice is the first row that holds.\<close>

lemma pick_row_first:
  assumes "rows \<noteq> []" and "b_when (last rows) = []"
  shows "\<exists>i < length rows. pick_row L rows lookup = rows ! i \<and> matches L (b_when (rows ! i)) lookup
    \<and> (\<forall>j < i. \<not> matches L (b_when (rows ! j)) lookup)"
proof -
  have "matches L (b_when (last rows)) lookup" using assms(2) by simp
  then have "find (\<lambda>r. matches L (b_when r) lookup) rows \<noteq> None"
    using assms(1) by (auto simp: find_None_iff_set)
  then obtain r where r: "find (\<lambda>r. matches L (b_when r) lookup) rows = Some r" by blast
  then have "pick_row L rows lookup = r" by (simp add: pick_row_def)
  moreover obtain i where "i < length rows" "matches L (b_when (rows ! i)) lookup" "r = rows ! i"
      "\<forall>j < i. \<not> matches L (b_when (rows ! j)) lookup"
    using r unfolding find_Some_iff by blast
  ultimately show ?thesis by blast
qed

lemma laws_lines_known:
  assumes "d_playbook d = Some pb" and "playbook_laws X d = []"
    and "(name, rows) \<in> set (pb_blocks pb)"
  shows "rows \<noteq> [] \<and> b_when (last rows) = []
    \<and> (\<forall>r\<in>set rows. \<forall>l\<in>set (names_said (b_say r)). l \<in> fst ` set (pb_lines pb))"
proof -
  let ?ids = "map n_id (d_nodes d)"
  have none: "block_problems pb ?ids name rows = []"
    using assms by (fastforce simp: playbook_laws_def)
  then have rows: "rows \<noteq> []" "b_when (last rows) = []"
    by (auto simp: block_problems_def split: if_splits)
  have row: "row_problems pb ?ids name i r = []" if "(i, r) \<in> set (zip [0..<length rows] rows)" for i r
    using none rows that by (auto simp: block_problems_def)
  then have "row_problems pb ?ids name i (rows ! i) = []" if "i < length rows" for i
  proof -
    have "(i, rows ! i) \<in> set (zip [0..<length rows] rows)"
      unfolding set_zip using that by (intro CollectI exI [of _ i]) simp
    then show ?thesis by (rule row)
  qed
  then have "\<forall>l\<in>set (names_said (b_say r)). l \<in> fst ` set (pb_lines pb)" if "r \<in> set rows" for r
    using that by (fastforce simp: in_set_conv_nth row_problems_def filter_empty_conv)
  with rows show ?thesis by blast
qed

lemma resolve_blocks_ok:
  assumes "d_playbook d = Some pb" and "playbook_laws X d = []" and "lines_fill pb facts"
    and "set names \<subseteq> fst ` set (pb_blocks pb)"
  shows "\<exists>out' chosen' w'. resolve_blocks L X pb lookup facts names (out, chosen) w = (Ok (out', chosen'), w')
    \<and> fst ` set out' = fst ` set out \<union> set names \<and> fst ` set chosen' = fst ` set chosen \<union> set names"
  using assms(4)
proof (induction names arbitrary: out chosen w)
  case (Cons name names)
  obtain rows where rows: "map_of (pb_blocks pb) name = Some rows"
    using Cons.prems map_of_eq_None_iff [of "pb_blocks pb" name] by fastforce
  have ok: "rows \<noteq> []" "\<And>r l. r \<in> set rows \<Longrightarrow> l \<in> set (names_said (b_say r)) \<Longrightarrow> l \<in> fst ` set (pb_lines pb)"
    using laws_lines_known [OF assms(1,2) map_of_SomeD [OF rows]] by blast+
  let ?row = "pick_row L rows lookup"
  have "total_io (render_say X pb facts (b_say ?row))"
    by (rule total_render [OF assms(3)]) (use ok pick_row_in in blast)
  then obtain tx w1 where t: "render_say X pb facts (b_say ?row) w = (Ok tx, w1)"
    unfolding total_io_def by blast
  let ?out = "AList.update name (JStr tx) out"
  let ?chosen = "AList.update name (JStr (said_name (b_say ?row))) chosen"
  have keys: "fst ` set ?out = insert name (fst ` set out)" "fst ` set ?chosen = insert name (fst ` set chosen)"
    by (rule keys_update)+
  have "set names \<subseteq> fst ` set (pb_blocks pb)" using Cons.prems by simp
  from Cons.IH [OF this, of ?out ?chosen w1]
  obtain out' chosen' w' where r: "resolve_blocks L X pb lookup facts names (?out, ?chosen) w1 = (Ok (out', chosen'), w')"
    "fst ` set out' = insert name (fst ` set out) \<union> set names"
    "fst ` set chosen' = insert name (fst ` set chosen) \<union> set names"
    unfolding keys by (elim exE conjE) (rule that)
  have "resolve_blocks L X pb lookup facts (name # names) (out, chosen) w = (Ok (out', chosen'), w')"
    by (simp only: resolve_blocks.simps rows option.case ok(1) if_False Let_def t io_bind_Ok [where m = "render_say X pb facts (b_say ?row)" and w = w, OF t] r(1))
  with r(2,3) show ?case by auto
qed simp

text \<open>
  C5 A playbook that passed publish always renders: where every fact its lines ask for has a
  value on the run, the blocks a square asked for all come back with their text and with the name
  of the row that won, and never end in an error; publish has excluded a block without a default
  row and a row that names a line that is not there.
\<close>

theorem published_playbook_renders:
  assumes "d_playbook d = Some pb" and "playbook_laws X d = []" and "lines_fill pb facts"
    and "set wanted \<subseteq> fst ` set (pb_blocks pb)"
  shows "\<exists>out chosen w'. resolve L X d wanted facts stage customer lens now w = (Ok (out, chosen), w')
    \<and> fst ` set out = set wanted \<and> fst ` set chosen = set wanted"
  using resolve_blocks_ok [OF assms, of L "lookup_field L now facts stage customer lens" "[]" "[]" w]
  by (simp add: resolve_def assms(1))

definition sample_playbook :: playbook where
  "sample_playbook =
     \<lparr>pb_lines = [(''hello'', ''Hi {name}, your cart waits''), (''plain'', ''Your cart waits'')],
      pb_blocks = [(''opening'', [\<lparr>b_when = [\<lparr>c_field = ''context.name'', c_op = Exists, c_value = JNull\<rparr>],
                                  b_say = Line ''hello''\<rparr>,
                                 \<lparr>b_when = [], b_say = Line ''plain''\<rparr>])],
      pb_transform = []\<rparr>"

definition sample_plan :: workflow_definition where
  "sample_plan =
     \<lparr>d_entry = Single \<lparr>e_topic = ''cart'', e_where = [], e_reenter = False, e_cooldown_hours = 24,
        e_key = None, e_on_repeat = ''ignore'', e_debounce_minutes = 0, e_restart_on_repeat = False\<rparr>,
      d_nodes = [(blank_node ''call1'' Call)\<lparr>n_template_id := Some ''t'', n_blocks := [''opening'']\<rparr>],
      d_edges = [], d_goals = [],
      d_exits = \<lparr>x_max_age_days = 7, x_max_calls_per_day = None, x_timezone = None\<rparr>,
      d_on_publish = Pin, d_playbook = Some sample_playbook, d_purpose_key = None\<rparr>"

definition quiet_ext :: "unit ext" where
  "quiet_ext =
     \<lparr>x_now = (\<lambda>w. (0, w)), x_customer = (\<lambda>m c. io_return None), x_builtins = [],
      x_params = (\<lambda>_. None), x_builtin = (\<lambda>_ v _ w. (Some v, w)),
      x_queue = (\<lambda>m w. (Queued ''msg1'', w)), x_template = (\<lambda>i. io_return None),
      x_config = (\<lambda>i. io_return None), x_lead_id = (\<lambda>s. s), x_create_lead = (\<lambda>l w. (Lead_made, w)),
      x_find_lead = (\<lambda>i. io_return False), x_stamp_lead = (\<lambda>a b. io_return ()),
      x_action_names = (\<lambda>_. []), x_action_bad = (\<lambda>_ _ _. []),
      x_perform = (\<lambda>m c a g r n w. (Done JNull, w)),
      x_has_event = (\<lambda>m c t s k. io_return False), x_latest_event = (\<lambda>m c t s k. io_return None),
      x_status = (\<lambda>m i. io_return (Some ''live'')), x_document = (\<lambda>m i v. io_return None),
      x_jitter = (\<lambda>w. (1, w))\<rparr>"

lemma published_playbook_renders_witness:
  "playbook_laws quiet_ext sample_plan = [] \<and>
   (\<exists>out chosen w'. resolve india_lib quiet_ext sample_plan [''opening''] [(''name'', JStr ''Priya'')] [] None None 0 ()
       = (Ok (out, chosen), w') \<and> fst ` set out = {''opening''} \<and> fst ` set chosen = {''opening''})"
proof -
  have laws: "playbook_laws quiet_ext sample_plan = []"
    by code_simp
  have fill: "lines_fill sample_playbook [(''name'', JStr ''Priya'')]"
    by code_simp
  have pb: "d_playbook sample_plan = Some sample_playbook" by (simp add: sample_plan_def)
  have w: "set [''opening''] \<subseteq> fst ` set (pb_blocks sample_playbook)" by (simp add: sample_playbook_def)
  show ?thesis
    using laws published_playbook_renders [OF pb laws fill w, of india_lib "[]" None None 0 "()"] by simp
qed

end
