(* ===== verification/Squares.thy ===== *)
theory Squares
  imports Playbook
begin

text \<open>
  The node vocabulary, \<open>app/crm/outreach/nodes\<close>: which squares wait, listen and branch
  (\<open>__init__.py\<close>), the laws each word is published by and what it does when the token lands on it
  (\<open>wait.py\<close>, \<open>condition.py\<close>, \<open>split.py\<close>, \<open>send.py\<close>, \<open>call.py\<close>, \<open>action.py\<close>).  An \<open>execute\<close>
  returns the patch of the run's context; a \<open>NodeParked\<close> is \<open>Park\<close>, any other exception \<open>Fail\<close>.
\<close>

section \<open>The registry\<close>

definition is_wait :: "node \<Rightarrow> bool" where
  "is_wait nd \<longleftrightarrow> n_type nd = Wait"

definition listens :: "node \<Rightarrow> bool" where
  "listens nd \<longleftrightarrow> is_wait nd \<and> n_topics nd \<noteq> []"

definition branches :: "node \<Rightarrow> bool" where
  "branches nd \<longleftrightarrow> n_type nd = Condition \<or> n_type nd = Split \<or> listens nd"

definition topic_key :: string where "topic_key = ''$topic''"
definition timeout_word :: string where "timeout_word = ''timeout''"
definition else_word :: string where "else_word = ''else''"

definition arrow_labels :: "node \<Rightarrow> workflow_definition \<Rightarrow> string option list" where
  "arrow_labels nd d = map snd (outgoing d (n_id nd))"

datatype node_problem =
    Bad_minutes | Topics_need_key | Unknown_dollar_key | Key_without_topics | Waits_for_nothing
  | No_rules | Label_twice string | Rule_field field_problem | Rule_without_edge string | No_else_edge
  | Too_few_arms | Dead_arm string | Shares_not_whole int | Arm_without_edge string
  | Send_needs_template | Send_needs_channel | Send_needs_purpose | Blank_name string string | Mixed_blanks
  | Call_needs_template | Action_needs_connector | Action_needs_action | No_such_connector
  | No_such_action | Bad_args "string list"

section \<open>Wait\<close>

definition validate_wait :: "node \<Rightarrow> workflow_definition \<Rightarrow> node_problem list" where
  "validate_wait nd d =
     (case n_minutes nd of None \<Rightarrow> [] | Some m \<Rightarrow> (if 0 < m then [] else [Bad_minutes]))
     @ (if n_topics nd \<noteq> [] then
          (if \<not> opt_text (n_key nd) then [Topics_need_key]
           else if prefix_of ''$'' (the (n_key nd)) \<and> the (n_key nd) \<noteq> topic_key then [Unknown_dollar_key]
           else [])
        else
          (if opt_text (n_key nd) then [Key_without_topics] else [])
          @ (if n_minutes nd = None \<and> n_window nd = None then [Waits_for_nothing] else []))"

section \<open>Condition\<close>

fun labels_twice :: "string list \<Rightarrow> string list \<Rightarrow> node_problem list" where
  "labels_twice seen [] = []"
| "labels_twice seen (l # ls) =
     (if l \<in> set seen then [Label_twice l] else []) @ labels_twice (l # seen) ls"

definition validate_condition :: "node \<Rightarrow> workflow_definition \<Rightarrow> node_problem list" where
  "validate_condition nd d =
     (if n_rules nd = [] then [No_rules]
      else labels_twice [] (map ru_on (n_rules nd))
         @ concat (map (\<lambda>f. map Rule_field (field_problems f (map n_id (d_nodes d))))
             (sort (remdups (concat (map (\<lambda>r. map c_field (ru_if r)) (n_rules nd))))))
         @ map Rule_without_edge
             (filter (\<lambda>l. Some l \<notin> set (arrow_labels nd d)) (map ru_on (n_rules nd)))
         @ (if Some else_word \<notin> set (arrow_labels nd d) then [No_else_edge] else []))"

definition execute_condition ::
    "lib \<Rightarrow> 'w ext \<Rightarrow> run \<Rightarrow> node \<Rightarrow> workflow_definition \<Rightarrow> ('w, dict) io" where
  "execute_condition L X r nd d =
     io_bind (if needs_customer (n_rules nd) then x_customer X (r_merchant r) (r_customer r)
              else io_return None) (\<lambda>customer.
     io_bind (now_io X) (\<lambda>now.
       let chosen = choose_arm L now (n_rules nd) (run_facts (r_context r) (Some nd))
                      (obj_or_empty (dget (r_context r) ''facts'')) customer (Some (run_lens_of r d))
       in io_return [(reply_key (n_id nd), JStr (case chosen of Some l \<Rightarrow> l | None \<Rightarrow> else_word))]))"

section \<open>Split\<close>

definition buckets :: nat where "buckets = 100"
definition digest_chars :: nat where "digest_chars = 8"

definition hex_value :: "string \<Rightarrow> nat" where
  "hex_value s = fold (\<lambda>c n. 16 * n + (case hex_digit c of Some d \<Rightarrow> d | None \<Rightarrow> 0)) s 0"

definition bucket_of :: "lib \<Rightarrow> string \<Rightarrow> string \<Rightarrow> nat" where
  "bucket_of L run_id node_id =
     hex_value (take digest_chars (sha256_hex L (run_id @ '':'' @ node_id))) mod buckets"

fun arm_from :: "int \<Rightarrow> arm list \<Rightarrow> int \<Rightarrow> string option" where
  "arm_from cum [] b = None"
| "arm_from cum (a # as) b =
     (if b < cum + a_percent a then Some (a_on a) else arm_from (cum + a_percent a) as b)"

text \<open>\<open>None\<close> is the IndexError of \<open>arms[-1]\<close> on no arms.\<close>

definition arm_for :: "arm list \<Rightarrow> int \<Rightarrow> string option" where
  "arm_for as b = (case arm_from 0 as b of Some x \<Rightarrow> Some x
     | None \<Rightarrow> (if as = [] then None else Some (a_on (last as))))"

fun arm_problems :: "string list \<Rightarrow> arm list \<Rightarrow> node_problem list" where
  "arm_problems seen [] = []"
| "arm_problems seen (a # as) =
     (if a_on a \<in> set seen then [Label_twice (a_on a)] else [])
     @ (if a_percent a \<le> 0 then [Dead_arm (a_on a)] else [])
     @ arm_problems (a_on a # seen) as"

definition validate_split :: "node \<Rightarrow> workflow_definition \<Rightarrow> node_problem list" where
  "validate_split nd d =
     (if length (n_arms nd) < 2 then [Too_few_arms]
      else arm_problems [] (n_arms nd)
         @ (let total = sum_list (map a_percent (n_arms nd))
            in if total \<noteq> int buckets then [Shares_not_whole total] else [])
         @ map Arm_without_edge
             (filter (\<lambda>l. Some l \<notin> set (arrow_labels nd d)) (map a_on (n_arms nd))))"

definition execute_split ::
    "lib \<Rightarrow> 'w ext \<Rightarrow> run \<Rightarrow> node \<Rightarrow> workflow_definition \<Rightarrow> ('w, dict) io" where
  "execute_split L X r nd d =
     (case arm_for (n_arms nd) (int (bucket_of L (r_id r) (n_id nd))) of
        None \<Rightarrow> io_fail ''IndexError''
      | Some chosen \<Rightarrow> io_return [(reply_key (n_id nd), JStr chosen), (split_key (n_id nd), JStr chosen)])"

section \<open>Send\<close>

definition blank_text :: "string \<Rightarrow> bool" where
  "blank_text s \<longleftrightarrow> strip s = []"

definition variable_map_problems :: "node \<Rightarrow> node_problem list" where
  "variable_map_problems nd =
     map (\<lambda>(b, f). Blank_name b f) (filter (\<lambda>(b, f). blank_text b \<or> blank_text f) (n_variables nd))
     @ (let positional = filter (\<lambda>(b, f). all_digits b) (n_variables nd)
        in if positional \<noteq> [] \<and> length positional \<noteq> length (n_variables nd) then [Mixed_blanks] else [])"

definition validate_send :: "node \<Rightarrow> workflow_definition \<Rightarrow> node_problem list" where
  "validate_send nd d =
     (if opt_text (n_template nd) then [] else [Send_needs_template])
     @ (if opt_text (n_channel nd) then [] else [Send_needs_channel])
     @ (if opt_text (d_purpose_key d) then [] else [Send_needs_purpose])
     @ variable_map_problems nd"

definition in_square :: "string \<Rightarrow> node \<Rightarrow> string \<Rightarrow> string" where
  "in_square w nd e = w @ '' node '' @ n_id nd @ '': '' @ e"

definition map_error_text :: "map_error \<Rightarrow> string" where
  "map_error_text e = (case e of
     Missing_fact f \<Rightarrow> ''mapped fact '' @ repr_text f @
       '' is not in the run context - the entry event did not carry it''
   | Bad_value f \<Rightarrow> ''mapped fact '' @ repr_text f @ '' cannot be posted'')"

text \<open>The proposal to the manifest, and what its answers mean.\<close>

definition queue_send :: "'w ext \<Rightarrow> node \<Rightarrow> message \<Rightarrow> dict \<Rightarrow> ('w, dict) io" where
  "queue_send X nd m chosen w = (case x_queue X m w of
     (Queued i, w') \<Rightarrow>
       (Ok ((message_key (n_id nd), JStr i)
            # (if chosen \<noteq> [] then [(playbook_key (n_id nd), JObj chosen)] else [])), w')
   | (Already_queued, w') \<Rightarrow> (Ok [], w')
   | (Send_refused e, w') \<Rightarrow> (Park (in_square ''send'' nd e), w')
   | (Send_broken e, w') \<Rightarrow> (Fail e, w'))"

definition execute_send ::
    "lib \<Rightarrow> 'w ext \<Rightarrow> run \<Rightarrow> node \<Rightarrow> workflow_definition \<Rightarrow> ('w, dict) io" where
  "execute_send L X r nd d =
     (let phone = dget (r_context r) ''phone'' in
      if \<not> truthy phone then io_park (in_square ''send'' nd ''no phone in run context'')
      else if \<not> (opt_text (n_channel nd) \<and> opt_text (n_template nd))
        then io_park (in_square ''send'' nd ''needs channel and template'')
      else if \<not> opt_text (d_purpose_key d) then io_park (in_square ''send'' nd ''plan has no purpose_key'')
      else io_bind (blocks_for L X r nd d (map snd (n_variables nd))) (\<lambda>(rendered, chosen).
        case send_variables (n_variables nd) (r_context r) (Some nd) rendered of
          Inl e \<Rightarrow> io_park (in_square ''send'' nd (map_error_text e))
        | Inr variables \<Rightarrow> queue_send X nd
              \<lparr>m_merchant = r_merchant r, m_customer = r_customer r, m_channel = the (n_channel nd),
               m_address = py_str phone, m_source_id = r_id r, m_purpose = the (d_purpose_key d),
               m_template = the (n_template nd), m_variables = variables,
               m_dedupe = r_id r @ '':'' @ n_id nd\<rparr> chosen))"

section \<open>Call\<close>

definition validate_call :: "node \<Rightarrow> workflow_definition \<Rightarrow> node_problem list" where
  "validate_call nd d = (if opt_text (n_template_id nd) then [] else [Call_needs_template])"

definition visits_key :: "string \<Rightarrow> string" where
  "visits_key n = ''lead_visits_'' @ n"

definition visits_so_far :: "dict \<Rightarrow> string \<Rightarrow> int" where
  "visits_so_far context n = (case dget context (visits_key n) of
     JInt i \<Rightarrow> (if 0 \<le> i then i else 0) | JBool b \<Rightarrow> (if b then 1 else 0) | _ \<Rightarrow> 0)"

definition lead_name :: "string \<Rightarrow> string \<Rightarrow> int \<Rightarrow> string" where
  "lead_name run_id n visit = ''crm-workflow-lead:'' @ run_id @ '':'' @ n @ '':'' @ int_text visit"

definition aborted_outcome :: string where "aborted_outcome = ''ABORTED''"
definition max_calls_outcome :: string where "max_calls_outcome = ''max_calls''"

text \<open>The insert, the adoption of a lead a lost lease already made, and the stamp.\<close>

definition place_lead :: "'w ext \<Rightarrow> node \<Rightarrow> lead \<Rightarrow> ('w, unit) io" where
  "place_lead X nd ld =
     io_bind (\<lambda>w. case x_create_lead X ld w of
         (Lead_made, w') \<Rightarrow> (Ok True, w')
       | (Lead_none, w') \<Rightarrow> (Ok False, w')
       | (Lead_duplicate, w') \<Rightarrow> (Ok False, w')
       | (Lead_broken e, w') \<Rightarrow> (Fail e, w')) (\<lambda>made.
     io_bind (if made then io_return True else x_find_lead X (ld_id ld)) (\<lambda>there.
       if \<not> there then io_fail (in_square ''call'' nd ''lead insert returned None'')
       else x_stamp_lead X (ld_id ld) (ld_run ld)))"

text \<open>What a completed visit leaves on the run.\<close>

definition call_patch :: "lib \<Rightarrow> exits \<Rightarrow> time \<Rightarrow> bool \<Rightarrow> dict \<Rightarrow> string \<Rightarrow> string \<Rightarrow> int \<Rightarrow> dict \<Rightarrow> dict" where
  "call_patch L x day_now capped context n lead_id visit chosen =
     [(lead_key n, JStr lead_id), (visits_key n, JInt visit)]
     @ (if capped then [(outcome_key, JStr max_calls_outcome)]
        else if x_max_calls_per_day x \<noteq> None
          then [(calls_today_key, JObj [(''day'', JStr (today_on L x day_now)),
                   (''n'', JInt (calls_today context (today_on L x day_now) + 1))])]
        else [])
     @ (if chosen \<noteq> [] then [(playbook_key n, JObj chosen)] else [])"

text \<open>One visit of the square: the lead of this (run, square, visit), minted or adopted.\<close>

definition mint_call ::
    "lib \<Rightarrow> 'w ext \<Rightarrow> run \<Rightarrow> node \<Rightarrow> workflow_definition \<Rightarrow> call_template \<Rightarrow> rat \<Rightarrow> time \<Rightarrow> bool \<Rightarrow> ('w, dict) io" where
  "mint_call L X r nd d t offset_seconds day_now capped =
     (let visit = visits_so_far (r_context r) (n_id nd) + 1;
          lead_id = x_lead_id X (lead_name (r_id r) (n_id nd) visit) in
      io_bind (now_io X) (\<lambda>t3.
      io_bind (blocks_for L X r nd d (n_blocks nd)) (\<lambda>(rendered, chosen).
      io_bind (if capped then io_bind (now_io X) (\<lambda>t4. io_return (Some t4)) else io_return None) (\<lambda>ended.
      io_bind (place_lead X nd
        \<lparr>ld_id = lead_id, ld_template = ct_id t, ld_merchant = r_merchant r,
         ld_next_attempt = t3 + py_round (offset_seconds * of_int second_us),
         ld_payload = AList.update ''customer_mobile_number'' (dget (r_context r) ''phone'')
                        (dmerge (run_facts (r_context r) (Some nd)) rendered),
         ld_run = r_id r,
         ld_request = lead_request_id (r_context r) (r_id r)
           (if list_ex (\<lambda>dr. opt_text (e_key dr)) (doors d) then Some (r_key r) else None),
         ld_finished = capped, ld_outcome = (if capped then Some aborted_outcome else None),
         ld_ended = ended\<rparr>) (\<lambda>_.
        io_return (call_patch L (d_exits d) day_now capped (r_context r) (n_id nd) lead_id visit chosen))))))"

text \<open>
  The clock is read for the day, twice for the ceiling (the log's question and the answer the
  square goes by), for the first attempt and, on a capped visit, for the end of the call.
\<close>

definition execute_call ::
    "lib \<Rightarrow> 'w ext \<Rightarrow> run \<Rightarrow> node \<Rightarrow> workflow_definition \<Rightarrow> ('w, dict) io" where
  "execute_call L X r nd d =
     io_bind (now_io X) (\<lambda>day_now.
     io_bind (now_io X) (\<lambda>t1.
     io_bind (now_io X) (\<lambda>t2.
     if \<not> truthy (dget (r_context r) ''phone'') then io_park (in_square ''call'' nd ''no phone in run context'')
     else io_bind (x_template X (case n_template_id nd of None \<Rightarrow> ''None'' | Some t \<Rightarrow> t)) (\<lambda>tpl.
     case tpl of
       None \<Rightarrow> io_park (in_square ''call'' nd
         (''template '' @ (case n_template_id nd of None \<Rightarrow> ''None'' | Some t \<Rightarrow> t) @ '' not found''))
     | Some t \<Rightarrow>
       (if ct_merchant t \<noteq> None \<and> ct_merchant t \<noteq> Some (r_merchant r)
        then io_park (in_square ''call'' nd ''template belongs to another merchant'')
        else io_bind (x_config X (ct_id t)) (\<lambda>conf.
        case conf of
          None \<Rightarrow> io_park (in_square ''call'' nd
            (''no call_execution_config for template '' @ ct_name t))
        | Some offset_seconds \<Rightarrow>
            mint_call L X r nd d t offset_seconds day_now
              (max_calls_reached L (r_context r) (d_exits d) t2)))))))"

section \<open>Action\<close>

text \<open>A whole-text placeholder \<open>{name}\<close> and the name in it.\<close>

definition placeholder :: "json \<Rightarrow> string option" where
  "placeholder v = (case v of
     JStr s \<Rightarrow> (if take 1 s = ''{'' \<and> s \<noteq> [] \<and> last s = CHR ''}'' then Some (butlast (drop 1 s)) else None)
   | _ \<Rightarrow> None)"

fun stand_in :: "json \<Rightarrow> json" where
  "stand_in (JList xs) = JList (map stand_in xs)"
| "stand_in v = (case placeholder v of Some _ \<Rightarrow> JStr ''x'' | None \<Rightarrow> v)"

definition args_for_check :: "dict \<Rightarrow> dict" where
  "args_for_check args = map (\<lambda>(k, v). (k, stand_in v)) args"

fun names_in :: "json \<Rightarrow> string list" where
  "names_in (JList xs) = concat (map names_in xs)"
| "names_in v = (case placeholder v of Some n \<Rightarrow> (if n = [] then [] else [n]) | None \<Rightarrow> [])"

text \<open>Duplicates dropped, first places kept.\<close>

definition placeholder_names :: "dict \<Rightarrow> string list" where
  "placeholder_names args = rev (remdups (rev (concat (map (\<lambda>(k, v). names_in v) args))))"

text \<open>\<open>Inl\<close> is the KeyError naming the first missing fact.\<close>

fun resolve_arg :: "dict \<Rightarrow> json \<Rightarrow> string + json"
  and resolve_items :: "dict \<Rightarrow> json list \<Rightarrow> string + json list" where
  "resolve_arg facts (JList xs) =
     (case resolve_items facts xs of Inl e \<Rightarrow> Inl e | Inr ys \<Rightarrow> Inr (JList ys))"
| "resolve_arg facts (JStr s) = (case placeholder (JStr s) of
       None \<Rightarrow> Inr (JStr s)
     | Some n \<Rightarrow> (if blank (dget facts n) then Inl n else Inr (JStr (py_str (dget facts n)))))"
| "resolve_arg facts JNull = Inr JNull"
| "resolve_arg facts (JBool b) = Inr (JBool b)"
| "resolve_arg facts (JInt i) = Inr (JInt i)"
| "resolve_arg facts (JDec m e) = Inr (JDec m e)"
| "resolve_arg facts (JObj d) = Inr (JObj d)"
| "resolve_items facts [] = Inr []"
| "resolve_items facts (x # xs) = (case resolve_arg facts x of
       Inl e \<Rightarrow> Inl e
     | Inr y \<Rightarrow> (case resolve_items facts xs of Inl e \<Rightarrow> Inl e | Inr ys \<Rightarrow> Inr (y # ys)))"

fun resolved_args :: "dict \<Rightarrow> dict \<Rightarrow> string + dict" where
  "resolved_args [] facts = Inr []"
| "resolved_args ((k, v) # args) facts = (case resolve_arg facts v of
       Inl e \<Rightarrow> Inl e
     | Inr y \<Rightarrow> (case resolved_args args facts of Inl e \<Rightarrow> Inl e | Inr ys \<Rightarrow> Inr ((k, y) # ys)))"

definition validate_action :: "'w ext \<Rightarrow> node \<Rightarrow> workflow_definition \<Rightarrow> node_problem list" where
  "validate_action X nd d =
     (let missing = (if opt_text (n_connector nd) then [] else [Action_needs_connector])
                  @ (if opt_text (n_action nd) then [] else [Action_needs_action])
      in if missing \<noteq> [] then missing
         else let known = x_action_names X (the (n_connector nd)) in
           if known = [] then [No_such_connector]
           else if the (n_action nd) \<notin> set known then [No_such_action]
           else let bad = x_action_bad X (the (n_connector nd)) (the (n_action nd)) (args_for_check (n_args nd))
                in if bad \<noteq> [] then [Bad_args bad] else [])"

definition perform_step ::
    "'w ext \<Rightarrow> run \<Rightarrow> node \<Rightarrow> dict \<Rightarrow> dict \<Rightarrow> ('w, dict) io" where
  "perform_step X r nd args chosen w =
     (case x_perform X (r_merchant r) (the (n_connector nd)) (the (n_action nd)) args (r_id r) (n_id nd) w of
        (Done res, w') \<Rightarrow>
          (Ok ((action_key (n_id nd), res)
               # (if chosen \<noteq> [] then [(playbook_key (n_id nd), JObj chosen)] else [])), w')
      | (Defect e, w') \<Rightarrow> (Park (in_square ''action'' nd e), w')
      | (Bad_moment e, w') \<Rightarrow> (Fail e, w'))"

definition execute_action ::
    "lib \<Rightarrow> 'w ext \<Rightarrow> run \<Rightarrow> node \<Rightarrow> workflow_definition \<Rightarrow> ('w, dict) io" where
  "execute_action L X r nd d =
     (if \<not> opt_text (n_connector nd) \<or> \<not> opt_text (n_action nd)
      then io_park (in_square ''action'' nd ''no connector/action to perform'')
      else io_bind (blocks_for L X r nd d (placeholder_names (n_args nd))) (\<lambda>(rendered, chosen).
        case resolved_args (n_args nd) (dmerge (run_facts (r_context r) (Some nd)) rendered) of
          Inl f \<Rightarrow> io_park (in_square ''action'' nd (''no fact '' @ f @ '' for a placeholder in args''))
        | Inr args \<Rightarrow> perform_step X r nd args chosen))"

section \<open>The registry's dispatch\<close>

definition validate_node :: "'w ext \<Rightarrow> node \<Rightarrow> workflow_definition \<Rightarrow> node_problem list" where
  "validate_node X nd d = (case n_type nd of
     Wait \<Rightarrow> validate_wait nd d | Send \<Rightarrow> validate_send nd d | Call \<Rightarrow> validate_call nd d
   | Action \<Rightarrow> validate_action X nd d | Condition \<Rightarrow> validate_condition nd d
   | Split \<Rightarrow> validate_split nd d)"

text \<open>\<open>None\<close> for a wait: landing on it is the action.\<close>

definition executor ::
    "lib \<Rightarrow> 'w ext \<Rightarrow> node \<Rightarrow> (run \<Rightarrow> workflow_definition \<Rightarrow> ('w, dict) io) option" where
  "executor L X nd = (case n_type nd of
     Wait \<Rightarrow> None
   | Send \<Rightarrow> Some (\<lambda>r d. execute_send L X r nd d)
   | Call \<Rightarrow> Some (\<lambda>r d. execute_call L X r nd d)
   | Action \<Rightarrow> Some (\<lambda>r d. execute_action L X r nd d)
   | Condition \<Rightarrow> Some (\<lambda>r d. execute_condition L X r nd d)
   | Split \<Rightarrow> Some (\<lambda>r d. execute_split L X r nd d))"

end
