(* ===== verification/Catalog_Laws.thy ===== *)
theory Catalog_Laws
  imports Squares
begin

text \<open>
  The catalog laws of a plan, \<open>app/crm/outreach/catalog_laws.py\<close>: the conditions, the keys and
  the names a plan asks a run for come only from declared fields, an operator only from the type
  of its field (\<open>OPS_BY_TYPE\<close> of \<open>app/crm/record/catalog.py\<close>).  The catalogs are an argument, as
  they are of the code: \<open>None\<close> when the caller gathered nothing, and for each topic \<open>None\<close> when no
  layer declares it.  A problem is a value where the code has a sentence.
\<close>

section \<open>Declared fields\<close>

datatype field_type = T_text | T_number | T_choice | T_boolean | T_datetime | T_phone | T_list

record catalog_field =
  cf_path :: string
  cf_type :: field_type
  cf_label :: string
  cf_keyable :: bool
  cf_variable :: bool
  cf_values :: "string list"
  cf_identity :: "string option"
  cf_derived :: bool
  cf_deprecated :: bool
  cf_fallbacks :: "string list"
  cf_ops :: "op list"
  cf_item_format :: "string option"
  cf_item_where :: "condition list"
  cf_item_numbered :: bool

fun ops_by_type :: "field_type \<Rightarrow> op list" where
  "ops_by_type T_text = text_ops @ partial_ops @ presence_ops"
| "ops_by_type T_choice = text_ops @ partial_ops @ presence_ops"
| "ops_by_type T_number = order_ops @ [Equals] @ presence_ops"
| "ops_by_type T_boolean = [Is, Is_not] @ presence_ops"
| "ops_by_type T_datetime = order_ops @ presence_ops"
| "ops_by_type T_phone = []"
| "ops_by_type T_list = [Includes] @ partial_ops @ presence_ops"

definition with_ops :: "catalog_field \<Rightarrow> catalog_field" where
  "with_ops f = f\<lparr>cf_ops := ops_by_type (cf_type f)\<rparr>"

type_synonym field_map = "(string \<times> catalog_field) list"
type_synonym catalogs = "(string \<times> field_map option) list"

text \<open>\<open>catalogs.get(topic)\<close>: a topic that was not gathered reads as one nobody declares.\<close>

definition declared :: "catalogs \<Rightarrow> string \<Rightarrow> field_map option" where
  "declared cs topic = (case map_of cs topic of Some (Some f) \<Rightarrow> Some f | _ \<Rightarrow> None)"

section \<open>One condition\<close>

datatype where_problem =
    Not_declared string
  | Not_an_op string op
  | No_such_value string json
  | Not_a_number string
  | Not_yes_no string

fun is_bool :: "json \<Rightarrow> bool" where
  "is_bool (JBool b) = True"
| "is_bool v = False"

definition condition_against_catalog :: "condition \<Rightarrow> field_map \<Rightarrow> where_problem list" where
  "condition_against_catalog c fm =
     (case map_of fm (c_field c) of
        None \<Rightarrow> [Not_declared (c_field c)]
      | Some f \<Rightarrow>
          if c_op c \<notin> set (cf_ops f) then [Not_an_op (c_field c) (c_op c)]
          else let values = (if c_op c = In then list_items (c_value c) else [c_value c]) in
            if c_op c \<in> set presence_ops \<or> c_op c \<in> set partial_ops then []
            else let bad = filter (\<lambda>v. py_str v \<notin> set (cf_values f)) values in
              if cf_type f = T_choice \<and> cf_values f \<noteq> [] \<and> bad \<noteq> []
              then [No_such_value (c_field c) (hd bad)]
              else if cf_type f = T_number \<and> list_ex (\<lambda>v. as_number v = None) values
              then [Not_a_number (c_field c)]
              else if cf_type f = T_boolean \<and> list_ex (\<lambda>v. \<not> is_bool v) values
              then [Not_yes_no (c_field c)]
              else [])"

section \<open>The names a plan may ask for\<close>

definition walker_facts :: "string list" where
  "walker_facts = [''current_node'', ''current_stage'']"

definition variable_names :: "field_map \<Rightarrow> string list" where
  "variable_names fm = map (\<lambda>(p, f). variable_name (cf_path f)) (filter (\<lambda>(p, f). cf_variable f) fm)"

definition facts_name :: "string \<Rightarrow> string \<Rightarrow> string" where
  "facts_name square key = ''facts_'' @ square @ ''_'' @ key"

definition listened_facts :: "workflow_definition \<Rightarrow> catalogs option \<Rightarrow> string list" where
  "listened_facts d cats = (case cats of None \<Rightarrow> []
     | Some cs \<Rightarrow> concat (map (\<lambda>n. if listens n
         then concat (map (\<lambda>t. case declared cs t of None \<Rightarrow> []
                 | Some fm \<Rightarrow> map (facts_name (n_id n)) (variable_names fm)) (n_topics n))
         else []) (d_nodes d)))"

definition unenumerable_squares :: "workflow_definition \<Rightarrow> catalogs option \<Rightarrow> string list" where
  "unenumerable_squares d cats = (case cats of None \<Rightarrow> []
     | Some cs \<Rightarrow> map n_id (filter (\<lambda>n. listens n \<and> list_ex (\<lambda>t. declared cs t = None) (n_topics n)) (d_nodes d)))"

definition from_open_square :: "string \<Rightarrow> string list \<Rightarrow> bool" where
  "from_open_square name squares \<longleftrightarrow> list_ex (\<lambda>s. prefix_of (facts_name s []) name) squares"

text \<open>What the sends' blanks, the actions' arguments and the playbook's lines ask for.\<close>

definition mapped_facts :: "workflow_definition \<Rightarrow> (string \<times> string \<times> string) list" where
  "mapped_facts d = concat (map (\<lambda>n. if n_type n = Send
     then map (\<lambda>(blank, f). (n_id n, blank, f)) (n_variables n) else []) (d_nodes d))"

definition asked_facts :: "workflow_definition \<Rightarrow> (string \<times> string) list" where
  "asked_facts d = concat (map (\<lambda>n. if n_type n = Action
     then map (Pair (n_id n)) (placeholder_names (n_args n)) else []) (d_nodes d))
   @ map (Pair ''playbook'') (line_holes d)"

section \<open>The doors and the goals against the catalogs\<close>

datatype catalog_problem =
    Topic_not_in_catalog string
  | Block_shadows string string
  | Blank_undeclared string string string string
  | Ask_undeclared string string string
  | Door_where string where_problem
  | Key_undeclared string string
  | Key_not_keyable string string
  | Goal_key_nested nat string
  | Goal_where_without_key nat
  | Goal_topic_not_in_catalog nat string
  | Goal_where nat string where_problem
  | Goal_includes_blank nat string string

definition allowed_names :: "workflow_definition \<Rightarrow> catalogs option \<Rightarrow> field_map \<Rightarrow> string list" where
  "allowed_names d cats fm = variable_names fm @ walker_facts @ listened_facts d cats"

definition key_problems :: "lib \<Rightarrow> door \<Rightarrow> field_map \<Rightarrow> catalog_problem list" where
  "key_problems L e fm =
     (if opt_text (e_key e) then
        (case map_of fm (canonical_path L (the (e_key e))) of
           None \<Rightarrow> [Key_undeclared (the (e_key e)) (e_topic e)]
         | Some f \<Rightarrow> if cf_keyable f then [] else [Key_not_keyable (the (e_key e)) (e_topic e)])
      else [])"

definition door_against_catalog ::
    "lib \<Rightarrow> workflow_definition \<Rightarrow> catalogs \<Rightarrow> door \<Rightarrow> catalog_problem list" where
  "door_against_catalog L d cs e =
     (case declared cs (e_topic e) of
        None \<Rightarrow> if e_where e \<noteq> [] \<or> opt_text (e_key e) \<or> mapped_facts d \<noteq> [] \<or> asked_facts d \<noteq> []
                then [Topic_not_in_catalog (e_topic e)] else []
      | Some fm \<Rightarrow>
          let allowed = allowed_names d (Some cs) fm;
              open_squares = unenumerable_squares d (Some cs);
              known = (\<lambda>name. name \<in> set allowed \<or> from_open_square name open_squares)
          in map (\<lambda>b. Block_shadows b (e_topic e))
               (sort (remdups (filter (\<lambda>b. b \<in> set allowed) (block_names d))))
             @ concat (map (\<lambda>(n, blank, f). if known f then [] else [Blank_undeclared n blank f (e_topic e)]) (mapped_facts d))
             @ concat (map (\<lambda>(n, name). if known name then [] else [Ask_undeclared n name (e_topic e)]) (asked_facts d))
             @ concat (map (\<lambda>c. map (Door_where (e_topic e)) (condition_against_catalog c fm)) (e_where e))
             @ key_problems L e fm)"

definition entry_against_catalog ::
    "lib \<Rightarrow> workflow_definition \<Rightarrow> catalogs option \<Rightarrow> catalog_problem list" where
  "entry_against_catalog L d cats = (case cats of None \<Rightarrow> []
     | Some cs \<Rightarrow> concat (map (door_against_catalog L d cs) (doors d)))"

definition goal_key_problems :: "nat \<Rightarrow> goal \<Rightarrow> catalog_problem list" where
  "goal_key_problems i g =
     (case g_key g of None \<Rightarrow> []
      | Some k \<Rightarrow> if CHR ''.'' \<in> set (gk_event k) then [Goal_key_nested i (gk_event k)] else [])
     @ (if g_where g \<noteq> [] \<and> g_key g = None then [Goal_where_without_key i] else [])"

definition blank_includes :: "condition \<Rightarrow> field_map \<Rightarrow> bool" where
  "blank_includes c fm \<longleftrightarrow> (case map_of fm (c_field c) of None \<Rightarrow> False
     | Some f \<Rightarrow> cf_type f = T_list \<and> c_op c = Includes
         \<and> (case c_value c of JStr s \<Rightarrow> strip s = [] | _ \<Rightarrow> True))"

definition goal_topic_problems :: "catalogs \<Rightarrow> nat \<Rightarrow> goal \<Rightarrow> string \<Rightarrow> catalog_problem list" where
  "goal_topic_problems cs i g topic =
     (case declared cs topic of
        None \<Rightarrow> [Goal_topic_not_in_catalog i topic]
      | Some fm \<Rightarrow> concat (map (\<lambda>c.
            map (Goal_where i topic) (condition_against_catalog c fm)
            @ (if blank_includes c fm then [Goal_includes_blank i (c_field c) topic] else [])) (g_where g)))"

definition numbered :: "'a list \<Rightarrow> (nat \<times> 'a) list" where
  "numbered xs = zip [0..<length xs] xs"

definition goals_against_catalog :: "workflow_definition \<Rightarrow> catalogs option \<Rightarrow> catalog_problem list" where
  "goals_against_catalog d cats =
     concat (map (\<lambda>(i, g). goal_key_problems i g) (numbered (d_goals d)))
     @ (case cats of None \<Rightarrow> []
        | Some cs \<Rightarrow> concat (map (\<lambda>(i, g). if g_where g = [] then []
              else concat (map (goal_topic_problems cs i g) (g_topics g))) (numbered (d_goals d))))"

section \<open>Facts\<close>

lemma declared_condition:
  assumes "condition_against_catalog c fm = []"
  shows "\<exists>f. map_of fm (c_field c) = Some f \<and> c_op c \<in> set (cf_ops f)"
  using assms by (auto simp: condition_against_catalog_def split: option.splits if_splits)

text \<open>An accepted number condition compares numbers, an accepted yes/no condition booleans.\<close>

lemma accepted_value:
  assumes ok: "condition_against_catalog c fm = []" and f: "map_of fm (c_field c) = Some f"
    and plain: "c_op c \<notin> set presence_ops" "c_op c \<notin> set partial_ops" "c_op c \<noteq> In"
  shows "(cf_type f = T_number \<longrightarrow> as_number (c_value c) \<noteq> None)
    \<and> (cf_type f = T_boolean \<longrightarrow> is_bool (c_value c))"
  using ok f plain by (auto simp: condition_against_catalog_def Let_def split: if_splits)

lemma is_bool_iff: "is_bool v \<longleftrightarrow> (\<exists>b. v = JBool b)"
  by (cases v) simp_all

definition compares :: "op \<Rightarrow> rat \<Rightarrow> rat \<Rightarrow> bool" where
  "compares o1 x y = (if o1 = Equals then x = y else order_op o1 x y)"


definition amount_field :: catalog_field where
  "amount_field = with_ops \<lparr>cf_path = ''payload.amount'', cf_type = T_number, cf_label = ''Amount'',
     cf_keyable = False, cf_variable = True, cf_values = [], cf_identity = None, cf_derived = False,
     cf_deprecated = False, cf_fallbacks = [], cf_ops = [], cf_item_format = None,
     cf_item_where = [], cf_item_numbered = False\<rparr>"

definition amount_condition :: condition where
  "amount_condition = \<lparr>c_field = ''payload.amount'', c_op = Gt, c_value = JInt 1000\<rparr>"


text \<open>
  A choice may be published that no letter can answer: the value is compared with the declared
  ones as text, but at run time like with like, so the number \<open>1\<close> passes for the declared \<open>"1"\<close>,
  \<open>is\<close> then never holds for a letter's text and \<open>is_not\<close> always does.
\<close>

theorem choice_accepts_a_value_of_another_kind:
  "condition_against_catalog \<lparr>c_field = ''payload.tier'', c_op = Is_not, c_value = JInt 1\<rparr>
     [(''payload.tier'', with_ops (amount_field\<lparr>cf_type := T_choice, cf_values := [''1'', ''2'']\<rparr>))] = []
   \<and> evaluate L \<lparr>c_field = ''payload.tier'', c_op = Is_not, c_value = JInt 1\<rparr> (JStr s)"
proof
  show "condition_against_catalog \<lparr>c_field = ''payload.tier'', c_op = Is_not, c_value = JInt 1\<rparr>
     [(''payload.tier'', with_ops (amount_field\<lparr>cf_type := T_choice, cf_values := [''1'', ''2'']\<rparr>))] = []"
    by code_simp
  show "evaluate L \<lparr>c_field = ''payload.tier'', c_op = Is_not, c_value = JInt 1\<rparr> (JStr s)"
    by (simp add: evaluate_def)
qed

end
