(* ===== verification/Ladder.thy ===== *)
theory Ladder
  imports Squares
begin

text \<open>
  The stages ladder, \<open>app/crm/outreach/ladder.py\<close>: an ordered funnel of topics, expanded into the
  squares, the arrows and the doors it means.  The squares are minted as records and rendered to
  the dictionaries the code writes by \<open>node_dict\<close>; reading \<open>Stages\<close> off the raw document is
  pydantic's and an argument, and so is the way a float is written as JSON.
\<close>

section \<open>The ladder's shape\<close>

record stage_action =
  sa_type :: node_type
  sa_template_id :: "string option"
  sa_channel :: "string option"
  sa_template :: "string option"
  sa_blocks :: "string list"

record stage_override =
  so_idle :: "rat option"
  so_on_idle :: "stage_action option"
  so_after :: "rat option"

record stages =
  sg_order :: "string list"
  sg_idle :: rat
  sg_on_idle :: stage_action
  sg_after :: rat
  sg_restart :: bool
  sg_overrides :: "(string \<times> stage_override) list"

definition positive :: "rat option \<Rightarrow> bool" where
  "positive m = (case m of None \<Rightarrow> True | Some x \<Rightarrow> 0 < x)"

definition stages_ok :: "stages \<Rightarrow> bool" where
  "stages_ok sg \<longleftrightarrow> 2 \<le> length (sg_order sg) \<and> [] \<notin> set (sg_order sg) \<and> distinct (sg_order sg)
     \<and> 0 < sg_idle sg \<and> 0 < sg_after sg \<and> sa_type (sg_on_idle sg) \<in> {Call, Send}
     \<and> list_all (\<lambda>(t, o1). t \<in> set (sg_order sg) \<and> positive (so_idle o1) \<and> positive (so_after o1)
          \<and> (case so_on_idle o1 of None \<Rightarrow> True | Some a \<Rightarrow> sa_type a \<in> {Call, Send})) (sg_overrides sg)"

section \<open>Slugs\<close>

definition slug_char :: "char \<Rightarrow> bool" where
  "slug_char c \<longleftrightarrow> is_lower c \<or> is_digit c"

text \<open>\<open>re.sub("[^a-z0-9]+", "-", s)\<close>.\<close>

function dashed :: "string \<Rightarrow> string" where
  "dashed [] = []"
| "dashed (c # s) = (if slug_char c then c # dashed s
     else CHR ''-'' # dashed (dropWhile (\<lambda>x. \<not> slug_char x) s))"
  by pat_completeness auto
termination
  by (relation "measure length") (auto intro: le_imp_less_Suc length_dropWhile_le)

definition strip_of :: "char \<Rightarrow> string \<Rightarrow> string" where
  "strip_of c s = rev (dropWhile (\<lambda>x. x = c) (rev (dropWhile (\<lambda>x. x = c) s)))"

definition slug_of :: "string \<Rightarrow> string" where
  "slug_of topic = strip_of (CHR ''-'') (dashed (lower (last (split_on (CHR ''.'') topic))))"

datatype ladder_error =
    No_name string
  | Shared_square string string string
  | Word_owned string
  | Hand_drawn string
  | Bad_shape string

text \<open>\<open>by_slug\<close>: the first fault, in the order of the stages.\<close>

fun slug_fault :: "(string \<times> string) list \<Rightarrow> string list \<Rightarrow> ladder_error option" where
  "slug_fault seen [] = None"
| "slug_fault seen (t # ts) =
     (if slug_of t = [] then Some (No_name t)
      else case map_of seen (slug_of t) of
        Some first \<Rightarrow> Some (Shared_square first t (slug_of t))
      | None \<Rightarrow> slug_fault ((slug_of t, t) # seen) ts)"

section \<open>The board\<close>

definition at_square :: "string \<Rightarrow> string" where "at_square t = ''at-'' @ slug_of t"
definition act_square :: "string \<Rightarrow> string" where "act_square t = ''act-'' @ slug_of t"
definition after_square :: "string \<Rightarrow> string" where "after_square t = ''after-'' @ slug_of t"

definition listening_square ::
    "string \<Rightarrow> string list \<Rightarrow> rat \<Rightarrow> string \<Rightarrow> string option \<Rightarrow> node" where
  "listening_square i topics minutes stage key =
     (blank_node i Wait)\<lparr>n_key := Some topic_key, n_topics := topics, n_minutes := Some minutes,
       n_stage := Some stage,
       n_match := (if opt_text key then Some \<lparr>m_payload = the key, m_run = the key\<rparr> else None)\<rparr>"

definition action_square :: "string \<Rightarrow> stage_action \<Rightarrow> string \<Rightarrow> node" where
  "action_square i a stage =
     (blank_node i (sa_type a))\<lparr>n_template_id := sa_template_id a, n_channel := sa_channel a,
       n_template := sa_template a, n_blocks := sa_blocks a, n_stage := Some stage\<rparr>"

definition idle_of :: "stages \<Rightarrow> string \<Rightarrow> rat" where
  "idle_of sg t = (case map_of (sg_overrides sg) t of None \<Rightarrow> sg_idle sg
     | Some o1 \<Rightarrow> (case so_idle o1 of None \<Rightarrow> sg_idle sg | Some m \<Rightarrow> m))"

definition after_of :: "stages \<Rightarrow> string \<Rightarrow> rat" where
  "after_of sg t = (case map_of (sg_overrides sg) t of None \<Rightarrow> sg_after sg
     | Some o1 \<Rightarrow> (case so_after o1 of None \<Rightarrow> sg_after sg | Some m \<Rightarrow> m))"

definition action_of :: "stages \<Rightarrow> string \<Rightarrow> stage_action" where
  "action_of sg t = (case map_of (sg_overrides sg) t of None \<Rightarrow> sg_on_idle sg
     | Some o1 \<Rightarrow> (case so_on_idle o1 of None \<Rightarrow> sg_on_idle sg | Some a \<Rightarrow> a))"

text \<open>What one stage mints, given the stages after it.\<close>

definition stage_squares :: "stages \<Rightarrow> string option \<Rightarrow> string \<Rightarrow> string list \<Rightarrow> node list" where
  "stage_squares sg key t later =
     (if later = []
      then [(blank_node (at_square t) Wait)\<lparr>n_minutes := Some (idle_of sg t), n_stage := Some t\<rparr>,
            action_square (act_square t) (action_of sg t) t]
      else [listening_square (at_square t) later (idle_of sg t) t key,
            action_square (act_square t) (action_of sg t) t,
            listening_square (after_square t) later (after_of sg t) t key])"

definition letter_arrows :: "string \<Rightarrow> string list \<Rightarrow> edge list" where
  "letter_arrows src later = map (\<lambda>l. (src, at_square l, Some l)) later"

definition stage_arrows :: "string \<Rightarrow> string list \<Rightarrow> edge list" where
  "stage_arrows t later =
     (if later = [] then [(at_square t, act_square t, None)]
      else letter_arrows (at_square t) later
         @ [(at_square t, act_square t, Some timeout_word), (act_square t, after_square t, None)]
         @ letter_arrows (after_square t) later)"

record minted_door =
  md_topic :: string
  md_start :: string
  md_debounce :: rat
  md_restart :: bool

definition stage_door :: "stages \<Rightarrow> string \<Rightarrow> minted_door" where
  "stage_door sg t = \<lparr>md_topic = t, md_start = at_square t, md_debounce = idle_of sg t,
                      md_restart = sg_restart sg\<rparr>"

fun over_stages :: "(string \<Rightarrow> string list \<Rightarrow> 'a list) \<Rightarrow> string list \<Rightarrow> 'a list" where
  "over_stages f [] = []"
| "over_stages f (t # ts) = f t ts @ over_stages f ts"

definition board ::
    "stages \<Rightarrow> string option \<Rightarrow> ladder_error + node list \<times> edge list \<times> minted_door list" where
  "board sg key = (case slug_fault [] (sg_order sg) of
       Some e \<Rightarrow> Inl e
     | None \<Rightarrow> Inr (over_stages (stage_squares sg key) (sg_order sg),
                    over_stages stage_arrows (sg_order sg),
                    map (stage_door sg) (sg_order sg)))"

section \<open>The stored form\<close>

definition opt_entry :: "string \<Rightarrow> json option \<Rightarrow> dict" where
  "opt_entry k v = (case v of None \<Rightarrow> [] | Some x \<Rightarrow> [(k, x)])"

definition list_entry :: "string \<Rightarrow> string list \<Rightarrow> dict" where
  "list_entry k xs = (if xs = [] then [] else [(k, JList (map JStr xs))])"

text \<open>The words a minted square carries, and only those.\<close>

definition node_dict :: "(rat \<Rightarrow> json) \<Rightarrow> node \<Rightarrow> json" where
  "node_dict fl n = JObj ([(''id'', JStr (n_id n)), (''type'', JStr (type_text (n_type n)))]
     @ opt_entry ''key'' (map_option JStr (n_key n))
     @ list_entry ''topics'' (n_topics n)
     @ opt_entry ''minutes'' (map_option fl (n_minutes n))
     @ opt_entry ''template_id'' (map_option JStr (n_template_id n))
     @ opt_entry ''channel'' (map_option JStr (n_channel n))
     @ opt_entry ''template'' (map_option JStr (n_template n))
     @ list_entry ''blocks'' (n_blocks n)
     @ opt_entry ''stage'' (map_option JStr (n_stage n))
     @ opt_entry ''match'' (map_option
         (\<lambda>m. JObj [(''payload'', JStr (m_payload m)), (''run'', JStr (m_run m))]) (n_match n)))"

definition edge_list :: "edge \<Rightarrow> json" where
  "edge_list e = (case e of (src, dst, on) \<Rightarrow>
     JList ([JStr src, JStr dst] @ (case on of None \<Rightarrow> [] | Some l \<Rightarrow> [JStr l])))"

definition door_dict :: "(rat \<Rightarrow> json) \<Rightarrow> minted_door \<Rightarrow> json" where
  "door_dict fl m = JObj [(''topic'', JStr (md_topic m)), (''start'', JStr (md_start m)),
     (''debounce_minutes'', fl (md_debounce m)), (''restart_on_repeat'', JBool (md_restart m))]"

definition has_key :: "dict \<Rightarrow> string \<Rightarrow> bool" where
  "has_key d k \<longleftrightarrow> k \<in> fst ` set d"

text \<open>A run key that is no text is refused by the shape of the document afterwards.\<close>

definition run_key :: "dict \<Rightarrow> string option" where
  "run_key raw = (case dget raw ''key'' of JStr s \<Rightarrow> Some s | _ \<Rightarrow> None)"

definition produced :: "(rat \<Rightarrow> json) \<Rightarrow> node list \<times> edge list \<times> minted_door list \<Rightarrow> dict" where
  "produced fl b = (case b of (ns, es, ds) \<Rightarrow>
     [(''nodes'', JList (map (node_dict fl) ns)), (''edges'', JList (map edge_list es)),
      (''entry'', JList (map (door_dict fl) ds))])"

definition drawn_beside :: "dict \<Rightarrow> dict \<Rightarrow> string option" where
  "drawn_beside raw p =
     map_option fst (find (\<lambda>(w, v). has_key raw w \<and> \<not> py_equal (dget raw w) v) p)"

definition expand_stages ::
    "(json \<Rightarrow> string + stages) \<Rightarrow> (rat \<Rightarrow> json) \<Rightarrow> dict \<Rightarrow> ladder_error + dict" where
  "expand_stages read fl raw =
     (if dget raw ''stages'' = JNull then Inr raw
      else case read (dget raw ''stages'') of
        Inl e \<Rightarrow> Inl (Bad_shape e)
      | Inr sg \<Rightarrow>
          if has_key raw ''debounce_minutes'' then Inl (Word_owned ''debounce_minutes'')
          else if has_key raw ''restart_on_repeat'' then Inl (Word_owned ''restart_on_repeat'')
          else case board sg (run_key raw) of
            Inl e \<Rightarrow> Inl e
          | Inr b \<Rightarrow> (case drawn_beside raw (produced fl b) of
                Some w \<Rightarrow> Inl (Hand_drawn w)
              | None \<Rightarrow> Inr (dmerge raw (produced fl b))))"

end
