(* ===== verification/Enrollment.thy ===== *)
theory Enrollment
  imports Steps "HOL-Library.List_Lexorder" "HOL-Library.Char_ord" "HOL-Library.Product_Lexorder"
begin

text \<open>
  The table of runs and its statements, \<open>app/crm/outreach/db/queries/enrollment.py\<close> with the
  flush arm of \<open>db/queries/step.py\<close>: the store is the rows of \<open>crm_workflow_enrollment\<close> and of
  \<open>crm_workflow_step\<close>, and each SQL statement is one function of the store, the moment
  \<open>now()\<close> of its transaction and its parameters, returning what the accessor answers.  An UPDATE
  rewrites the rows its WHERE matches; a flush inserts one trail row per moved run and buffered
  square.  A jsonb object is a dictionary (the order of its keys is never read).
\<close>

section \<open>The store\<close>

record store =
  s_rows :: "run list"
  s_trail :: "trail_row list"

definition exit_reasons :: "string list" where
  "exit_reasons = [''goal_met'', ''timed_out'', ''withdrawn'', ''converted_elsewhere'', ''ejected'', ''completed'']"

definition is_open :: "run \<Rightarrow> bool" where
  "is_open r \<longleftrightarrow> r_status r \<noteq> Exited"

definition rewrite :: "(run \<Rightarrow> bool) \<Rightarrow> (run \<Rightarrow> run) \<Rightarrow> store \<Rightarrow> store" where
  "rewrite P f s = s\<lparr>s_rows := map (\<lambda>r. if P r then f r else r) (s_rows s)\<rparr>"

definition hits :: "(run \<Rightarrow> bool) \<Rightarrow> store \<Rightarrow> run list" where
  "hits P s = filter P (s_rows s)"

text \<open>The tenancy columns come off the row that moved.\<close>

definition trail_row_of :: "run \<Rightarrow> step_record \<Rightarrow> trail_row" where
  "trail_row_of m x = \<lparr>st_node = st_node x, st_type = st_type x, st_arrived = st_arrived x,
     st_left = st_left x, st_by = st_by x, st_outcome = st_outcome x, st_next = st_next x,
     st_attempts = st_attempts x, st_error = st_error x, st_dispatch = st_dispatch x,
     st_cut = st_cut x, tr_merchant = r_merchant m, tr_run = r_id m, tr_workflow = r_workflow m,
     tr_version = r_version m\<rparr>"

definition flush_arm :: "(run \<Rightarrow> step_record \<Rightarrow> bool) \<Rightarrow> run list \<Rightarrow> step_record list \<Rightarrow> trail_row list" where
  "flush_arm ok moved steps = concat (map (\<lambda>m. map (trail_row_of m) (filter (ok m) steps)) moved)"

definition move ::
    "(run \<Rightarrow> bool) \<Rightarrow> (run \<Rightarrow> run) \<Rightarrow> (run \<Rightarrow> step_record \<Rightarrow> bool) \<Rightarrow> step_record list \<Rightarrow> store \<Rightarrow> bool \<times> store" where
  "move P f ok steps s =
     (hits P s \<noteq> [],
      (rewrite P f s)\<lparr>s_trail := s_trail s @ flush_arm ok (hits P s) steps\<rparr>)"

text \<open>An UPDATE whose RETURNING only answers whether a row matched.\<close>

definition touch :: "(run \<Rightarrow> bool) \<Rightarrow> (run \<Rightarrow> run) \<Rightarrow> store \<Rightarrow> bool \<times> store" where
  "touch P f s = (hits P s \<noteq> [], rewrite P f s)"

section \<open>The walker's statements\<close>

definition due :: "(string \<Rightarrow> bool) \<Rightarrow> time \<Rightarrow> run \<Rightarrow> bool" where
  "due paused now r \<longleftrightarrow>
     r_status r = Waiting \<and> (case r_wake r of None \<Rightarrow> False | Some w \<Rightarrow> w \<le> now) \<and> \<not> paused (r_workflow r)"

text \<open>
  \<open>locked\<close> are the rows another transaction holds (\<open>SKIP LOCKED\<close>), \<open>paused\<close> the paused plans.
\<close>

definition claimed_ids ::
    "(string \<Rightarrow> bool) \<Rightarrow> (string \<Rightarrow> bool) \<Rightarrow> time \<Rightarrow> nat \<Rightarrow> store \<Rightarrow> string list" where
  "claimed_ids paused locked now limit s =
     map r_id (take limit (sort_key (\<lambda>r. (the (r_wake r), r_id r))
       (filter (\<lambda>r. due paused now r \<and> \<not> locked (r_id r)) (s_rows s))))"

definition claim_set :: "time \<Rightarrow> nat \<Rightarrow> run \<Rightarrow> run" where
  "claim_set now lease_seconds r =
     r\<lparr>r_wake := Some (now + int lease_seconds * second_us), r_attempts := r_attempts r + 1\<rparr>"

definition claim_due_runs ::
    "(string \<Rightarrow> bool) \<Rightarrow> (string \<Rightarrow> bool) \<Rightarrow> time \<Rightarrow> nat \<Rightarrow> nat \<Rightarrow> store \<Rightarrow> run list \<times> store" where
  "claim_due_runs paused locked now limit lease_seconds s =
     (let P = (\<lambda>r. r_id r \<in> set (claimed_ids paused locked now limit s))
      in (map (claim_set now lease_seconds) (hits P s), rewrite P (claim_set now lease_seconds) s))"

definition leased :: "string \<Rightarrow> time \<Rightarrow> run \<Rightarrow> bool" where
  "leased i lease r \<longleftrightarrow> r_id r = i \<and> r_status r = Waiting \<and> r_wake r = Some lease"

definition advance_set :: "string \<Rightarrow> time \<Rightarrow> dict \<Rightarrow> time option \<Rightarrow> run \<Rightarrow> run" where
  "advance_set nd wake context arrived r =
     r\<lparr>r_node := nd, r_wake := Some wake, r_context := context,
       r_arrived := (case arrived of None \<Rightarrow> r_arrived r | Some a \<Rightarrow> Some a),
       r_attempts := 0, r_error := None\<rparr>"

definition advance_run ::
    "string \<Rightarrow> string \<Rightarrow> time \<Rightarrow> dict \<Rightarrow> time \<Rightarrow> time option \<Rightarrow> step_record list \<Rightarrow> store \<Rightarrow> bool \<times> store" where
  "advance_run i nd wake context lease arrived steps s =
     move (leased i lease) (advance_set nd wake context arrived) (\<lambda>m x. True) steps s"

definition exit_guard :: "string \<Rightarrow> time \<Rightarrow> run \<Rightarrow> bool" where
  "exit_guard i lease r \<longleftrightarrow> r_id r = i \<and> r_status r \<noteq> Exited \<and> r_wake r = Some lease"

definition exit_set :: "time \<Rightarrow> string \<Rightarrow> string option \<Rightarrow> dict option \<Rightarrow> run \<Rightarrow> run" where
  "exit_set now reason nd context r =
     r\<lparr>r_status := Exited, r_exit_reason := Some reason, r_exited := Some now, r_wake := None,
       r_node := (case nd of None \<Rightarrow> r_node r | Some n \<Rightarrow> n),
       r_context := (case context of None \<Rightarrow> r_context r | Some c \<Rightarrow> c)\<rparr>"

definition exit_run ::
    "time \<Rightarrow> string \<Rightarrow> string \<Rightarrow> time \<Rightarrow> string option \<Rightarrow> dict option \<Rightarrow> step_record list \<Rightarrow> store \<Rightarrow> bool \<times> store" where
  "exit_run now i reason lease nd context steps s =
     move (exit_guard i lease) (exit_set now reason nd context) (\<lambda>m x. True) steps s"

definition park_set :: "string \<Rightarrow> run \<Rightarrow> run" where
  "park_set err r = r\<lparr>r_status := Parked, r_wake := None, r_error := Some err\<rparr>"

definition park_run :: "string \<Rightarrow> string \<Rightarrow> time \<Rightarrow> store \<Rightarrow> bool \<times> store" where
  "park_run i err lease s = touch (leased i lease) (park_set err) s"

definition error_set :: "time \<Rightarrow> string \<Rightarrow> nat \<Rightarrow> run \<Rightarrow> run" where
  "error_set now err secs r = r\<lparr>r_error := Some err, r_wake := Some (now + int secs * second_us)\<rparr>"

definition record_run_error :: "time \<Rightarrow> string \<Rightarrow> string \<Rightarrow> nat \<Rightarrow> time \<Rightarrow> store \<Rightarrow> bool \<times> store" where
  "record_run_error now i err secs lease s = touch (leased i lease) (error_set now err secs) s"

section \<open>The event side's statements\<close>

definition open_runs_for_customer :: "string \<Rightarrow> string \<Rightarrow> store \<Rightarrow> run list" where
  "open_runs_for_customer m c s =
     sort_key (\<lambda>r. (r_entered r, r_id r))
       (filter (\<lambda>r. r_merchant r = m \<and> r_customer r = c \<and> is_open r) (s_rows s))"

definition standing :: "string \<Rightarrow> string \<Rightarrow> string \<Rightarrow> run \<Rightarrow> bool" where
  "standing m i nd r \<longleftrightarrow> r_merchant r = m \<and> r_id r = i \<and> r_status r \<in> {Waiting, Parked} \<and> r_node r = nd"

definition woken :: "time \<Rightarrow> run \<Rightarrow> run" where
  "woken now r = r\<lparr>r_wake := Some now, r_error := None,
     r_attempts := (if r_status r = Parked then 0 else r_attempts r), r_status := Waiting\<rparr>"

definition resume_context :: "string \<Rightarrow> dict \<Rightarrow> dict \<Rightarrow> dict \<Rightarrow> dict" where
  "resume_context nd patch facts c =
     dmerge (dmerge c patch)
       [(''facts'', JObj (dmerge (obj_or_empty (dget c ''facts'')) [(nd, JObj facts)]))]"

definition resume_run_by_id ::
    "time \<Rightarrow> string \<Rightarrow> string \<Rightarrow> string \<Rightarrow> dict \<Rightarrow> dict \<Rightarrow> store \<Rightarrow> bool \<times> store" where
  "resume_run_by_id now m i nd patch facts s =
     touch (standing m i nd)
       (\<lambda>r. (woken now r)\<lparr>r_context := resume_context nd patch facts (r_context r)\<rparr>) s"

definition refresh_context :: "dict \<Rightarrow> string option \<Rightarrow> dict \<Rightarrow> dict" where
  "refresh_context facts ptr c =
     dmerge (dmerge c facts) (if opt_text ptr then [(''cut_short_by'', JStr (the ptr))] else [])"

definition refresh_run_facts ::
    "time \<Rightarrow> string \<Rightarrow> string \<Rightarrow> string \<Rightarrow> dict \<Rightarrow> string option \<Rightarrow> store \<Rightarrow> bool \<times> store" where
  "refresh_run_facts now m i nd facts ptr s =
     touch (standing m i nd)
       (\<lambda>r. (woken now r)\<lparr>r_context := refresh_context facts ptr (r_context r)\<rparr>) s"

text \<open>
  The moment a run is judged to have begun, as the goal-cancel reads it: the stamp of the
  founding letter, else the insert time.  The outer \<open>None\<close> is a cast Postgres refuses.
\<close>

definition stamp_time :: "lib \<Rightarrow> string \<Rightarrow> time option" where
  "stamp_time L s = (case iso_parse L s of
     None \<Rightarrow> None | Some (Aware t) \<Rightarrow> Some t | Some (Naive n) \<Rightarrow> Some (naive_ts L n))"

definition began :: "lib \<Rightarrow> run \<Rightarrow> time option" where
  "began L r = (case pg_text (dget (r_context r) ''entered_event_at'') of
     None \<Rightarrow> Some (r_entered r) | Some s \<Rightarrow> stamp_time L s)"

definition cancel_guard ::
    "lib \<Rightarrow> string \<Rightarrow> string \<Rightarrow> time option \<Rightarrow> (string \<times> string) option \<Rightarrow> run \<Rightarrow> bool" where
  "cancel_guard L m i occurred key r \<longleftrightarrow>
     r_merchant r = m \<and> r_id r = i \<and> r_status r \<noteq> Exited
     \<and> (case occurred of None \<Rightarrow> True
        | Some t \<Rightarrow> (case began L r of None \<Rightarrow> False | Some b \<Rightarrow> b < t))
     \<and> (case key of None \<Rightarrow> True
        | Some (f, v) \<Rightarrow> pg_text (dget (r_context r) f) = Some v)"

definition cancel_set :: "time \<Rightarrow> string \<Rightarrow> dict option \<Rightarrow> run \<Rightarrow> run" where
  "cancel_set now reason patch r =
     r\<lparr>r_status := Exited, r_exit_reason := Some reason, r_exited := Some now, r_wake := None,
       r_context := (case patch of None \<Rightarrow> r_context r | Some p \<Rightarrow> dmerge (r_context r) p)\<rparr>"

text \<open>The closing row lands only while the snapshot it describes is still the row's.\<close>

definition same_square :: "run \<Rightarrow> step_record \<Rightarrow> bool" where
  "same_square m x \<longleftrightarrow> r_node m = st_node x \<and> r_arrived m = Some (st_arrived x)"

text \<open>\<open>None\<close> where the cast of an open run's stamp raises, which fails the statement.\<close>

definition cancel_run ::
    "lib \<Rightarrow> time \<Rightarrow> string \<Rightarrow> string \<Rightarrow> string \<Rightarrow> time option \<Rightarrow> (string \<times> string) option
     \<Rightarrow> dict option \<Rightarrow> step_record list \<Rightarrow> store \<Rightarrow> (bool \<times> store) option" where
  "cancel_run L now m i reason occurred key patch steps s =
     (if occurred \<noteq> None
         \<and> list_ex (\<lambda>r. r_merchant r = m \<and> r_id r = i \<and> r_status r \<noteq> Exited \<and> began L r = None) (s_rows s)
      then None
      else Some (move (cancel_guard L m i occurred key) (cancel_set now reason patch) same_square steps s))"

section \<open>Repeat entries\<close>

text \<open>jsonb's \<open>||\<close> with an array wraps whatever is no array; \<open>?\<close> looks for a text in it.\<close>

definition jsonb_at :: "dict \<Rightarrow> string \<Rightarrow> json" where
  "jsonb_at c k = (case map_of c k of None \<Rightarrow> JList [] | Some v \<Rightarrow> v)"

definition jsonb_items :: "json \<Rightarrow> json list" where
  "jsonb_items v = (case v of JList xs \<Rightarrow> xs | _ \<Rightarrow> [v])"

definition jsonb_exists :: "json \<Rightarrow> string \<Rightarrow> bool" where
  "jsonb_exists v t = (case v of JList xs \<Rightarrow> JStr t \<in> set xs
     | JObj d \<Rightarrow> t \<in> fst ` set d | JStr u \<Rightarrow> u = t | _ \<Rightarrow> False)"

definition stored_number :: "dict \<Rightarrow> string \<Rightarrow> rat option" where
  "stored_number c k = (case pg_text (dget c k) of None \<Rightarrow> None | Some t \<Rightarrow> number_text t)"

text \<open>
  What the door does with a repeat's facts: \<open>max_field\<close> is \<open>None\<close> unless the policy is
  \<open>refresh_max\<close>.
\<close>

definition repeat_facts ::
    "dict \<Rightarrow> bool \<Rightarrow> string option \<Rightarrow> rat option \<Rightarrow> dict \<Rightarrow> dict" where
  "repeat_facts patch accumulate max_field max_value c =
     (if accumulate then
        dmerge c [(''repeat_items'', JList (jsonb_items (jsonb_at c ''repeat_items'') @ [JObj patch])),
                  (''repeat_count'', JInt (int (length (jsonb_items (jsonb_at c ''repeat_items''))) + 2))]
      else case max_field of
        None \<Rightarrow> dmerge c patch
      | Some f \<Rightarrow>
          (case max_value of None \<Rightarrow> c
           | Some v \<Rightarrow> (case stored_number c f of
               None \<Rightarrow> dmerge c patch
             | Some old \<Rightarrow> (if old < v then dmerge c patch else c))))"

definition repeat_context ::
    "string \<Rightarrow> dict \<Rightarrow> bool \<Rightarrow> string option \<Rightarrow> rat option \<Rightarrow> dict \<Rightarrow> dict" where
  "repeat_context ev patch accumulate max_field max_value c =
     dmerge (repeat_facts patch accumulate max_field max_value c)
       [(''repeat_event_ids'', JList (jsonb_items (jsonb_at c ''repeat_event_ids'') @ [JStr ev]))]"

definition repeat_wake :: "time \<Rightarrow> rat \<Rightarrow> time option \<Rightarrow> time option" where
  "repeat_wake now debounce w =
     (if 0 < debounce then
        Some (case w of None \<Rightarrow> now + td_minutes debounce | Some t \<Rightarrow> max t (now + td_minutes debounce))
      else w)"

definition repeat_guard ::
    "string \<Rightarrow> string \<Rightarrow> string \<Rightarrow> string \<Rightarrow> string \<Rightarrow> bool \<Rightarrow> run \<Rightarrow> bool" where
  "repeat_guard m wid key entry_node ev anywhere r \<longleftrightarrow>
     r_merchant r = m \<and> r_workflow r = wid \<and> r_key r = key \<and> r_status r = Waiting
     \<and> (anywhere \<or> r_node r = entry_node)
     \<and> \<not> jsonb_exists (jsonb_at (r_context r) ''repeat_event_ids'') ev
     \<and> pg_text (dget (r_context r) ''source_event_id'') \<noteq> Some ev"

definition repeat_set ::
    "time \<Rightarrow> string \<Rightarrow> dict \<Rightarrow> bool \<Rightarrow> string option \<Rightarrow> rat option \<Rightarrow> rat \<Rightarrow> run \<Rightarrow> run" where
  "repeat_set now ev patch accumulate max_field max_value debounce r =
     r\<lparr>r_context := repeat_context ev patch accumulate max_field max_value (r_context r),
       r_wake := repeat_wake now debounce (r_wake r), r_error := None\<rparr>"

text \<open>
  \<open>None\<close> where \<open>jsonb_array_length\<close> is asked of something that is no array.
\<close>

definition patch_open_run ::
    "time \<Rightarrow> string \<Rightarrow> string \<Rightarrow> string \<Rightarrow> string \<Rightarrow> string \<Rightarrow> dict \<Rightarrow> bool \<Rightarrow> string option
     \<Rightarrow> rat option \<Rightarrow> rat \<Rightarrow> bool \<Rightarrow> store \<Rightarrow> (bool \<times> store) option" where
  "patch_open_run now m wid key entry_node ev patch accumulate max_field max_value debounce anywhere s =
     (let P = repeat_guard m wid key entry_node ev anywhere
      in if accumulate \<and> list_ex (\<lambda>r. P r \<and> (case jsonb_at (r_context r) ''repeat_items'' of
                                             JList _ \<Rightarrow> False | _ \<Rightarrow> True)) (s_rows s)
         then None
         else Some (touch P (repeat_set now ev patch accumulate max_field max_value debounce) s))"

section \<open>Admission\<close>

text \<open>The partial unique (merchant, workflow, key) of the open runs.\<close>

definition open_key :: "run \<Rightarrow> string \<times> string \<times> string" where
  "open_key r = (r_merchant r, r_workflow r, r_key r)"

definition born ::
    "time \<Rightarrow> string \<Rightarrow> string \<Rightarrow> string \<Rightarrow> int \<Rightarrow> string \<Rightarrow> string \<Rightarrow> time \<Rightarrow> dict \<Rightarrow> string \<Rightarrow> run" where
  "born now i m wid version c nd wake context key =
     \<lparr>r_id = i, r_merchant = m, r_workflow = wid, r_version = version, r_customer = c,
      r_status = Waiting, r_node = nd, r_wake = Some wake, r_entered = now, r_exited = None,
      r_exit_reason = None, r_context = context, r_key = key, r_attempts = 0, r_error = None,
      r_arrived = Some now\<rparr>"

text \<open>
  \<open>i\<close> is the id \<open>gen_random_uuid()\<close> draws.  \<open>None\<close> is the UniqueViolation.
\<close>

definition insert_enrollment ::
    "time \<Rightarrow> string \<Rightarrow> string \<Rightarrow> string \<Rightarrow> int \<Rightarrow> string \<Rightarrow> string \<Rightarrow> time \<Rightarrow> dict \<Rightarrow> string \<Rightarrow> store
     \<Rightarrow> (run \<times> store) option" where
  "insert_enrollment now i m wid version c nd wake context key s =
     (if list_ex (\<lambda>r. is_open r \<and> open_key r = (m, wid, key)) (s_rows s)
         \<or> list_ex (\<lambda>r. r_id r = i) (s_rows s)
      then None
      else let r = born now i m wid version c nd wake context key
           in Some (r, s\<lparr>s_rows := s_rows s @ [r]\<rparr>))"

definition admission_facts ::
    "string \<Rightarrow> string \<Rightarrow> string \<Rightarrow> string option \<Rightarrow> store \<Rightarrow> nat \<times> time option" where
  "admission_facts m wid c key s =
     (let rs = filter (\<lambda>r. r_merchant r = m \<and> r_workflow r = wid \<and> r_customer r = c
                          \<and> (case key of None \<Rightarrow> True | Some k \<Rightarrow> r_key r = k)) (s_rows s)
      in (length rs,
          if rs = [] then None else Some (fold (\<lambda>r t. max (r_entered r) t) (tl rs) (r_entered (hd rs)))))"

definition source_event_used :: "string \<Rightarrow> string \<Rightarrow> string \<Rightarrow> string \<Rightarrow> store \<Rightarrow> bool" where
  "source_event_used m wid c ev s \<longleftrightarrow>
     list_ex (\<lambda>r. r_merchant r = m \<and> r_workflow r = wid \<and> r_customer r = c
               \<and> pg_text (dget (r_context r) ''source_event_id'') = Some ev) (s_rows s)"

section \<open>The plan side's and the operator's statements\<close>

definition on_plan :: "string \<Rightarrow> string \<Rightarrow> run \<Rightarrow> bool" where
  "on_plan m wid r \<longleftrightarrow> r_merchant r = m \<and> r_workflow r = wid \<and> is_open r"

definition repin_open_runs :: "string \<Rightarrow> string \<Rightarrow> int \<Rightarrow> store \<Rightarrow> nat \<times> store" where
  "repin_open_runs m wid v s =
     (length (hits (on_plan m wid) s), rewrite (on_plan m wid) (\<lambda>r. r\<lparr>r_version := v\<rparr>) s)"

definition repin_runs_on_version :: "string \<Rightarrow> string \<Rightarrow> int \<Rightarrow> int \<Rightarrow> store \<Rightarrow> nat \<times> store" where
  "repin_runs_on_version m wid v v' s =
     (let P = (\<lambda>r. on_plan m wid r \<and> r_version r = v)
      in (length (hits P s), rewrite P (\<lambda>r. r\<lparr>r_version := v'\<rparr>) s))"

definition occupied_nodes :: "string \<Rightarrow> string \<Rightarrow> store \<Rightarrow> string list" where
  "occupied_nodes m wid s = remdups (map r_node (hits (on_plan m wid) s))"

definition occupied_nodes_on_version :: "string \<Rightarrow> string \<Rightarrow> int \<Rightarrow> store \<Rightarrow> string list" where
  "occupied_nodes_on_version m wid v s =
     remdups (map r_node (hits (\<lambda>r. on_plan m wid r \<and> r_version r = v) s))"

definition resume_guard :: "string \<Rightarrow> string \<Rightarrow> string \<Rightarrow> run \<Rightarrow> bool" where
  "resume_guard m wid i r \<longleftrightarrow> r_merchant r = m \<and> r_workflow r = wid \<and> r_id r = i \<and> r_status r = Parked"

definition resume_set :: "time \<Rightarrow> run \<Rightarrow> run" where
  "resume_set now r = r\<lparr>r_status := Waiting, r_wake := Some now, r_attempts := 0\<rparr>"

definition resume_run :: "time \<Rightarrow> string \<Rightarrow> string \<Rightarrow> string \<Rightarrow> store \<Rightarrow> run option \<times> store" where
  "resume_run now m wid i s =
     (map_option (resume_set now) (find (resume_guard m wid i) (s_rows s)),
      rewrite (resume_guard m wid i) (resume_set now) s)"

definition get_run :: "string \<Rightarrow> string \<Rightarrow> string \<Rightarrow> store \<Rightarrow> run option" where
  "get_run m wid i s = find (\<lambda>r. r_merchant r = m \<and> r_workflow r = wid \<and> r_id r = i) (s_rows s)"

text \<open>The retention sweep; the foreign key deletes a swept run's trail with it.\<close>

definition sweep_exited_runs :: "time \<Rightarrow> nat \<Rightarrow> store \<Rightarrow> nat \<times> store" where
  "sweep_exited_runs cutoff batch s =
     (let dead = map r_id (take batch (sort_key (\<lambda>r. the (r_exited r))
            (filter (\<lambda>r. r_status r = Exited \<and> (case r_exited r of None \<Rightarrow> False | Some t \<Rightarrow> t < cutoff))
              (s_rows s))))
      in (length dead,
          \<lparr>s_rows = filter (\<lambda>r. r_id r \<notin> set dead) (s_rows s),
           s_trail = filter (\<lambda>t. tr_run t \<notin> set dead) (s_trail s)\<rparr>))"

text \<open>One run's closed squares, the latest first, at most \<open>limit\<close>.  \<open>id\<close> grows with the insert.\<close>

definition run_steps :: "string \<Rightarrow> string \<Rightarrow> nat \<Rightarrow> store \<Rightarrow> trail_row list" where
  "run_steps m i limit s =
     take limit (rev (sort_key st_arrived
       (filter (\<lambda>t. tr_run t = i \<and> tr_merchant t = m) (s_trail s))))"

end
