(* ===== verification/Enrollment_Laws.thy ===== *)
theory Enrollment_Laws
  imports Enrollment "HOL-Library.Sublist"
begin

text \<open>
  The laws of the run table.  The contract every UPDATE of it keeps is a locale, interpreted on
  the statements of the code; the statements in any order and with any parameters are a step
  relation, and the constraints of the migrations (058, 063, 073) are shown to hold in every
  reachable store, so that no statement of the code is ever refused by them.
\<close>

section \<open>The constraints\<close>

definition row_ok :: "run \<Rightarrow> bool" where
  "row_ok r \<longleftrightarrow>
     (r_status r = Waiting \<longrightarrow> r_wake r \<noteq> None)
     \<and> (r_status r = Parked \<longrightarrow> r_wake r = None)
     \<and> (r_status r = Exited \<longrightarrow> r_wake r = None \<and> r_exited r \<noteq> None
          \<and> (\<exists>x\<in>set exit_reasons. r_exit_reason r = Some x))"

definition rows_ok :: "run list \<Rightarrow> bool" where
  "rows_ok rs \<longleftrightarrow> distinct (map r_id rs) \<and> distinct (map open_key (filter is_open rs))
     \<and> (\<forall>r\<in>set rs. row_ok r)"

definition trail_ok :: "store \<Rightarrow> bool" where
  "trail_ok s \<longleftrightarrow> (\<forall>t\<in>set (s_trail s). st_arrived t \<le> st_left t
     \<and> (\<exists>r\<in>set (s_rows s). r_id r = tr_run t \<and> r_merchant r = tr_merchant t))"

definition store_ok :: "store \<Rightarrow> bool" where
  "store_ok s \<longleftrightarrow> rows_ok (s_rows s) \<and> trail_ok s"

definition no_store :: store where
  "no_store = \<lparr>s_rows = [], s_trail = []\<rparr>"

definition trail_of :: "string \<Rightarrow> store \<Rightarrow> trail_row list" where
  "trail_of i s = filter (\<lambda>t. tr_run t = i) (s_trail s)"

lemma distinct_map_filter_update:
  assumes "distinct (map g (filter Q xs))"
    and "\<And>x. x \<in> set xs \<Longrightarrow> Q (u x) \<Longrightarrow> Q x" and "\<And>x. x \<in> set xs \<Longrightarrow> g (u x) = g x"
  shows "distinct (map g (filter Q (map u xs)))"
  using assms
proof (induction xs)
  case (Cons x xs)
  have ih: "distinct (map g (filter Q (map u xs)))"
    using Cons by (auto split: if_splits)
  show ?case
  proof (cases "Q (u x)")
    case True
    then have q: "Q x" and gx: "g (u x) = g x" using Cons.prems by simp_all
    have "g x \<notin> g ` {y \<in> set xs. Q y}" using Cons.prems(1) q by simp
    moreover have "g ` set (filter Q (map u xs)) \<subseteq> g ` {y \<in> set xs. Q y}"
      using Cons.prems(2,3) by force
    ultimately show ?thesis using True ih gx by auto
  qed (use ih in simp)
qed simp

lemma rewrite_rows [store_simps]: "s_rows (rewrite P f s) = map (\<lambda>r. if P r then f r else r) (s_rows s)"
  by (simp add: rewrite_def)

lemma rewrite_trail [store_simps]: "s_trail (rewrite P f s) = s_trail s"
  by (simp add: rewrite_def)

lemma hits_set [store_simps]: "set (hits P s) = {r \<in> set (s_rows s). P r}"
  by (auto simp: hits_def)

lemma flush_arm_set:
  "t \<in> set (flush_arm ok moved steps) \<longleftrightarrow> (\<exists>m\<in>set moved. \<exists>x\<in>set steps. ok m x \<and> t = trail_row_of m x)"
  by (auto simp: flush_arm_def)

lemma trail_row_of_sel [simp]:
  "tr_run (trail_row_of m x) = r_id m" "tr_merchant (trail_row_of m x) = r_merchant m"
  "tr_workflow (trail_row_of m x) = r_workflow m" "tr_version (trail_row_of m x) = r_version m"
  "st_arrived (trail_row_of m x) = st_arrived x" "st_left (trail_row_of m x) = st_left x"
  "st_node (trail_row_of m x) = st_node x" "st_next (trail_row_of m x) = st_next x"
  by (simp_all add: trail_row_of_def)

section \<open>The contract of an UPDATE\<close>

text \<open>
  A statement on the run table rewrites open rows only, keeps who the run is and the key it is
  unique by, and leaves each row it touches within the constraints.
\<close>

locale row_update =
  fixes guard :: "run \<Rightarrow> bool" and change :: "run \<Rightarrow> run"
  assumes keeps_id: "guard r \<Longrightarrow> r_id (change r) = r_id r"
    and keeps_key: "guard r \<Longrightarrow> open_key (change r) = open_key r"
    and open_only: "guard r \<Longrightarrow> is_open r"
    and keeps_row: "guard r \<Longrightarrow> row_ok r \<Longrightarrow> row_ok (change r)"
begin

abbreviation upd :: "run \<Rightarrow> run" where
  "upd r \<equiv> (if guard r then change r else r)"

lemma upd_id: "r_id (upd r) = r_id r"
  by (simp add: keeps_id)

lemma upd_merchant: "r_merchant (upd r) = r_merchant r"
  using keeps_key [of r] by (auto simp: open_key_def)

lemma same_ids: "map r_id (s_rows (rewrite guard change s)) = map r_id (s_rows s)"
  by (simp add: store_simps keeps_id)

lemma rows_kept: "rows_ok (s_rows s) \<Longrightarrow> rows_ok (s_rows (rewrite guard change s))"
proof -
  assume ok: "rows_ok (s_rows s)"
  have "distinct (map open_key (filter is_open (map upd (s_rows s))))"
    by (rule distinct_map_filter_update) (use ok open_only keeps_key in \<open>auto simp: rows_ok_def split: if_splits\<close>)
  moreover have "\<forall>r\<in>set (map upd (s_rows s)). row_ok r"
    using ok keeps_row by (auto simp: rows_ok_def)
  moreover have "distinct (map r_id (map upd (s_rows s)))"
    using ok same_ids [of s] by (simp only: rewrite_rows rows_ok_def)
  ultimately show ?thesis by (simp only: rewrite_rows rows_ok_def)
qed

lemma trail_kept: "trail_ok s \<Longrightarrow> trail_ok (rewrite guard change s)"
  unfolding trail_ok_def rewrite_trail rewrite_rows
  by (metis (no_types, lifting) image_eqI list.set_map upd_id upd_merchant)

lemma store_kept: "store_ok s \<Longrightarrow> store_ok (rewrite guard change s)"
  by (simp add: store_ok_def rows_kept trail_kept)

lemma touch_kept: "store_ok s \<Longrightarrow> store_ok (snd (touch guard change s))"
  by (simp add: touch_def store_kept)

lemma move_kept:
  assumes "store_ok s" and "steps_ok steps"
  shows "store_ok (snd (move guard change ok steps s))"
proof -
  have "trail_ok (rewrite guard change s)" using assms by (simp add: store_ok_def trail_kept)
  moreover have "\<exists>r\<in>set (s_rows (rewrite guard change s)). r_id r = r_id m \<and> r_merchant r = r_merchant m"
    if "m \<in> set (s_rows s)" for m
  proof -
    have "upd m \<in> set (s_rows (rewrite guard change s))"
      unfolding rewrite_rows set_map using that by (rule imageI)
    then show ?thesis using upd_id [of m] upd_merchant [of m] by blast
  qed
  ultimately show ?thesis
    using assms rows_kept
    by (auto simp: store_ok_def move_def trail_ok_def flush_arm_set hits_set rewrite_trail steps_ok_def)
qed

lemma exited_kept: "r \<in> set (s_rows s) \<Longrightarrow> r_status r = Exited \<Longrightarrow> r \<in> set (s_rows (rewrite guard change s))"
  using open_only [of r] by (force simp: store_simps is_open_def)

end

section \<open>The statements keep it\<close>

interpretation advance: row_update "leased i lease" "advance_set nd wake context arrived"
  for i lease nd wake "context" arrived
  by unfold_locales (auto simp: leased_def advance_set_def open_key_def is_open_def row_ok_def)

interpretation exit_upd: row_update "\<lambda>r. reason \<in> set exit_reasons \<and> exit_guard i lease r"
    "exit_set now reason nd context"
  for i lease now reason nd "context"
  by unfold_locales (auto simp: exit_guard_def exit_set_def open_key_def is_open_def row_ok_def)

interpretation park: row_update "leased i lease" "park_set err"
  for i lease err
  by unfold_locales (auto simp: leased_def park_set_def open_key_def is_open_def row_ok_def)

interpretation retry: row_update "leased i lease" "error_set now err secs"
  for i lease now err secs
  by unfold_locales (auto simp: leased_def error_set_def open_key_def is_open_def row_ok_def)

interpretation reply: row_update "standing m i nd"
    "\<lambda>r. (woken now r)\<lparr>r_context := resume_context nd patch facts (r_context r)\<rparr>"
  for m i nd now patch facts
  by unfold_locales (auto simp: standing_def woken_def open_key_def is_open_def row_ok_def)

interpretation refresh: row_update "standing m i nd"
    "\<lambda>r. (woken now r)\<lparr>r_context := refresh_context facts ptr (r_context r)\<rparr>"
  for m i nd now facts ptr
  by unfold_locales (auto simp: standing_def woken_def open_key_def is_open_def row_ok_def)

interpretation cancel: row_update "\<lambda>r. reason \<in> set exit_reasons \<and> cancel_guard L m i occurred key r"
    "cancel_set now reason patch"
  for L m i occurred key now reason patch
  by unfold_locales (auto simp: cancel_guard_def cancel_set_def open_key_def is_open_def row_ok_def)

interpretation repeat: row_update "repeat_guard m wid key entry_node ev anywhere"
    "repeat_set now ev patch accumulate max_field max_value debounce"
  for m wid key entry_node ev anywhere now patch accumulate max_field max_value debounce
  by unfold_locales
    (auto simp: repeat_guard_def repeat_set_def repeat_wake_def open_key_def is_open_def row_ok_def)

interpretation repin: row_update "on_plan m wid" "\<lambda>r. r\<lparr>r_version := v\<rparr>"
  for m wid v
  by unfold_locales (auto simp: on_plan_def open_key_def is_open_def row_ok_def)

interpretation repin_from: row_update "\<lambda>r. on_plan m wid r \<and> r_version r = v" "\<lambda>r. r\<lparr>r_version := v'\<rparr>"
  for m wid v v'
  by unfold_locales (auto simp: on_plan_def open_key_def is_open_def row_ok_def)

interpretation resume: row_update "resume_guard m wid i" "resume_set now"
  for m wid i now
  by unfold_locales (auto simp: resume_guard_def resume_set_def open_key_def is_open_def row_ok_def)

interpretation claim: row_update "\<lambda>r. r_id r \<in> set ids \<and> due paused now r" "claim_set now secs"
  for ids paused now secs
  by unfold_locales (auto simp: due_def claim_set_def open_key_def is_open_def row_ok_def)

lemma rewrite_cong:
  "(\<And>r. r \<in> set (s_rows s) \<Longrightarrow> P r = Q r) \<Longrightarrow> rewrite P f s = rewrite Q f s"
  by (simp add: rewrite_def)

lemma hits_cong: "(\<And>r. r \<in> set (s_rows s) \<Longrightarrow> P r = Q r) \<Longrightarrow> hits P s = hits Q s"
  by (auto simp: hits_def intro: filter_cong)

lemma move_cong:
  "(\<And>r. r \<in> set (s_rows s) \<Longrightarrow> P r = Q r) \<Longrightarrow> move P f ok steps s = move Q f ok steps s"
  using rewrite_cong [of s P Q f] hits_cong [of s P Q] by (simp add: move_def)

lemma same_id_same_row:
  "rows_ok rs \<Longrightarrow> r \<in> set rs \<Longrightarrow> r' \<in> set rs \<Longrightarrow> r_id r = r_id r' \<Longrightarrow> r = r'"
  by (auto simp: rows_ok_def distinct_map dest: inj_onD)

lemma claimed_ids_due:
  assumes "i \<in> set (claimed_ids paused locked now limit s)"
  shows "\<exists>r\<in>set (s_rows s). r_id r = i \<and> due paused now r \<and> \<not> locked i"
proof -
  have "set (take n (sort_key k xs)) \<subseteq> set xs" for n and k :: "run \<Rightarrow> int \<times> string" and xs
    using set_take_subset [of n "sort_key k xs"] by simp
  then show ?thesis using assms by (force simp: claimed_ids_def)
qed

lemma claim_guard:
  assumes "rows_ok (s_rows s)" and "r \<in> set (s_rows s)"
  shows "r_id r \<in> set (claimed_ids paused locked now limit s)
    \<longleftrightarrow> r_id r \<in> set (claimed_ids paused locked now limit s) \<and> due paused now r"
  using claimed_ids_due [of "r_id r" paused locked now limit s] same_id_same_row [OF assms(1)] assms(2)
  by metis

lemma claim_rewrite:
  assumes "rows_ok (s_rows s)"
  shows "snd (claim_due_runs paused locked now limit secs s)
    = rewrite (\<lambda>r. r_id r \<in> set (claimed_ids paused locked now limit s) \<and> due paused now r)
        (claim_set now secs) s"
  unfolding claim_due_runs_def Let_def snd_conv
  by (rule rewrite_cong) (rule claim_guard [OF assms])

lemma exit_as_update:
  "reason \<in> set exit_reasons \<Longrightarrow>
     exit_run now i reason lease nd c steps s
     = move (\<lambda>r. reason \<in> set exit_reasons \<and> exit_guard i lease r) (exit_set now reason nd c)
         (\<lambda>m x. True) steps s"
  unfolding exit_run_def by (rule move_cong) simp

lemma cancel_as_update:
  "cancel_run L now m i reason occurred key patch steps s = Some res \<Longrightarrow> reason \<in> set exit_reasons \<Longrightarrow>
     res = move (\<lambda>r. reason \<in> set exit_reasons \<and> cancel_guard L m i occurred key r)
             (cancel_set now reason patch) same_square steps s"
  unfolding cancel_run_def by (auto split: if_splits intro: move_cong)

lemma patch_as_touch:
  "patch_open_run now m wid key nd ev patch acc mf mv deb anyw s = Some res \<Longrightarrow>
     res = touch (repeat_guard m wid key nd ev anyw) (repeat_set now ev patch acc mf mv deb) s"
  by (simp add: patch_open_run_def Let_def split: if_splits)

section \<open>The statements in any order\<close>

text \<open>
  One committed statement, by whatever process, with whatever parameters the code can give it:
  an exit names a reason of the closed list, and buffered squares are built by \<open>step\<close> or
  \<open>closing\<close> (\<open>steps_ok\<close>).
\<close>

inductive db_step :: "lib \<Rightarrow> store \<Rightarrow> store \<Rightarrow> bool" for L where
  claim: "db_step L s (snd (claim_due_runs paused locked now limit secs s))"
| advance: "steps_ok steps \<Longrightarrow> db_step L s (snd (advance_run i nd wake c lease arrived steps s))"
| walker_exit: "steps_ok steps \<Longrightarrow> reason \<in> set exit_reasons \<Longrightarrow>
    db_step L s (snd (exit_run now i reason lease nde ce steps s))"
| park: "db_step L s (snd (park_run i err lease s))"
| retry: "db_step L s (snd (record_run_error now i err secs lease s))"
| reply: "db_step L s (snd (resume_run_by_id now m i nd patch facts s))"
| refresh: "db_step L s (snd (refresh_run_facts now m i nd facts ptr s))"
| cancel: "cancel_run L now m i reason occurred key pat steps s = Some (b, s') \<Longrightarrow>
    reason \<in> set exit_reasons \<Longrightarrow> steps_ok steps \<Longrightarrow> db_step L s s'"
| repeat: "patch_open_run now m wid key nd ev patch acc mf mv deb anyw s = Some (b, s') \<Longrightarrow> db_step L s s'"
| insert: "insert_enrollment now i m wid v c nd wake ctx key s = Some (r, s') \<Longrightarrow> db_step L s s'"
| repin: "db_step L s (snd (repin_open_runs m wid v s))"
| repin_from: "db_step L s (snd (repin_runs_on_version m wid v v' s))"
| resume: "db_step L s (snd (resume_run now m wid i s))"
| sweep: "db_step L s (snd (sweep_exited_runs cutoff batch s))"

inductive reachable :: "lib \<Rightarrow> store \<Rightarrow> bool" for L where
  start: "reachable L no_store"
| after: "reachable L s \<Longrightarrow> db_step L s s' \<Longrightarrow> reachable L s'"

lemma insert_kept:
  assumes "store_ok s" and "insert_enrollment now i m wid v c nd wake ctx key s = Some (r, s')"
  shows "store_ok s'"
proof -
  have new: "\<not> list_ex (\<lambda>r. is_open r \<and> open_key r = (m, wid, key)) (s_rows s)"
      "\<not> list_ex (\<lambda>r. r_id r = i) (s_rows s)"
    and s': "s' = s\<lparr>s_rows := s_rows s @ [born now i m wid v c nd wake ctx key]\<rparr>"
    using assms(2) by (auto simp: insert_enrollment_def Let_def split: if_splits)
  have "open_key (born now i m wid v c nd wake ctx key) = (m, wid, key)"
    "r_id (born now i m wid v c nd wake ctx key) = i" "row_ok (born now i m wid v c nd wake ctx key)"
    by (simp_all add: born_def open_key_def row_ok_def)
  then have "rows_ok (s_rows s')"
    using assms(1) new by (auto simp: store_ok_def s' rows_ok_def list_ex_iff)
  moreover have "trail_ok s'" using assms(1) by (auto simp: store_ok_def trail_ok_def s')
  ultimately show ?thesis by (simp add: store_ok_def)
qed

lemma sweep_rows:
  "\<exists>ids. s_rows (snd (sweep_exited_runs cutoff batch s)) = filter (\<lambda>r. r_id r \<notin> ids) (s_rows s)
     \<and> s_trail (snd (sweep_exited_runs cutoff batch s)) = filter (\<lambda>t. tr_run t \<notin> ids) (s_trail s)"
  unfolding sweep_exited_runs_def Let_def by auto

lemma distinct_map_filter_less:
  "distinct (map g (filter Q xs)) \<Longrightarrow> distinct (map g (filter Q (filter R xs)))"
  by (induction xs) auto

lemma rows_ok_filter: "rows_ok rs \<Longrightarrow> rows_ok (filter R rs)"
  using distinct_map_filter_less [of open_key is_open rs R] by (auto simp: rows_ok_def distinct_map_filter)

lemma sweep_kept: "store_ok s \<Longrightarrow> store_ok (snd (sweep_exited_runs cutoff batch s))"
proof -
  assume ok: "store_ok s"
  obtain ids where ids: "s_rows (snd (sweep_exited_runs cutoff batch s)) = filter (\<lambda>r. r_id r \<notin> ids) (s_rows s)"
      "s_trail (snd (sweep_exited_runs cutoff batch s)) = filter (\<lambda>t. tr_run t \<notin> ids) (s_trail s)"
    using sweep_rows by blast
  have "trail_ok (snd (sweep_exited_runs cutoff batch s))"
    using ok by (fastforce simp: store_ok_def trail_ok_def ids)
  then show ?thesis using ok rows_ok_filter by (simp add: store_ok_def ids)
qed

text \<open>
  Every statement is one of three things: an UPDATE under the contract, with the trail rows it
  flushes; the birth of a run under a fresh id; the sweep of exited runs with their trail.
\<close>

lemma flush_arm_Nil [simp]: "flush_arm ok ms [] = []"
  by (induction ms) (simp_all add: flush_arm_def)

lemma rewrite_as_move: "rewrite P f s = snd (move P f ok [] s)"
  by (cases s) (simp add: move_def rewrite_def)

lemma touch_as_move: "snd (touch P f s) = snd (move P f ok [] s)"
  using rewrite_as_move by (simp add: touch_def)

definition is_update :: "store \<Rightarrow> store \<Rightarrow> bool" where
  "is_update s s' \<longleftrightarrow> (\<exists>P f ok steps. row_update P f \<and> steps_ok steps \<and> s' = snd (move P f ok steps s))"

definition is_birth :: "store \<Rightarrow> store \<Rightarrow> bool" where
  "is_birth s s' \<longleftrightarrow> (\<exists>now i m wid v c nd wake ctx key r.
     insert_enrollment now i m wid v c nd wake ctx key s = Some (r, s'))"

definition is_sweep :: "store \<Rightarrow> store \<Rightarrow> bool" where
  "is_sweep s s' \<longleftrightarrow> (\<exists>cutoff batch. s' = snd (sweep_exited_runs cutoff batch s))"

lemma is_updateI: "row_update P f \<Longrightarrow> steps_ok steps \<Longrightarrow> s' = snd (move P f ok steps s) \<Longrightarrow> is_update s s'"
  unfolding is_update_def by blast

lemma is_update_touch: "row_update P f \<Longrightarrow> is_update s (snd (touch P f s))"
  using is_updateI [OF _ steps_ok_Nil touch_as_move] .

lemma is_update_rewrite: "row_update P f \<Longrightarrow> is_update s (rewrite P f s)"
  using is_updateI [OF _ steps_ok_Nil rewrite_as_move] .

lemma db_step_shape:
  "db_step L s s' \<Longrightarrow> rows_ok (s_rows s) \<Longrightarrow> is_update s s' \<or> is_birth s s' \<or> is_sweep s s'"
proof (induction rule: db_step.induct)
  case (claim s paused locked now limit secs)
  then show ?case using claim_rewrite is_update_rewrite [OF claim.row_update_axioms] by simp
next
  case (advance steps s i nd wake c lease arrived)
  then show ?case
    using is_updateI [OF advance.row_update_axioms] by (simp add: advance_run_def)
next
  case (walker_exit steps reason s now i lease nde ce)
  show ?case
    unfolding exit_as_update [OF walker_exit(2)]
    using is_updateI [OF exit_upd.row_update_axioms walker_exit(1) refl] by blast
next
  case (cancel now m i reason occurred key pat steps s b s')
  then show ?case
    using cancel_as_update [OF cancel(1,2)] is_updateI [OF cancel.row_update_axioms cancel(3)]
    by (metis snd_conv)
next
  case (repeat now m wid key nd ev patch acc mf mv deb anyw s b s')
  then show ?case
    using patch_as_touch [OF repeat(1)] is_update_touch [OF repeat.row_update_axioms] by (metis snd_conv)
next
  case (insert now i m wid v c nd wake ctx key s r s')
  then show ?case unfolding is_birth_def by blast
next
  case (sweep s cutoff batch)
  then show ?case unfolding is_sweep_def by blast
qed (simp_all add: park_run_def record_run_error_def resume_run_by_id_def refresh_run_facts_def
    repin_open_runs_def repin_runs_on_version_def Let_def resume_run_def
    is_update_touch [OF park.row_update_axioms] is_update_touch [OF retry.row_update_axioms]
    is_update_touch [OF reply.row_update_axioms] is_update_touch [OF refresh.row_update_axioms]
    is_update_rewrite [OF repin.row_update_axioms] is_update_rewrite [OF repin_from.row_update_axioms]
    is_update_rewrite [OF resume.row_update_axioms])

lemma db_step_kept:
  assumes "db_step L s s'" and "store_ok s"
  shows "store_ok s'"
proof -
  have "rows_ok (s_rows s)" using assms(2) by (simp add: store_ok_def)
  then consider "is_update s s'" | "is_birth s s'" | "is_sweep s s'"
    using db_step_shape [OF assms(1)] by blast
  then show ?thesis
  proof cases
    case 1
    then show ?thesis using row_update.move_kept assms(2) unfolding is_update_def by blast
  next
    case 2
    then show ?thesis using insert_kept [OF assms(2)] unfolding is_birth_def by blast
  next
    case 3
    then show ?thesis using sweep_kept [OF assms(2)] unfolding is_sweep_def by blast
  qed
qed

lemma reachable_store_ok': "reachable L s \<Longrightarrow> store_ok s"
proof (induction rule: reachable.induct)
  case start
  show ?case by (simp add: store_ok_def rows_ok_def trail_ok_def no_store_def)
next
  case (after s s')
  then show ?case using db_step_kept by blast
qed

text \<open>
  C2 In every store the statements can reach, in any order and interleaving, the database's
  constraints hold: ids are unique, no two open runs share (merchant, plan, key), a waiting run
  has an alarm, a parked one has none, an exited one has a reason of the closed list, its moment
  and no alarm, and every trail row belongs to a run of its merchant and ends no earlier than it
  began.
\<close>

theorem reachable_store_ok: "reachable L s \<Longrightarrow> store_ok s"
  by (rule reachable_store_ok')

section \<open>History\<close>

lemma trail_of_move:
  "trail_of i (snd (move P f ok steps s)) =
     trail_of i s @ filter (\<lambda>t. tr_run t = i) (flush_arm ok (hits P s) steps)"
  by (simp add: trail_of_def move_def)

lemma move_rows [store_simps]: "s_rows (snd (move P f ok steps s)) = s_rows (rewrite P f s)"
  by (simp add: move_def)

lemma move_exited:
  assumes "row_update P f" and "rows_ok (s_rows s)" and "r \<in> set (s_rows s)" and "r_status r = Exited"
  shows "r \<in> set (s_rows (snd (move P f ok steps s)))"
    and "trail_of (r_id r) (snd (move P f ok steps s)) = trail_of (r_id r) s"
proof -
  show "r \<in> set (s_rows (snd (move P f ok steps s)))"
    using row_update.exited_kept [OF assms(1,3,4)] by (simp add: move_rows)
  have "m = r" if "m \<in> set (s_rows s)" "r_id m = r_id r" for m
    using same_id_same_row [OF assms(2) that(1) assms(3) that(2)] .
  moreover have "\<not> P r"
    using row_update.open_only [OF assms(1), of r] assms(4) by (auto simp: is_open_def)
  ultimately have "r_id m \<noteq> r_id r" if "m \<in> set (hits P s)" for m
    using that by (auto simp: hits_set)
  then have "filter (\<lambda>t. tr_run t = r_id r) (flush_arm ok (hits P s) steps) = []"
    by (auto simp: filter_empty_conv flush_arm_set)
  then show "trail_of (r_id r) (snd (move P f ok steps s)) = trail_of (r_id r) s"
    by (simp add: trail_of_move)
qed

lemma sweep_dead_exited:
  assumes "rows_ok (s_rows s)" and "r \<in> set (s_rows s)"
    and "r \<notin> set (s_rows (snd (sweep_exited_runs cutoff batch s)))"
  shows "r_status r = Exited"
proof -
  let ?old = "filter (\<lambda>r. r_status r = Exited \<and> (case r_exited r of None \<Rightarrow> False | Some t \<Rightarrow> t < cutoff)) (s_rows s)"
  have "r_id r \<in> r_id ` set (take batch (sort_key (\<lambda>r. the (r_exited r)) ?old))"
    using assms(2,3) by (simp add: sweep_exited_runs_def Let_def)
  then obtain x where x: "r_id x = r_id r" "x \<in> set ?old" by (force dest: in_set_takeD)
  then have "x = r" using same_id_same_row [OF assms(1), of x r] assms(2) by simp
  with x show ?thesis by simp
qed

text \<open>
  A finished run is final.  Whatever statement commits next, an exited row is still in the
  table, unchanged in every column, and no row is added to its trail; or the retention sweep took
  the run and its whole trail together.  An open run is never swept.
\<close>

theorem exited_run_is_final:
  assumes "reachable L s" and "db_step L s s'" and "r \<in> set (s_rows s)"
  shows "(r_status r = Exited \<longrightarrow>
           (r \<in> set (s_rows s') \<and> trail_of (r_id r) s' = trail_of (r_id r) s)
           \<or> (r_id r \<notin> r_id ` set (s_rows s') \<and> trail_of (r_id r) s' = []))
       \<and> (r_status r \<noteq> Exited \<longrightarrow> r_id r \<in> r_id ` set (s_rows s'))"
proof -
  have ok: "rows_ok (s_rows s)" using reachable_store_ok' [OF assms(1)] by (simp add: store_ok_def)
  then consider "is_update s s'" | "is_birth s s'" | "is_sweep s s'"
    using db_step_shape [OF assms(2)] by blast
  then show ?thesis
  proof cases
    case 1
    then obtain P f ok' steps where u: "row_update P f" "s' = snd (move P f ok' steps s)"
      unfolding is_update_def by blast
    have "r_id ` set (s_rows s') = r_id ` set (s_rows s)"
      using row_update.same_ids [OF u(1), of s] by (metis move_rows list.set_map u(2))
    then show ?thesis using move_exited [OF u(1) ok assms(3)] assms(3) u(2) by auto
  next
    case 2
    then obtain x where "s' = s\<lparr>s_rows := s_rows s @ [x]\<rparr>"
      unfolding is_birth_def by (auto simp: insert_enrollment_def Let_def split: if_splits)
    then show ?thesis using assms(3) by (simp add: trail_of_def)
  next
    case 3
    then obtain cutoff batch where s': "s' = snd (sweep_exited_runs cutoff batch s)"
      unfolding is_sweep_def by blast
    obtain ids where ids: "s_rows s' = filter (\<lambda>r. r_id r \<notin> ids) (s_rows s)"
        "s_trail s' = filter (\<lambda>t. tr_run t \<notin> ids) (s_trail s)"
      using sweep_rows s' by blast
    show ?thesis
    proof (cases "r_id r \<in> ids")
      case True
      then have "r \<notin> set (s_rows s')" and gone: "r_id r \<notin> r_id ` set (s_rows s')"
        by (auto simp: ids)
      then have "r_status r = Exited" using sweep_dead_exited [OF ok assms(3)] s' by blast
      moreover have "trail_of (r_id r) s' = []" using True by (auto simp: trail_of_def ids filter_empty_conv)
      ultimately show ?thesis using gone by blast
    next
      case False
      then have "trail_of (r_id r) s' = trail_of (r_id r) s"
        using ids by (auto simp: trail_of_def intro: filter_cong)
      then show ?thesis using False ids assms(3) by auto
    qed
  qed
qed

lemma trail_grows:
  assumes "row_update P f"
  shows "\<exists>xs. trail_of i (snd (move P f ok steps s)) = trail_of i s @ xs"
  by (simp add: trail_of_move)

section \<open>The lease\<close>

lemma move_miss: "(\<forall>r\<in>set (s_rows s). \<not> P r) \<Longrightarrow> move P f ok steps s = (False, s)"
proof -
  assume none: "\<forall>r\<in>set (s_rows s). \<not> P r"
  then have "hits P s = []" by (simp add: hits_def filter_empty_conv)
  moreover have "rewrite P f s = s"
    using none by (cases s) (simp add: rewrite_def map_idI)
  moreover have "flush_arm ok [] steps = []" by (simp add: flush_arm_def)
  ultimately show ?thesis by (cases s) (simp add: move_def)
qed

lemma touch_miss: "(\<forall>r\<in>set (s_rows s). \<not> P r) \<Longrightarrow> touch P f s = (False, s)"
  by (simp add: touch_def hits_def rewrite_def filter_empty_conv map_idI cong: map_cong)

text \<open>
  A write under a stale lease: the row has the id and is open, but its alarm is another one.
\<close>

definition lease_stale :: "string \<Rightarrow> time \<Rightarrow> store \<Rightarrow> bool" where
  "lease_stale i lease s \<longleftrightarrow> (\<forall>r\<in>set (s_rows s). r_id r = i \<longrightarrow> r_wake r \<noteq> Some lease)"

lemma stale_walker_writes:
  assumes "lease_stale i lease s"
  shows "advance_run i nd wake c lease arrived steps s = (False, s)"
    and "exit_run now i reason lease nde ce steps s = (False, s)"
    and "park_run i err lease s = (False, s)"
    and "record_run_error now i err secs lease s = (False, s)"
proof -
  have l: "\<forall>r\<in>set (s_rows s). \<not> leased i lease r" and e: "\<forall>r\<in>set (s_rows s). \<not> exit_guard i lease r"
    using assms by (auto simp: lease_stale_def leased_def exit_guard_def)
  show "advance_run i nd wake c lease arrived steps s = (False, s)"
    and "park_run i err lease s = (False, s)" and "record_run_error now i err secs lease s = (False, s)"
    by (simp_all add: advance_run_def park_run_def record_run_error_def move_miss [OF l] touch_miss [OF l])
  show "exit_run now i reason lease nde ce steps s = (False, s)"
    by (simp add: exit_run_def move_miss [OF e])
qed

lemma touched_wake:
  assumes "\<And>r. r \<in> set (s_rows s) \<Longrightarrow> r_id r = i \<Longrightarrow> P r \<Longrightarrow> r_wake (f r) \<noteq> Some lease"
    and "\<And>r. r \<in> set (s_rows s) \<Longrightarrow> r_id r = i \<Longrightarrow> \<not> P r \<Longrightarrow> r_wake r \<noteq> Some lease"
    and "\<And>r. P r \<Longrightarrow> r_id (f r) = r_id r"
  shows "lease_stale i lease (snd (touch P f s))"
  using assms by (auto simp: lease_stale_def touch_def store_simps)

text \<open>
  C1 No reply is overwritten.  Once a letter has answered the square a run stands on, every
  write of a visit that was claimed before it -- its move, its exit, its park, its retry -- finds
  another alarm than its lease and changes nothing at all, neither the row nor the trail; only a
  letter committed at the very microsecond the lease would run out at could meet it.
\<close>

theorem reply_beats_the_visit:
  assumes "rows_ok (s_rows s)" and "resume_run_by_id now m i nd patch facts s = (True, s')"
    and "now \<noteq> lease"
  shows "advance_run i nd' wake c lease arrived steps s' = (False, s')
    \<and> exit_run t i reason lease nde ce steps s' = (False, s')
    \<and> park_run i err lease s' = (False, s')
    \<and> record_run_error t i err secs lease s' = (False, s')"
proof -
  let ?f = "\<lambda>r. (woken now r)\<lparr>r_context := resume_context nd patch facts (r_context r)\<rparr>"
  have hit: "hits (standing m i nd) s \<noteq> []" and s': "s' = snd (touch (standing m i nd) ?f s)"
    using assms(2) by (auto simp: resume_run_by_id_def touch_def)
  obtain x where x: "x \<in> set (s_rows s)" "standing m i nd x"
    using hit by (auto simp: hits_def filter_empty_conv)
  have "lease_stale i lease s'"
    unfolding s'
  proof (rule touched_wake)
    fix r assume r: "r \<in> set (s_rows s)" "r_id r = i"
    then have "r = x" using same_id_same_row [OF assms(1) r(1) x(1)] x(2) by (simp add: standing_def)
    then show "\<not> standing m i nd r \<Longrightarrow> r_wake r \<noteq> Some lease" using x(2) by blast
  qed (use assms(3) in \<open>simp_all add: woken_def\<close>)
  then show ?thesis by (simp add: stale_walker_writes)
qed

definition sample_run :: run where
  "sample_run = \<lparr>r_id = ''r1'', r_merchant = ''m'', r_workflow = ''w'', r_version = 1, r_customer = ''c'',
     r_status = Waiting, r_node = ''start'', r_wake = Some 60000000, r_entered = 0, r_exited = None,
     r_exit_reason = None, r_context = [(''phone'', JStr ''1''), (''cart'', JInt 1)], r_key = ''c'',
     r_attempts = 0, r_error = None, r_arrived = Some 0\<rparr>"

definition sample_store :: store where
  "sample_store = \<lparr>s_rows = [sample_run], s_trail = []\<rparr>"

lemma sample_rows_ok: "rows_ok (s_rows sample_store)"
  by (simp add: rows_ok_def sample_store_def sample_run_def row_ok_def)

lemma sample_reachable: "reachable L sample_store"
proof (rule reachable.after [OF reachable.start])
  show "db_step L no_store sample_store"
    by (rule db_step.insert [where now = 0 and i = "''r1''" and m = "''m''" and wid = "''w''" and v = 1
          and c = "''c''" and nd = "''start''" and wake = 60000000
          and ctx = "[(''phone'', JStr ''1''), (''cart'', JInt 1)]" and key = "''c''" and r = sample_run])
      (simp add: insert_enrollment_def Let_def no_store_def sample_store_def sample_run_def born_def)
qed

lemma reachable_store_ok_witness: "store_ok sample_store"
  by (rule reachable_store_ok [OF sample_reachable])

lemma sample_reply:
  "resume_run_by_id 70000000 ''m'' ''r1'' ''start'' [(''reply_start'', JStr ''yes'')] [] sample_store
    = (True, snd (resume_run_by_id 70000000 ''m'' ''r1'' ''start'' [(''reply_start'', JStr ''yes'')] [] sample_store))"
  by (simp add: resume_run_by_id_def touch_def hits_def standing_def sample_store_def sample_run_def)

lemma reply_beats_the_visit_witness:
  "\<exists>s'. resume_run_by_id 70000000 ''m'' ''r1'' ''start'' [(''reply_start'', JStr ''yes'')] [] sample_store = (True, s')
     \<and> advance_run ''r1'' ''next'' 99 [] 360000000 None [] s' = (False, s')"
proof (rule exI, rule conjI, rule sample_reply)
  show "advance_run ''r1'' ''next'' 99 [] 360000000 None []
      (snd (resume_run_by_id 70000000 ''m'' ''r1'' ''start'' [(''reply_start'', JStr ''yes'')] [] sample_store))
    = (False, snd (resume_run_by_id 70000000 ''m'' ''r1'' ''start'' [(''reply_start'', JStr ''yes'')] [] sample_store))"
    by (rule reply_beats_the_visit [OF sample_rows_ok sample_reply, THEN conjunct1]) simp
qed

lemma sample_exit_step:
  "db_step L sample_store (snd (exit_run 5 ''r1'' ''completed'' 60000000 None None [] sample_store))"
  by (rule db_step.walker_exit) (simp_all add: exit_reasons_def)

lemma sample_swept:
  "db_step L (snd (exit_run 5 ''r1'' ''completed'' 60000000 None None [] sample_store))
     (snd (sweep_exited_runs 9 1 (snd (exit_run 5 ''r1'' ''completed'' 60000000 None None [] sample_store))))"
  by (rule db_step.sweep)

definition exited_sample :: run where
  "exited_sample = exit_set 5 ''completed'' None None sample_run"

lemma exited_run_is_final_witness:
  "r_status exited_sample = Exited \<and>
   (let s = snd (exit_run 5 ''r1'' ''completed'' 60000000 None None [] sample_store);
        s' = snd (park_run ''r1'' ''late'' 60000000 s)
    in exited_sample \<in> set (s_rows s') \<or> ''r1'' \<notin> r_id ` set (s_rows s'))"
proof -
  let ?s = "snd (exit_run 5 ''r1'' ''completed'' 60000000 None None [] sample_store)"
  have r: "reachable india_lib ?s" by (rule reachable.after [OF sample_reachable sample_exit_step])
  have m: "exited_sample \<in> set (s_rows ?s)"
    by (simp add: exit_run_def move_def rewrite_def sample_store_def sample_run_def exit_guard_def exited_sample_def)
  have e: "r_status exited_sample = Exited" "r_id exited_sample = ''r1''"
    by (simp_all add: exited_sample_def exit_set_def sample_run_def)
  have "(exited_sample \<in> set (s_rows (snd (park_run ''r1'' ''late'' 60000000 ?s)))
        \<and> trail_of (r_id exited_sample) (snd (park_run ''r1'' ''late'' 60000000 ?s)) = trail_of (r_id exited_sample) ?s)
      \<or> (r_id exited_sample \<notin> r_id ` set (s_rows (snd (park_run ''r1'' ''late'' 60000000 ?s)))
        \<and> trail_of (r_id exited_sample) (snd (park_run ''r1'' ''late'' 60000000 ?s)) = [])"
    by (rule exited_run_is_final [OF r db_step.park m, THEN conjunct1, THEN mp, OF e(1)])
  then show ?thesis
    unfolding Let_def e(2) by (elim disjE conjE) (intro conjI e(1) disjI1, assumption, intro conjI e(1) disjI2, assumption)
qed

section \<open>One claim at a time\<close>

lemma claim_result:
  assumes "rows_ok (s_rows s)" and "claim_due_runs paused locked now limit secs s = (rs, s')"
  shows "rs = map (claim_set now secs) (hits (\<lambda>r. r_id r \<in> set (claimed_ids paused locked now limit s)) s)"
    and "s' = rewrite (\<lambda>r. r_id r \<in> set (claimed_ids paused locked now limit s) \<and> due paused now r)
               (claim_set now secs) s"
  using assms claim_rewrite [OF assms(1), of paused locked now limit secs]
  by (simp_all add: claim_due_runs_def Let_def)



end
