(* ===== verification/Repeat.thy ===== *)
theory Repeat
  imports Field_Grammar Enrollment_Laws
begin

text \<open>
  Repeat entries, \<open>app/crm/outreach/repeat.py\<close>: the words of a door about a second letter for
  an open run, what the one UPDATE is given, and what it does to the run.  A Python float is an
  exact rational here, so the comparisons are exact; a text beyond the range of a float reads as
  no number, as it does in Python (it would be infinite).
\<close>

section \<open>The words\<close>

datatype policy = Ignore | Refresh_latest | Refresh_max string | Accumulate

definition max_open :: string where "max_open = ''refresh_max(''"

definition parse_repeat_policy :: "string \<Rightarrow> policy option" where
  "parse_repeat_policy w =
     (if w = ''ignore'' then Some Ignore
      else if w = ''refresh_latest'' then Some Refresh_latest
      else if w = ''accumulate'' then Some Accumulate
      else let s = drop_final_newline w; inner = strip (butlast (drop (length max_open) s))
           in if prefix_of max_open s \<and> length max_open < length s \<and> last s = CHR '')'' \<and> is_ident inner
              then Some (Refresh_max inner) else None)"

record repeat_plan =
  rp_patch :: dict
  rp_accumulate :: bool
  rp_max_field :: "string option"
  rp_max_value :: "rat option"
  rp_debounce :: rat

definition is_noop :: "repeat_plan \<Rightarrow> bool" where
  "is_noop p \<longleftrightarrow> rp_patch p = [] \<and> \<not> rp_accumulate p \<and> rp_debounce p \<le> 0"

section \<open>Numbers\<close>

text \<open>\<open>float(text)\<close>: blanks around, a sign, digits with single underscores, a point, an exponent.\<close>

definition plain_digits :: "string \<Rightarrow> string option" where
  "plain_digits s = (if list_all all_digits (split_on (CHR ''_'') s)
                     then Some (filter (\<lambda>c. c \<noteq> CHR ''_'') s) else None)"

definition optional_digits :: "string \<Rightarrow> string option" where
  "optional_digits s = (if s = [] then Some [] else plain_digits s)"

definition mantissa :: "string \<Rightarrow> (int \<times> int) option" where
  "mantissa s = (case split_on (CHR ''.'') s of
       [a] \<Rightarrow> map_option (\<lambda>ds. (int (digits_val ds), 0)) (plain_digits a)
     | [a, b] \<Rightarrow> (if a = [] \<and> b = [] then None
                 else case (optional_digits a, optional_digits b) of
                   (Some x, Some y) \<Rightarrow> Some (int (digits_val (x @ y)), - int (length y))
                 | _ \<Rightarrow> None)
     | _ \<Rightarrow> None)"

definition signed_text :: "string \<Rightarrow> bool \<times> string" where
  "signed_text s = (take 1 s = ''-'', if take 1 s = ''-'' \<or> take 1 s = ''+'' then drop 1 s else s)"

definition exponent_of :: "string \<Rightarrow> int option" where
  "exponent_of s = (if s = [] then Some 0
     else let (neg, ds) = signed_text (tl s)
          in map_option (\<lambda>x. if neg then - int (digits_val x) else int (digits_val x)) (plain_digits ds))"

definition float_limit :: rat where
  "float_limit = 2 ^ 1024 - 2 ^ 970"

definition float_text :: "string \<Rightarrow> rat option" where
  "float_text s =
     (let (neg, body) = signed_text (strip s);
          isE = (\<lambda>c. c = CHR ''e'' \<or> c = CHR ''E'')
      in (case (mantissa (takeWhile (\<lambda>c. \<not> isE c) body), exponent_of (dropWhile (\<lambda>c. \<not> isE c) body)) of
            (Some (m, e), Some x) \<Rightarrow>
              (let v = (if neg then - dec_val m (e + x) else dec_val m (e + x))
               in if abs v < float_limit then Some v else None)
          | _ \<Rightarrow> None))"

fun finite_number :: "json \<Rightarrow> rat option" where
  "finite_number (JInt i) = Some (of_int i)"
| "finite_number (JDec m e) = Some (dec_val m e)"
| "finite_number (JStr s) = float_text s"
| "finite_number _ = None"

section \<open>The decision and its write\<close>

definition make_repeat_plan :: "entry \<Rightarrow> dict \<Rightarrow> repeat_plan" where
  "make_repeat_plan d facts =
     (case (case parse_repeat_policy (e_on_repeat d) of None \<Rightarrow> Ignore | Some p \<Rightarrow> p) of
        Refresh_latest \<Rightarrow> \<lparr>rp_patch = facts, rp_accumulate = False, rp_max_field = None,
                           rp_max_value = None, rp_debounce = e_debounce_minutes d\<rparr>
      | Refresh_max f \<Rightarrow>
          (case finite_number (dget facts f) of
             None \<Rightarrow> \<lparr>rp_patch = [], rp_accumulate = False, rp_max_field = None,
                      rp_max_value = None, rp_debounce = e_debounce_minutes d\<rparr>
           | Some v \<Rightarrow> \<lparr>rp_patch = facts, rp_accumulate = False, rp_max_field = Some f,
                        rp_max_value = Some v, rp_debounce = e_debounce_minutes d\<rparr>)
      | Accumulate \<Rightarrow> \<lparr>rp_patch = facts, rp_accumulate = True, rp_max_field = None,
                       rp_max_value = None, rp_debounce = e_debounce_minutes d\<rparr>
      | Ignore \<Rightarrow> \<lparr>rp_patch = [], rp_accumulate = False, rp_max_field = None,
                   rp_max_value = None, rp_debounce = e_debounce_minutes d\<rparr>)"

definition door_entry :: "door \<Rightarrow> entry" where
  "door_entry d = \<lparr>e_topic = e_topic d, e_where = e_where d, e_reenter = e_reenter d,
     e_cooldown_hours = e_cooldown_hours d, e_key = e_key d, e_on_repeat = e_on_repeat d,
     e_debounce_minutes = e_debounce_minutes d, e_restart_on_repeat = e_restart_on_repeat d\<rparr>"

definition apply_repeat ::
    "time \<Rightarrow> string \<Rightarrow> string \<Rightarrow> string \<Rightarrow> door \<Rightarrow> string \<Rightarrow> dict \<Rightarrow> store \<Rightarrow> (bool \<times> store) option" where
  "apply_repeat now m wid key d ev facts s =
     (let p = make_repeat_plan (door_entry d) facts
      in if is_noop p then Some (False, s)
         else patch_open_run now m wid key (e_start d) ev (rp_patch p) (rp_accumulate p)
                (rp_max_field p) (rp_max_value p) (rp_debounce p) (e_restart_on_repeat d) s)"

section \<open>Each letter once\<close>

lemma repeat_ids_grow:
  "map_of (repeat_context ev patch acc mf mv c) ''repeat_event_ids''
     = Some (JList (jsonb_items (jsonb_at c ''repeat_event_ids'') @ [JStr ev]))"
  by (simp add: repeat_context_def map_of_dmerge)

lemma repeat_marks: "jsonb_exists (jsonb_at (repeat_context ev patch acc mf mv c) ''repeat_event_ids'') ev"
  by (simp add: jsonb_at_def repeat_ids_grow jsonb_exists_def)

lemma repeat_not_twice:
  "\<not> repeat_guard m wid key nd ev anyw (repeat_set now ev patch acc mf mv deb r)"
  by (simp add: repeat_guard_def repeat_set_def repeat_marks)

text \<open>
  A redelivered repeat changes nothing: applied a second time, at any later moment, the same
  letter finds no run of the key it could still patch, so the alarm slides once per letter and
  the facts are appended once.
\<close>

theorem apply_repeat_idempotent:
  assumes "apply_repeat now m wid key d ev facts s = Some (b, s')"
  shows "apply_repeat now' m wid key d ev facts s' = Some (False, s')"
proof (cases "is_noop (make_repeat_plan (door_entry d) facts)")
  case True
  then show ?thesis by (simp add: apply_repeat_def Let_def)
next
  case False
  let ?p = "make_repeat_plan (door_entry d) facts"
  let ?P = "repeat_guard m wid key (e_start d) ev (e_restart_on_repeat d)"
  let ?f = "repeat_set now ev (rp_patch ?p) (rp_accumulate ?p) (rp_max_field ?p) (rp_max_value ?p) (rp_debounce ?p)"
  have s': "s' = snd (touch ?P ?f s)"
    using assms False patch_as_touch by (fastforce simp: apply_repeat_def Let_def)
  have none: "\<forall>r\<in>set (s_rows s'). \<not> ?P r"
    by (auto simp: s' touch_def store_simps repeat_not_twice)
  then have "\<not> list_ex (\<lambda>r. ?P r \<and> Q r) (s_rows s')" for Q by (auto simp: list_ex_iff)
  then show ?thesis
    using False none touch_miss [OF none] by (simp add: apply_repeat_def Let_def patch_open_run_def)
qed

definition cart_door :: door where
  "cart_door = \<lparr>e_topic = ''cart'', e_where = [], e_reenter = False, e_cooldown_hours = 24, e_key = None,
     e_on_repeat = ''refresh_latest'', e_debounce_minutes = 0, e_restart_on_repeat = False,
     e_start = ''start''\<rparr>"

lemma cart_plan:
  "make_repeat_plan (door_entry cart_door) f = \<lparr>rp_patch = f, rp_accumulate = False, rp_max_field = None,
     rp_max_value = None, rp_debounce = 0\<rparr>"
  by (simp add: make_repeat_plan_def door_entry_def cart_door_def parse_repeat_policy_def)

lemma sample_repeat:
  "apply_repeat 50000000 ''m'' ''w'' ''c'' cart_door ''e2'' [(''cart'', JInt 7)] sample_store
    = Some (True, \<lparr>s_rows = [repeat_set 50000000 ''e2'' [(''cart'', JInt 7)] False None None 0 sample_run],
                   s_trail = []\<rparr>)"
proof -
  have g: "repeat_guard ''m'' ''w'' ''c'' (e_start cart_door) ''e2'' (e_restart_on_repeat cart_door) sample_run"
    by (simp add: repeat_guard_def sample_run_def cart_door_def jsonb_at_def jsonb_exists_def dget_def)
  then show ?thesis
    by (simp add: apply_repeat_def cart_plan Let_def is_noop_def patch_open_run_def touch_def hits_def
        rewrite_def sample_store_def)
qed

lemma apply_repeat_idempotent_witness:
  "\<exists>s'. apply_repeat 50000000 ''m'' ''w'' ''c'' cart_door ''e2'' [(''cart'', JInt 7)] sample_store = Some (True, s')
     \<and> apply_repeat 51000000 ''m'' ''w'' ''c'' cart_door ''e2'' [(''cart'', JInt 7)] s' = Some (False, s')"
  using sample_repeat apply_repeat_idempotent [OF sample_repeat] by blast

lemma founding_event_is_no_repeat:
  "pg_text (dget (r_context r) ''source_event_id'') = Some ev \<Longrightarrow> \<not> repeat_guard m wid key nd ev anyw r"
  by (simp add: repeat_guard_def)

text \<open>The alarm never moves earlier.\<close>

lemma repeat_wake_extends:
  "repeat_wake now deb (Some w) = Some w' \<Longrightarrow> w \<le> w' \<and> (0 < deb \<longrightarrow> now + td_minutes deb \<le> w')"
  by (auto simp: repeat_wake_def split: if_splits)

section \<open>A repeat during a visit\<close>

text \<open>
  A repeat that lands while the walker holds the run is lost unless its debounce reaches past
  the lease: without a debounce (the default) it leaves the alarm, and so the lease, as it is;
  the visit's own write then still matches and replaces the whole context by the one the visit
  started from, the newer facts and the mark of the letter gone with it.
\<close>

theorem repeat_without_debounce_is_lost:
  assumes "rows_ok (s_rows s)" and "r \<in> set (s_rows s)" and "r_wake r = Some lease"
    and "patch_open_run now m wid key nd ev patch acc mf mv deb anyw s = Some (True, s')"
    and "repeat_guard m wid key nd ev anyw r"
    and "deb \<le> 0 \<or> now + td_minutes deb \<le> lease"
  shows "\<exists>s'' r''. advance_run (r_id r) nd' wake c lease arrived steps s' = (True, s'')
    \<and> r'' \<in> set (s_rows s'') \<and> r_id r'' = r_id r \<and> r_context r'' = c"
proof -
  let ?f = "repeat_set now ev patch acc mf mv deb" and ?P = "repeat_guard m wid key nd ev anyw"
  have s': "s' = snd (touch ?P ?f s)" using patch_as_touch [OF assms(4)] by (metis snd_conv)
  have f: "?f r \<in> set (s_rows s')"
    unfolding s' touch_def snd_conv rewrite_rows set_map
    using assms(2,5) by (intro image_eqI [of _ _ r]) simp_all
  have w: "r_wake (?f r) = Some lease" "r_status (?f r) = Waiting" "r_id (?f r) = r_id r"
    using assms(3,5,6) by (auto simp: repeat_set_def repeat_wake_def repeat_guard_def)
  let ?a = "advance_set nd' wake c arrived"
  let ?s2 = "snd (advance_run (r_id r) nd' wake c lease arrived steps s')"
  have hit: "leased (r_id r) lease (?f r)" using w by (simp add: leased_def)
  then have "?f r \<in> set (hits (leased (r_id r) lease) s')" using f by (simp add: hits_set)
  then have "fst (advance_run (r_id r) nd' wake c lease arrived steps s')"
    by (auto simp: advance_run_def move_def)
  moreover have "?a (?f r) \<in> set (s_rows ?s2)"
    unfolding advance_run_def move_rows rewrite_rows set_map
    using f hit by (intro image_eqI [of _ _ "?f r"]) simp_all
  moreover have "r_id (?a (?f r)) = r_id r" "r_context (?a (?f r)) = c"
    using w by (simp_all add: advance_set_def)
  ultimately show ?thesis by (metis surjective_pairing)
qed

lemma repeat_without_debounce_is_lost_witness:
  "\<exists>s' s'' r''. patch_open_run 50000000 ''m'' ''w'' ''c'' ''start'' ''e2'' [(''cart'', JInt 7)] False None None 0 False
        sample_store = Some (True, s')
     \<and> advance_run ''r1'' ''next'' 99 (r_context sample_run) 60000000 None [] s' = (True, s'')
     \<and> r'' \<in> set (s_rows s'') \<and> r_context r'' = r_context sample_run"
proof -
  have g: "repeat_guard ''m'' ''w'' ''c'' ''start'' ''e2'' False sample_run"
    by (simp add: repeat_guard_def sample_run_def jsonb_at_def jsonb_exists_def dget_def)
  have "sample_run \<in> set (s_rows sample_store)" "r_wake sample_run = Some 60000000" "r_id sample_run = ''r1''"
    by (simp_all add: sample_store_def sample_run_def)
  moreover obtain s' where p: "patch_open_run 50000000 ''m'' ''w'' ''c'' ''start'' ''e2'' [(''cart'', JInt 7)]
      False None None 0 False sample_store = Some (True, s')"
    using g by (simp add: patch_open_run_def Let_def touch_def hits_def sample_store_def)
  ultimately show ?thesis
    using repeat_without_debounce_is_lost [OF sample_rows_ok _ _ p g, of 60000000 "''next''" 99
        "r_context sample_run" None "[]"] by auto
qed

section \<open>The largest letter wins\<close>

lemma digit_char_digit: "d < 10 \<Longrightarrow> is_digit (digit_char d) \<and> digit_val (digit_char d) = d"
proof -
  assume "d < 10"
  then have "d \<in> {0, 1, 2, 3, 4, 5, 6, 7, 8, 9}" by auto
  then show ?thesis by (elim insertE) (simp_all add: digit_char_def is_digit_def)
qed

lemma nat_text_digits: "list_all is_digit (nat_text n) \<and> nat_text n \<noteq> []"
proof (induction n rule: nat_text.induct)
  case (1 n)
  then show ?case using digit_char_digit [of n] digit_char_digit [of "n mod 10"]
    by (simp add: nat_text.simps [of n])
qed

lemma digits_val_nat_text: "digits_val (nat_text n) = n"
proof (induction n rule: nat_text.induct)
  case (1 n)
  show ?case
  proof (cases "n < 10")
    case True
    then show ?thesis using digit_char_digit [of n] by (simp add: nat_text.simps [of n] digits_val_def)
  next
    case False
    then show ?thesis
      using 1 digit_char_digit [of "n mod 10"] by (simp add: nat_text.simps [of n] digits_val_def)
  qed
qed

lemma digits_no_special:
  "list_all is_digit s \<Longrightarrow> CHR ''.'' \<notin> set s \<and> CHR ''-'' \<notin> set s"
proof -
  assume "list_all is_digit s"
  then have "\<forall>c\<in>set s. is_digit c" by (simp add: list_all_iff)
  moreover have "\<not> is_digit (CHR ''.'')" "\<not> is_digit (CHR ''-'')" by (simp_all add: is_digit_def)
  ultimately show ?thesis by blast
qed

lemma nat_text_no_special: "CHR ''.'' \<notin> set (nat_text n)" "take 1 (nat_text n) \<noteq> ''-''"
proof -
  show "CHR ''.'' \<notin> set (nat_text n)" using digits_no_special nat_text_digits by blast
  have "CHR ''-'' \<notin> set (nat_text n)" using digits_no_special nat_text_digits by blast
  then show "take 1 (nat_text n) \<noteq> ''-''" by (cases "nat_text n") auto
qed

text \<open>An integer read back from the text Postgres prints it as is the same integer.\<close>

lemma number_text_int_text: "number_text (int_text i) = Some (of_int i)"
proof (cases "i < 0")
  case True
  then have "int_text i = ''-'' @ nat_text (nat (- i))" by (simp add: int_text_def)
  then show ?thesis
    using True nat_text_digits [of "nat (- i)"] nat_text_no_special [of "nat (- i)"]
    by (simp add: number_text_def split_on_no_sep all_digits_def digits_val_nat_text)
next
  case False
  then have "int_text i = nat_text (nat i)" by (simp add: int_text_def)
  then show ?thesis
    using False nat_text_digits [of "nat i"] nat_text_no_special [of "nat i"]
    by (simp add: number_text_def Let_def split_on_no_sep all_digits_def digits_val_nat_text)
qed

lemma stored_int: "map_of c f = Some (JInt i) \<Longrightarrow> stored_number c f = Some (of_int i)"
  by (simp add: stored_number_def dget_def number_text_int_text)

text \<open>One letter under \<open>refresh_max(f)\<close>: what the plan of the door and the statement do together.\<close>

definition refresh_max_letter :: "string \<Rightarrow> dict \<Rightarrow> dict \<Rightarrow> dict" where
  "refresh_max_letter f facts c = repeat_facts facts False (Some f) (finite_number (dget facts f)) c"

lemma refresh_max_step:
  assumes "map_of c f = Some (JInt a)" and "map_of facts f = Some (JInt b)" and "distinct (map fst facts)"
  shows "map_of (refresh_max_letter f facts c) f = Some (JInt (max a b))"
  using assms stored_int [OF assms(1)]
  by (simp add: refresh_max_letter_def repeat_facts_def dget_def map_of_dmerge_distinct max_def)

text \<open>
  Under \<open>refresh_max(f)\<close> an open run ends a burst of repeats with the largest value of the
  field it has seen, the one it was founded with included, in whatever order the letters came.
\<close>

theorem refresh_max_keeps_the_largest:
  assumes "map_of c f = Some (JInt a)"
    and "\<forall>facts\<in>set letters. distinct (map fst facts) \<and> map_of facts f = Some (JInt (val facts))"
  shows "map_of (fold (refresh_max_letter f) letters c) f = Some (JInt (Max (insert a (val ` set letters))))"
  using assms
proof (induction letters arbitrary: a c)
  case (Cons x xs)
  have "map_of (refresh_max_letter f x c) f = Some (JInt (max a (val x)))"
    using refresh_max_step [OF Cons.prems(1), of x "val x"] Cons.prems(2) by simp
  then have "map_of (fold (refresh_max_letter f) (x # xs) c) f
      = Some (JInt (Max (insert (max a (val x)) (val ` set xs))))"
    using Cons.IH Cons.prems(2) by simp
  moreover have "Max (insert (max a (val x)) (val ` set xs)) = Max (insert a (val ` set (x # xs)))"
    by (cases "xs = []") (simp_all add: max.assoc max.left_commute)
  ultimately show ?case by simp
qed simp

lemma refresh_max_keeps_the_largest_witness:
  "map_of (fold (refresh_max_letter ''v'') [[(''v'', JInt 4)], [(''v'', JInt 9)], [(''v'', JInt 2)]]
      [(''v'', JInt 3)]) ''v'' = Some (JInt 9)"
  using refresh_max_keeps_the_largest [of "[(''v'', JInt 3)]" "''v''" 3
      "[[(''v'', JInt 4)], [(''v'', JInt 9)], [(''v'', JInt 2)]]"
      "\<lambda>d. case d of [(k, JInt i)] \<Rightarrow> i | _ \<Rightarrow> 0"] by simp

end
