(* ===== verification/Plans.thy ===== *)
theory Plans
  imports Catalog_Laws Ladder Repeat
begin

text \<open>
  The laws a plan is published by, \<open>app/crm/outreach/plans.py\<close>: \<open>validate_definition\<close>, the window's
  law on letter paths (a breadth-first search), what an entry means, and \<open>validate_migration\<close>.
  Reading a document off its JSON is pydantic's: the readers are fields of the record \<open>readers\<close>,
  an argument.  A problem is a value where the code has a sentence, in the code's order.
\<close>

section \<open>Problems\<close>

datatype plan_problem =
    Ladder_problem ladder_error
  | Shape_invalid string
  | Where_map_retired
  | Wait_event_retired json
  | Catalog_law catalog_problem
  | Duplicate_node string
  | Node_law string node_problem
  | Match_without_topics string
  | Window_without_wait string
  | Playbook_law playbook_problem
  | No_door
  | Door_topic_twice string
  | Door_start_unknown string string
  | Not_a_policy string string
  | Debounce_without_wait string
  | Restart_without_debounce string
  | Bad_goal_reason nat string
  | Goal_reason_twice nat string
  | Edge_from_unknown string
  | Edge_to_unknown string
  | Arrow_without_on string
  | Arrows_with_same_on string
  | Label_on_plain string
  | Many_arrows string nat
  | Letter_reaches_call string string string
  | Entry_changed_midflight
  | Strands string

section \<open>Squares, doors, goals\<close>

text \<open>The ids met a second time, one problem for each further meeting.\<close>

fun duplicates :: "string list \<Rightarrow> string list \<Rightarrow> string list" where
  "duplicates seen [] = []"
| "duplicates seen (x # xs) = (if x \<in> set seen then [x] else []) @ duplicates (x # seen) xs"

definition node_law_problems :: "'w ext \<Rightarrow> workflow_definition \<Rightarrow> plan_problem list" where
  "node_law_problems X d = concat (map (\<lambda>n.
     map (Node_law (n_id n)) (validate_node X n d)
     @ (if n_match n \<noteq> None \<and> \<not> listens n then [Match_without_topics (n_id n)] else [])
     @ (if n_window n \<noteq> None \<and> \<not> is_wait n then [Window_without_wait (n_id n)] else [])) (d_nodes d))"

definition start_problems :: "workflow_definition \<Rightarrow> door \<Rightarrow> plan_problem list" where
  "start_problems d e =
     (let start = node_table d (e_start e);
          waits = (case start of None \<Rightarrow> False | Some n \<Rightarrow> is_wait n)
      in (if start = None then [Door_start_unknown (e_topic e) (e_start e)] else [])
         @ (if parse_repeat_policy (e_on_repeat e) = None then [Not_a_policy (e_topic e) (e_on_repeat e)] else [])
         @ (if 0 < e_debounce_minutes e \<and> \<not> waits then [Debounce_without_wait (e_topic e)] else [])
         @ (if e_restart_on_repeat e \<and> e_debounce_minutes e \<le> 0 then [Restart_without_debounce (e_topic e)] else []))"

fun each_door :: "workflow_definition \<Rightarrow> string list \<Rightarrow> door list \<Rightarrow> plan_problem list" where
  "each_door d seen [] = []"
| "each_door d seen (e # es) =
     (if e_topic e \<in> set seen then [Door_topic_twice (e_topic e)] else [])
     @ start_problems d e @ each_door d (e_topic e # seen) es"

definition door_problems :: "workflow_definition \<Rightarrow> plan_problem list" where
  "door_problems d = (if doors d = [] then [No_door] else []) @ each_door d [] (doors d)"

fun each_tier :: "nat \<Rightarrow> string list \<Rightarrow> goal list \<Rightarrow> plan_problem list" where
  "each_tier i seen [] = []"
| "each_tier i seen (g # gs) =
     (if g_exit_reason g \<notin> set goal_exit_reasons then [Bad_goal_reason i (g_exit_reason g)]
      else if g_exit_reason g \<in> set seen then [Goal_reason_twice i (g_exit_reason g)] else [])
     @ each_tier (Suc i) (g_exit_reason g # seen) gs"

section \<open>Arrows\<close>

definition end_problems :: "workflow_definition \<Rightarrow> plan_problem list" where
  "end_problems d = concat (map (\<lambda>(src, dst, on).
     (if src \<notin> n_id ` set (d_nodes d) then [Edge_from_unknown src] else [])
     @ (if dst \<notin> n_id ` set (d_nodes d) then [Edge_to_unknown dst] else [])) (d_edges d))"

text \<open>The keys of \<open>outgoing()\<close>, in the order the edges name them.\<close>

definition sources :: "workflow_definition \<Rightarrow> string list" where
  "sources d = rev (remdups (rev (map fst (d_edges d))))"

definition arrow_problems :: "workflow_definition \<Rightarrow> string \<Rightarrow> plan_problem list" where
  "arrow_problems d src =
     (let arrows = outgoing d src; labels = map snd arrows;
          branching = (case node_table d src of None \<Rightarrow> False | Some n \<Rightarrow> branches n)
      in if branching then
           (if None \<in> set labels then [Arrow_without_on src] else [])
           @ (if distinct labels then [] else [Arrows_with_same_on src])
         else
           (if list_ex (\<lambda>l. l \<noteq> None) labels then [Label_on_plain src] else [])
           @ (if 1 < length arrows then [Many_arrows src (length arrows)] else []))"

section \<open>Letter paths onto a call\<close>

text \<open>
  \<open>_call_reached_without_waiting\<close>: the queue, and the squares already passed.  A square is
  passed once, so the search ends.
\<close>

function call_search :: "workflow_definition \<Rightarrow> string list \<Rightarrow> string list \<Rightarrow> string option" where
  "call_search d [] seen = None"
| "call_search d (x # queue) seen =
     (case node_table d x of
        None \<Rightarrow> call_search d queue seen
      | Some n \<Rightarrow>
          if x \<in> set seen \<or> is_wait n then call_search d queue seen
          else if n_type n = Call then Some x
          else call_search d (queue @ map fst (outgoing d x)) (x # seen))"
  by pat_completeness auto

termination
proof (relation "inv_image (finite_psubset <*lex*> less_than)
                   (\<lambda>(d, queue, seen). (n_id ` set (d_nodes d) - set seen, length queue))", goal_cases)
  case (4 d x queue seen n)
  then have "x \<in> n_id ` set (d_nodes d)" using node_table_Some [of d x n] by auto
  then show ?case using 4 by (auto simp: finite_psubset_def)
qed auto

definition call_reached :: "workflow_definition \<Rightarrow> string \<Rightarrow> string option" where
  "call_reached d start = call_search d [start] []"

definition letter_paths_onto_a_call :: "workflow_definition \<Rightarrow> plan_problem list" where
  "letter_paths_onto_a_call d = concat (map (\<lambda>n.
     if n_window n = None then []
     else concat (map (\<lambda>(dst, on).
       if on = Some timeout_word \<or> \<not> branches n then []
       else case call_reached d dst of None \<Rightarrow> []
            | Some c \<Rightarrow> [Letter_reaches_call (n_id n) (case on of None \<Rightarrow> ''None'' | Some l \<Rightarrow> l) c])
       (outgoing d (n_id n)))) (d_nodes d))"

section \<open>The laws of a parsed document\<close>

definition stranding_problems ::
    "workflow_definition \<Rightarrow> string list \<Rightarrow> bool \<Rightarrow> plan_problem list" where
  "stranding_problems d occupied entry_changed =
     (if d_on_publish d = Migrate then
        (if occupied \<noteq> [] \<and> entry_changed then [Entry_changed_midflight] else [])
        @ map Strands (filter (\<lambda>x. x \<notin> n_id ` set (d_nodes d)) occupied)
      else [])"

definition document_problems ::
    "lib \<Rightarrow> 'w ext \<Rightarrow> catalogs option \<Rightarrow> workflow_definition \<Rightarrow> plan_problem list" where
  "document_problems L X cats d =
     map Catalog_law (entry_against_catalog L d cats) @ map Catalog_law (goals_against_catalog d cats)
     @ map Duplicate_node (duplicates [] (map n_id (d_nodes d)))
     @ node_law_problems X d
     @ map Playbook_law (playbook_laws X d)
     @ door_problems d
     @ each_tier 0 [] (d_goals d)
     @ end_problems d
     @ concat (map (arrow_problems d) (sources d))
     @ letter_paths_onto_a_call d"

section \<open>What an entry means\<close>

record readers =
  rd_stages :: "json \<Rightarrow> string + stages"
  rd_number :: "rat \<Rightarrow> json"
  rd_definition :: "dict \<Rightarrow> string + workflow_definition"
  rd_entry :: "json \<Rightarrow> dict option"
  rd_door :: "json \<Rightarrow> dict option"

text \<open>A door as the model dumps it, or nothing when the model refuses it.\<close>

definition door_meaning :: "readers \<Rightarrow> json \<Rightarrow> dict option" where
  "door_meaning R item =
     (if is_obj item \<and> has_key (obj_or_empty item) ''start'' then rd_door R item
      else map_option (\<lambda>m. AList.update ''start'' JNull m) (rd_entry R item))"

definition topic_of :: "dict \<Rightarrow> string" where
  "topic_of m = (case dget m ''topic'' of JStr s \<Rightarrow> s | _ \<Rightarrow> [])"

definition doors_by_meaning :: "readers \<Rightarrow> json \<Rightarrow> json option" where
  "doors_by_meaning R e =
     (let ms = map (door_meaning R) (one_or_many e)
      in if None \<in> set ms then None else Some (JList (map JObj (sort_key topic_of (map the ms)))))"

definition entry_changed :: "readers \<Rightarrow> json \<Rightarrow> json \<Rightarrow> bool" where
  "entry_changed R raw live =
     (case (doors_by_meaning R raw, doors_by_meaning R live) of
        (Some a, Some b) \<Rightarrow> \<not> py_equal a b
      | _ \<Rightarrow> \<not> py_equal raw live)"

section \<open>The validator\<close>

definition retired_words :: "dict \<Rightarrow> plan_problem list" where
  "retired_words raw =
     (if list_ex (\<lambda>door. is_obj door \<and> is_obj (dget (obj_or_empty door) ''where'')
                    \<and> truthy (dget (obj_or_empty door) ''where'')) (one_or_many (dget raw ''entry''))
      then [Where_map_retired] else [])
     @ concat (map (\<lambda>n. if is_obj n \<and> dget (obj_or_empty n) ''type'' = JStr ''wait_event''
                         then [Wait_event_retired (dget (obj_or_empty n) ''id'')] else [])
         (list_items (dget raw ''nodes'')))"

text \<open>\<open>live\<close> is the entry of the document that is live, when there is one.\<close>

definition validate_definition ::
    "readers \<Rightarrow> lib \<Rightarrow> 'w ext \<Rightarrow> dict \<Rightarrow> string list \<Rightarrow> json \<Rightarrow> catalogs option \<Rightarrow> plan_problem list" where
  "validate_definition R L X raw0 occupied live cats =
     (case expand_stages (rd_stages R) (rd_number R) raw0 of
        Inl e \<Rightarrow> [Ladder_problem e]
      | Inr raw \<Rightarrow> (case rd_definition R raw of
          Inl e \<Rightarrow> [Shape_invalid e]
        | Inr d \<Rightarrow> retired_words raw @ document_problems L X cats d
            @ stranding_problems d occupied
                (live \<noteq> JNull \<and> entry_changed R (dget raw ''entry'') live)))"

definition or_empty :: "json \<Rightarrow> json" where
  "or_empty v = (if truthy v then v else JObj [])"

definition validate_migration ::
    "readers \<Rightarrow> dict \<Rightarrow> dict \<Rightarrow> string list \<Rightarrow> plan_problem list" where
  "validate_migration R source target occupied =
     (case (rd_definition R source, rd_definition R target) of
        (Inr s, Inr t) \<Rightarrow>
          (if occupied \<noteq> [] \<and> entry_changed R (dget target ''entry'') (or_empty (dget source ''entry''))
           then [Entry_changed_midflight] else [])
          @ map Strands (filter (\<lambda>x. x \<notin> n_id ` set (d_nodes t)) occupied)
      | (Inl e, _) \<Rightarrow> [Shape_invalid e]
      | (Inr s, Inl e) \<Rightarrow> [Shape_invalid e])"

end
