(* ===== verification/Plan_Store.thy ===== *)
theory Plan_Store
  imports Plans Enrollment
begin

text \<open>
  The tables of plans and of their published versions and the operations on them:
  \<open>db/queries/workflow.py\<close> and \<open>db/queries/version.py\<close> of \<open>app/crm/outreach\<close> with their
  accessors, the plan lifecycle of \<open>plans.py\<close> (create, save a draft, publish, set a status) and
  \<open>migrate_forward\<close> of \<open>versions.py\<close>.  A transaction is a function of the database; where it
  reads and later writes, READ COMMITTED lets other transactions commit between the two, and
  \<open>meanwhile\<close> is what they did.
\<close>

section \<open>The tables\<close>

record plan_row =
  pl_id :: string
  pl_merchant :: string
  pl_name :: string
  pl_status :: string
  pl_version :: int
  pl_definition :: "dict option"
  pl_draft :: "dict option"
  pl_created_by :: "string option"

record version_row =
  vr_merchant :: string
  vr_workflow :: string
  vr_version :: int
  vr_definition :: dict
  vr_mode :: publish_mode
  vr_by :: "string option"

record plan_db =
  db_plans :: "plan_row list"
  db_versions :: "version_row list"
  db_runs :: store

definition is_plan :: "string \<Rightarrow> string \<Rightarrow> plan_row \<Rightarrow> bool" where
  "is_plan m wid p \<longleftrightarrow> pl_merchant p = m \<and> pl_id p = wid"

definition rewrite_plans :: "(plan_row \<Rightarrow> bool) \<Rightarrow> (plan_row \<Rightarrow> plan_row) \<Rightarrow> plan_db \<Rightarrow> plan_row option \<times> plan_db" where
  "rewrite_plans P f db =
     (map_option f (find P (db_plans db)),
      db\<lparr>db_plans := map (\<lambda>p. if P p then f p else p) (db_plans db)\<rparr>)"

section \<open>The statements\<close>

text \<open>\<open>i\<close> is the id \<open>gen_random_uuid()\<close> draws; \<open>None\<close> when it is taken.\<close>

definition insert_workflow ::
    "string \<Rightarrow> string \<Rightarrow> string \<Rightarrow> dict \<Rightarrow> string option \<Rightarrow> plan_db \<Rightarrow> (plan_row \<times> plan_db) option" where
  "insert_workflow i m name draft by db =
     (if i \<in> pl_id ` set (db_plans db) then None
      else let p = \<lparr>pl_id = i, pl_merchant = m, pl_name = name, pl_status = ''draft'', pl_version = 0,
                    pl_definition = None, pl_draft = Some draft, pl_created_by = by\<rparr>
           in Some (p, db\<lparr>db_plans := db_plans db @ [p]\<rparr>))"

definition save_draft :: "string \<Rightarrow> string \<Rightarrow> dict \<Rightarrow> plan_db \<Rightarrow> plan_row option \<times> plan_db" where
  "save_draft m wid draft = rewrite_plans (is_plan m wid) (\<lambda>p. p\<lparr>pl_draft := Some draft\<rparr>)"

definition get_workflow :: "string \<Rightarrow> string \<Rightarrow> plan_db \<Rightarrow> plan_row option" where
  "get_workflow m wid db = find (is_plan m wid) (db_plans db)"

definition workflow_status :: "string \<Rightarrow> string \<Rightarrow> plan_db \<Rightarrow> string option" where
  "workflow_status m wid db = map_option pl_status (get_workflow m wid db)"

definition publish_set :: "plan_row \<Rightarrow> plan_row" where
  "publish_set p = p\<lparr>pl_definition := pl_draft p, pl_draft := None, pl_version := pl_version p + 1,
     pl_status := (if pl_status p = ''draft'' then ''live'' else pl_status p)\<rparr>"

definition apply_publish :: "string \<Rightarrow> string \<Rightarrow> plan_db \<Rightarrow> plan_row option \<times> plan_db" where
  "apply_publish m wid = rewrite_plans (\<lambda>p. is_plan m wid p \<and> pl_draft p \<noteq> None) publish_set"

definition set_workflow_status :: "string \<Rightarrow> string \<Rightarrow> string \<Rightarrow> plan_db \<Rightarrow> plan_row option \<times> plan_db" where
  "set_workflow_status m wid status =
     rewrite_plans (\<lambda>p. is_plan m wid p \<and> pl_status p \<noteq> ''archived'') (\<lambda>p. p\<lparr>pl_status := status\<rparr>)"

text \<open>The entry read: the document without its playbook, and no draft.\<close>

definition entry_columns :: "plan_row \<Rightarrow> plan_row" where
  "entry_columns p = p\<lparr>pl_definition := map_option (AList.delete ''playbook'') (pl_definition p), pl_draft := None\<rparr>"

definition live_workflows :: "string \<Rightarrow> plan_db \<Rightarrow> plan_row list" where
  "live_workflows m db =
     map entry_columns (filter (\<lambda>p. pl_merchant p = m \<and> pl_status p = ''live'') (db_plans db))"

definition is_version :: "string \<Rightarrow> string \<Rightarrow> int \<Rightarrow> version_row \<Rightarrow> bool" where
  "is_version m wid v x \<longleftrightarrow> vr_merchant x = m \<and> vr_workflow x = wid \<and> vr_version x = v"

text \<open>\<open>None\<close> is the violation of the unique index or of the foreign key.\<close>

definition insert_version ::
    "string \<Rightarrow> string \<Rightarrow> int \<Rightarrow> dict \<Rightarrow> publish_mode \<Rightarrow> string option \<Rightarrow> plan_db \<Rightarrow> plan_db option" where
  "insert_version m wid v doc mode by db =
     (if list_ex (is_version m wid v) (db_versions db) \<or> \<not> list_ex (is_plan m wid) (db_plans db) then None
      else Some (db\<lparr>db_versions := db_versions db @
             [\<lparr>vr_merchant = m, vr_workflow = wid, vr_version = v, vr_definition = doc, vr_mode = mode, vr_by = by\<rparr>]\<rparr>))"

definition get_definition :: "string \<Rightarrow> string \<Rightarrow> int \<Rightarrow> plan_db \<Rightarrow> dict option" where
  "get_definition m wid v db = map_option vr_definition (find (is_version m wid v) (db_versions db))"

text \<open>Every published document, the newest first, with the runs still open on it.\<close>

definition list_versions :: "string \<Rightarrow> string \<Rightarrow> plan_db \<Rightarrow> (version_row \<times> nat) list" where
  "list_versions m wid db =
     map (\<lambda>x. (x, length (hits (\<lambda>r. on_plan m wid r \<and> r_version r = vr_version x) (db_runs db))))
       (rev (sort_key vr_version (filter (\<lambda>x. vr_merchant x = m \<and> vr_workflow x = wid) (db_versions db))))"

section \<open>The lifecycle of a plan\<close>

datatype refusal =
    Laws "plan_problem list"
  | Templates "(string \<times> string \<times> string) list"
  | Empty_draft
  | Ladder_without_board
  | Already_published
  | No_such_plan
  | Version_clash
  | Unknown_status string
  | Never_published
  | Same_version int
  | No_such_version int

text \<open>
  The registry of templates is connectivity's: which channels register templates, and its verdict
  on one of them (\<open>None\<close>: it may be published, otherwise its reason).
\<close>

record registry =
  rg_channel :: "string \<Rightarrow> bool"
  rg_verdict :: "string \<Rightarrow> string \<Rightarrow> string \<Rightarrow> string option"

definition template_problems :: "registry \<Rightarrow> string \<Rightarrow> workflow_definition \<Rightarrow> (string \<times> string \<times> string) list" where
  "template_problems G m d = concat (map (\<lambda>n.
     if n_type n \<noteq> Send \<or> \<not> opt_text (n_channel n) \<or> \<not> opt_text (n_template n) then []
     else if \<not> rg_channel G (the (n_channel n)) then []
     else case rg_verdict G m (the (n_channel n)) (the (n_template n)) of
         None \<Rightarrow> [] | Some reason \<Rightarrow> [(n_id n, the (n_template n), reason)]) (d_nodes d))"

definition stored_form :: "readers \<Rightarrow> dict \<Rightarrow> dict" where
  "stored_form R doc = (case expand_stages (rd_stages R) (rd_number R) doc of Inr raw \<Rightarrow> raw | Inl e \<Rightarrow> doc)"

definition create_workflow ::
    "readers \<Rightarrow> lib \<Rightarrow> 'w ext \<Rightarrow> catalogs option \<Rightarrow> string \<Rightarrow> string \<Rightarrow> string \<Rightarrow> dict \<Rightarrow> string option
     \<Rightarrow> plan_db \<Rightarrow> refusal + (plan_row \<times> plan_db)" where
  "create_workflow R L X cats i m name doc by db =
     (let problems = validate_definition R L X doc [] JNull cats in
      if problems \<noteq> [] then Inl (Laws problems)
      else case insert_workflow i m name (stored_form R doc) by db of
        None \<Rightarrow> Inl Version_clash | Some res \<Rightarrow> Inr res)"

definition update_draft ::
    "readers \<Rightarrow> lib \<Rightarrow> 'w ext \<Rightarrow> catalogs option \<Rightarrow> string \<Rightarrow> string \<Rightarrow> dict
     \<Rightarrow> plan_db \<Rightarrow> refusal + (plan_row option \<times> plan_db)" where
  "update_draft R L X cats m wid doc db =
     (let problems = validate_definition R L X doc [] JNull cats in
      if problems \<noteq> [] then Inl (Laws problems)
      else Inr (save_draft m wid (stored_form R doc) db))"

text \<open>What the publish atom judges: the draft it read, and nothing written yet.\<close>

definition live_entry :: "plan_row \<Rightarrow> json" where
  "live_entry p = (case pl_definition p of None \<Rightarrow> JNull | Some d \<Rightarrow> dget d ''entry'')"

definition judge_draft ::
    "readers \<Rightarrow> lib \<Rightarrow> 'w ext \<Rightarrow> registry \<Rightarrow> catalogs option \<Rightarrow> string \<Rightarrow> string \<Rightarrow> plan_row \<Rightarrow> plan_db
     \<Rightarrow> refusal + (dict \<times> workflow_definition)" where
  "judge_draft R L X G cats m wid p db =
     (case pl_draft p of None \<Rightarrow> Inl Empty_draft
      | Some draft \<Rightarrow>
         if draft = [] then Inl Empty_draft
         else let problems = validate_definition R L X draft (occupied_nodes m wid (db_runs db)) (live_entry p) cats in
           if problems \<noteq> [] then Inl (Laws problems)
           else if \<not> py_equal (JObj (stored_form R draft)) (JObj draft) then Inl Ladder_without_board
           else (case rd_definition R draft of
               Inl e \<Rightarrow> Inl (Laws [Shape_invalid e])
             | Inr d \<Rightarrow> let templates = template_problems G m d in
                 if templates \<noteq> [] then Inl (Templates templates) else Inr (draft, d)))"

definition publish_in_txn ::
    "readers \<Rightarrow> lib \<Rightarrow> 'w ext \<Rightarrow> registry \<Rightarrow> catalogs option \<Rightarrow> string \<Rightarrow> string \<Rightarrow> string option
     \<Rightarrow> (plan_db \<Rightarrow> plan_db) \<Rightarrow> plan_db \<Rightarrow> refusal + (plan_row \<times> plan_db)" where
  "publish_in_txn R L X G cats m wid by meanwhile db =
     (case get_workflow m wid db of None \<Rightarrow> Inl No_such_plan
      | Some p \<Rightarrow> (case judge_draft R L X G cats m wid p db of
          Inl e \<Rightarrow> Inl e
        | Inr (draft, d) \<Rightarrow> (case apply_publish m wid (meanwhile db) of
            (None, _) \<Rightarrow> Inl Already_published
          | (Some published, db1) \<Rightarrow>
              (case insert_version m wid (pl_version published) draft (d_on_publish d) by db1 of
                 None \<Rightarrow> Inl Version_clash
               | Some db2 \<Rightarrow> Inr (published,
                   if d_on_publish d = Migrate
                   then db2\<lparr>db_runs := snd (repin_open_runs m wid (pl_version published) (db_runs db2))\<rparr>
                   else db2)))))"

text \<open>\<open>check_draft\<close>: no plan, an empty draft, or what publish would refuse.\<close>

definition check_draft ::
    "readers \<Rightarrow> lib \<Rightarrow> 'w ext \<Rightarrow> registry \<Rightarrow> catalogs option \<Rightarrow> string \<Rightarrow> string \<Rightarrow> plan_db
     \<Rightarrow> (bool \<times> refusal option) option" where
  "check_draft R L X G cats m wid db =
     (case get_workflow m wid db of None \<Rightarrow> None
      | Some p \<Rightarrow> (case judge_draft R L X G cats m wid p db of
          Inr _ \<Rightarrow> Some (True, None)
        | Inl Empty_draft \<Rightarrow> Some (False, None)
        | Inl e \<Rightarrow> Some (True, Some e)))"

definition set_status :: "string \<Rightarrow> string \<Rightarrow> string \<Rightarrow> plan_db \<Rightarrow> refusal + (plan_row option \<times> plan_db)" where
  "set_status m wid status db =
     (if status \<notin> {''live'', ''paused'', ''archived''} then Inl (Unknown_status status)
      else case get_workflow m wid db of
        None \<Rightarrow> Inr (None, db)
      | Some p \<Rightarrow>
          if pl_status p = ''archived'' then Inr (None, db)
          else if pl_definition p = None \<or> pl_definition p = Some [] then Inl Never_published
          else Inr (set_workflow_status m wid status db))"

section \<open>Migration\<close>

definition migrate_forward ::
    "readers \<Rightarrow> registry \<Rightarrow> string \<Rightarrow> string \<Rightarrow> int \<Rightarrow> int \<Rightarrow> plan_db \<Rightarrow> refusal + (nat \<times> plan_db)" where
  "migrate_forward R G m wid from_v to_v db =
     (if from_v = to_v then Inl (Same_version from_v)
      else case get_definition m wid from_v db of None \<Rightarrow> Inl (No_such_version from_v)
      | Some source \<Rightarrow> (case get_definition m wid to_v db of None \<Rightarrow> Inl (No_such_version to_v)
        | Some target \<Rightarrow>
          let problems = validate_migration R source target (occupied_nodes_on_version m wid from_v (db_runs db)) in
          if problems \<noteq> [] then Inl (Laws problems)
          else (case rd_definition R target of
              Inl e \<Rightarrow> Inl (Laws [Shape_invalid e])
            | Inr d \<Rightarrow> let templates = template_problems G m d in
                if templates \<noteq> [] then Inl (Templates templates)
                else let (moved, s) = repin_runs_on_version m wid from_v to_v (db_runs db)
                     in Inr (moved, db\<lparr>db_runs := s\<rparr>))))"

end
