(* ===== verification/Square_Laws.thy ===== *)
theory Square_Laws
  imports Squares Repeat
begin

text \<open>
  What the words of the board promise.  The contract the walker relies on -- a square writes its
  own bookkeeping and nothing else -- is a locale, interpreted on every \<open>execute\<close>; the other
  sections hold the share of each arm of a split, the identity of a call's leads, the daily
  ceiling and the resolution of an action's arguments.
\<close>

section \<open>A square writes its own keys\<close>

definition own_keys :: "node \<Rightarrow> string list" where
  "own_keys nd =
     [reply_key (n_id nd), split_key (n_id nd), message_key (n_id nd), lead_key (n_id nd),
      visits_key (n_id nd), action_key (n_id nd), playbook_key (n_id nd), outcome_key, calls_today_key]"

lemma visits_as_lead: "visits_key n = lead_key (''visits_'' @ n)"
  by (simp add: visits_key_def lead_key_def)

lemma own_keys_bookkeeping: "k \<in> set (own_keys nd) \<Longrightarrow> is_bookkeeping k"
proof -
  have "is_bookkeeping outcome_key" "is_bookkeeping calls_today_key"
    by (simp_all add: is_bookkeeping_def bookkeeping_keys_def outcome_key_def calls_today_key_def)
  moreover assume "k \<in> set (own_keys nd)"
  ultimately show ?thesis unfolding own_keys_def visits_as_lead by (elim insertE set_ConsD [elim_format]) auto
qed

definition run_keys :: "string list" where
  "run_keys = [''source_event_id'', ''entered_event_at'', ''goal'', ''phone'', ''customer_mobile_number'',
     ''repeat_event_ids'', ''repeat_items'', ''facts'', ''latest_letter'', ''cut_short_by'']"

lemma own_keys_not_run_keys: "k \<in> set (own_keys nd) \<Longrightarrow> k \<notin> set run_keys"
  by (auto simp: own_keys_def run_keys_def reply_key_def split_key_def message_key_def lead_key_def
      visits_key_def action_key_def playbook_key_def outcome_key_def calls_today_key_def)

locale square_word =
  fixes act :: "('w, dict) io" and nd :: node
  assumes writes_own: "act w = (Ok patch, w') \<Longrightarrow> k \<in> fst ` set patch \<Longrightarrow> k \<in> set (own_keys nd)"
begin

lemma writes_bookkeeping: "act w = (Ok patch, w') \<Longrightarrow> k \<in> fst ` set patch \<Longrightarrow> is_bookkeeping k"
  using writes_own own_keys_bookkeeping by blast

lemma keeps_run_keys:
  "act w = (Ok patch, w') \<Longrightarrow> k \<in> set run_keys \<Longrightarrow> map_of (dmerge c patch) k = map_of c k"
  using writes_own [of w patch w' k] own_keys_not_run_keys [of k nd] map_of_dmerge_other [of k patch c] by blast

lemma keeps_producer_facts:
  "act w = (Ok patch, w') \<Longrightarrow> \<not> is_bookkeeping k \<Longrightarrow> map_of (dmerge c patch) k = map_of c k"
  using writes_bookkeeping [of w patch w' k] map_of_dmerge_other [of k patch c] by blast

end

interpretation condition_word: square_word "execute_condition L X r nd d" nd for L X r nd d
proof
  fix w w' k and patch :: dict
  assume "execute_condition L X r nd d w = (Ok patch, w')" "k \<in> fst ` set patch"
  then show "k \<in> set (own_keys nd)"
    by (auto simp: execute_condition_def io_bind_eq_Ok Let_def own_keys_def)
qed

interpretation split_word: square_word "execute_split L X r nd d" nd for L X r nd d
proof
  fix w w' k and patch :: dict
  assume "execute_split L X r nd d w = (Ok patch, w')" "k \<in> fst ` set patch"
  then show "k \<in> set (own_keys nd)"
    by (auto simp: execute_split_def own_keys_def split: option.splits)
qed

lemma queue_send_patch:
  "queue_send X nd m ch w = (Ok patch, w') \<Longrightarrow> fst ` set patch \<subseteq> {message_key (n_id nd), playbook_key (n_id nd)}"
  by (auto simp: queue_send_def split: prod.split_asm sent.split_asm if_split_asm)

lemma perform_step_patch:
  "perform_step X r nd g ch w = (Ok patch, w') \<Longrightarrow> fst ` set patch \<subseteq> {action_key (n_id nd), playbook_key (n_id nd)}"
  by (auto simp: perform_step_def split: prod.split_asm performed.split_asm if_split_asm)

lemma execute_send_patch:
  assumes "execute_send L X r nd d w = (Ok patch, w')"
  shows "fst ` set patch \<subseteq> {message_key (n_id nd), playbook_key (n_id nd)}"
proof -
  obtain m ch w1 where "queue_send X nd m ch w1 = (Ok patch, w')"
    using assms by (auto simp: execute_send_def Let_def split: if_split_asm dest!: bind_sum_Ok)
  then show ?thesis by (rule queue_send_patch)
qed

lemma execute_action_patch:
  assumes "execute_action L X r nd d w = (Ok patch, w')"
  shows "fst ` set patch \<subseteq> {action_key (n_id nd), playbook_key (n_id nd)}"
proof -
  obtain g ch w1 where "perform_step X r nd g ch w1 = (Ok patch, w')"
    using assms by (auto simp: execute_action_def split: if_split_asm dest!: bind_sum_Ok)
  then show ?thesis by (rule perform_step_patch)
qed

interpretation send_word: square_word "execute_send L X r nd d" nd for L X r nd d
  by unfold_locales (use execute_send_patch in \<open>fastforce simp: own_keys_def\<close>)

lemma call_patch_keys:
  "k \<in> fst ` set (call_patch L x t capped c n i v ch) \<Longrightarrow>
     k \<in> {lead_key n, visits_key n, outcome_key, calls_today_key, playbook_key n}"
  by (auto simp: call_patch_def split: if_splits)

lemma mint_call_patch:
  assumes "mint_call L X r nd d t off day_now capped w = (Ok patch, w')"
  shows "\<exists>chosen. patch = call_patch L (d_exits d) day_now capped (r_context r) (n_id nd)
      (x_lead_id X (lead_name (r_id r) (n_id nd) (visits_so_far (r_context r) (n_id nd) + 1)))
      (visits_so_far (r_context r) (n_id nd) + 1) chosen"
  using assms by (auto simp: mint_call_def Let_def io_bind_eq_Ok split del: if_split)

lemma execute_call_patch:
  assumes "execute_call L X r nd d w = (Ok patch, w')"
  shows "\<exists>t off t1 t2 w1. mint_call L X r nd d t off t1 (max_calls_reached L (r_context r) (d_exits d) t2) w1
      = (Ok patch, w')"
proof -
  obtain t1 t2 w1 where c: "(if \<not> truthy (dget (r_context r) ''phone'') then io_park (in_square ''call'' nd ''no phone in run context'')
     else io_bind (x_template X (case n_template_id nd of None \<Rightarrow> ''None'' | Some t \<Rightarrow> t)) (\<lambda>tpl.
     case tpl of
       None \<Rightarrow> io_park (in_square ''call'' nd
         (''template '' @ (case n_template_id nd of None \<Rightarrow> ''None'' | Some t \<Rightarrow> t) @ '' not found''))
     | Some t \<Rightarrow>
       (if ct_merchant t \<noteq> None \<and> ct_merchant t \<noteq> Some (r_merchant r)
        then io_park (in_square ''call'' nd ''template belongs to another merchant'')
        else io_bind (x_config X (ct_id t)) (\<lambda>conf.
        case conf of
          None \<Rightarrow> io_park (in_square ''call'' nd
            (''no call_execution_config for template '' @ ct_name t))
        | Some off \<Rightarrow> mint_call L X r nd d t off t1 (max_calls_reached L (r_context r) (d_exits d) t2))))) w1
      = (Ok patch, w')"
    using assms unfolding execute_call_def io_bind_eq_Ok by blast
  then obtain t w2 where "(if ct_merchant t \<noteq> None \<and> ct_merchant t \<noteq> Some (r_merchant r)
        then io_park (in_square ''call'' nd ''template belongs to another merchant'')
        else io_bind (x_config X (ct_id t)) (\<lambda>conf.
        case conf of
          None \<Rightarrow> io_park (in_square ''call'' nd
            (''no call_execution_config for template '' @ ct_name t))
        | Some off \<Rightarrow> mint_call L X r nd d t off t1 (max_calls_reached L (r_context r) (d_exits d) t2))) w2
      = (Ok patch, w')"
    by (auto split: if_split_asm dest!: bind_option_Ok)
  then obtain off w3 where "mint_call L X r nd d t off t1 (max_calls_reached L (r_context r) (d_exits d) t2) w3
      = (Ok patch, w')"
    by (auto split: if_split_asm dest!: bind_option_Ok)
  then show ?thesis by (intro exI)
qed

interpretation call_word: square_word "execute_call L X r nd d" nd for L X r nd d
proof
  fix w w' k and patch :: dict
  assume a: "execute_call L X r nd d w = (Ok patch, w')" and k: "k \<in> fst ` set patch"
  from execute_call_patch [OF a] obtain t off t1 t2 w1 where "mint_call L X r nd d t off t1
      (max_calls_reached L (r_context r) (d_exits d) t2) w1 = (Ok patch, w')"
    by (elim exE)
  from mint_call_patch [OF this] have "k \<in> {lead_key (n_id nd), visits_key (n_id nd), outcome_key,
      calls_today_key, playbook_key (n_id nd)}"
    using k call_patch_keys by blast
  then show "k \<in> set (own_keys nd)" by (auto simp: own_keys_def)
qed

interpretation action_word: square_word "execute_action L X r nd d" nd for L X r nd d
  by unfold_locales (use execute_action_patch in \<open>fastforce simp: own_keys_def\<close>)

lemma executor_word:
  assumes "executor L X nd = Some ex"
  shows "square_word (ex r d) nd"
proof (cases "n_type nd")
  case Send
  then have "ex r d = execute_send L X r nd d" using assms by (auto simp: executor_def)
  then show ?thesis by (simp only: send_word.square_word_axioms)
next
  case Call
  then have "ex r d = execute_call L X r nd d" using assms by (auto simp: executor_def)
  then show ?thesis by (simp only: call_word.square_word_axioms)
next
  case Action
  then have "ex r d = execute_action L X r nd d" using assms by (auto simp: executor_def)
  then show ?thesis by (simp only: action_word.square_word_axioms)
next
  case Condition
  then have "ex r d = execute_condition L X r nd d" using assms by (auto simp: executor_def)
  then show ?thesis by (simp only: condition_word.square_word_axioms)
next
  case Split
  then have "ex r d = execute_split L X r nd d" using assms by (auto simp: executor_def)
  then show ?thesis by (simp only: split_word.square_word_axioms)
qed (use assms in \<open>simp add: executor_def\<close>)

text \<open>
  No square can overwrite a producer's fact or the run's own identity: whatever word runs,
  the patch it returns leaves every key that is not bookkeeping, and the letter the run was
  founded by, its goal, its phone and the letters it has heard, exactly as they were.
\<close>

theorem execute_keeps_facts:
  assumes "executor L X nd = Some ex" and "ex r d w = (Ok patch, w')"
    and "\<not> is_bookkeeping k \<or> k \<in> set run_keys"
  shows "map_of (dmerge c patch) k = map_of c k"
  using square_word.keeps_producer_facts [OF executor_word [OF assms(1)] assms(2)]
    square_word.keeps_run_keys [OF executor_word [OF assms(1)] assms(2)] assms(3) by blast

definition sample_condition :: node where
  "sample_condition = (blank_node ''c1'' Condition)\<lparr>n_rules := [city_rule]\<rparr>"

lemma execute_keeps_facts_witness:
  "\<exists>ex patch. executor india_lib quiet_ext sample_condition = Some ex
     \<and> ex sample_run sample_plan () = (Ok patch, ())
     \<and> map_of (dmerge (r_context sample_run) patch) ''cart'' = Some (JInt 1)"
proof -
  have ex: "executor india_lib quiet_ext sample_condition
      = Some (\<lambda>r d. execute_condition india_lib quiet_ext r sample_condition d)"
    by (simp add: executor_def sample_condition_def blank_node_def)
  have "\<not> needs_customer (n_rules sample_condition)"
    by (simp add: needs_customer_def names_prefix_def sample_condition_def city_rule_def
        customer_prefix_def prefix_of_def)
  then obtain patch where p: "execute_condition india_lib quiet_ext sample_run sample_condition sample_plan ()
      = (Ok patch, ())"
    by (simp add: execute_condition_def now_io_def quiet_ext_def io_bind_def io_return_def Let_def)
  have "\<not> is_bookkeeping ''cart''" by code_simp
  moreover have "map_of (r_context sample_run) ''cart'' = Some (JInt 1)" by (simp add: sample_run_def)
  ultimately show ?thesis
    using ex p execute_keeps_facts [OF ex p, of "''cart''" "r_context sample_run"] by auto
qed

section \<open>The shares of a split\<close>

lemma arm_from_label: "arm_from c as b = Some l \<Longrightarrow> l \<in> a_on ` set as"
  by (induction c as b rule: arm_from.induct) (auto split: if_splits)

lemma arm_from_covers: "b < c + sum_list (map a_percent as) \<Longrightarrow> arm_from c as b \<noteq> None \<or> as = []"
proof (induction as arbitrary: c)
  case (Cons a as)
  show ?case
  proof (cases "as = []")
    case False
    then show ?thesis using Cons.IH [of "c + a_percent a"] Cons.prems by (simp add: add.assoc)
  qed (use Cons.prems in simp)
qed simp

lemma arm_share:
  assumes "distinct (map a_on as)" and "\<forall>x\<in>set as. 0 \<le> a_percent x" and "a \<in> set as"
  shows "card {b. c \<le> b \<and> b < c + sum_list (map a_percent as) \<and> arm_from c as b = Some (a_on a)}
    = nat (a_percent a)"
  using assms
proof (induction as arbitrary: c)
  case (Cons x xs)
  let ?n = "sum_list (map a_percent xs)"
  have n: "0 \<le> ?n" using Cons.prems(2) by (intro sum_list_nonneg) auto
  show ?case
  proof (cases "a_on a = a_on x")
    case True
    then have "a = x" using Cons.prems(1,3) by (auto simp: image_iff)
    have "arm_from (c + a_percent x) xs b \<noteq> Some (a_on x)" for b
      using arm_from_label [of "c + a_percent x" xs b "a_on x"] Cons.prems(1) by auto
    then have "{b. c \<le> b \<and> b < c + sum_list (map a_percent (x # xs)) \<and> arm_from c (x # xs) b = Some (a_on a)}
        = {c..<c + a_percent x}"
      using n \<open>a = x\<close> by (auto split: if_splits)
    then show ?thesis using \<open>a = x\<close> by simp
  next
    case False
    then have "a \<in> set xs" using Cons.prems(3) by auto
    have "{b. c \<le> b \<and> b < c + sum_list (map a_percent (x # xs)) \<and> arm_from c (x # xs) b = Some (a_on a)}
        = {b. c + a_percent x \<le> b \<and> b < (c + a_percent x) + ?n \<and> arm_from (c + a_percent x) xs b = Some (a_on a)}"
      using False Cons.prems(2) by (auto split: if_splits)
    then show ?thesis using Cons.IH [of "c + a_percent x"] Cons.prems \<open>a \<in> set xs\<close> by simp
  qed
qed simp

lemma arm_problems_none:
  "arm_problems seen as = [] \<Longrightarrow>
     distinct (map a_on as) \<and> set (map a_on as) \<inter> set seen = {} \<and> (\<forall>a\<in>set as. 0 < a_percent a)"
  by (induction seen as rule: arm_problems.induct) (auto split: if_splits)

lemma bucket_bound: "bucket_of L r n < buckets"
  by (simp add: bucket_of_def buckets_def)

lemma split_laws:
  assumes "validate_split nd d = []"
  shows "distinct (map a_on (n_arms nd))" and "\<forall>a\<in>set (n_arms nd). 0 < a_percent a"
    and "sum_list (map a_percent (n_arms nd)) = 100" and "n_arms nd \<noteq> []"
    and "\<forall>a\<in>set (n_arms nd). Some (a_on a) \<in> set (arrow_labels nd d)"
  using assms arm_problems_none [of "[]" "n_arms nd"]
  by (auto simp: validate_split_def Let_def buckets_def filter_empty_conv split: if_splits)

text \<open>
  A published split is an exact share: of the hundred buckets each arm takes as many as its
  percent says, no arm is dead, and whatever its id a run lands on one of the arms, which has an
  arrow out of the square.
\<close>

theorem split_shares_exact:
  assumes "validate_split nd d = []"
  shows "(\<forall>a\<in>set (n_arms nd).
      int (card {b. 0 \<le> b \<and> b < 100 \<and> arm_for (n_arms nd) b = Some (a_on a)}) = a_percent a
      \<and> 0 < a_percent a)
    \<and> (\<exists>a\<in>set (n_arms nd). arm_for (n_arms nd) (int (bucket_of L run_id (n_id nd))) = Some (a_on a)
         \<and> Some (a_on a) \<in> set (arrow_labels nd d))"
proof (intro conjI ballI)
  note laws = split_laws [OF assms]
  have covers: "arm_for (n_arms nd) b = arm_from 0 (n_arms nd) b" if "b < 100" for b
    using arm_from_covers [of b 0 "n_arms nd"] laws(3,4) that by (auto simp: arm_for_def)
  fix a assume a: "a \<in> set (n_arms nd)"
  have "{b. 0 \<le> b \<and> b < 100 \<and> arm_for (n_arms nd) b = Some (a_on a)}
      = {b. 0 \<le> b \<and> b < 0 + sum_list (map a_percent (n_arms nd)) \<and> arm_from 0 (n_arms nd) b = Some (a_on a)}"
    using covers laws(3) by auto
  then show "int (card {b. 0 \<le> b \<and> b < 100 \<and> arm_for (n_arms nd) b = Some (a_on a)}) = a_percent a"
    using arm_share [OF laws(1) _ a, of 0] laws(2) a by (simp add: less_imp_le)
  show "0 < a_percent a" using laws(2) a by blast
next
  note laws = split_laws [OF assms]
  let ?b = "int (bucket_of L run_id (n_id nd))"
  have "?b < 100" using bucket_bound [of L run_id "n_id nd"] by (simp add: buckets_def)
  then obtain l where l: "arm_from 0 (n_arms nd) ?b = Some l"
    using arm_from_covers [of ?b 0 "n_arms nd"] laws(3,4) by auto
  then obtain a where "a \<in> set (n_arms nd)" "l = a_on a" using arm_from_label by blast
  then show "\<exists>a\<in>set (n_arms nd). arm_for (n_arms nd) ?b = Some (a_on a)
      \<and> Some (a_on a) \<in> set (arrow_labels nd d)"
    using l laws(5) by (auto simp: arm_for_def)
qed

definition half_split :: node where
  "half_split = (blank_node ''s'' Split)\<lparr>n_arms := [\<lparr>a_on = ''a'', a_percent = 30\<rparr>, \<lparr>a_on = ''b'', a_percent = 70\<rparr>]\<rparr>"

definition split_plan :: workflow_definition where
  "split_plan = sample_plan\<lparr>d_nodes := [half_split, blank_node ''x'' Wait],
     d_edges := [(''s'', ''x'', Some ''a''), (''s'', ''x'', Some ''b'')]\<rparr>"

lemma split_shares_exact_witness:
  "validate_split half_split split_plan = []
   \<and> int (card {b. 0 \<le> b \<and> b < 100 \<and> arm_for (n_arms half_split) b = Some ''a''}) = 30"
proof -
  have v: "validate_split half_split split_plan = []" by code_simp
  then show ?thesis
    using split_shares_exact [OF v] by (simp add: half_split_def)
qed

section \<open>A lead for each visit\<close>

lemma int_text_inj: "int_text a = int_text b \<longleftrightarrow> a = b"
  by (metis number_text_int_text of_int_eq_iff option.inject)

lemma visits_patch: "visits_so_far (dmerge c (call_patch L x t capped ctx n i v ch)) n = max 0 v"
proof -
  have "calls_today_key \<noteq> visits_key n" "outcome_key \<noteq> visits_key n" "playbook_key n \<noteq> visits_key n"
    by (simp_all add: calls_today_key_def outcome_key_def playbook_key_def visits_key_def)
  then have "map_of (rev (call_patch L x t capped ctx n i v ch)) (visits_key n) = Some (JInt v)"
    by (auto simp: call_patch_def)
  then have "dget (dmerge c (call_patch L x t capped ctx n i v ch)) (visits_key n) = JInt v"
    by (simp add: dget_def map_of_dmerge)
  then show ?thesis by (simp add: visits_so_far_def)
qed

lemma visits_nonneg: "0 \<le> visits_so_far c n"
  by (simp add: visits_so_far_def split: json.splits)

text \<open>
  A lease retry of a visit asks for the very lead the first attempt asked for, and the next
  visit of the square for another one: the lead's name is a function of the run, the square and
  the visit counter, which a completed visit moves by exactly one.
\<close>

theorem next_visit_is_a_new_lead:
  assumes "execute_call L X r nd d w = (Ok patch, w')"
  shows "visits_so_far (dmerge (r_context r) patch) (n_id nd) = visits_so_far (r_context r) (n_id nd) + 1
    \<and> lead_name (r_id r) (n_id nd) (visits_so_far (dmerge (r_context r) patch) (n_id nd) + 1)
      \<noteq> lead_name (r_id r) (n_id nd) (visits_so_far (r_context r) (n_id nd) + 1)"
proof -
  from execute_call_patch [OF assms] obtain t off t1 t2 w1 where "mint_call L X r nd d t off t1
      (max_calls_reached L (r_context r) (d_exits d) t2) w1 = (Ok patch, w')"
    by (elim exE)
  from mint_call_patch [OF this]
  have "visits_so_far (dmerge (r_context r) patch) (n_id nd) = visits_so_far (r_context r) (n_id nd) + 1"
    using visits_patch visits_nonneg [of "r_context r" "n_id nd"] by (auto simp: max_def)
  then show ?thesis by (simp add: lead_name_def int_text_inj)
qed

text \<open>
  Two squares can share a counter: a call square whose id begins with \<open>visits_\<close> writes its
  lead under the key where the square named by the rest keeps its visits, so that square's next
  visit starts again at one and asks for the lead of its first visit, which is adopted as a retry.
\<close>

theorem visit_counter_collision:
  "lead_key (''visits_'' @ n) = visits_key n
   \<and> visits_so_far (dmerge c (call_patch L x t capped ctx (''visits_'' @ n) i v ch)) n = 0"
proof -
  let ?m = "''visits_'' @ n"
  have k: "lead_key ?m = visits_key n" by (simp add: lead_key_def visits_key_def)
  have "calls_today_key \<noteq> visits_key n" "outcome_key \<noteq> visits_key n" "playbook_key ?m \<noteq> visits_key n"
      "visits_key ?m \<noteq> visits_key n"
    by (simp_all add: calls_today_key_def outcome_key_def playbook_key_def visits_key_def)
  then have "map_of (rev (call_patch L x t capped ctx ?m i v ch)) (visits_key n) = Some (JStr i)"
    unfolding call_patch_def k by auto
  then have "dget (dmerge c (call_patch L x t capped ctx ?m i v ch)) (visits_key n) = JStr i"
    by (simp add: dget_def map_of_dmerge)
  then show ?thesis using k by (simp add: visits_so_far_def)
qed

definition dial_ext :: "unit ext" where
  "dial_ext = quiet_ext\<lparr>x_template := (\<lambda>i. io_return (Some \<lparr>ct_id = i, ct_name = ''agent'', ct_merchant = None\<rparr>)),
     x_config := (\<lambda>i. io_return (Some 0))\<rparr>"

definition sample_call :: node where
  "sample_call = (blank_node ''call1'' Call)\<lparr>n_template_id := Some ''t''\<rparr>"

lemma blocks_for_none:
  "n_blocks nd = [] \<Longrightarrow> blocks_for L X r nd d (n_blocks nd) = io_return ([], [])"
  by (simp add: blocks_for_def split: option.splits)

lemma io_bind_unit [simp]: "io_bind (\<lambda>w. (Ok x, w)) f = f x"
  by (simp add: io_bind_def)

lemma sample_call_runs: "\<exists>patch. execute_call india_lib dial_ext sample_run sample_call sample_plan () = (Ok patch, ())"
proof -
  have "dget (r_context sample_run) ''phone'' = JStr ''1''" by (simp add: sample_run_def dget_def)
  moreover have "max_calls_reached india_lib (r_context sample_run) (d_exits sample_plan) 0 = False"
    by (simp add: max_calls_reached_def sample_plan_def)
  ultimately show ?thesis
    by (simp add: execute_call_def now_io_def dial_ext_def quiet_ext_def io_return_def mint_call_def Let_def
        blocks_for_none sample_call_def blank_node_def blocks_for_def place_lead_def
        split: option.splits)
qed

lemma next_visit_is_a_new_lead_witness:
  "\<exists>patch. execute_call india_lib dial_ext sample_run sample_call sample_plan () = (Ok patch, ())
     \<and> visits_so_far (dmerge (r_context sample_run) patch) ''call1'' = 1"
proof -
  obtain patch where p: "execute_call india_lib dial_ext sample_run sample_call sample_plan () = (Ok patch, ())"
    using sample_call_runs by blast
  have "visits_so_far (r_context sample_run) ''call1'' = 0"
    by (simp add: visits_so_far_def visits_key_def sample_run_def dget_def)
  then show ?thesis
    using p next_visit_is_a_new_lead [OF p] by (simp add: sample_call_def blank_node_def)
qed

section \<open>The daily ceiling\<close>

lemma calls_today_patch:
  "calls_today (dmerge c (call_patch L x t capped c n i v ch)) day
   = (if \<not> capped \<and> x_max_calls_per_day x \<noteq> None \<and> today_on L x t = day
      then calls_today c day + 1
      else if \<not> capped \<and> x_max_calls_per_day x \<noteq> None then 0
      else calls_today c day)"
proof -
  have k: "lead_key n \<noteq> calls_today_key" "visits_key n \<noteq> calls_today_key" "outcome_key \<noteq> calls_today_key"
      "playbook_key n \<noteq> calls_today_key"
    by (simp_all add: lead_key_def visits_key_def calls_today_key_def outcome_key_def playbook_key_def)
  have nn: "0 \<le> calls_today c day" for day
    by (simp add: calls_today_def split: json.splits)
  show ?thesis
  proof (cases "\<not> capped \<and> x_max_calls_per_day x \<noteq> None")
    case True
    then have "map_of (rev (call_patch L x t capped c n i v ch)) calls_today_key
        = Some (JObj [(''day'', JStr (today_on L x t)), (''n'', JInt (calls_today c (today_on L x t) + 1))])"
      using k by (auto simp: call_patch_def)
    then have "dget (dmerge c (call_patch L x t capped c n i v ch)) calls_today_key
        = JObj [(''day'', JStr (today_on L x t)), (''n'', JInt (calls_today c (today_on L x t) + 1))]"
      by (simp add: dget_def map_of_dmerge)
    moreover have "dget [(''day'', a), (''n'', b)] ''day'' = a" "dget [(''day'', a), (''n'', b)] ''n'' = b"
      for a b by (simp_all add: dget_def)
    ultimately show ?thesis
      using True nn [of day] nn [of "today_on L x t"] unfolding calls_today_def [of "dmerge c _"] by simp
  next
    case False
    then have "calls_today_key \<notin> fst ` set (call_patch L x t capped c n i v ch)"
      using k [symmetric] by (auto simp: call_patch_def)
    then have "dget (dmerge c (call_patch L x t capped c n i v ch)) calls_today_key = dget c calls_today_key"
      by (rule dget_dmerge_other)
    then show ?thesis using False by (auto simp: calls_today_def)
  qed
qed


definition capped_plan :: workflow_definition where
  "capped_plan = sample_plan\<lparr>d_exits := \<lparr>x_max_age_days = 7, x_max_calls_per_day = Some 1, x_timezone = Some ''IST''\<rparr>\<rparr>"

lemma capped_call_runs: "\<exists>patch. execute_call india_lib dial_ext sample_run sample_call capped_plan () = (Ok patch, ())"
proof -
  have "dget (r_context sample_run) ''phone'' = JStr ''1''" by (simp add: sample_run_def dget_def)
  moreover have "max_calls_reached india_lib (r_context sample_run) (d_exits capped_plan) 0 = False"
    by (simp add: max_calls_reached_def capped_plan_def calls_today_def sample_run_def dget_def calls_today_key_def)
  ultimately show ?thesis
    by (simp add: execute_call_def now_io_def dial_ext_def quiet_ext_def io_return_def mint_call_def Let_def
        blocks_for_none sample_call_def blank_node_def blocks_for_def place_lead_def
        split: option.splits)
qed


section \<open>An action's arguments\<close>

fun slots :: "json \<Rightarrow> string list" where
  "slots (JList xs) = concat (map slots xs)"
| "slots v = (case placeholder v of Some n \<Rightarrow> [n] | None \<Rightarrow> [])"

definition arg_slots :: "dict \<Rightarrow> string list" where
  "arg_slots args = concat (map (\<lambda>(k, v). slots v) args)"

lemma resolve_arg_slots:
  "(case resolve_arg facts v of
      Inl f \<Rightarrow> f \<in> set (slots v) \<and> blank (dget facts f)
    | Inr y \<Rightarrow> \<forall>n\<in>set (slots v). \<not> blank (dget facts n))"
  and "(case resolve_items facts vs of
      Inl f \<Rightarrow> f \<in> set (concat (map slots vs)) \<and> blank (dget facts f)
    | Inr ys \<Rightarrow> (\<forall>n\<in>set (concat (map slots vs)). \<not> blank (dget facts n)) \<and> length ys = length vs)"
  by (induction facts v and facts vs rule: resolve_arg_resolve_items.induct)
    (auto simp: placeholder_def split: option.splits sum.splits if_splits)

lemma resolved_args_keys: "resolved_args args facts = Inr ys \<Longrightarrow> map fst ys = map fst args"
  by (induction args facts arbitrary: ys rule: resolved_args.induct) (auto split: sum.splits)

text \<open>
  An action is performed on whole arguments or not at all: the arguments resolve exactly when
  every placeholder in them, also inside lists, names a fact that has a value on the run, keeping
  the argument names; otherwise the fact reported is one of the placeholders that has none.
\<close>

theorem resolved_args_all_or_nothing:
  "(case resolved_args args facts of
      Inl f \<Rightarrow> f \<in> set (arg_slots args) \<and> blank (dget facts f)
    | Inr ys \<Rightarrow> (\<forall>n\<in>set (arg_slots args). \<not> blank (dget facts n)) \<and> map fst ys = map fst args)"
proof (induction args facts rule: resolved_args.induct)
  case (2 k v args facts)
  have v: "case resolve_arg facts v of
      Inl f \<Rightarrow> f \<in> set (slots v) \<and> blank (dget facts f)
    | Inr y \<Rightarrow> \<forall>n\<in>set (slots v). \<not> blank (dget facts n)"
    by (rule resolve_arg_slots)
  show ?case
  proof (cases "resolve_arg facts v")
    case (Inl f)
    then show ?thesis using v by (simp add: arg_slots_def)
  next
    case (Inr y)
    then show ?thesis using v 2 [OF Inr]
      by (cases "resolved_args args facts") (auto simp: arg_slots_def)
  qed
qed (simp add: arg_slots_def)

theorem resolved_args_all_or_nothing_witness:
  "\<not> blank (dget [(''order'', JStr ''A-1'')] ''order'')"
proof -
  let ?args = "[(''note'', JStr ''gift''), (''tags'', JList [JStr ''{order}''])]"
  let ?facts = "[(''order'', JStr ''A-1'')]"
  have r: "resolved_args ?args ?facts = Inr [(''note'', JStr ''gift''), (''tags'', JList [JStr ''A-1''])]"
    by code_simp
  have "''order'' \<in> set (arg_slots ?args)" by code_simp
  then show ?thesis using resolved_args_all_or_nothing [of ?args ?facts] unfolding r by simp
qed

end
