(* ===== verification/Walker.thy ===== *)
theory Walker
  imports Square_Laws
begin

text \<open>
  The clock that moves tokens, \<open>app/crm/outreach/walker.py\<close>: one visit of one claimed run.  A
  visit reads, executes squares and ends in at most one write to the run table; the write is a
  value here (\<open>run_write\<close>) and \<open>perform\<close> is the statement it stands for, so that what other
  processes commit during the visit is the store the write finds.  \<open>definition_for\<close> is the read
  of the pinned version (its cache is the theory of the versions), and the clock is read where the
  code reads it.
\<close>

section \<open>The pure parts\<close>

definition max_steps_per_visit :: nat where "max_steps_per_visit = 10"
definition retry_cap_seconds :: int where "retry_cap_seconds = 3600"

text \<open>\<open>u\<close> is the draw of \<open>random.uniform(0.8, 1.2)\<close>.\<close>

definition retry_delay_seconds :: "nat \<Rightarrow> nat \<Rightarrow> rat \<Rightarrow> int" where
  "retry_delay_seconds attempts base u =
     (let delay = min (int base * 2 ^ (attempts - 1)) retry_cap_seconds
      in max 1 (py_round (of_int delay * u)))"

definition goal_since :: "lib \<Rightarrow> run \<Rightarrow> time" where
  "goal_since L r = (case dget (r_context r) ''entered_event_at'' of
     JStr s \<Rightarrow> (case iso_parse L s of Some (Aware t) \<Rightarrow> t | _ \<Rightarrow> r_entered r)
   | _ \<Rightarrow> r_entered r)"

text \<open>The first arrow whose label is the wanted word; an answer that is no text matches none.\<close>

definition arrow_to :: "json \<Rightarrow> (string \<times> string option) list \<Rightarrow> string option" where
  "arrow_to wanted arrows =
     map_option fst (find (\<lambda>(dst, on). case on of None \<Rightarrow> False | Some l \<Rightarrow> wanted = JStr l) arrows)"

definition pick_next :: "node \<Rightarrow> (string \<times> string option) list \<Rightarrow> dict \<Rightarrow> string option" where
  "pick_next nd arrows context =
     (if \<not> branches nd then (case arrows of [] \<Rightarrow> None | a # _ \<Rightarrow> Some (fst a))
      else let answer = dget context (reply_key (n_id nd));
               wanted = (if answer = JNull then JStr timeout_word else answer)
           in (case arrow_to wanted arrows of Some dst \<Rightarrow> Some dst
               | None \<Rightarrow> arrow_to (JStr else_word) arrows))"

section \<open>The write a visit ends in\<close>

datatype run_write =
    W_advance string time dict "time option" "step_record list"
  | W_exit string "string option" "dict option" "step_record list"
  | W_park string
  | W_retry string nat

fun perform :: "time \<Rightarrow> string \<Rightarrow> time \<Rightarrow> run_write \<Rightarrow> store \<Rightarrow> bool \<times> store" where
  "perform now i lease (W_advance nd wake c arrived steps) s = advance_run i nd wake c lease arrived steps s"
| "perform now i lease (W_exit reason nd c steps) s = exit_run now i reason lease nd c steps s"
| "perform now i lease (W_park err) s = park_run i err lease s"
| "perform now i lease (W_retry err secs) s = record_run_error now i err secs lease s"

text \<open>\<open>closing\<close> reads the clock itself.\<close>

definition exit_closing :: "'w ext \<Rightarrow> run \<Rightarrow> workflow_definition option \<Rightarrow> string \<Rightarrow> ('w, run_write) io" where
  "exit_closing X r d reason =
     io_bind (now_io X) (\<lambda>t. io_return (W_exit reason None None (as_rows (closing r d reason t None))))"

section \<open>The goal tiers\<close>

definition tier_where :: "run \<Rightarrow> goal \<Rightarrow> (string \<times> string) option" where
  "tier_where r g = (case g_key g of None \<Rightarrow> None
     | Some k \<Rightarrow> Some (gk_event k, py_str (dget (r_context r) (gk_run k))))"

text \<open>A keyed tier the run has no value for, and a conditional tier without a key, are passed over.\<close>

definition tier_skipped :: "run \<Rightarrow> goal \<Rightarrow> bool" where
  "tier_skipped r g \<longleftrightarrow>
     (case g_key g of None \<Rightarrow> g_where g \<noteq> [] | Some k \<Rightarrow> blank (dget (r_context r) (gk_run k)))"

definition tier_hit :: "lib \<Rightarrow> 'w ext \<Rightarrow> run \<Rightarrow> goal \<Rightarrow> ('w, bool) io" where
  "tier_hit L X r g =
     (if g_where g \<noteq> [] then
        io_bind (x_latest_event X (r_merchant r) (r_customer r) (g_topics g) (goal_since L r) (tier_where r g))
          (\<lambda>letter. io_return (case letter of None \<Rightarrow> False | Some e \<Rightarrow> conditions_match L (g_where g) e))
      else x_has_event X (r_merchant r) (r_customer r) (g_topics g) (goal_since L r) (tier_where r g))"

fun judge_goals :: "lib \<Rightarrow> 'w ext \<Rightarrow> run \<Rightarrow> goal list \<Rightarrow> ('w, string option) io" where
  "judge_goals L X r [] = io_return None"
| "judge_goals L X r (g # gs) =
     (if tier_skipped r g then judge_goals L X r gs
      else io_bind (tier_hit L X r g) (\<lambda>hit.
             if hit then io_return (Some (g_exit_reason g)) else judge_goals L X r gs))"

section \<open>The board\<close>

text \<open>What a visit carries from square to square.\<close>

record visit =
  v_node :: string
  v_context :: dict
  v_ptr :: "string option"
  v_by :: arrival
  v_arrived :: "time option"
  v_walked :: "step_record list"
  v_first :: bool

definition start_visit :: "run \<Rightarrow> visit" where
  "start_visit r =
     (let ptr = truthy_text (dget (r_context r) cut_short_by_key)
      in \<lparr>v_node = r_node r, v_context = AList.delete cut_short_by_key (r_context r), v_ptr = ptr,
          v_by = first_arrival r ptr, v_arrived = r_arrived r, v_walked = [], v_first = True\<rparr>)"

definition held_context :: "visit \<Rightarrow> dict" where
  "held_context v = (case v_ptr v of None \<Rightarrow> v_context v
     | Some p \<Rightarrow> AList.update cut_short_by_key (JStr p) (v_context v))"

text \<open>The opening a windowed square holds for, when it holds.\<close>

definition holds_until :: "lib \<Rightarrow> time \<Rightarrow> node \<Rightarrow> dict \<Rightarrow> time option" where
  "holds_until L now nd context = (case n_window nd of None \<Rightarrow> None
     | Some w \<Rightarrow> (let opening = opens_at (zone_of L (w_timezone w)) now w
                 in if dget context (reply_key (n_id nd)) = JNull \<and> now < opening then Some opening else None))"

definition run_square ::
    "lib \<Rightarrow> 'w ext \<Rightarrow> run \<Rightarrow> workflow_definition \<Rightarrow> node \<Rightarrow> dict \<Rightarrow> ('w, dict) io" where
  "run_square L X r d nd context = (case executor L X nd of
     None \<Rightarrow> io_return []
   | Some ex \<Rightarrow> ex (r\<lparr>r_context := context\<rparr>) d)"

definition said_word :: "dict \<Rightarrow> string option" where
  "said_word patch = (if dget patch outcome_key = JNull then None else Some (py_str (dget patch outcome_key)))"

text \<open>How the square was left, and the context without its spent answer.\<close>

definition square_outcome :: "node \<Rightarrow> dict \<Rightarrow> string option \<Rightarrow> string option" where
  "square_outcome nd context said =
     (if branches nd then
        Some (let answer = dget context (reply_key (n_id nd))
              in if answer = JNull then timeout_word else py_str answer)
      else said)"

definition spent :: "node \<Rightarrow> dict \<Rightarrow> dict" where
  "spent nd context = (if branches nd then without_reply context (n_id nd) else context)"

definition leave ::
    "run \<Rightarrow> node \<Rightarrow> visit \<Rightarrow> dict \<Rightarrow> dict \<Rightarrow> time \<Rightarrow> string option \<Rightarrow> step_record list" where
  "leave r nd v patch context left next =
     v_walked v @ step nd (v_arrived v) left (v_by v)
       (square_outcome nd context (said_word patch)) next r (v_ptr v) (v_first v)
       (dispatch_id (AList.delete outcome_key patch) (n_id nd))"

fun visit_loop ::
    "lib \<Rightarrow> 'w ext \<Rightarrow> run \<Rightarrow> workflow_definition \<Rightarrow> time \<Rightarrow> time \<Rightarrow> nat \<Rightarrow> visit \<Rightarrow> ('w, run_write) io" where
  "visit_loop L X r d now ends 0 v = io_park ''10 immediate nodes in one visit - runaway document''"
| "visit_loop L X r d now ends (Suc k) v =
     (case node_table d (v_node v) of
        None \<Rightarrow> io_park (''node '' @ v_node v @ '' not in definition v'' @ int_text (r_version r))
      | Some nd \<Rightarrow>
        (case holds_until L now nd (v_context v) of
           Some opening \<Rightarrow>
             io_return (W_advance (n_id nd) opening (held_context v)
               (if v_first v then None else v_arrived v) (as_rows (v_walked v)))
         | None \<Rightarrow>
             io_bind (run_square L X r d nd (v_context v)) (\<lambda>patch.
             io_bind (now_io X) (\<lambda>left.
               let context = dmerge (v_context v) (AList.delete outcome_key patch);
                   next = pick_next nd (outgoing d (v_node v)) context;
                   walked = leave r nd v patch context left next
               in (case next of
                     None \<Rightarrow> io_return (W_exit ''completed'' (Some (v_node v)) (Some (spent nd context)) (as_rows walked))
                   | Some dst \<Rightarrow>
                     (case node_table d dst of
                        None \<Rightarrow> io_park (''edge points at unknown node '' @ dst)
                      | Some nx \<Rightarrow>
                        (if is_wait nx \<and> left < alarm L nx left ends
                         then io_return (W_advance dst (alarm L nx left ends) (spent nd context) (Some left) (as_rows walked))
                         else visit_loop L X r d now ends k
                                \<lparr>v_node = dst, v_context = spent nd context, v_ptr = None, v_by = By_walk,
                                 v_arrived = Some left, v_walked = walked, v_first = False\<rparr>)))))))"

section \<open>One visit\<close>

definition advance_visit ::
    "lib \<Rightarrow> 'w ext \<Rightarrow> run \<Rightarrow> workflow_definition \<Rightarrow> ('w, run_write) io" where
  "advance_visit L X r d =
     io_bind (now_io X) (\<lambda>now.
     let max_age = td_days (x_max_age_days (d_exits d)) in
     if max_age < now - r_entered r then exit_closing X r (Some d) ''timed_out''
     else io_bind (judge_goals L X r (goal_tiers d None)) (\<lambda>hit.
       case hit of
         Some reason \<Rightarrow> exit_closing X r (Some d) reason
       | None \<Rightarrow> visit_loop L X r d now (r_entered r + max_age) max_steps_per_visit (start_visit r)))"

text \<open>A definition that cannot be read costs the eject its closing row, never the eject.\<close>

definition ejected_definition :: "'w ext \<Rightarrow> run \<Rightarrow> ('w, workflow_definition option) io" where
  "ejected_definition X r w = (case x_document X (r_merchant r) (r_workflow r) (r_version r) w of
     (Ok d, w') \<Rightarrow> (Ok d, w') | (Park e, w') \<Rightarrow> (Ok None, w') | (Fail e, w') \<Rightarrow> (Ok None, w'))"

definition plan_visit :: "lib \<Rightarrow> 'w ext \<Rightarrow> run \<Rightarrow> ('w, run_write option) io" where
  "plan_visit L X r =
     io_bind (x_status X (r_merchant r) (r_workflow r)) (\<lambda>status.
     if status = None \<or> status = Some ''archived'' then
       io_bind (ejected_definition X r) (\<lambda>d.
         io_bind (exit_closing X r d ''ejected'') (\<lambda>wr. io_return (Some wr)))
     else if status = Some ''paused'' then io_return None
     else io_bind (x_document X (r_merchant r) (r_workflow r) (r_version r)) (\<lambda>d.
       case d of
         None \<Rightarrow> io_park (''definition v'' @ int_text (r_version r) @ '' missing'')
       | Some doc \<Rightarrow> io_bind (advance_visit L X r doc) (\<lambda>wr. io_return (Some wr))))"

text \<open>
  \<open>db\<close> says whether a statement raises: then it has not happened, and the handler goes on.
  The answer is the write that was sent and did not raise, if any.
\<close>

definition send_write ::
    "(run_write \<Rightarrow> 'w \<Rightarrow> string option \<times> 'w) \<Rightarrow> run_write \<Rightarrow> 'w \<Rightarrow> run_write option \<times> string option \<times> 'w" where
  "send_write db wr w = (case db wr w of (None, w') \<Rightarrow> (Some wr, None, w') | (Some e, w') \<Rightarrow> (None, Some e, w'))"

definition after_failure ::
    "'w ext \<Rightarrow> (run_write \<Rightarrow> 'w \<Rightarrow> string option \<times> 'w) \<Rightarrow> nat \<Rightarrow> nat \<Rightarrow> run \<Rightarrow> string \<Rightarrow> 'w \<Rightarrow> run_write option \<times> 'w" where
  "after_failure X db max_attempts lease_seconds r e w =
     (if max_attempts \<le> r_attempts r
      then (case send_write db (W_park (''attempts exhausted: '' @ e)) w of (wr, _, w') \<Rightarrow> (wr, w'))
      else (case x_jitter X w of (u, w1) \<Rightarrow>
        (case send_write db (W_retry e (nat (retry_delay_seconds (r_attempts r) lease_seconds u))) w1 of
           (wr, _, w') \<Rightarrow> (wr, w'))))"

definition walk_run ::
    "lib \<Rightarrow> 'w ext \<Rightarrow> (run_write \<Rightarrow> 'w \<Rightarrow> string option \<times> 'w) \<Rightarrow> nat \<Rightarrow> nat \<Rightarrow> run \<Rightarrow> 'w \<Rightarrow> run_write option \<times> 'w" where
  "walk_run L X db max_attempts lease_seconds r w =
     (if r_wake r = None then (None, w)
      else case plan_visit L X r w of
        (Ok None, w1) \<Rightarrow> (None, w1)
      | (Ok (Some wr), w1) \<Rightarrow> (case send_write db wr w1 of
            (_, Some e, w2) \<Rightarrow> after_failure X db max_attempts lease_seconds r e w2
          | (sent, None, w2) \<Rightarrow> (sent, w2))
      | (Park e, w1) \<Rightarrow> (case send_write db (W_park e) w1 of (sent, _, w2) \<Rightarrow> (sent, w2))
      | (Fail e, w1) \<Rightarrow> after_failure X db max_attempts lease_seconds r e w1)"

end
