(* ===== verification/Walker_Laws.thy ===== *)
theory Walker_Laws
  imports Walker
begin

text \<open>
  What one visit promises: the rows it buffers are a path of the document that ends where the
  token goes, at most ten of them; the run keeps the facts and letters that are not the squares'
  own; a run past its age or its goal ends before any square acts; the retry is bounded; and a
  visit whose run moved under it changes nothing.
\<close>

section \<open>Paths\<close>

definition linked :: "'a step_record_scheme list \<Rightarrow> bool" where
  "linked ss \<longleftrightarrow> successively (\<lambda>a b. st_next a = Some (st_node b) \<and> st_arrived b \<le> st_left a) ss"

definition along_arrows :: "workflow_definition \<Rightarrow> step_record list \<Rightarrow> bool" where
  "along_arrows d ss \<longleftrightarrow>
     (\<forall>s\<in>set ss. \<forall>n. st_next s = Some n \<longrightarrow> (\<exists>on. (st_node s, n, on) \<in> set (d_edges d)))"

text \<open>The rows of one visit, seen from the square the run stood on when it was claimed.\<close>

definition from_here :: "run \<Rightarrow> step_record list \<Rightarrow> bool" where
  "from_here r ss \<longleftrightarrow> (r_arrived r \<noteq> None \<longrightarrow> ss \<noteq> [] \<longrightarrow>
     st_node (hd ss) = r_node r \<and> r_arrived r = Some (st_arrived (hd ss)))"

lemma linked_Nil [simp]: "linked []"
  by (simp add: linked_def)

lemma linked_snoc:
  "linked (ss @ [s]) \<longleftrightarrow> linked ss
     \<and> (ss \<noteq> [] \<longrightarrow> st_next (last ss) = Some (st_node s) \<and> st_arrived s \<le> st_left (last ss))"
  by (auto simp: linked_def successively_append_iff)

lemma linked_as_rows [simp]: "linked (as_rows ss) = linked ss"
  by (simp add: linked_def as_rows_def successively_map)

lemma along_as_rows [simp]: "along_arrows d (as_rows ss) = along_arrows d ss"
  by (auto simp: along_arrows_def as_rows_def)

lemma along_Nil [simp]: "along_arrows d []"
  by (simp add: along_arrows_def)

lemma as_rows_empty [simp]: "as_rows ss = [] \<longleftrightarrow> ss = []"
  by (simp add: as_rows_def)

lemma as_rows_length [simp]: "length (as_rows ss) = length ss"
  by (simp add: as_rows_def)

lemma from_here_as_rows [simp]: "from_here r (as_rows ss) = from_here r ss"
  by (cases ss) (simp_all add: from_here_def as_rows_def)

lemma as_rows_last_left [simp]: "ss \<noteq> [] \<Longrightarrow> st_left (last (as_rows ss)) = st_left (last ss)"
  by (simp add: as_rows_def last_map)

lemma as_rows_last_next [simp]: "ss \<noteq> [] \<Longrightarrow> st_next (last (as_rows ss)) = st_next (last ss)"
  by (simp add: as_rows_def last_map)

lemma arrow_to_Some: "arrow_to wanted arrows = Some dst \<Longrightarrow> \<exists>on. (dst, on) \<in> set arrows"
  using find_Some_set [of _ arrows] by (fastforce simp: arrow_to_def)

text \<open>The token leaves a square along one of its arrows.\<close>

lemma pick_next_arrow: "pick_next nd arrows c = Some dst \<Longrightarrow> \<exists>on. (dst, on) \<in> set arrows"
  using arrow_to_Some
  by (fastforce simp: pick_next_def Let_def split: if_split_asm list.split_asm option.split_asm)

section \<open>The invariant of the loop\<close>

text \<open>The run keys but the marker of the letter that cut a square short, which is popped.\<close>

definition keeps_identity :: "dict \<Rightarrow> dict \<Rightarrow> bool" where
  "keeps_identity c c' \<longleftrightarrow> (\<forall>k. (k \<in> set run_keys \<or> \<not> is_bookkeeping k) \<and> k \<noteq> cut_short_by_key
     \<longrightarrow> map_of c' k = map_of c k)"

definition visit_ok :: "run \<Rightarrow> workflow_definition \<Rightarrow> visit \<Rightarrow> bool" where
  "visit_ok r d v \<longleftrightarrow>
     linked (v_walked v) \<and> along_arrows d (v_walked v) \<and> steps_ok (v_walked v)
     \<and> keeps_identity (r_context r) (v_context v)
     \<and> (v_walked v \<noteq> [] \<longrightarrow> st_next (last (v_walked v)) = Some (v_node v)
          \<and> (\<exists>a. v_arrived v = Some a \<and> a \<le> st_left (last (v_walked v))))
     \<and> (r_arrived r \<noteq> None \<longrightarrow>
          (if v_walked v = [] then v_node v = r_node r \<and> v_first v \<and> v_arrived v = r_arrived r
           else \<not> v_first v \<and> st_node (hd (v_walked v)) = r_node r
                \<and> r_arrived r = Some (st_arrived (hd (v_walked v)))))"

fun write_ok :: "run \<Rightarrow> workflow_definition \<Rightarrow> nat \<Rightarrow> run_write \<Rightarrow> bool" where
  "write_ok r d n (W_advance nde wake c arrived ss) \<longleftrightarrow>
     linked ss \<and> along_arrows d ss \<and> steps_ok ss \<and> length ss \<le> n
     \<and> keeps_identity (r_context r) c \<and> node_table d nde \<noteq> None
     \<and> (ss \<noteq> [] \<longrightarrow> st_next (last ss) = Some nde) \<and> from_here r ss
     \<and> (r_arrived r \<noteq> None \<longrightarrow> (if ss = [] then nde = r_node r \<and> arrived = None
          else \<exists>a. arrived = Some a \<and> a \<le> st_left (last ss)))"
| "write_ok r d n (W_exit reason nde c ss) \<longleftrightarrow>
     linked ss \<and> along_arrows d ss \<and> steps_ok ss \<and> length ss \<le> n
     \<and> (case c of None \<Rightarrow> True | Some c' \<Rightarrow> keeps_identity (r_context r) c')
     \<and> (ss \<noteq> [] \<longrightarrow> st_next (last ss) = None) \<and> from_here r ss"
| "write_ok r d n (W_park err) \<longleftrightarrow> False"
| "write_ok r d n (W_retry err secs) \<longleftrightarrow> False"

lemma start_visit_ok: "visit_ok r d (start_visit r)"
  by (auto simp: visit_ok_def start_visit_def Let_def keeps_identity_def map_of_delete)

lemma run_square_keeps:
  assumes "run_square L X r d nd c w = (Ok patch, w')"
  shows "keeps_identity c (dmerge c (AList.delete outcome_key patch))"
proof -
  have keys: "fst ` set (AList.delete outcome_key patch) \<subseteq> fst ` set patch"
    by (auto simp: AList.delete_eq)
  have "map_of (dmerge c (AList.delete outcome_key patch)) k = map_of c k"
    if k: "k \<in> set run_keys \<or> \<not> is_bookkeeping k" for k
  proof (cases "executor L X nd")
    case None
    then show ?thesis using assms by (simp add: run_square_def)
  next
    case (Some ex)
    then have ex: "ex (r\<lparr>r_context := c\<rparr>) d w = (Ok patch, w')" using assms by (simp add: run_square_def)
    have "k \<notin> fst ` set patch"
      using square_word.writes_own [OF executor_word [OF Some] ex, of k] k
        own_keys_bookkeeping own_keys_not_run_keys by blast
    then show ?thesis using keys map_of_dmerge_other [of k "AList.delete outcome_key patch" c] by blast
  qed
  then show ?thesis by (simp add: keeps_identity_def)
qed

lemma spent_keeps: "keeps_identity c (spent nd c)"
proof -
  have "reply_key n \<notin> set run_keys" for n by (simp add: run_keys_def reply_key_def)
  then show ?thesis
    using prefix_reply [of "n_id nd"]
    by (auto simp: keeps_identity_def spent_def map_of_without_reply)
qed

lemma keeps_trans: "keeps_identity a b \<Longrightarrow> keeps_identity b c \<Longrightarrow> keeps_identity a c"
  by (simp add: keeps_identity_def)

lemma held_keeps: "keeps_identity c (v_context v) \<Longrightarrow> keeps_identity c (held_context v)"
  by (auto simp: keeps_identity_def held_context_def update_conv' split: option.splits)

text \<open>One square more: the row is linked to the last one and follows an arrow.\<close>

lemma leave_ok:
  assumes "visit_ok r d v" and "node_table d (v_node v) = Some nd"
    and "nxt = pick_next nd (outgoing d (v_node v)) c" and ss_def: "ss = leave r nd v patch c left nxt"
  shows "linked ss \<and> along_arrows d ss \<and> steps_ok ss \<and> length ss \<le> Suc (length (v_walked v))
    \<and> (ss \<noteq> [] \<longrightarrow> st_next (last ss) = nxt \<and> left \<le> st_left (last ss))
    \<and> from_here r ss \<and> (r_arrived r \<noteq> None \<longrightarrow> ss \<noteq> [])"
proof (cases "v_arrived v")
  case None
  then have "v_walked v = []" "r_arrived r = None" using assms(1) by (auto simp: visit_ok_def)
  then show ?thesis using None by (simp add: ss_def leave_def from_here_def)
next
  case (Some a)
  define s where "s = hd (step nd (Some a) left (v_by v) (square_outcome nd c (said_word patch)) nxt r
      (v_ptr v) (v_first v) (dispatch_id (AList.delete outcome_key patch) (n_id nd)))"
  have s: "st_node s = v_node v" "st_next s = nxt" "st_arrived s = a" "left \<le> st_left s"
    using node_table_Some [OF assms(2)] by (simp_all add: s_def step_def)
  have ss: "ss = v_walked v @ [s]" using Some by (simp add: ss_def leave_def s_def step_def)
  have "along_arrows d [s]"
    using pick_next_arrow [of nd "outgoing d (v_node v)" c] assms(3) s
    by (auto simp: along_arrows_def outgoing_in_edges)
  moreover have "steps_ok ss" using assms(1) by (simp add: ss_def leave_def visit_ok_def)
  moreover have "linked ss"
    using assms(1) s Some by (auto simp: ss linked_snoc visit_ok_def)
  moreover have "from_here r ss"
    using assms(1) s Some by (cases "v_walked v") (auto simp: ss visit_ok_def from_here_def)
  ultimately show ?thesis
    using assms(1) s by (auto simp: ss visit_ok_def along_arrows_def)
qed

lemma visit_loop_ok:
  assumes "visit_loop L X r d now ends k v w = (Ok wr, w')" and "visit_ok r d v"
    and "length (v_walked v) + k \<le> n"
  shows "write_ok r d n wr"
  using assms
proof (induction k arbitrary: v w)
  case (Suc k)
  obtain nd where nd: "node_table d (v_node v) = Some nd"
    using Suc.prems(1) by (auto split: option.split_asm)
  show ?case
  proof (cases "holds_until L now nd (v_context v)")
    case (Some op_t)
    then have "wr = W_advance (n_id nd) op_t (held_context v)
        (if v_first v then None else v_arrived v) (as_rows (v_walked v))"
      using Suc.prems(1) nd by simp
    moreover have "from_here r (v_walked v)" using Suc.prems(2) by (auto simp: visit_ok_def from_here_def)
    ultimately show ?thesis
      using Suc.prems(2,3) nd node_table_Some [OF nd] held_keeps by (auto simp: visit_ok_def)
  next
    case None
    obtain patch left w1 w2 where p: "run_square L X r d nd (v_context v) w = (Ok patch, w1)"
      and rest: "(let context = dmerge (v_context v) (AList.delete outcome_key patch);
                   next = pick_next nd (outgoing d (v_node v)) context;
                   walked = leave r nd v patch context left next
               in (case next of
                     None \<Rightarrow> io_return (W_exit ''completed'' (Some (v_node v)) (Some (spent nd context)) (as_rows walked))
                   | Some dst \<Rightarrow>
                     (case node_table d dst of
                        None \<Rightarrow> io_park (''edge points at unknown node '' @ dst)
                      | Some nx \<Rightarrow>
                        (if is_wait nx \<and> left < alarm L nx left ends
                         then io_return (W_advance dst (alarm L nx left ends) (spent nd context) (Some left) (as_rows walked))
                         else visit_loop L X r d now ends k
                                \<lparr>v_node = dst, v_context = spent nd context, v_ptr = None, v_by = By_walk,
                                 v_arrived = Some left, v_walked = walked, v_first = False\<rparr>)))) w2 = (Ok wr, w')"
      using Suc.prems(1) by (simp only: visit_loop.simps nd None option.case io_bind_eq_Ok) blast
    define c where "c = dmerge (v_context v) (AList.delete outcome_key patch)"
    define nxt where "nxt = pick_next nd (outgoing d (v_node v)) c"
    define walked where "walked = leave r nd v patch c left nxt"
    note after = rest [unfolded Let_def, folded c_def, folded nxt_def, folded walked_def]
    have keep: "keeps_identity (r_context r) (spent nd c)"
      using Suc.prems(2) run_square_keeps [OF p] spent_keeps [of c nd] keeps_trans
      by (metis c_def visit_ok_def)
    have lv: "linked walked \<and> along_arrows d walked \<and> steps_ok walked \<and> length walked \<le> Suc (length (v_walked v))
        \<and> (walked \<noteq> [] \<longrightarrow> st_next (last walked) = nxt \<and> left \<le> st_left (last walked))
        \<and> from_here r walked \<and> (r_arrived r \<noteq> None \<longrightarrow> walked \<noteq> [])"
      unfolding walked_def by (rule leave_ok [OF Suc.prems(2) nd]) (simp_all add: nxt_def)
    have len: "length walked + k \<le> n" using lv Suc.prems(3) by simp
    show ?thesis
    proof (cases nxt)
      case None
      then have "wr = W_exit ''completed'' (Some (v_node v)) (Some (spent nd c)) (as_rows walked)"
        using after by simp
      then show ?thesis using lv keep len None by simp
    next
      case (Some dst)
      obtain nx where nx: "node_table d dst = Some nx"
        using after Some by (auto split: option.split_asm)
      show ?thesis
      proof (cases "is_wait nx \<and> left < alarm L nx left ends")
        case True
        then have "wr = W_advance dst (alarm L nx left ends) (spent nd c) (Some left) (as_rows walked)"
          using after Some nx by simp
        then show ?thesis using lv keep len nx Some by simp
      next
        case False
        let ?v = "\<lparr>v_node = dst, v_context = spent nd c, v_ptr = None, v_by = By_walk,
            v_arrived = Some left, v_walked = walked, v_first = False\<rparr>"
        have "visit_loop L X r d now ends k ?v w2 = (Ok wr, w')"
          using after Some nx False by simp
        moreover have "visit_ok r d ?v" using lv keep Some by (simp add: visit_ok_def from_here_def)
        ultimately show ?thesis using Suc.IH len by simp
      qed
    qed
  qed
qed simp

section \<open>One visit\<close>

lemma exit_closing_run:
  "exit_closing X r d0 reason w =
     (Ok (W_exit reason None None (as_rows (closing r d0 reason (fst (x_now X w)) None))), snd (x_now X w))"
  by (simp add: exit_closing_def now_io_def io_bind_def split: prod.splits)

lemma closing_write_ok: "write_ok r d 1 (W_exit reason None None (as_rows (closing r d0 reason t None)))"
proof -
  have ok: "steps_ok (closing r d0 reason t None)" by simp
  consider "closing r d0 reason t None = []" | x where "closing r d0 reason t None = [x]"
      "st_node x = r_node r" "r_arrived r = Some (st_arrived x)" "st_next x = None"
    using closing_shape [of r d0 reason t None] by blast
  then show ?thesis
  proof cases
    case 2
    have "linked [x]" "along_arrows d [x]" "steps_ok [x]" "from_here r [x]"
      using 2 ok by (simp_all add: linked_def along_arrows_def from_here_def)
    moreover have "st_next (last (as_rows [x])) = None" using 2 by (simp add: as_rows_def)
    ultimately show ?thesis using 2(1) by simp
  qed (simp add: from_here_def)
qed

lemma closing_length: "length (as_rows (closing r d0 reason t None)) \<le> 1"
  using closing_shape [of r d0 reason t None] by auto

lemma write_ok_mono: "write_ok r d m wr \<Longrightarrow> m \<le> n \<Longrightarrow> write_ok r d n wr"
  by (cases wr) auto

lemma judge_goals_reason:
  "judge_goals L X r gs w = (Ok (Some reason), w') \<Longrightarrow> reason \<in> g_exit_reason ` set gs"
  by (induction gs arbitrary: w) (auto simp: io_bind_eq_Ok split: if_split_asm)

lemma advance_visit_cases:
  assumes "advance_visit L X r d w = (Ok wr, w')"
  shows "(\<exists>reason t. wr = W_exit reason None None (as_rows (closing r (Some d) reason t None)))
    \<or> (\<exists>t e w1. visit_loop L X r d t e max_steps_per_visit (start_visit r) w1 = (Ok wr, w'))"
proof -
  obtain now w1 where n: "now_io X w = (Ok now, w1)"
    by (cases "x_now X w") (simp add: now_io_def)
  show ?thesis
  proof (cases "td_days (x_max_age_days (d_exits d)) < now - r_entered r")
    case True
    then have "exit_closing X r (Some d) ''timed_out'' w1 = (Ok wr, w')"
      using assms n by (simp add: advance_visit_def Let_def)
    then show ?thesis by (auto simp: exit_closing_run)
  next
    case False
    then obtain hit w2 where h: "judge_goals L X r (goal_tiers d None) w1 = (Ok hit, w2)"
        and rest: "(case hit of Some reason \<Rightarrow> exit_closing X r (Some d) reason
           | None \<Rightarrow> visit_loop L X r d now (r_entered r + td_days (x_max_age_days (d_exits d)))
                       max_steps_per_visit (start_visit r)) w2 = (Ok wr, w')"
      using assms n by (auto simp: advance_visit_def Let_def io_bind_eq_Ok)
    show ?thesis
    proof (cases hit)
      case None
      then show ?thesis using rest by auto
    next
      case (Some reason)
      then show ?thesis using rest by (auto simp: exit_closing_run)
    qed
  qed
qed

lemma advance_visit_ok:
  assumes "advance_visit L X r d w = (Ok wr, w')"
  shows "write_ok r d max_steps_per_visit wr"
  using advance_visit_cases [OF assms]
proof (elim disjE exE)
  fix reason t assume "wr = W_exit reason None None (as_rows (closing r (Some d) reason t None))"
  then show ?thesis
    using closing_write_ok [of r d reason "Some d" t] by (simp add: write_ok_mono max_steps_per_visit_def)
next
  fix t e w1 assume v: "visit_loop L X r d t e max_steps_per_visit (start_visit r) w1 = (Ok wr, w')"
  show ?thesis by (rule visit_loop_ok [OF v start_visit_ok]) (simp add: start_visit_def Let_def)
qed

text \<open>
  C4 What a visit writes is a walk of the board: the buffered rows follow arrows of the document,
  each one starts on the square the one before it led to, the first on the square the token stood
  on; a move ends on a square of the document, where the last row led, and an exit ends the walk;
  there are at most ten rows, none ends before it begins, and the context that is written keeps
  every producer's fact and every letter of the run.
\<close>

theorem visit_writes_a_walk:
  assumes "advance_visit L X r d w = (Ok wr, w')"
  shows "case wr of
      W_advance nde wake c arrived ss \<Rightarrow>
        linked ss \<and> along_arrows d ss \<and> steps_ok ss \<and> length ss \<le> 10 \<and> from_here r ss
        \<and> keeps_identity (r_context r) c \<and> node_table d nde \<noteq> None
        \<and> (ss \<noteq> [] \<longrightarrow> st_next (last ss) = Some nde)
    | W_exit reason nde c ss \<Rightarrow>
        linked ss \<and> along_arrows d ss \<and> steps_ok ss \<and> length ss \<le> 10 \<and> from_here r ss
        \<and> (case c of None \<Rightarrow> True | Some c' \<Rightarrow> keeps_identity (r_context r) c')
        \<and> (ss \<noteq> [] \<longrightarrow> st_next (last ss) = None)
    | W_park err \<Rightarrow> False
    | W_retry err secs \<Rightarrow> False"
proof -
  have "write_ok r d 10 wr" using advance_visit_ok [OF assms] by (simp add: max_steps_per_visit_def)
  then show ?thesis by (cases wr) auto
qed

text \<open>
  Too old comes first: a run past the plan's maximum age leaves as \<open>timed_out\<close>, on whatever
  square it stands and whatever its goals, and nothing but the clock is consulted -- no square
  acts, no message, call or action leaves.
\<close>

theorem too_old_exits_before_anything:
  assumes "x_now X w = (now, w1)" and "td_days (x_max_age_days (d_exits d)) < now - r_entered r"
  shows "\<exists>rows. advance_visit L X r d w = (Ok (W_exit ''timed_out'' None None rows), snd (x_now X w1))
    \<and> length rows \<le> 1"
proof -
  have "now_io X w = (Ok now, w1)" using assms(1) by (simp add: now_io_def)
  then have "advance_visit L X r d w = exit_closing X r (Some d) ''timed_out'' w1"
    using assms(2) by (simp add: advance_visit_def Let_def)
  then show ?thesis using closing_length by (auto simp: exit_closing_run)
qed

text \<open>
  A goal that is met ends the run before any square acts: the first tier, keyed ones before
  the others, that an event answers gives the reason, and after the reads of the event store only
  the clock is consulted.
\<close>

theorem goal_exits_before_the_board:
  assumes "x_now X w = (now, w1)" and "\<not> td_days (x_max_age_days (d_exits d)) < now - r_entered r"
    and "judge_goals L X r (goal_tiers d None) w1 = (Ok (Some reason), w2)"
  shows "(\<exists>rows. advance_visit L X r d w = (Ok (W_exit reason None None rows), snd (x_now X w2)) \<and> length rows \<le> 1)
    \<and> reason \<in> g_exit_reason ` set (d_goals d)"
proof
  have "now_io X w = (Ok now, w1)" using assms(1) by (simp add: now_io_def)
  then have "advance_visit L X r d w = exit_closing X r (Some d) reason w2"
    using assms(2,3) by (simp add: advance_visit_def Let_def)
  then show "\<exists>rows. advance_visit L X r d w = (Ok (W_exit reason None None rows), snd (x_now X w2))
      \<and> length rows \<le> 1"
    using closing_length by (auto simp: exit_closing_run)
  show "reason \<in> g_exit_reason ` set (d_goals d)"
    using judge_goals_reason [OF assms(3)] goal_tiers_set [of d] by simp
qed

section \<open>Retries and stale visits\<close>

text \<open>
  The wait before a retry is at least a second and at most an hour and twelve minutes,
  whatever the number of attempts, and within a fifth of the exponential ladder where the ladder
  is below its cap.
\<close>

theorem retry_delay_bounds:
  assumes "4 / 5 \<le> u" and "u \<le> 6 / 5"
  shows "1 \<le> retry_delay_seconds attempts base u \<and> retry_delay_seconds attempts base u \<le> 4320"
proof -
  let ?delay = "min (int base * 2 ^ (attempts - 1)) retry_cap_seconds"
  have "?delay \<le> 3600" by (simp add: retry_cap_seconds_def)
  moreover have "0 \<le> ?delay" by (simp add: retry_cap_seconds_def)
  ultimately have "(of_int ?delay :: rat) \<le> 3600" "(0 :: rat) \<le> of_int ?delay"
    by (metis of_int_le_iff of_int_numeral, simp only: of_int_0_le_iff)
  then have "of_int ?delay * u \<le> (3600 * (6 / 5) :: rat)"
    using assms by (intro mult_mono) linarith+
  then have "py_round (of_int ?delay * u) \<le> 4320" by (intro py_round_le) simp
  then show ?thesis by (simp add: retry_delay_seconds_def Let_def)
qed

lemma retry_delay_bounds_witness: "(4 / 5 :: rat) \<le> 1 \<and> 1 \<le> retry_delay_seconds 3 300 1"
  using retry_delay_bounds [of 1 3 300] by simp

text \<open>
  A visit whose run moved under it changes nothing: whatever write it ends in, under a lease
  the row no longer carries the statement matches no row, and the store, trail included, is the
  same store.
\<close>

theorem stale_visit_changes_nothing:
  assumes "lease_stale i lease s"
  shows "perform now i lease wr s = (False, s)"
  by (cases wr) (simp_all add: stale_walker_writes [OF assms])

lemma stale_visit_changes_nothing_witness:
  "lease_stale ''r1'' 7 sample_store
   \<and> perform 9 ''r1'' 7 (W_park ''late'') sample_store = (False, sample_store)"
proof -
  have l: "lease_stale ''r1'' 7 sample_store"
    by (simp add: lease_stale_def sample_store_def sample_run_def)
  show ?thesis using l stale_visit_changes_nothing [OF l] by blast
qed

section \<open>A visit on a small board\<close>

definition board_wait :: node where
  "board_wait = (blank_node ''x'' Wait)\<lparr>n_minutes := Some 60\<rparr>"

definition board_plan :: workflow_definition where
  "board_plan = sample_plan\<lparr>d_nodes := [half_split, board_wait], d_playbook := None,
     d_edges := [(''s'', ''x'', Some ''a''), (''s'', ''x'', Some ''b'')],
     d_goals := [\<lparr>g_topics = [''paid''], g_key = None, g_where = [], g_exit_reason = ''goal_met''\<rparr>]\<rparr>"

definition board_run :: run where
  "board_run = sample_run\<lparr>r_node := ''s''\<rparr>"

lemma board_visit:
  "advance_visit india_lib quiet_ext board_run board_plan () =
     (Ok (W_advance ''x'' 3600000000
        [(''phone'', JStr ''1''), (''cart'', JInt 1), (''split_s'', JStr ''a'')] (Some 0)
        [\<lparr>st_node = ''s'', st_type = Split, st_arrived = 0, st_left = 0, st_by = By_door,
          st_outcome = Some ''a'', st_next = Some ''x'', st_attempts = 1, st_error = None,
          st_dispatch = None, st_cut = None\<rparr>]), ())"
  by code_simp

lemma visit_writes_a_walk_witness:
  "\<exists>wr. advance_visit india_lib quiet_ext board_run board_plan () = (Ok wr, ())
     \<and> (case wr of W_advance nde wake c arrived ss \<Rightarrow> linked ss \<and> along_arrows board_plan ss \<and> nde = ''x''
         | _ \<Rightarrow> False)"
  using board_visit visit_writes_a_walk [OF board_visit] by simp

lemma too_old_exits_before_anything_witness:
  "\<exists>rows. advance_visit india_lib (quiet_ext\<lparr>x_now := (\<lambda>w. (8 * day_us, w))\<rparr>) board_run board_plan ()
     = (Ok (W_exit ''timed_out'' None None rows), ()) \<and> length rows \<le> 1"
proof -
  let ?X = "quiet_ext\<lparr>x_now := (\<lambda>w. (8 * day_us, w))\<rparr>"
  have n: "x_now ?X () = (8 * day_us, ())" by simp
  have old: "td_days (x_max_age_days (d_exits board_plan)) < 8 * day_us - r_entered board_run"
    by (simp add: board_plan_def sample_plan_def board_run_def sample_run_def td_days_def day_us_def)
  show ?thesis using too_old_exits_before_anything [OF n old, of india_lib] by simp
qed

lemma goal_exits_before_the_board_witness:
  "\<exists>rows. advance_visit india_lib (quiet_ext\<lparr>x_has_event := (\<lambda>m c t s k. io_return True)\<rparr>) board_run board_plan ()
     = (Ok (W_exit ''goal_met'' None None rows), ()) \<and> length rows \<le> 1"
proof -
  let ?X = "quiet_ext\<lparr>x_has_event := (\<lambda>m c t s k. io_return True)\<rparr>"
  have n: "x_now ?X () = (0, ())" by (simp add: quiet_ext_def)
  have young: "\<not> td_days (x_max_age_days (d_exits board_plan)) < 0 - r_entered board_run"
    by (simp add: board_plan_def sample_plan_def board_run_def sample_run_def td_days_def day_us_def)
  have g: "judge_goals india_lib ?X board_run (goal_tiers board_plan None) () = (Ok (Some ''goal_met''), ())"
    by (simp add: board_plan_def goal_tiers_def Let_def tier_skipped_def tier_hit_def)
  show ?thesis using goal_exits_before_the_board [OF n young g] by simp
qed

section \<open>The history of a run is one walk\<close>

text \<open>
  The trail of a run is linked, and while the run is open its last row leads to the square the
  run stands on, which it reached no later than that row ended.
\<close>

definition connected_trail :: "string \<Rightarrow> store \<Rightarrow> bool" where
  "connected_trail i s \<longleftrightarrow> linked (trail_of i s)
     \<and> (\<forall>row\<in>set (s_rows s). r_id row = i \<longrightarrow> is_open row \<longrightarrow> trail_of i s \<noteq> [] \<longrightarrow>
          st_next (last (trail_of i s)) = Some (r_node row)
          \<and> (\<exists>a. r_arrived row = Some a \<and> a \<le> st_left (last (trail_of i s))))"

lemma hits_single:
  assumes "rows_ok (s_rows s)" and "row \<in> set (s_rows s)" and "P row"
    and "\<And>x. P x \<Longrightarrow> r_id x = r_id row"
  shows "hits P s = [row]"
proof -
  have d: "distinct (s_rows s)" using assms(1) by (auto simp: rows_ok_def distinct_map)
  have "P x \<longleftrightarrow> x = row" if "x \<in> set (s_rows s)" for x
    using that assms same_id_same_row [OF assms(1) that assms(2)] by blast
  then have "hits P s = filter (\<lambda>x. x = row) (s_rows s)" by (auto simp: hits_def intro: filter_cong)
  also have "\<dots> = [row]" by (rule filter_eq_single [OF d assms(2)])
  finally show ?thesis .
qed

lemma linked_append:
  "linked (xs @ ys) \<longleftrightarrow> linked xs \<and> linked ys
     \<and> (xs \<noteq> [] \<longrightarrow> ys \<noteq> [] \<longrightarrow> st_next (last xs) = Some (st_node (hd ys)) \<and> st_arrived (hd ys) \<le> st_left (last xs))"
  by (auto simp: linked_def successively_append_iff)

lemma linked_trail_rows [simp]: "linked (map (trail_row_of m) ss) = linked ss"
  by (simp add: linked_def successively_map)

text \<open>What a move that hits the row does to its history.\<close>

lemma move_single:
  assumes "rows_ok (s_rows s)" and "row \<in> set (s_rows s)" and "P row"
    and "\<And>x. P x \<Longrightarrow> r_id x = r_id row"
  shows "trail_of (r_id row) (snd (move P f (\<lambda>m x. True) ss s))
      = trail_of (r_id row) s @ map (trail_row_of row) ss"
proof -
  have "filter (\<lambda>t. tr_run t = r_id row) (map (trail_row_of row) ss) = map (trail_row_of row) ss"
    by (simp add: filter_id_conv)
  moreover have "hits P s = [row]" by (rule hits_single [where P = P, OF assms(1,2,3)]) (rule assms(4))
  ultimately show ?thesis by (simp add: trail_of_move flush_arm_def)
qed

lemma move_single_rows:
  assumes "rows_ok (s_rows s)" and "row \<in> set (s_rows s)" and "P row"
    and "\<And>x. r_id (f x) = r_id x"
    and "x \<in> set (s_rows (snd (move P f ok ss s)))" and "r_id x = r_id row"
  shows "x = f row"
proof -
  obtain y where y: "y \<in> set (s_rows s)" "x = (if P y then f y else y)"
    using assms(5) by (auto simp: move_rows rewrite_rows)
  then have "r_id y = r_id row" using assms(4,6) by (auto split: if_splits)
  then show ?thesis using same_id_same_row [OF assms(1) y(1) assms(2)] y(2) assms(3) by simp
qed

lemma extend_walk:
  assumes "linked t" and "linked ss" and "from_here r ss" and "r_arrived r \<noteq> None"
    and "t \<noteq> [] \<Longrightarrow> st_next (last t) = Some (r_node r) \<and> (\<exists>a. r_arrived r = Some a \<and> a \<le> st_left (last t))"
  shows "linked (t @ map (trail_row_of m) ss)"
proof (cases ss)
  case (Cons x xs)
  have "linked (map (trail_row_of m) ss)" using assms(2) by simp
  then show ?thesis using assms Cons by (auto simp: linked_append from_here_def simp del: linked_trail_rows)
qed (simp add: assms(1))



end
