(* ===== verification/Plan_Laws.thy ===== *)
theory Plan_Laws
  imports Plans Walker_Laws
begin

text \<open>
  What the publish laws buy at run time.  The search for a call is sound and complete for the
  squares a run passes at once; a letter that reaches a windowed square outside its hours dials
  nobody in that visit; a run of a published plan is never stranded, in its own version or under
  the one it is migrated to.
\<close>

section \<open>The search for a call\<close>

text \<open>The squares a run passes within one visit: from one that acts at once, along its arrows.\<close>

definition instant :: "workflow_definition \<Rightarrow> string \<Rightarrow> bool" where
  "instant d x \<longleftrightarrow> (case node_table d x of None \<Rightarrow> False | Some n \<Rightarrow> \<not> is_wait n \<and> n_type n \<noteq> Call)"

definition calls :: "workflow_definition \<Rightarrow> string \<Rightarrow> bool" where
  "calls d x \<longleftrightarrow> (case node_table d x of None \<Rightarrow> False | Some n \<Rightarrow> n_type n = Call)"

definition next_of :: "workflow_definition \<Rightarrow> string \<Rightarrow> string list" where
  "next_of d x = map fst (outgoing d x)"

inductive at_once :: "workflow_definition \<Rightarrow> string \<Rightarrow> string \<Rightarrow> bool" for d where
  here: "at_once d x x"
| pass: "instant d x \<Longrightarrow> y \<in> set (next_of d x) \<Longrightarrow> at_once d y z \<Longrightarrow> at_once d x z"

inductive_cases at_onceE: "at_once d x z"

lemma call_not_wait: "n_type n = Call \<Longrightarrow> \<not> is_wait n"
  by (simp add: is_wait_def)

lemma call_search_sound:
  "call_search d queue seen = Some c \<Longrightarrow> \<exists>x\<in>set queue. at_once d x c \<and> calls d c"
proof (induction d queue seen rule: call_search.induct)
  case (2 d x queue seen)
  show ?case
  proof (cases "node_table d x")
    case None
    then show ?thesis using 2 by auto
  next
    case (Some n)
    consider "x \<in> set seen \<or> is_wait n" | "\<not> (x \<in> set seen \<or> is_wait n)" "n_type n = Call"
      | "\<not> (x \<in> set seen \<or> is_wait n)" "n_type n \<noteq> Call" by blast
    then show ?thesis
    proof cases
      case 1
      then show ?thesis using 2 Some by auto
    next
      case c: 2
      then show ?thesis using 2 Some by (auto simp: calls_def intro: here)
    next
      case 3
      then have "call_search d (queue @ map fst (outgoing d x)) (x # seen) = Some c"
        using 2 Some by simp
      then obtain y where y: "y \<in> set (queue @ next_of d x)" "at_once d y c" "calls d c"
        using 2(3) [OF Some 3] by (auto simp: next_of_def)
      have "instant d x" using 3 Some by (simp add: instant_def)
      then show ?thesis using y by (auto intro: pass)
    qed
  qed
qed simp

text \<open>When the search ends with nothing, what it passed is closed and holds no call.\<close>

definition stops :: "workflow_definition \<Rightarrow> string \<Rightarrow> bool" where
  "stops d x \<longleftrightarrow> \<not> instant d x \<and> \<not> calls d x"

lemma call_search_none:
  "call_search d queue seen = None \<Longrightarrow>
     \<forall>x\<in>set seen. instant d x \<and> (\<forall>y\<in>set (next_of d x). y \<in> set seen \<or> y \<in> set queue \<or> stops d y) \<Longrightarrow>
     \<exists>S. set seen \<subseteq> S \<and> (\<forall>x\<in>set queue. x \<in> S \<or> stops d x)
       \<and> (\<forall>x\<in>S. instant d x \<and> (\<forall>y\<in>set (next_of d x). y \<in> S \<or> stops d y))"
proof (induction d queue seen rule: call_search.induct)
  case (1 d seen)
  then show ?case by (intro exI [of _ "set seen"]) auto
next
  case (2 d x queue seen)
  show ?case
  proof (cases "node_table d x")
    case None
    then have "stops d x" by (simp add: stops_def instant_def calls_def)
    then show ?thesis using 2 None by auto
  next
    case (Some n)
    show ?thesis
    proof (cases "x \<in> set seen \<or> is_wait n")
      case True
      then have "x \<in> set seen \<or> stops d x"
        using Some call_not_wait [of n] by (auto simp: stops_def instant_def calls_def)
      moreover have "call_search d queue seen = None" using 2(4) Some True by simp
      then have "\<exists>S. set seen \<subseteq> S \<and> (\<forall>x\<in>set queue. x \<in> S \<or> stops d x)
         \<and> (\<forall>x\<in>S. instant d x \<and> (\<forall>y\<in>set (next_of d x). y \<in> S \<or> stops d y))"
        using 2(2) [OF Some True] 2(5) \<open>x \<in> set seen \<or> stops d x\<close> by auto
      ultimately show ?thesis by auto
    next
      case False
      then have nc: "n_type n \<noteq> Call" using 2(4) Some by auto
      have i: "instant d x" using False nc Some by (simp add: instant_def)
      have "call_search d (queue @ map fst (outgoing d x)) (x # seen) = None"
        using 2(4) Some False nc by simp
      moreover have "\<forall>z\<in>set (x # seen). instant d z \<and> (\<forall>y\<in>set (next_of d z).
          y \<in> set (x # seen) \<or> y \<in> set (queue @ map fst (outgoing d x)) \<or> stops d y)"
        using 2(5) i by (auto simp: next_of_def)
      ultimately obtain S where "set (x # seen) \<subseteq> S"
          "\<forall>z\<in>set (queue @ map fst (outgoing d x)). z \<in> S \<or> stops d z"
          "\<forall>z\<in>S. instant d z \<and> (\<forall>y\<in>set (next_of d z). y \<in> S \<or> stops d y)"
        using 2(3) [OF Some False nc] by blast
      then show ?thesis by (intro exI [of _ S]) auto
    qed
  qed
qed

lemma closed_without_call:
  assumes "at_once d x z" and "x \<in> S \<or> stops d x"
    and closure: "\<forall>x\<in>S. instant d x \<and> (\<forall>y\<in>set (next_of d x). y \<in> S \<or> stops d y)"
  shows "\<not> calls d z"
  using assms(1,2)
proof (induction rule: at_once.induct)
  case (here x)
  then show ?case using closure by (auto simp: stops_def instant_def calls_def split: option.splits)
next
  case (pass x y z)
  then show ?case using closure by (auto simp: stops_def)
qed

text \<open>
  The search of the window's law is exact: it finds a call precisely when a run that arrives
  on the square reaches one through squares that act at once, and what it names is such a call.
  It ends on every document, cycles included.
\<close>

theorem call_search_exact:
  "(call_reached d s = None) = (\<not> (\<exists>c. at_once d s c \<and> calls d c))
   \<and> (case call_reached d s of None \<Rightarrow> True | Some c \<Rightarrow> at_once d s c \<and> calls d c)"
proof (cases "call_reached d s")
  case None
  then obtain S where S: "s \<in> S \<or> stops d s"
      "\<forall>x\<in>S. instant d x \<and> (\<forall>y\<in>set (next_of d x). y \<in> S \<or> stops d y)"
    using call_search_none [of d "[s]" "[]"] by (auto simp: call_reached_def)
  then have "\<not> calls d c" if "at_once d s c" for c
    using closed_without_call [OF that] by blast
  then show ?thesis using None by auto
next
  case (Some c)
  then have "at_once d s c \<and> calls d c"
    using call_search_sound [of d "[s]" "[]" c] by (simp add: call_reached_def)
  then show ?thesis using Some by auto
qed

section \<open>A letter outside the hours\<close>

text \<open>The outside world with another lead store.\<close>

definition redial :: "(lead \<Rightarrow> 'w \<Rightarrow> made \<times> 'w) \<Rightarrow> 'w ext \<Rightarrow> 'w ext" where
  "redial f X = X\<lparr>x_create_lead := f\<rparr>"

lemma redial_same [simp]:
  "x_now (redial f X) = x_now X" "x_customer (redial f X) = x_customer X"
  "x_builtins (redial f X) = x_builtins X" "x_params (redial f X) = x_params X"
  "x_builtin (redial f X) = x_builtin X" "x_queue (redial f X) = x_queue X"
  "x_perform (redial f X) = x_perform X"
  "x_has_event (redial f X) = x_has_event X" "x_latest_event (redial f X) = x_latest_event X"
  by (simp_all add: redial_def)

lemma redial_now [simp]: "now_io (redial f X) = now_io X"
  by (simp add: now_io_def)

lemma redial_builtins [simp]: "run_builtins (redial f X) ps fns v w = run_builtins X ps fns v w"
proof -
  have [simp]: "accepted (redial f X) = accepted X" by (simp add: fun_eq_iff accepted_def)
  show ?thesis by (induction fns arbitrary: v w) (auto split: option.splits prod.splits)
qed

lemma redial_fill [simp]: "fill_line (redial f X) = fill_line X"
proof -
  have [simp]: "answer_hole (redial f X) = answer_hole X"
    by (simp add: fun_eq_iff answer_hole_def Let_def split: option.splits)
  show ?thesis by (intro ext) (simp add: fill_line_def)
qed

lemma redial_render [simp]: "render_say (redial f X) = render_say X"
  by (intro ext) (simp add: render_say_def cong: option.case_cong)

lemma redial_resolve [simp]:
  "resolve_blocks L (redial f X) pb lk facts names acc = resolve_blocks L X pb lk facts names acc"
  by (induction L X pb lk facts names acc rule: resolve_blocks.induct)
    (simp_all add: Let_def split: option.splits)

lemma redial_blocks [simp]: "blocks_for L (redial f X) = blocks_for L X"
proof -
  have r: "resolve L (redial f X) = resolve L X"
    by (intro ext) (unfold resolve_def redial_resolve, rule refl)
  show ?thesis by (intro ext) (unfold blocks_for_def r redial_now redial_same, rule refl)
qed

lemma redial_queue [simp]: "queue_send (redial f X) = queue_send X"
  by (simp add: fun_eq_iff queue_send_def)

lemma redial_perform [simp]: "perform_step (redial f X) = perform_step X"
  by (simp add: fun_eq_iff perform_step_def)

lemma redial_words:
  "execute_send L (redial f X) r nd d = execute_send L X r nd d"
  "execute_action L (redial f X) r nd d = execute_action L X r nd d"
  "execute_condition L (redial f X) r nd d = execute_condition L X r nd d"
  "execute_split L (redial f X) r nd d = execute_split L X r nd d"
  unfolding execute_send_def execute_action_def execute_condition_def execute_split_def
    redial_blocks redial_queue redial_perform redial_now redial_same
  by (rule refl)+

lemma run_square_no_call:
  "n_type nd \<noteq> Call \<Longrightarrow> run_square L (redial f X) r d nd c = run_square L X r d nd c"
  by (cases "n_type nd") (simp_all add: run_square_def executor_def redial_words)

text \<open>Every wait keeps a run for a minute at least, or listens for its life.\<close>

definition patient :: "workflow_definition \<Rightarrow> bool" where
  "patient d \<longleftrightarrow> list_all (\<lambda>n. is_wait n \<longrightarrow>
     (case n_minutes n of None \<Rightarrow> n_topics n \<noteq> [] | Some m \<Rightarrow> 1 \<le> m)
     \<and> (case n_window n of None \<Rightarrow> True | Some w \<Rightarrow> window_ok w)) (d_nodes d)"

lemma alarm_later:
  assumes "zones_fixed L" and "patient d" and nd: "node_table d x = Some nd" and "is_wait nd"
  shows "t < alarm L nd t ends"
proof -
  have p: "(case n_minutes nd of None \<Rightarrow> n_topics nd \<noteq> [] | Some m \<Rightarrow> 1 \<le> m)"
      "(case n_window nd of None \<Rightarrow> True | Some w \<Rightarrow> window_ok w)"
    using assms node_table_Some [OF nd] by (auto simp: patient_def list_all_iff)
  have open_at: "n_window nd = Some w \<Longrightarrow> u \<le> opens_at (zone_of L (w_timezone w)) u w" for w u
    using opens_at_ge [OF assms(1), of w u] p(2) by simp
  have td: "0 < td_minutes (m + of_nat k)" if "1 \<le> m" for m :: rat and k
  proof -
    have "1 \<le> m + of_nat k" using that by (simp add: add_increasing2)
    then have "60000000 \<le> py_round ((m + of_nat k) * 60000000)"
      by (intro py_round_ge) simp
    then show ?thesis by (simp add: td_minutes_def minute_us_def)
  qed
  show ?thesis
  proof (cases "n_minutes nd")
    case (Some m)
    then have "1 \<le> m" using p(1) by simp
    then show ?thesis
      using Some td [of m] td [of m 0] less_le_trans [OF _ open_at]
      by (auto simp: alarm_def Let_def split: option.splits)
  next
    case None
    then have "n_topics nd \<noteq> []" using p(1) by simp
    moreover have "t < max ends t + past_the_end" by (simp add: past_the_end_def minute_us_def)
    ultimately show ?thesis
      using None less_le_trans [OF _ open_at]
      by (auto simp: alarm_def Let_def split: option.splits)
  qed
qed

lemma io_bind_cong: "(\<And>x w'. f x w' = g x w') \<Longrightarrow> io_bind m f w = io_bind m g w"
  by (simp add: io_bind_def split: prod.splits outcome.splits)

text \<open>From a square without a call ahead the loop never asks for a lead.\<close>

lemma loop_dials_nobody:
  assumes z: "zones_fixed L" and p: "patient d"
  shows "\<not> (\<exists>c. at_once d (v_node v) c \<and> calls d c) \<Longrightarrow> instant d (v_node v) \<Longrightarrow>
     visit_loop L (redial f X) r d now ends k v w = visit_loop L X r d now ends k v w"
proof (induction k arbitrary: v w)
  case (Suc k)
  obtain nd where nd: "node_table d (v_node v) = Some nd" and i: "\<not> is_wait nd" "n_type nd \<noteq> Call"
    using Suc.prems(2) by (auto simp: instant_def split: option.splits)
  have step: "visit_loop L (redial f X) r d now ends k
      \<lparr>v_node = dst, v_context = c, v_ptr = None, v_by = By_walk, v_arrived = a, v_walked = ws, v_first = False\<rparr> w'
    = visit_loop L X r d now ends k
      \<lparr>v_node = dst, v_context = c, v_ptr = None, v_by = By_walk, v_arrived = a, v_walked = ws, v_first = False\<rparr> w'"
    if nxt: "pick_next nd (outgoing d (v_node v)) c' = Some dst" and nx: "node_table d dst = Some nx"
      and nw: "\<not> is_wait nx" for dst c c' a ws w' nx
  proof -
    have arrow: "dst \<in> set (next_of d (v_node v))"
      using pick_next_arrow [OF nxt] by (force simp: next_of_def)
    have no: "\<not> (\<exists>c. at_once d dst c \<and> calls d c)"
      using Suc.prems arrow pass by blast
    then have "n_type nx \<noteq> Call" using nx here [of d dst] by (auto simp: calls_def)
    then show ?thesis using Suc.IH no nx nw by (simp add: instant_def)
  qed
  have later: "is_wait nx \<Longrightarrow> node_table d dst = Some nx \<Longrightarrow> left < alarm L nx left ends" for nx dst left
    using alarm_later [OF z p] by blast
  show ?case
  proof (cases "holds_until L now nd (v_context v)")
    case None
    show ?thesis
      unfolding visit_loop.simps nd option.case None run_square_no_call [OF i(2)] redial_now
      by (rule io_bind_cong, rule io_bind_cong) (auto simp: Let_def later dest: step split: option.splits)
  qed (simp add: nd)
qed simp

lemma redial_goals [simp]: "judge_goals L (redial f X) r gs = judge_goals L X r gs"
  by (induction gs) (simp_all add: tier_hit_def cong: if_cong)

lemma redial_closing [simp]: "exit_closing (redial f X) r d reason = exit_closing X r d reason"
  by (simp add: exit_closing_def)

lemma concat_map_Nil: "concat (map f xs) = [] \<Longrightarrow> x \<in> set xs \<Longrightarrow> f x = []"
  by (induction xs) auto

lemma letter_paths_none:
  assumes laws: "letter_paths_onto_a_call d = []" and n: "n \<in> set (d_nodes d)" "n_window n \<noteq> None"
    and arrow: "(dst, on) \<in> set (outgoing d (n_id n))" "on \<noteq> Some timeout_word" and "branches n"
  shows "call_reached d dst = None"
proof (rule ccontr)
  assume "call_reached d dst \<noteq> None"
  then obtain c where c: "call_reached d dst = Some c" by auto
  let ?f = "\<lambda>(dst, on). if on = Some timeout_word \<or> \<not> branches n then []
       else case call_reached d dst of None \<Rightarrow> []
            | Some c \<Rightarrow> [Letter_reaches_call (n_id n) (case on of None \<Rightarrow> ''None'' | Some l \<Rightarrow> l) c]"
  have "concat (map ?f (outgoing d (n_id n))) = []"
    using concat_map_Nil [OF laws [unfolded letter_paths_onto_a_call_def] n(1)] n(2) by simp
  from concat_map_Nil [OF this arrow(1)] have "?f (dst, on) = []" .
  then show False using c arrow(2) \<open>branches n\<close> by simp
qed

lemma arrow_to_label: "arrow_to (JStr l) arrows = Some dst \<Longrightarrow> (dst, Some l) \<in> set arrows"
  using find_Some_set [of _ arrows] by (fastforce simp: arrow_to_def split: option.splits)

lemma letter_arrow:
  assumes "listens nd" and "dget c (reply_key (n_id nd)) = JStr a" and "a \<noteq> timeout_word"
    and "pick_next nd arrows c = Some dst"
  shows "\<exists>on. (dst, on) \<in> set arrows \<and> on \<noteq> Some timeout_word"
proof -
  have b: "branches nd" using assms(1) by (simp add: branches_def)
  have e: "else_word \<noteq> timeout_word" by (simp add: else_word_def timeout_word_def)
  show ?thesis
    using assms b e by (auto simp: pick_next_def Let_def split: option.splits dest!: arrow_to_label)
qed


definition night_wait :: node where
  "night_wait = (blank_node ''w'' Wait)\<lparr>n_topics := [''replied''], n_key := Some ''answer'',
     n_minutes := Some 60, n_window := Some india_window\<rparr>"

definition night_plan :: workflow_definition where
  "night_plan = sample_plan\<lparr>d_nodes := [night_wait, sample_call, board_wait], d_playbook := None,
     d_edges := [(''w'', ''call1'', Some ''timeout''), (''w'', ''x'', Some ''YES'')]\<rparr>"

definition night_run :: "string \<Rightarrow> run" where
  "night_run a = sample_run\<lparr>r_node := ''w'', r_context := [(''phone'', JStr ''1''), (reply_key ''w'', JStr a)]\<rparr>"

definition no_dial :: "lead \<Rightarrow> unit \<Rightarrow> made \<times> unit" where
  "no_dial l w = (Lead_broken ''down'', w)"

lemma night_plan_ok:
  "letter_paths_onto_a_call night_plan = [] \<and> patient night_plan
   \<and> \<not> in_hours (zone_of india_lib ''Asia/Kolkata'') india_window 0"
  by code_simp


text \<open>
  The walker's own word is not kept out of a customer's mouth: on a published plan a reply
  whose text is \<open>timeout\<close> takes the timer's arrow at once, at half past five in the morning, and
  the visit asks for a call that the window was there to hold.
\<close>

theorem reply_timeout_dials_at_night:
  "letter_paths_onto_a_call night_plan = []
   \<and> \<not> in_hours (zone_of india_lib ''Asia/Kolkata'') india_window (fst (x_now dial_ext ()))
   \<and> dget (r_context (night_run ''timeout'')) (reply_key ''w'') = JStr ''timeout''
   \<and> advance_visit india_lib (redial no_dial dial_ext) (night_run ''timeout'') night_plan ()
       \<noteq> advance_visit india_lib dial_ext (night_run ''timeout'') night_plan ()"
proof -
  have "advance_visit india_lib (redial no_dial dial_ext) (night_run ''timeout'') night_plan ()
      = (Fail ''down'', ())" by code_simp
  moreover have "case advance_visit india_lib dial_ext (night_run ''timeout'') night_plan () of
      (Ok wr, _) \<Rightarrow> True | _ \<Rightarrow> False" by code_simp
  moreover have "fst (x_now dial_ext ()) = 0" by (simp add: dial_ext_def quiet_ext_def)
  moreover have "dget (r_context (night_run ''timeout'')) (reply_key ''w'') = JStr ''timeout''"
    by code_simp
  ultimately show ?thesis using night_plan_ok by (auto split: prod.splits outcome.splits)
qed

section \<open>No run is stranded\<close>

definition runaway :: string where
  "runaway = ''10 immediate nodes in one visit - runaway document''"

text \<open>A computation that ends in a value or in the runaway park.\<close>

definition lands :: "('w, 'a) io \<Rightarrow> bool" where
  "lands m \<longleftrightarrow> (\<forall>w. case m w of (Ok x, w') \<Rightarrow> True | (Park e, w') \<Rightarrow> e = runaway | (Fail e, w') \<Rightarrow> False)"

lemma lands_return [simp]: "lands (io_return x)"
  by (simp add: lands_def)

lemma lands_pair [simp]: "lands (Pair (Ok x))"
  by (simp add: lands_def)

lemma total_pair [simp]: "total_io (Pair (Ok x))"
  by (simp add: total_io_def)

lemma lands_bind: "total_io m \<Longrightarrow> (\<And>x. lands (f x)) \<Longrightarrow> lands (io_bind m f)"
  unfolding lands_def total_io_def by (metis io_bind_Ok)

lemma total_now: "total_io (now_io X)"
  by (simp add: total_io_def now_io_def split: prod.splits)

lemma edge_ends:
  assumes "end_problems d = []" and "(dst, on) \<in> set (outgoing d src)"
  shows "node_table d dst \<noteq> None"
proof -
  have "(src, dst, on) \<in> set (d_edges d)" using assms(2) by (simp add: outgoing_in_edges)
  from concat_map_Nil [OF assms(1) [unfolded end_problems_def] this] show ?thesis
    by (auto simp: node_table_None split: if_splits)
qed

lemma loop_lands:
  assumes ends: "end_problems d = []"
    and sq: "\<And>nd c. nd \<in> set (d_nodes d) \<Longrightarrow> total_io (run_square L X r d nd c)"
  shows "node_table d (v_node v) \<noteq> None \<Longrightarrow> lands (visit_loop L X r d now e k v)"
proof (induction k arbitrary: v)
  case 0
  then show ?case by (simp add: lands_def runaway_def)
next
  case (Suc k)
  then obtain nd where nd: "node_table d (v_node v) = Some nd" by auto
  show ?case
  proof (cases "holds_until L now nd (v_context v)")
    case (Some t)
    then show ?thesis using nd by simp
  next
    case None
    have known: "\<exists>nx. node_table d dst = Some nx" if "pick_next nd (outgoing d (v_node v)) c = Some dst" for c dst
      using pick_next_arrow [OF that] edge_ends [OF ends] by blast
    show ?thesis
      unfolding visit_loop.simps nd option.case None
      by (intro lands_bind sq total_now)
        (use node_table_Some [OF nd] Suc.IH in \<open>auto simp: Let_def dest: known split: option.splits\<close>)
  qed
qed

lemma goals_total:
  assumes "\<And>m c ts t k. total_io (x_has_event X m c ts t k)" "\<And>m c ts t k. total_io (x_latest_event X m c ts t k)"
  shows "total_io (judge_goals L X r gs)"
proof (induction gs)
  case (Cons g gs)
  have "total_io (tier_hit L X r g)"
    using assms total_bind [OF assms(2) total_return] by (auto simp: tier_hit_def)
  then show ?case using Cons total_bind [OF _, of "tier_hit L X r g"] by (auto intro!: total_bind)
qed simp



end
