(* ===== verification/Ladder_Laws.thy ===== *)
theory Ladder_Laws
  imports Plan_Laws
begin

text \<open>
  What a ladder expands to.  Expansion is idempotent, the stored form reads as itself, and the
  board of an accepted ladder passes the laws of publish that judge a board: its names, arrows,
  doors and clocks.
\<close>

section \<open>Names\<close>

lemma slug_fault_None:
  "slug_fault seen ts = None \<Longrightarrow>
     distinct (map slug_of ts) \<and> [] \<notin> slug_of ` set ts \<and> slug_of ` set ts \<inter> fst ` set seen = {}"
proof (induction seen ts rule: slug_fault.induct)
  case (2 seen t ts)
  have ne: "slug_of t \<noteq> []" and new: "map_of seen (slug_of t) = None"
    and rest: "slug_fault ((slug_of t, t) # seen) ts = None"
    using 2(2) by (auto split: if_splits option.splits)
  have "distinct (map slug_of ts) \<and> [] \<notin> slug_of ` set ts
      \<and> slug_of ` set ts \<inter> fst ` set ((slug_of t, t) # seen) = {}"
    by (rule 2(1) [OF ne new rest])
  moreover have "slug_of t \<notin> fst ` set seen" using new by (simp add: map_of_eq_None_iff)
  ultimately show ?case using ne by auto
qed simp

lemma square_names [simp]:
  "(at_square t = at_square u) = (slug_of t = slug_of u)"
  "(act_square t = act_square u) = (slug_of t = slug_of u)"
  "(after_square t = after_square u) = (slug_of t = slug_of u)"
  "at_square t \<noteq> act_square u" "act_square u \<noteq> at_square t"
  "at_square t \<noteq> after_square u" "after_square u \<noteq> at_square t"
  "act_square t \<noteq> after_square u" "after_square u \<noteq> act_square t"
  by (simp_all add: at_square_def act_square_def after_square_def)

lemma other_slug: "slug_of t \<notin> slug_of ` S \<Longrightarrow> u \<in> S \<Longrightarrow> slug_of u \<noteq> slug_of t"
  by (metis imageI)

lemma over_stages_set:
  "x \<in> set (over_stages f ts) \<longleftrightarrow> (\<exists>pre t later. ts = pre @ t # later \<and> x \<in> set (f t later))"
proof (induction ts)
  case (Cons t ts)
  have "(\<exists>pre u later. t # ts = pre @ u # later \<and> x \<in> set (f u later))
      \<longleftrightarrow> x \<in> set (f t ts) \<or> (\<exists>pre u later. ts = pre @ u # later \<and> x \<in> set (f u later))"
    by (auto simp: Cons_eq_append_conv)
  then show ?case using Cons by simp
qed simp

lemma stage_square_ids:
  "n_id ` set (stage_squares sg key t later) =
     {at_square t, act_square t} \<union> (if later = [] then {} else {after_square t})"
  by (auto simp: stage_squares_def action_square_def listening_square_def blank_node_def)

lemma square_id_slug:
  "n \<in> set (over_stages (stage_squares sg key) ts) \<Longrightarrow>
     \<exists>t\<in>set ts. n_id n \<in> {at_square t, act_square t, after_square t}"
proof -
  assume "n \<in> set (over_stages (stage_squares sg key) ts)"
  then obtain pre t later where ts: "ts = pre @ t # later" and n: "n \<in> set (stage_squares sg key t later)"
    by (auto simp: over_stages_set)
  then have "n_id n \<in> n_id ` set (stage_squares sg key t later)" by blast
  then show ?thesis using ts by (auto simp: stage_square_ids split: if_splits)
qed

lemma board_ids_distinct:
  "distinct (map slug_of ts) \<Longrightarrow> distinct (map n_id (over_stages (stage_squares sg key) ts))"
proof (induction ts)
  case (Cons t ts)
  have own: "distinct (map n_id (stage_squares sg key t ts))"
    by (simp add: stage_squares_def action_square_def listening_square_def blank_node_def)
  have "n_id ` set (stage_squares sg key t ts) \<inter> n_id ` set (over_stages (stage_squares sg key) ts) = {}"
  proof -
    have "slug_of u \<noteq> slug_of t" if "u \<in> set ts" for u using that Cons.prems other_slug [of t "set ts"] by simp
    then show ?thesis by (auto simp: stage_square_ids dest!: square_id_slug) blast+
  qed
  then show ?case using own Cons by simp
qed simp

section \<open>The arrows out of a square\<close>

lemma arrow_sources:
  "e \<in> set (over_stages stage_arrows ts) \<Longrightarrow> \<exists>t\<in>set ts. fst e \<in> {at_square t, act_square t, after_square t}"
  by (auto simp: over_stages_set stage_arrows_def letter_arrows_def split: if_splits)

lemma no_arrows_of_others:
  assumes "slug_of t \<notin> slug_of ` set ts" and "src \<in> {at_square t, act_square t, after_square t}"
  shows "filter (\<lambda>e. fst e = src) (over_stages stage_arrows ts) = []"
  using assms arrow_sources [of _ ts] other_slug [OF assms(1)] by (fastforce simp: filter_empty_conv)

lemma letter_arrows_from:
  "filter (\<lambda>e. fst e = src) (letter_arrows s later) = (if s = src then letter_arrows s later else [])"
  by (auto simp: letter_arrows_def filter_map comp_def)

text \<open>The arrows of one square of the stage \<open>t\<close>, which the stages of \<open>later\<close> follow.\<close>

definition arrows_of :: "string \<Rightarrow> string list \<Rightarrow> string \<Rightarrow> edge list" where
  "arrows_of t later src = filter (\<lambda>e. fst e = src) (stage_arrows t later)"

lemma board_arrows:
  assumes "distinct (map slug_of (pre @ t # later))" and "src \<in> {at_square t, act_square t, after_square t}"
  shows "filter (\<lambda>e. fst e = src) (over_stages stage_arrows (pre @ t # later)) = arrows_of t later src"
  using assms
proof (induction pre)
  case Nil
  then show ?case using no_arrows_of_others [of t later src] by (auto simp: arrows_of_def)
next
  case (Cons p pre)
  have "slug_of p \<noteq> slug_of t" using Cons.prems(1) by auto
  then have "filter (\<lambda>e. fst e = src) (stage_arrows p (pre @ t # later)) = []"
    using Cons.prems(2) by (auto simp: stage_arrows_def letter_arrows_from filter_empty_conv letter_arrows_def)
  then show ?case using Cons by auto
qed

lemma arrows_of_simps:
  "arrows_of t later (at_square t) =
     (if later = [] then [(at_square t, act_square t, None)]
      else letter_arrows (at_square t) later @ [(at_square t, act_square t, Some timeout_word)])"
  "arrows_of t later (act_square t) = (if later = [] then [] else [(act_square t, after_square t, None)])"
  "arrows_of t later (after_square t) = (if later = [] then [] else letter_arrows (after_square t) later)"
  by (simp_all add: arrows_of_def stage_arrows_def letter_arrows_from)

section \<open>The board passes the laws\<close>

definition door_word :: "door \<Rightarrow> minted_door" where
  "door_word e = \<lparr>md_topic = e_topic e, md_start = e_start e, md_debounce = e_debounce_minutes e,
                  md_restart = e_restart_on_repeat e\<rparr>"

text \<open>The document carries the board a ladder expands to.\<close>

definition carries :: "workflow_definition \<Rightarrow> stages \<Rightarrow> string option \<Rightarrow> bool" where
  "carries d sg key \<longleftrightarrow> board sg key = Inr (d_nodes d, d_edges d, map door_word (doors d))
     \<and> list_all (\<lambda>e. parse_repeat_policy (e_on_repeat e) \<noteq> None) (doors d)"

lemma override_positive:
  assumes "stages_ok sg"
  shows "0 < idle_of sg t" "0 < after_of sg t"
proof -
  have ov: "positive (so_idle o1) \<and> positive (so_after o1)"
    if "map_of (sg_overrides sg) t = Some o1" for o1
    using assms map_of_SomeD [OF that] by (auto simp: stages_ok_def list_all_iff)
  show "0 < idle_of sg t" "0 < after_of sg t"
    using assms ov by (auto simp: idle_of_def after_of_def positive_def stages_ok_def split: option.splits)
qed

lemma action_is_act: "stages_ok sg \<Longrightarrow> sa_type (action_of sg t) \<in> {Call, Send}"
proof -
  assume ok: "stages_ok sg"
  have "case so_on_idle o1 of None \<Rightarrow> True | Some a \<Rightarrow> sa_type a \<in> {Call, Send}"
    if "map_of (sg_overrides sg) t = Some o1" for o1
    using ok map_of_SomeD [OF that] by (fastforce simp: stages_ok_def list_all_iff)
  then show ?thesis using ok by (fastforce simp: action_of_def stages_ok_def split: option.splits)
qed

lemma duplicates_none: "duplicates seen xs = [] \<longleftrightarrow> distinct xs \<and> set xs \<inter> set seen = {}"
  by (induction seen xs rule: duplicates.induct) auto

lemma carried_stage:
  assumes "carries d sg key" and "sg_order sg = pre @ t # later"
  shows "distinct (map slug_of (sg_order sg))"
    "distinct (map n_id (d_nodes d))"
    "set (stage_squares sg key t later) \<subseteq> set (d_nodes d)"
    "src \<in> {at_square t, act_square t, after_square t} \<Longrightarrow>
       outgoing d src = map snd (arrows_of t later src)"
proof -
  have nf: "slug_fault [] (sg_order sg) = None"
    and ns: "d_nodes d = over_stages (stage_squares sg key) (sg_order sg)"
    and es: "d_edges d = over_stages stage_arrows (sg_order sg)"
    using assms(1) by (auto simp: carries_def board_def split: option.splits)
  show d: "distinct (map slug_of (sg_order sg))" using slug_fault_None [OF nf] by simp
  show "distinct (map n_id (d_nodes d))" using board_ids_distinct [OF d] ns by simp
  show "set (stage_squares sg key t later) \<subseteq> set (d_nodes d)"
    unfolding ns by (metis assms(2) over_stages_set subsetI)
  show "outgoing d src = map snd (arrows_of t later src)"
    if "src \<in> {at_square t, act_square t, after_square t}"
    using board_arrows [of pre t later src] d that by (simp add: outgoing_def es assms(2))
qed

lemma carried_node:
  assumes "carries d sg key" and "sg_order sg = pre @ t # later" and "n \<in> set (stage_squares sg key t later)"
  shows "node_table d (n_id n) = Some n"
proof -
  have n: "n \<in> set (d_nodes d)" using carried_stage(3) [OF assms(1,2)] assms(3) by blast
  then obtain m where m: "node_table d (n_id n) = Some m"
    using node_table_None [of d "n_id n"] by fastforce
  have "m = n"
    using distinct_ids_inj [OF carried_stage(2) [OF assms(1,2)]] n node_table_Some [OF m] by blast
  then show ?thesis using m by simp
qed


lemma carried_square:
  assumes "carries d sg key" and "n \<in> set (d_nodes d)"
  obtains pre t later where "sg_order sg = pre @ t # later" "n \<in> set (stage_squares sg key t later)"
proof -
  have "n \<in> set (over_stages (stage_squares sg key) (sg_order sg))"
    using assms by (auto simp: carries_def board_def split: option.splits)
  then show thesis using that by (auto simp only: over_stages_set)
qed

lemma carried_square_laws:
  assumes c: "carries d sg key" and ok: "stages_ok sg" and n: "n \<in> set (d_nodes d)"
  shows "(is_wait n \<longrightarrow> validate_wait n d = [])" "n_match n \<noteq> None \<longrightarrow> listens n" "n_window n = None"
proof -
  obtain pre t later where o1: "sg_order sg = pre @ t # later" "n \<in> set (stage_squares sg key t later)"
    using carried_square [OF c n] .
  have p: "0 < idle_of sg t" "0 < after_of sg t" by (rule override_positive [OF ok])+
  have a: "\<not> is_wait (action_square (act_square t) (action_of sg t) t)"
    using action_is_act [OF ok, of t] by (auto simp: is_wait_def action_square_def blank_node_def)
  consider "later = []" "n = (blank_node (at_square t) Wait)\<lparr>n_minutes := Some (idle_of sg t), n_stage := Some t\<rparr>"
    | "n = action_square (act_square t) (action_of sg t) t"
    | "later \<noteq> []" "n = listening_square (at_square t) later (idle_of sg t) t key"
    | "later \<noteq> []" "n = listening_square (after_square t) later (after_of sg t) t key"
    using o1(2) by (auto simp: stage_squares_def split: if_splits)
  then show "(is_wait n \<longrightarrow> validate_wait n d = [])" "n_match n \<noteq> None \<longrightarrow> listens n" "n_window n = None"
    using p a
    by (cases; simp add: validate_wait_def blank_node_def listening_square_def action_square_def
        listens_def is_wait_def opt_text_def topic_key_def prefix_of_def)+
qed

lemma carried_door:
  assumes c: "carries d sg key" and ok: "stages_ok sg" and e: "e \<in> set (doors d)"
  shows "start_problems d e = []"
proof -
  have ds: "map door_word (doors d) = map (stage_door sg) (sg_order sg)"
    and pol: "parse_repeat_policy (e_on_repeat e) \<noteq> None"
    using c e by (auto simp: carries_def board_def list_all_iff split: option.splits)
  have "door_word e \<in> stage_door sg ` set (sg_order sg)"
    using e arg_cong [OF ds, of set] by auto
  then obtain t where t: "t \<in> set (sg_order sg)" "door_word e = stage_door sg t" by auto
  obtain pre later where o1: "sg_order sg = pre @ t # later" using t(1) by (meson split_list)
  let ?n = "hd (stage_squares sg key t later)"
  have hn: "?n \<in> set (stage_squares sg key t later)" "n_id ?n = at_square t" "is_wait ?n"
    by (simp_all add: stage_squares_def listening_square_def blank_node_def is_wait_def)
  have "node_table d (at_square t) = Some ?n" "is_wait ?n"
    using carried_node [OF c o1 hn(1)] hn by simp_all
  moreover have "e_start e = at_square t" "e_debounce_minutes e = idle_of sg t"
    using t(2) by (simp_all add: door_word_def stage_door_def)
  ultimately show ?thesis
    using pol override_positive(1) [OF ok, of t] by (simp add: start_problems_def Let_def)
qed

lemma each_door_none:
  "distinct (map e_topic es) \<Longrightarrow> e_topic ` set es \<inter> set seen = {} \<Longrightarrow>
     (\<And>e. e \<in> set es \<Longrightarrow> start_problems d e = []) \<Longrightarrow> each_door d seen es = []"
  by (induction es arbitrary: seen) auto

lemma arrow_problems_branching:
  "node_table d src = Some n \<Longrightarrow> branches n \<Longrightarrow> map snd (outgoing d src) = map Some ls \<Longrightarrow> distinct ls \<Longrightarrow>
     arrow_problems d src = []"
  unfolding arrow_problems_def Let_def by (simp add: distinct_map del: set_map) auto

lemma arrow_problems_plain:
  "node_table d src = Some n \<Longrightarrow> \<not> branches n \<Longrightarrow> outgoing d src \<in> {[], [(dst, None)]} \<Longrightarrow> arrow_problems d src = []"
  by (auto simp: arrow_problems_def Let_def)

lemma carried_arrows:
  assumes c: "carries d sg key" and ok: "stages_ok sg" and no: "timeout_word \<notin> set (sg_order sg)"
    and src: "src \<in> fst ` set (d_edges d)"
  shows "arrow_problems d src = []"
proof -
  have es: "d_edges d = over_stages stage_arrows (sg_order sg)"
    using c by (auto simp: carries_def board_def split: option.splits)
  then obtain e where "e \<in> set (over_stages stage_arrows (sg_order sg))" "src = fst e" using src by auto
  then obtain t where t: "t \<in> set (sg_order sg)" "src \<in> {at_square t, act_square t, after_square t}"
    using arrow_sources by blast
  obtain pre later where o1: "sg_order sg = pre @ t # later" using t(1) by (meson split_list)
  have dist: "distinct later" "timeout_word \<notin> set later" using ok no o1 by (auto simp: stages_ok_def)
  have out: "outgoing d src = map snd (arrows_of t later src)" by (rule carried_stage(4) [OF c o1 t(2)])
  have node: "n \<in> set (stage_squares sg key t later) \<Longrightarrow> node_table d (n_id n) = Some n" for n
    by (rule carried_node [OF c o1])
  have act: "node_table d (act_square t) = Some (action_square (act_square t) (action_of sg t) t)"
    using node [of "action_square (act_square t) (action_of sg t) t"]
    by (simp add: stage_squares_def action_square_def blank_node_def)
  have plain: "\<not> branches (action_square (act_square t) (action_of sg t) t)"
    using action_is_act [OF ok, of t]
    by (auto simp: branches_def listens_def is_wait_def action_square_def blank_node_def)
  have labels: "map snd (map snd (letter_arrows s later)) = map Some later" for s
    by (simp add: letter_arrows_def comp_def)
  show ?thesis
  proof (cases "later = []")
    case True
    have "node_table d (at_square t) = Some ((blank_node (at_square t) Wait)\<lparr>n_minutes := Some (idle_of sg t), n_stage := Some t\<rparr>)"
      using node [of "(blank_node (at_square t) Wait)\<lparr>n_minutes := Some (idle_of sg t), n_stage := Some t\<rparr>"] True
      by (simp add: stage_squares_def blank_node_def)
    moreover have "\<not> branches ((blank_node (at_square t) Wait)\<lparr>n_minutes := Some (idle_of sg t), n_stage := Some t\<rparr>)"
      by (simp add: branches_def listens_def blank_node_def)
    ultimately show ?thesis
      using t(2) True out act plain by (auto simp: arrow_problems_def Let_def arrows_of_simps split: option.splits)
  next
    case False
    have lb: "branches (listening_square i later m t key)" for i m
      using False by (simp add: branches_def listens_def is_wait_def listening_square_def blank_node_def)
    have at: "node_table d (at_square t) = Some (listening_square (at_square t) later (idle_of sg t) t key)"
      and aft: "node_table d (after_square t) = Some (listening_square (after_square t) later (after_of sg t) t key)"
      using node [of "listening_square (at_square t) later (idle_of sg t) t key"]
        node [of "listening_square (after_square t) later (after_of sg t) t key"] False
      by (simp_all add: stage_squares_def listening_square_def blank_node_def)
    have words: "map snd (outgoing d (at_square t)) = map Some (later @ [timeout_word])" if "src = at_square t"
      using out that False labels by (simp add: arrows_of_simps letter_arrows_def comp_def)
    have words': "map snd (outgoing d (after_square t)) = map Some later" if "src = after_square t"
      using out that False by (simp add: arrows_of_simps letter_arrows_def comp_def)
    consider "src = at_square t" | "src = act_square t" | "src = after_square t" using t(2) by blast
    then show ?thesis
    proof cases
      case 1
      then show ?thesis using arrow_problems_branching [OF at lb words] dist by simp
    next
      case 2
      then show ?thesis using arrow_problems_plain [OF act plain] out False by (simp add: arrows_of_simps)
    next
      case 3
      then show ?thesis using arrow_problems_branching [OF aft lb words'] dist by simp
    qed
  qed
qed

lemma carried_ends:
  assumes c: "carries d sg key"
  shows "end_problems d = []"
proof -
  have es: "d_edges d = over_stages stage_arrows (sg_order sg)"
    using c by (auto simp: carries_def board_def split: option.splits)
  have "{src, dst} \<subseteq> n_id ` set (d_nodes d)" if e: "(src, dst, on) \<in> set (d_edges d)" for src dst on
  proof -
    obtain pre t later where o1: "sg_order sg = pre @ t # later" and e1: "(src, dst, on) \<in> set (stage_arrows t later)"
      using e unfolding es over_stages_set by blast
    have own: "n_id ` set (stage_squares sg key t later) \<subseteq> n_id ` set (d_nodes d)"
      using carried_stage(3) [OF c o1] by blast
    have at: "at_square l \<in> n_id ` set (d_nodes d)" if "l \<in> set later" for l
    proof -
      obtain mid rest where "later = mid @ l # rest" using \<open>l \<in> set later\<close> by (meson split_list)
      then have "sg_order sg = (pre @ t # mid) @ l # rest" using o1 by simp
      from carried_stage(3) [OF c this] show ?thesis
        using stage_square_ids [of sg key l rest] by (metis image_mono insertCI subset_iff Un_iff)
    qed
    show ?thesis
      using e1 own at by (auto simp: stage_arrows_def letter_arrows_def stage_square_ids split: if_splits)
  qed
  then show ?thesis by (auto simp: end_problems_def)
qed


definition loan_stages :: stages where
  "loan_stages = \<lparr>sg_order = [''loan.kyc_done'', ''loan.bank'', ''loan.signed''], sg_idle = 30,
     sg_on_idle = \<lparr>sa_type = Call, sa_template_id = Some ''t'', sa_channel = None, sa_template = None, sa_blocks = []\<rparr>,
     sg_after = 60, sg_restart = True,
     sg_overrides = [(''loan.bank'', \<lparr>so_idle = Some 45, so_on_idle = None, so_after = None\<rparr>)]\<rparr>"

definition loan_door :: "string \<Rightarrow> string \<Rightarrow> rat \<Rightarrow> door" where
  "loan_door topic start m = \<lparr>e_topic = topic, e_where = [], e_reenter = False, e_cooldown_hours = 24, e_key = None,
     e_on_repeat = ''ignore'', e_debounce_minutes = m, e_restart_on_repeat = True, e_start = start\<rparr>"

definition loan_plan :: workflow_definition where
  "loan_plan = (case board loan_stages (Some ''loan_id'') of
       Inr (ns, es, ds) \<Rightarrow> sample_plan\<lparr>d_nodes := ns, d_edges := es, d_playbook := None,
         d_entry := Doors [loan_door ''loan.kyc_done'' ''at-kyc-done'' 30, loan_door ''loan.bank'' ''at-bank'' 45,
                           loan_door ''loan.signed'' ''at-signed'' 30]\<rparr>
     | Inl e \<Rightarrow> sample_plan)"


section \<open>Expansion is idempotent\<close>

lemma py_equal_items_refl:
  "(\<And>k v. (k, v) \<in> set d \<Longrightarrow> map_of e k = Some v \<and> py_equal v v) \<Longrightarrow> py_equal_items d e"
  by (induction d) force+

lemma py_equal_list_refl: "(\<And>v. v \<in> set xs \<Longrightarrow> py_equal v v) \<Longrightarrow> py_equal_list xs xs"
  by (induction xs) auto

lemma py_equal_obj:
  "distinct (map fst d) \<Longrightarrow> (\<And>k v. (k, v) \<in> set d \<Longrightarrow> py_equal v v) \<Longrightarrow> py_equal (JObj d) (JObj d)"
  by (simp add: py_equal_items_refl)

lemma py_equal_texts [simp]: "py_equal_list (map JStr xs) (map JStr xs)"
  by (rule py_equal_list_refl) auto

lemma entry_keys [simp]:
  "fst ` set (opt_entry k v) = (if v = None then {} else {k})"
  "fst ` set (list_entry k xs) = (if xs = [] then {} else {k})"
  by (auto simp: opt_entry_def list_entry_def split: option.splits)

lemma distinct_entry:
  "k \<notin> fst ` set d \<Longrightarrow> distinct (map fst d) \<Longrightarrow> distinct (map fst (opt_entry k v @ d))"
  "k \<notin> fst ` set d \<Longrightarrow> distinct (map fst d) \<Longrightarrow> distinct (map fst (list_entry k xs @ d))"
  by (auto simp: opt_entry_def list_entry_def split: option.splits)

lemma distinct_last_entry: "distinct (map fst (opt_entry k v))"
  by (simp add: opt_entry_def split: option.splits)

lemma number_equal: "num_val v \<noteq> None \<Longrightarrow> py_equal v v"
  by (cases v) auto

lemma node_dict_refl:
  assumes "\<And>m. num_val (fl m) \<noteq> None"
  shows "py_equal (node_dict fl n) (node_dict fl n)"
  unfolding node_dict_def
proof (rule py_equal_obj)
  let ?d = "[(''id'', JStr (n_id n)), (''type'', JStr (type_text (n_type n)))]
     @ opt_entry ''key'' (map_option JStr (n_key n)) @ list_entry ''topics'' (n_topics n)
     @ opt_entry ''minutes'' (map_option fl (n_minutes n))
     @ opt_entry ''template_id'' (map_option JStr (n_template_id n))
     @ opt_entry ''channel'' (map_option JStr (n_channel n))
     @ opt_entry ''template'' (map_option JStr (n_template n))
     @ list_entry ''blocks'' (n_blocks n)
     @ opt_entry ''stage'' (map_option JStr (n_stage n))
     @ opt_entry ''match'' (map_option
         (\<lambda>m. JObj [(''payload'', JStr (m_payload m)), (''run'', JStr (m_run m))]) (n_match n))"
  show "distinct (map fst ?d)"
    unfolding append.simps list.map fst_conv distinct.simps
    by (intro conjI distinct_entry distinct_last_entry) (simp_all add: image_Un)
  show "py_equal v v" if "(k, v) \<in> set ?d" for k v
    using that number_equal [OF assms]
    by (auto simp: opt_entry_def list_entry_def split: option.splits if_splits)
qed

lemma door_dict_refl:
  assumes "\<And>m. num_val (fl m) \<noteq> None"
  shows "py_equal (door_dict fl x) (door_dict fl x)"
  unfolding door_dict_def by (rule py_equal_obj) (use number_equal [OF assms] in auto)

lemma edge_list_refl: "py_equal (edge_list e) (edge_list e)"
  by (auto simp: edge_list_def split: prod.splits option.splits)

lemma produced_refl:
  assumes "\<And>m. num_val (fl m) \<noteq> None" and "(k, v) \<in> set (produced fl b)"
  shows "py_equal v v"
  using assms(2) node_dict_refl [OF assms(1)] door_dict_refl [OF assms(1)] edge_list_refl
  by (auto simp: produced_def split: prod.splits intro!: py_equal_list_refl)

lemma update_same: "map_of d k = Some v \<Longrightarrow> AList.update k v d = d"
  by (induction d) (auto split: if_splits)

lemma dmerge_same: "(\<And>k v. (k, v) \<in> set b \<Longrightarrow> map_of a k = Some v) \<Longrightarrow> dmerge a b = a"
proof (induction b)
  case (Cons p b)
  then have "AList.update (fst p) (snd p) a = a" by (intro update_same) auto
  then show ?case using Cons by (cases p) (auto simp: dmerge_Cons)
qed simp

lemma expand_again:
  assumes num: "\<And>m. num_val (fl m) \<noteq> None" and ex: "expand_stages read fl raw = Inr raw'"
  shows "expand_stages read fl raw' = Inr raw'"
proof (cases "dget raw ''stages'' = JNull")
  case True
  then show ?thesis using ex by (simp add: expand_stages_def)
next
  case False
  then obtain sg b where sg: "read (dget raw ''stages'') = Inr sg" and b: "board sg (run_key raw) = Inr b"
      and words: "\<not> has_key raw ''debounce_minutes''" "\<not> has_key raw ''restart_on_repeat''"
      and raw': "raw' = dmerge raw (produced fl b)"
    using ex by (auto simp: expand_stages_def split: sum.splits if_splits option.splits)
  let ?p = "produced fl b"
  have keys: "map fst ?p = [''nodes'', ''edges'', ''entry'']"
    by (simp add: produced_def split: prod.splits)
  then have kset: "fst ` set ?p = {''nodes'', ''edges'', ''entry''}" by (metis list.set(1) list.set(2) list.set_map)
  have other: "dget raw' k = dget raw k" if "k \<notin> {''nodes'', ''edges'', ''entry''}" for k
    using that dget_dmerge_other [of k ?p raw] kset raw' by simp
  have here: "map_of raw' k = Some v" if "(k, v) \<in> set ?p" for k v
  proof -
    have "distinct (map fst ?p)" by (simp add: keys)
    then show ?thesis using that raw' by (simp add: map_of_dmerge_distinct)
  qed
  have "drawn_beside raw' ?p = None"
    using here produced_refl [OF num] by (auto simp: drawn_beside_def find_None_iff dget_def)
  moreover have "dmerge raw' ?p = raw'" by (rule dmerge_same [OF here])
  moreover have "dget raw' ''stages'' = dget raw ''stages''" "run_key raw' = run_key raw"
    using other by (simp_all add: run_key_def)
  moreover have "\<not> has_key raw' ''debounce_minutes''" "\<not> has_key raw' ''restart_on_repeat''"
    using words by (simp_all add: has_key_def raw' keys_dmerge kset)
  ultimately show ?thesis using False sg b by (simp add: expand_stages_def)
qed

text \<open>
  Saving a ladder twice is saving it once: the expansion of an expanded document is that very
  document, so the stored form -- the ladder beside the board it produced -- reads as itself, and
  publish, which copies the draft verbatim, finds nothing left to expand.
\<close>

theorem expand_stages_idempotent:
  assumes "\<And>m. num_val (fl m) \<noteq> None" and "expand_stages read fl raw = Inr raw'"
  shows "expand_stages read fl raw' = Inr raw'"
  by (rule expand_again [OF assms])

lemma expand_stages_idempotent_witness:
  "\<exists>raw'. expand_stages (\<lambda>_. Inr loan_stages) (\<lambda>m. JInt \<lfloor>m\<rfloor>) [(''stages'', JObj []), (''key'', JStr ''loan_id'')] = Inr raw'
     \<and> expand_stages (\<lambda>_. Inr loan_stages) (\<lambda>m. JInt \<lfloor>m\<rfloor>) raw' = Inr raw' \<and> length raw' = 5"
proof -
  let ?ex = "expand_stages (\<lambda>_. Inr loan_stages) (\<lambda>m. JInt \<lfloor>m\<rfloor>)"
  let ?raw = "[(''stages'', JObj []), (''key'', JStr ''loan_id'')]"
  have "case ?ex ?raw of Inr r \<Rightarrow> length r = 5 | Inl e \<Rightarrow> False" by code_simp
  then obtain r where r: "?ex ?raw = Inr r" and l: "length r = 5"
    by (cases "?ex ?raw") (simp_all only: sum.case)
  have "?ex r = Inr r" by (rule expand_stages_idempotent [OF _ r]) simp
  then show ?thesis using r l by (intro exI conjI)
qed

end
