(* ===== verification/Plan_Store_Laws.thy ===== *)
theory Plan_Store_Laws
  imports Plan_Store Ladder_Laws Enrollment_Laws
begin

text \<open>
  What the tables of plans, versions and runs keep together: a step relation over everything that
  commits to them, the invariant of the states it reaches, and what it means for a run -- the
  version it is pinned to exists, never changes, and has the square the run stands on.
\<close>

section \<open>The invariant\<close>

definition lawful :: "readers \<Rightarrow> dict \<Rightarrow> bool" where
  "lawful R doc \<longleftrightarrow> (\<exists>d. rd_definition R doc = Inr d \<and> end_problems d = [] \<and> door_problems d = [])"

text \<open>A draft is saved as the expansion of what was sent, which expands to itself.\<close>

definition settled :: "readers \<Rightarrow> dict \<Rightarrow> bool" where
  "settled R doc \<longleftrightarrow> expand_stages (rd_stages R) (rd_number R) doc = Inr doc"

definition version_key :: "version_row \<Rightarrow> string \<times> string \<times> int" where
  "version_key x = (vr_merchant x, vr_workflow x, vr_version x)"

text \<open>
  \<open>status = 'draft' OR definition IS NOT NULL\<close>, the counter, and the live document being the
  document of the version it counts.
\<close>

definition plan_ok :: "readers \<Rightarrow> plan_db \<Rightarrow> plan_row \<Rightarrow> bool" where
  "plan_ok R db p \<longleftrightarrow>
     pl_status p \<in> {''draft'', ''live'', ''paused'', ''archived''}
     \<and> (pl_definition p = None \<longrightarrow> pl_status p = ''draft'') \<and> 0 \<le> pl_version p
     \<and> (\<forall>doc. pl_definition p = Some doc \<longrightarrow>
          get_definition (pl_merchant p) (pl_id p) (pl_version p) db = Some doc)
     \<and> (\<forall>doc. pl_draft p = Some doc \<longrightarrow> settled R doc)"

definition version_ok :: "readers \<Rightarrow> plan_db \<Rightarrow> version_row \<Rightarrow> bool" where
  "version_ok R db x \<longleftrightarrow> lawful R (vr_definition x) \<and> 1 \<le> vr_version x
     \<and> (\<exists>p\<in>set (db_plans db). is_plan (vr_merchant x) (vr_workflow x) p \<and> vr_version x \<le> pl_version p)"

definition stands :: "readers \<Rightarrow> plan_db \<Rightarrow> run \<Rightarrow> bool" where
  "stands R db r \<longleftrightarrow> (\<exists>doc d. get_definition (r_merchant r) (r_workflow r) (r_version r) db = Some doc
     \<and> rd_definition R doc = Inr d \<and> r_node r \<in> n_id ` set (d_nodes d))"

definition plans_ok :: "readers \<Rightarrow> plan_db \<Rightarrow> bool" where
  "plans_ok R db \<longleftrightarrow> distinct (map pl_id (db_plans db)) \<and> distinct (map version_key (db_versions db))
     \<and> (\<forall>p\<in>set (db_plans db). plan_ok R db p) \<and> (\<forall>x\<in>set (db_versions db). version_ok R db x)"

definition all_stand :: "readers \<Rightarrow> plan_db \<Rightarrow> bool" where
  "all_stand R db \<longleftrightarrow> (\<forall>r\<in>set (s_rows (db_runs db)). is_open r \<longrightarrow> stands R db r)"

section \<open>Versions only grow\<close>

definition grows :: "plan_db \<Rightarrow> plan_db \<Rightarrow> bool" where
  "grows db db' \<longleftrightarrow> (\<exists>more. db_versions db' = db_versions db @ more)"

lemma grows_refl [simp]: "grows db db"
  by (simp add: grows_def)

lemma grows_trans [trans]: "grows a b \<Longrightarrow> grows b c \<Longrightarrow> grows a c"
  by (auto simp: grows_def)

lemma get_definition_grows:
  "grows db db' \<Longrightarrow> get_definition m wid v db = Some doc \<Longrightarrow> get_definition m wid v db' = Some doc"
  by (auto simp: grows_def get_definition_def find_append)

lemma stands_grows: "grows db db' \<Longrightarrow> stands R db r \<Longrightarrow> stands R db' r"
  unfolding stands_def using get_definition_grows by blast

lemma get_definition_same: "db_versions db' = db_versions db \<Longrightarrow> get_definition m wid v db' = get_definition m wid v db"
  by (simp add: get_definition_def)

lemma get_definition_row:
  "get_definition m wid v db = Some doc \<Longrightarrow> \<exists>x\<in>set (db_versions db). vr_definition x = doc \<and> is_version m wid v x"
  by (auto simp: get_definition_def dest: find_Some_set)

section \<open>Rewriting a plan\<close>

lemma rewrite_plans_simps [simp]:
  "db_versions (snd (rewrite_plans P f db)) = db_versions db"
  "db_runs (snd (rewrite_plans P f db)) = db_runs db"
  "db_plans (snd (rewrite_plans P f db)) = map (\<lambda>p. if P p then f p else p) (db_plans db)"
  "fst (rewrite_plans P f db) = map_option f (find P (db_plans db))"
  by (simp_all add: rewrite_plans_def)

lemma one_plan:
  assumes "distinct (map pl_id (db_plans db))" "p \<in> set (db_plans db)" "q \<in> set (db_plans db)"
    "is_plan m wid p" "is_plan m wid q"
  shows "p = q"
  using assms by (auto simp: is_plan_def distinct_map dest: inj_onD)

lemma get_workflow_Some: "get_workflow m wid db = Some p \<Longrightarrow> p \<in> set (db_plans db) \<and> is_plan m wid p"
  by (auto simp: get_workflow_def dest: find_Some_set)

text \<open>An update of plan rows that keeps their ids, raises no counter and stays within the law.\<close>

lemma rewrite_plans_ok:
  assumes ok: "plans_ok R db"
    and keep: "\<And>p. pl_id (f p) = pl_id p \<and> pl_merchant (f p) = pl_merchant p \<and> pl_version (f p) = pl_version p"
    and law: "\<And>p. p \<in> set (db_plans db) \<Longrightarrow> P p \<Longrightarrow> plan_ok R db p \<Longrightarrow> plan_ok R db (f p)"
  shows "plans_ok R (snd (rewrite_plans P f db))"
proof -
  let ?db = "snd (rewrite_plans P f db)"
  have ids: "map pl_id (db_plans ?db) = map pl_id (db_plans db)" using keep by simp
  have same: "plan_ok R ?db p = plan_ok R db p" for p
    by (simp add: plan_ok_def get_definition_same [of ?db db])
  have "version_ok R ?db x" if x: "version_ok R db x" for x
  proof -
    obtain p where p: "p \<in> set (db_plans db)" "is_plan (vr_merchant x) (vr_workflow x) p" "vr_version x \<le> pl_version p"
      using x by (auto simp: version_ok_def)
    let ?p = "if P p then f p else p"
    have "?p \<in> set (db_plans ?db)" using p(1) by simp
    moreover have "is_plan (vr_merchant x) (vr_workflow x) ?p" "vr_version x \<le> pl_version ?p"
      using p keep by (simp_all add: is_plan_def)
    ultimately show ?thesis using x unfolding version_ok_def by blast
  qed
  then show ?thesis
    unfolding plans_ok_def ids using ok [unfolded plans_ok_def] law by (auto simp: same)
qed

section \<open>What the publish atom approves\<close>

lemma validated:
  assumes "validate_definition R L X doc occupied live cats = []" and "settled R doc"
  shows "\<exists>d. rd_definition R doc = Inr d \<and> document_problems L X cats d = []
    \<and> (d_on_publish d = Migrate \<longrightarrow> set occupied \<subseteq> n_id ` set (d_nodes d))"
  using assms
  by (auto simp: validate_definition_def settled_def stranding_problems_def filter_empty_conv split: sum.splits if_splits)

lemma document_lawful: "rd_definition R doc = Inr d \<Longrightarrow> document_problems L X cats d = [] \<Longrightarrow> lawful R doc"
  by (auto simp: lawful_def document_problems_def)

lemma judged:
  assumes "judge_draft R L X G cats m wid p db = Inr (draft, d)" and st: "\<And>doc. pl_draft p = Some doc \<Longrightarrow> settled R doc"
  shows "pl_draft p = Some draft \<and> settled R draft \<and> rd_definition R draft = Inr d
    \<and> document_problems L X cats d = []
    \<and> (d_on_publish d = Migrate \<longrightarrow> set (occupied_nodes m wid (db_runs db)) \<subseteq> n_id ` set (d_nodes d))"
proof -
  have dr: "pl_draft p = Some draft" and rd: "rd_definition R draft = Inr d"
    and v: "validate_definition R L X draft (occupied_nodes m wid (db_runs db)) (live_entry p) cats = []"
    using assms(1) by (auto simp: judge_draft_def Let_def split: option.splits if_splits sum.splits)
  show ?thesis using validated [OF v st [OF dr]] dr rd st [OF dr] by auto
qed

lemma occupied_set: "set (occupied_nodes m wid s) = r_node ` {r \<in> set (s_rows s). on_plan m wid r}"
  by (simp add: occupied_nodes_def hits_def)

lemma occupied_version_set:
  "set (occupied_nodes_on_version m wid v s) = r_node ` {r \<in> set (s_rows s). on_plan m wid r \<and> r_version r = v}"
  by (simp add: occupied_nodes_on_version_def hits_def)

text \<open>One publish with nothing in between, spelt out.\<close>

lemma publish_shape:
  assumes ok: "plans_ok R db" and pub: "publish_in_txn R L X G cats m wid by id db = Inr (p', db')"
  shows "\<exists>p draft d. p \<in> set (db_plans db) \<and> is_plan m wid p \<and> pl_draft p = Some draft \<and> p' = publish_set p
    \<and> settled R draft \<and> rd_definition R draft = Inr d \<and> document_problems L X cats d = []
    \<and> (d_on_publish d = Migrate \<longrightarrow> set (occupied_nodes m wid (db_runs db)) \<subseteq> n_id ` set (d_nodes d))
    \<and> db_plans db' = map (\<lambda>q. if is_plan m wid q \<and> pl_draft q \<noteq> None then publish_set q else q) (db_plans db)
    \<and> (\<exists>mode u. db_versions db' = db_versions db @
         [\<lparr>vr_merchant = m, vr_workflow = wid, vr_version = pl_version p + 1, vr_definition = draft, vr_mode = mode, vr_by = u\<rparr>])
    \<and> \<not> list_ex (is_version m wid (pl_version p + 1)) (db_versions db)
    \<and> db_runs db' = (if d_on_publish d = Migrate
         then snd (repin_open_runs m wid (pl_version p + 1) (db_runs db)) else db_runs db)"
proof -
  obtain p draft d where g: "get_workflow m wid db = Some p"
      and j: "judge_draft R L X G cats m wid p db = Inr (draft, d)"
    using pub by (auto simp: publish_in_txn_def split: option.splits sum.splits)
  have p: "p \<in> set (db_plans db)" "is_plan m wid p" using get_workflow_Some [OF g] by simp_all
  have st: "settled R doc" if "pl_draft p = Some doc" for doc
    using ok p(1) that by (simp add: plans_ok_def plan_ok_def)
  note jd = judged [OF j st]
  let ?P = "\<lambda>q. is_plan m wid q \<and> pl_draft q \<noteq> None"
  have "find ?P (db_plans db) = Some p"
  proof -
    have "?P p" using p jd by simp
    then obtain q where q: "find ?P (db_plans db) = Some q" using p(1) by (cases "find ?P (db_plans db)") (auto simp: find_None_iff)
    then have "q = p" using one_plan [of db q p m wid] ok p find_Some_set [OF q] by (auto simp: plans_ok_def)
    then show ?thesis using q by simp
  qed
  then obtain db1 where a: "apply_publish m wid db = (Some (publish_set p), db1)"
      and db1: "db1 = snd (rewrite_plans ?P publish_set db)"
    by (simp add: apply_publish_def prod_eq_iff)
  have v: "pl_version (publish_set p) = pl_version p + 1" by (simp add: publish_set_def)
  obtain db2 where i: "insert_version m wid (pl_version p + 1) draft (d_on_publish d) by db1 = Some db2"
      and db': "p' = publish_set p" "db' = (if d_on_publish d = Migrate
        then db2\<lparr>db_runs := snd (repin_open_runs m wid (pl_version p + 1) (db_runs db2))\<rparr> else db2)"
    using pub g j a v by (auto simp: publish_in_txn_def split: option.splits if_splits)
  have i2: "db2 = db1\<lparr>db_versions := db_versions db @
      [\<lparr>vr_merchant = m, vr_workflow = wid, vr_version = pl_version p + 1, vr_definition = draft,
        vr_mode = d_on_publish d, vr_by = by\<rparr>]\<rparr>"
    and new: "\<not> list_ex (is_version m wid (pl_version p + 1)) (db_versions db)"
    using i by (auto simp: insert_version_def db1 split: if_splits)
  show ?thesis
    using p jd new db' i2 by (intro exI [of _ p] exI [of _ draft] exI [of _ d]) (auto simp: db1)
qed
section \<open>Every operation keeps it\<close>

definition numbers :: "readers \<Rightarrow> bool" where
  "numbers R \<longleftrightarrow> (\<forall>m. num_val (rd_number R m) \<noteq> None)"

lemma stored_settled:
  assumes "numbers R" and "validate_definition R L X doc occ live cats = []"
  shows "settled R (stored_form R doc)"
proof -
  obtain raw where raw: "expand_stages (rd_stages R) (rd_number R) doc = Inr raw"
    using assms(2) by (auto simp: validate_definition_def split: sum.splits)
  have "expand_stages (rd_stages R) (rd_number R) raw = Inr raw"
    by (rule expand_again [OF _ raw]) (use assms(1) in \<open>simp add: numbers_def\<close>)
  then show ?thesis using raw by (simp add: settled_def stored_form_def)
qed

lemma version_ok_more:
  assumes "version_ok R db x" and "set (db_plans db) \<subseteq> set (db_plans db')"
  shows "version_ok R db' x"
  using assms by (auto simp: version_ok_def)

lemma plan_ok_same: "db_versions db' = db_versions db \<Longrightarrow> plan_ok R db' p = plan_ok R db p"
  by (simp add: plan_ok_def get_definition_same [of db' db])

lemma create_kept:
  assumes "numbers R" and ok: "plans_ok R db" and c: "create_workflow R L X cats i m name doc by db = Inr (p, db')"
  shows "plans_ok R db' \<and> db_versions db' = db_versions db \<and> db_runs db' = db_runs db"
proof -
  have v: "validate_definition R L X doc [] JNull cats = []"
    and new: "i \<notin> pl_id ` set (db_plans db)"
    and p: "p = \<lparr>pl_id = i, pl_merchant = m, pl_name = name, pl_status = ''draft'', pl_version = 0,
                 pl_definition = None, pl_draft = Some (stored_form R doc), pl_created_by = by\<rparr>"
    and db': "db' = db\<lparr>db_plans := db_plans db @ [p]\<rparr>"
    using c by (auto simp: create_workflow_def insert_workflow_def Let_def split: if_splits)
  have "plan_ok R db' p" using stored_settled [OF assms(1) v] by (simp add: plan_ok_def p)
  moreover have "plan_ok R db' q = plan_ok R db q" for q by (rule plan_ok_same) (simp add: db')
  moreover have "version_ok R db x \<Longrightarrow> version_ok R db' x" for x by (rule version_ok_more) (auto simp: db')
  ultimately show ?thesis using ok new by (auto simp: plans_ok_def db' p)
qed

lemma save_kept:
  assumes "numbers R" and ok: "plans_ok R db" and c: "update_draft R L X cats m wid doc db = Inr (p, db')"
  shows "plans_ok R db' \<and> db_versions db' = db_versions db \<and> db_runs db' = db_runs db"
proof -
  have v: "validate_definition R L X doc [] JNull cats = []"
    and db': "db' = snd (save_draft m wid (stored_form R doc) db)"
    using c by (auto simp: update_draft_def Let_def split: if_splits)
  have "plans_ok R db'" unfolding db' save_draft_def
    by (rule rewrite_plans_ok [OF ok]) (use stored_settled [OF assms(1) v] in \<open>auto simp: plan_ok_def\<close>)
  then show ?thesis by (simp add: db' save_draft_def)
qed

lemma status_kept:
  assumes ok: "plans_ok R db" and c: "set_status m wid status db = Inr (p, db')"
  shows "plans_ok R db' \<and> db_versions db' = db_versions db \<and> db_runs db' = db_runs db"
proof (cases "db' = db")
  case False
  then obtain q where st: "status \<in> {''live'', ''paused'', ''archived''}" and q: "get_workflow m wid db = Some q"
      and d: "pl_definition q \<noteq> None" and db': "db' = snd (set_workflow_status m wid status db)"
    using c by (auto simp: set_status_def split: if_splits option.splits)
  have one: "x = q" if "x \<in> set (db_plans db)" "is_plan m wid x" for x
    using one_plan [of db x q m wid] ok that get_workflow_Some [OF q] by (simp add: plans_ok_def)
  have "plans_ok R db'" unfolding db' set_workflow_status_def
    by (rule rewrite_plans_ok [OF ok]) (use st d in \<open>auto simp: plan_ok_def dest: one\<close>)
  then show ?thesis by (simp add: db' set_workflow_status_def)
qed (simp add: ok)

lemma find_none_key: "\<not> list_ex P xs \<Longrightarrow> find P xs = None"
  by (auto simp: find_None_iff list_ex_iff)

lemma publish_kept:
  assumes ok: "plans_ok R db" and stand: "all_stand R db"
    and pub: "publish_in_txn R L X G cats m wid by id db = Inr (p', db')"
  shows "plans_ok R db' \<and> grows db db' \<and> all_stand R db'"
proof -
  obtain p draft d mode u where p: "p \<in> set (db_plans db)" "is_plan m wid p" "pl_draft p = Some draft"
    and st: "settled R draft" and rd: "rd_definition R draft = Inr d" and laws: "document_problems L X cats d = []"
    and occ: "d_on_publish d = Migrate \<Longrightarrow> set (occupied_nodes m wid (db_runs db)) \<subseteq> n_id ` set (d_nodes d)"
    and plans: "db_plans db' = map (\<lambda>q. if is_plan m wid q \<and> pl_draft q \<noteq> None then publish_set q else q) (db_plans db)"
    and vers: "db_versions db' = db_versions db @
         [\<lparr>vr_merchant = m, vr_workflow = wid, vr_version = pl_version p + 1, vr_definition = draft, vr_mode = mode, vr_by = u\<rparr>]"
    and new: "\<not> list_ex (is_version m wid (pl_version p + 1)) (db_versions db)"
    and runs: "db_runs db' = (if d_on_publish d = Migrate
         then snd (repin_open_runs m wid (pl_version p + 1) (db_runs db)) else db_runs db)"
    using publish_shape [OF ok pub] by (elim exE conjE) (rule that, assumption+, simp)
  have g: "grows db db'" using vers by (auto simp: grows_def)
  have pin: "get_definition m wid (pl_version p + 1) db' = Some draft"
    using find_none_key [OF new] by (simp add: get_definition_def vers find_append is_version_def)
  have one: "q = p" if "q \<in> set (db_plans db)" "is_plan m wid q" for q
    using one_plan [of db q p m wid] ok that p by (simp add: plans_ok_def)
  have id: "pl_merchant p = m" "pl_id p = wid" using p(2) by (simp_all add: is_plan_def)
  have pok: "plan_ok R db p" using ok p(1) by (simp add: plans_ok_def)
  have here: "plan_ok R db' (publish_set p)"
    using pok pin p(3) id by (auto simp: plan_ok_def publish_set_def)
  have keep: "plan_ok R db' q" if "plan_ok R db q" for q
    using that get_definition_grows [OF g] by (auto simp: plan_ok_def)
  have "plan_ok R db' q" if "q \<in> set (db_plans db')" for q
    using that here keep ok one by (auto simp: plans plans_ok_def split: if_splits)
  moreover have "distinct (map pl_id (db_plans db'))"
  proof -
    have "map pl_id (db_plans db') = map pl_id (db_plans db)" by (simp add: plans publish_set_def)
    then show ?thesis using ok by (simp only: plans_ok_def)
  qed
  moreover have "distinct (map version_key (db_versions db'))"
    using ok new by (auto simp: vers plans_ok_def version_key_def list_ex_iff is_version_def)
  moreover have "version_ok R db' x" if x: "x \<in> set (db_versions db')" for x
  proof (cases "x \<in> set (db_versions db)")
    case True
    then have vx: "version_ok R db x" using ok by (simp add: plans_ok_def)
    then obtain q where q: "q \<in> set (db_plans db)" "is_plan (vr_merchant x) (vr_workflow x) q" "vr_version x \<le> pl_version q"
      by (auto simp: version_ok_def)
    let ?q = "if is_plan m wid q \<and> pl_draft q \<noteq> None then publish_set q else q"
    have "?q \<in> set (db_plans db')" using q(1) by (simp add: plans)
    moreover have "is_plan (vr_merchant x) (vr_workflow x) ?q" "vr_version x \<le> pl_version ?q"
      using q by (simp_all add: is_plan_def publish_set_def)
    ultimately show ?thesis using vx unfolding version_ok_def by blast
  next
    case False
    then have x: "vr_merchant x = m" "vr_workflow x = wid" "vr_version x = pl_version p + 1" "vr_definition x = draft"
      using that by (simp_all add: vers)
    have "publish_set p \<in> set (db_plans db')" using p by (force simp: plans)
    moreover have "is_plan m wid (publish_set p)" "pl_version (publish_set p) = pl_version p + 1" "0 \<le> pl_version p"
      using id pok by (simp_all add: is_plan_def publish_set_def plan_ok_def)
    ultimately show ?thesis
      using x document_lawful [OF rd laws] unfolding version_ok_def by auto
  qed
  moreover have "all_stand R db'"
  proof -
    have "stands R db' r" if r: "r \<in> set (s_rows (db_runs db'))" "is_open r" for r
    proof (cases "d_on_publish d = Migrate")
      case False
      then show ?thesis using r runs stand stands_grows [OF g] by (simp add: all_stand_def)
    next
      case True
      then obtain r0 where r0: "r0 \<in> set (s_rows (db_runs db))"
          and r: "r = (if on_plan m wid r0 then r0\<lparr>r_version := pl_version p + 1\<rparr> else r0)"
        using r(1) runs by (auto simp: repin_open_runs_def rewrite_def)
      show ?thesis
      proof (cases "on_plan m wid r0")
        case on: True
        then have "r_node r0 \<in> n_id ` set (d_nodes d)" using occ [OF True] r0 occupied_set by auto
        then show ?thesis using on pin rd r by (auto simp: stands_def on_plan_def)
      next
        case False
        then show ?thesis using r r0 that(2) stand stands_grows [OF g] by (auto simp: all_stand_def)
      qed
    qed
    then show ?thesis by (simp add: all_stand_def)
  qed
  ultimately show ?thesis using g by (simp add: plans_ok_def)
qed

lemma migrate_kept:
  assumes ok: "plans_ok R db" and stand: "all_stand R db"
    and mig: "migrate_forward R G m wid from_v to_v db = Inr (k, db')"
  shows "plans_ok R db' \<and> db_versions db' = db_versions db \<and> all_stand R db'"
proof -
  obtain source target d where t: "get_definition m wid to_v db = Some target"
      and v: "validate_migration R source target (occupied_nodes_on_version m wid from_v (db_runs db)) = []"
      and rd: "rd_definition R target = Inr d"
      and db': "db' = db\<lparr>db_runs := snd (repin_runs_on_version m wid from_v to_v (db_runs db))\<rparr>"
    using mig by (auto simp: migrate_forward_def Let_def split: option.splits if_splits sum.splits prod.splits)
  have occ: "set (occupied_nodes_on_version m wid from_v (db_runs db)) \<subseteq> n_id ` set (d_nodes d)"
    using v rd by (auto simp: validate_migration_def filter_empty_conv split: sum.splits)
  have vers: "db_versions db' = db_versions db" by (simp add: db')
  have g: "grows db db'" using vers by (simp add: grows_def)
  have pin: "get_definition m wid to_v db' = Some target" using t get_definition_same [OF vers] by simp
  have "stands R db' r" if r: "r \<in> set (s_rows (db_runs db'))" "is_open r" for r
  proof -
    let ?P = "\<lambda>r. on_plan m wid r \<and> r_version r = from_v"
    obtain r0 where r0: "r0 \<in> set (s_rows (db_runs db))" and r0r: "r = (if ?P r0 then r0\<lparr>r_version := to_v\<rparr> else r0)"
      using r(1) by (auto simp: db' repin_runs_on_version_def Let_def rewrite_def)
    show ?thesis
    proof (cases "?P r0")
      case True
      then have "r_node r0 \<in> n_id ` set (d_nodes d)" using occ r0 occupied_version_set by auto
      then show ?thesis using True pin rd r0r by (auto simp: stands_def on_plan_def)
    next
      case False
      then have "r = r0" using r0r by (simp only: if_False)
      then show ?thesis using r0 r(2) stand stands_grows [OF g] by (auto simp: all_stand_def)
    qed
  qed
  moreover have "plans_ok R db'"
  proof -
    have "plan_ok R db' p = plan_ok R db p" for p by (rule plan_ok_same [OF vers])
    moreover have "version_ok R db x \<Longrightarrow> version_ok R db' x" for x by (rule version_ok_more) (auto simp: db')
    ultimately show ?thesis using ok by (auto simp: plans_ok_def db')
  qed
  ultimately show ?thesis using vers by (simp add: all_stand_def)
qed
section \<open>The runs' own statements\<close>

definition pin :: "run \<Rightarrow> string \<times> string \<times> int \<times> string" where
  "pin r = (r_merchant r, r_workflow r, r_version r, r_node r)"

definition keeps_pins :: "store \<Rightarrow> store \<Rightarrow> bool" where
  "keeps_pins s s' \<longleftrightarrow>
     (\<forall>r'\<in>set (s_rows s'). is_open r' \<longrightarrow> (\<exists>r\<in>set (s_rows s). is_open r \<and> pin r = pin r'))"

text \<open>The statements that neither place a run on a square nor pin it to a version.\<close>

inductive run_event :: "lib \<Rightarrow> store \<Rightarrow> store \<Rightarrow> bool" for L where
  claimed: "run_event L s (snd (claim_due_runs paused locked now limit secs s))"
| exited: "run_event L s (snd (exit_run now i reason lease nde ce steps s))"
| parked: "run_event L s (snd (park_run i err lease s))"
| retried: "run_event L s (snd (record_run_error now i err secs lease s))"
| replied: "run_event L s (snd (resume_run_by_id now m i nd patch facts s))"
| refreshed: "run_event L s (snd (refresh_run_facts now m i nd facts ptr s))"
| cancelled: "cancel_run L now m i reason occurred key pat steps s = Some (b, s') \<Longrightarrow> run_event L s s'"
| repeated: "patch_open_run now m wid key nd ev patch acc mf mv deb anyw s = Some (b, s') \<Longrightarrow> run_event L s s'"
| resumed: "run_event L s (snd (resume_run now m wid i s))"
| swept: "run_event L s (snd (sweep_exited_runs cutoff batch s))"

text \<open>An update that moves no open run's pin.\<close>

definition pins_kept :: "(run \<Rightarrow> bool) \<Rightarrow> (run \<Rightarrow> run) \<Rightarrow> bool" where
  "pins_kept P f \<longleftrightarrow> (\<forall>r. P r \<longrightarrow> is_open (f r) \<longrightarrow> is_open r \<and> pin (f r) = pin r)"

lemma keeps_rewrite:
  assumes "pins_kept P f"
  shows "keeps_pins s (rewrite P f s)"
  unfolding keeps_pins_def
proof (intro ballI impI)
  fix r' assume "r' \<in> set (s_rows (rewrite P f s))" and op: "is_open r'"
  then obtain r where r: "r \<in> set (s_rows s)" "r' = (if P r then f r else r)" by (auto simp: store_simps)
  then have "is_open r \<and> pin r = pin r'" using assms op by (cases "P r") (auto simp: pins_kept_def)
  then show "\<exists>r\<in>set (s_rows s). is_open r \<and> pin r = pin r'" using r(1) by blast
qed

lemma keeps_move: "pins_kept P f \<Longrightarrow> keeps_pins s (snd (move P f ok steps s))"
  using keeps_rewrite [of P f s] by (simp add: keeps_pins_def store_simps move_def)

lemma keeps_touch: "pins_kept P f \<Longrightarrow> keeps_pins s (snd (touch P f s))"
  by (simp add: touch_def keeps_rewrite)

lemmas pin_simps = pins_kept_def is_open_def pin_def

lemma run_event_pins: "run_event L s s' \<Longrightarrow> keeps_pins s s'"
proof (induction rule: run_event.induct)
  case (claimed s paused locked now limit secs)
  show ?case unfolding claim_due_runs_def Let_def snd_conv
    by (rule keeps_rewrite) (simp add: pin_simps claim_set_def)
next
  case (exited s now i reason lease nde ce steps)
  show ?case unfolding exit_run_def by (rule keeps_move) (simp add: pin_simps exit_set_def)
next
  case (parked s i err lease)
  show ?case unfolding park_run_def by (rule keeps_touch) (simp add: pin_simps park_set_def leased_def)
next
  case (retried s now i err secs lease)
  show ?case unfolding record_run_error_def by (rule keeps_touch) (simp add: pin_simps error_set_def)
next
  case (replied s now m i nd patch facts)
  show ?case unfolding resume_run_by_id_def
    by (rule keeps_touch) (auto simp: pin_simps woken_def standing_def)
next
  case (refreshed s now m i nd facts ptr)
  show ?case unfolding refresh_run_facts_def
    by (rule keeps_touch) (auto simp: pin_simps woken_def standing_def)
next
  case (cancelled now m i reason occurred key pat steps s b s')
  then have "s' = snd (move (cancel_guard L m i occurred key) (cancel_set now reason pat) same_square steps s)"
    by (auto simp: cancel_run_def split: if_splits)
  moreover have "pins_kept (cancel_guard L m i occurred key) (cancel_set now reason pat)"
    by (simp add: pin_simps cancel_set_def)
  ultimately show ?case using keeps_move by simp
next
  case (repeated now m wid key nd ev patch acc mf mv deb anyw s b s')
  then have "s' = snd (touch (repeat_guard m wid key nd ev anyw) (repeat_set now ev patch acc mf mv deb) s)"
    by (auto simp: patch_open_run_def Let_def split: if_splits)
  moreover have "pins_kept (repeat_guard m wid key nd ev anyw) (repeat_set now ev patch acc mf mv deb)"
    by (simp add: pin_simps repeat_set_def)
  ultimately show ?case using keeps_touch by simp
next
  case (resumed s now m wid i)
  show ?case unfolding resume_run_def snd_conv
    by (rule keeps_rewrite) (simp add: pin_simps resume_set_def resume_guard_def)
next
  case (swept s cutoff batch)
  show ?case using sweep_rows [of cutoff batch s] by (auto simp: keeps_pins_def)
qed

lemma stands_pin: "pin r = pin r' \<Longrightarrow> stands R db r = stands R db r'"
  by (simp add: stands_def pin_def)

lemma grows_runs [simp]: "grows db (db\<lparr>db_runs := s\<rparr>)"
  by (simp add: grows_def)

lemma stands_runs [simp]: "stands R (db\<lparr>db_runs := s\<rparr>) r = stands R db r"
  by (simp add: stands_def get_definition_def)

lemma event_stands:
  assumes "all_stand R db" and "keeps_pins (db_runs db) s'"
  shows "all_stand R (db\<lparr>db_runs := s'\<rparr>)"
  unfolding all_stand_def
proof (intro ballI impI)
  fix r' assume "r' \<in> set (s_rows (db_runs (db\<lparr>db_runs := s'\<rparr>)))" "is_open r'"
  then obtain r where "r \<in> set (s_rows (db_runs db))" "is_open r" "pin r = pin r'"
    using assms(2) by (auto simp: keeps_pins_def)
  then have "stands R db r'" using assms(1) stands_pin [of r r' R db] unfolding all_stand_def by blast
  then show "stands R (db\<lparr>db_runs := s'\<rparr>) r'" by simp
qed

lemma all_stand_same:
  "db_versions db' = db_versions db \<Longrightarrow> db_runs db' = db_runs db \<Longrightarrow> all_stand R db' = all_stand R db"
  by (simp add: all_stand_def stands_def get_definition_def)

section \<open>Everything that commits\<close>

text \<open>
  A run is born on the door of a live plan; the walker's write of a visit lands on the row it
  claimed, still pinned to the version the visit read and on the square it claimed it on.
\<close>

inductive commits :: "readers \<Rightarrow> lib \<Rightarrow> 'w ext \<Rightarrow> registry \<Rightarrow> plan_db \<Rightarrow> plan_db \<Rightarrow> bool" for R L X G where
  created: "create_workflow R L X cats i m name doc by db = Inr (p, db') \<Longrightarrow> commits R L X G db db'"
| saved: "update_draft R L X cats m wid doc db = Inr (q, db') \<Longrightarrow> commits R L X G db db'"
| published: "publish_in_txn R L X G cats m wid by id db = Inr (p, db') \<Longrightarrow> commits R L X G db db'"
| status_set: "set_status m wid status db = Inr (q, db') \<Longrightarrow> commits R L X G db db'"
| migrated: "migrate_forward R G m wid v v' db = Inr (k, db') \<Longrightarrow> commits R L X G db db'"
| enrolled: "p \<in> set (db_plans db) \<Longrightarrow> pl_status p = ''live'' \<Longrightarrow> pl_definition p = Some doc \<Longrightarrow>
    rd_definition R doc = Inr d \<Longrightarrow> e \<in> set (doors d) \<Longrightarrow>
    insert_enrollment now i (pl_merchant p) (pl_id p) (pl_version p) c (e_start e) wake ctx key (db_runs db) = Some (r, s') \<Longrightarrow>
    commits R L X G db (db\<lparr>db_runs := s'\<rparr>)"
| walked: "get_definition (r_merchant r) (r_workflow r) (r_version r) db = Some doc \<Longrightarrow>
    rd_definition R doc = Inr d \<Longrightarrow> advance_visit L X r d w = (Ok wr, w') \<Longrightarrow>
    (\<forall>row\<in>set (s_rows (db_runs db)). r_id row = r_id r \<longrightarrow> pin row = pin r) \<Longrightarrow>
    commits R L X G db (db\<lparr>db_runs := snd (perform now (r_id r) lease wr (db_runs db))\<rparr>)"
| event: "run_event L (db_runs db) s' \<Longrightarrow> commits R L X G db (db\<lparr>db_runs := s'\<rparr>)"

definition no_plans :: plan_db where
  "no_plans = \<lparr>db_plans = [], db_versions = [], db_runs = no_store\<rparr>"

inductive committed :: "readers \<Rightarrow> lib \<Rightarrow> 'w ext \<Rightarrow> registry \<Rightarrow> plan_db \<Rightarrow> bool" for R L X G where
  nothing: "committed R L X G no_plans"
| then_commits: "committed R L X G db \<Longrightarrow> commits R L X G db db' \<Longrightarrow> committed R L X G db'"

definition sound :: "readers \<Rightarrow> plan_db \<Rightarrow> bool" where
  "sound R db \<longleftrightarrow> plans_ok R db \<and> all_stand R db"

lemma runs_only:
  assumes "plans_ok R db"
  shows "plans_ok R (db\<lparr>db_runs := s\<rparr>)"
proof -
  let ?db = "db\<lparr>db_runs := s\<rparr>"
  have "plan_ok R ?db p = plan_ok R db p" for p by (rule plan_ok_same) simp
  moreover have "version_ok R db x \<Longrightarrow> version_ok R ?db x" for x by (rule version_ok_more) auto
  ultimately show ?thesis using assms by (auto simp: plans_ok_def)
qed

lemma door_start_known:
  assumes "door_problems d = []" and "e \<in> set (doors d)"
  shows "e_start e \<in> n_id ` set (d_nodes d)"
proof -
  have "each_door d seen es = [] \<Longrightarrow> e \<in> set es \<Longrightarrow> node_table d (e_start e) \<noteq> None" for seen es
    by (induction es arbitrary: seen) (auto simp: start_problems_def Let_def split: if_splits)
  then show ?thesis using assms by (auto simp: door_problems_def node_table_None)
qed

lemma enrolled_kept:
  assumes ok: "sound R db" and p: "p \<in> set (db_plans db)" "pl_definition p = Some doc"
    and rd: "rd_definition R doc = Inr d" and e: "e \<in> set (doors d)"
    and ins: "insert_enrollment now i (pl_merchant p) (pl_id p) (pl_version p) c (e_start e) wake ctx key (db_runs db) = Some (r, s')"
  shows "sound R (db\<lparr>db_runs := s'\<rparr>)"
proof -
  let ?db = "db\<lparr>db_runs := s'\<rparr>"
  have live: "get_definition (pl_merchant p) (pl_id p) (pl_version p) db = Some doc"
    using ok p by (simp add: sound_def plans_ok_def plan_ok_def)
  then obtain x where "x \<in> set (db_versions db)" "vr_definition x = doc" using get_definition_row by blast
  then have "lawful R doc" using ok by (auto simp: sound_def plans_ok_def version_ok_def)
  then have st: "e_start e \<in> n_id ` set (d_nodes d)"
    using rd door_start_known [OF _ e] by (auto simp: lawful_def)
  have rows: "s_rows s' = s_rows (db_runs db) @ [born now i (pl_merchant p) (pl_id p) (pl_version p) c (e_start e) wake ctx key]"
    using ins by (auto simp: insert_enrollment_def Let_def split: if_splits)
  have "stands R ?db (born now i (pl_merchant p) (pl_id p) (pl_version p) c (e_start e) wake ctx key)"
    using live rd st by (auto simp: stands_def born_def get_definition_def)
  moreover have "stands R db q \<Longrightarrow> stands R ?db q" for q by simp
  ultimately show ?thesis using ok runs_only by (auto simp: sound_def all_stand_def rows)
qed

lemma walked_kept:
  assumes ok: "sound R db"
    and doc: "get_definition (r_merchant r) (r_workflow r) (r_version r) db = Some doc" "rd_definition R doc = Inr d"
    and visit: "advance_visit L X r d w = (Ok wr, w')"
    and row: "\<forall>row\<in>set (s_rows (db_runs db)). r_id row = r_id r \<longrightarrow> pin row = pin r"
  shows "sound R (db\<lparr>db_runs := snd (perform now (r_id r) lease wr (db_runs db))\<rparr>)"
proof (cases wr)
  case (W_advance nde wake c arrived ss)
  let ?s = "snd (perform now (r_id r) lease wr (db_runs db))" let ?db = "db\<lparr>db_runs := ?s\<rparr>"
  have nde: "nde \<in> n_id ` set (d_nodes d)"
    using advance_visit_ok [OF visit] W_advance by (auto simp: node_table_None)
  have rows: "s_rows ?s = map (\<lambda>x. if leased (r_id r) lease x then advance_set nde wake c arrived x else x) (s_rows (db_runs db))"
    by (simp add: W_advance advance_run_def store_simps)
  have old: "stands R db q \<Longrightarrow> stands R ?db q" for q by simp
  have "stands R ?db (advance_set nde wake c arrived x)" if x: "x \<in> set (s_rows (db_runs db))" "leased (r_id r) lease x" for x
  proof -
    have "pin x = pin r" using row x by (simp add: leased_def)
    then show ?thesis using doc nde by (auto simp: stands_def advance_set_def pin_def get_definition_def)
  qed
  moreover have "is_open q \<Longrightarrow> stands R ?db q" if "q \<in> set (s_rows (db_runs db))" for q
    using ok that old by (simp add: sound_def all_stand_def)
  ultimately have "all_stand R ?db" unfolding all_stand_def by (auto simp: rows)
  then show ?thesis using ok runs_only by (simp add: sound_def)
next
  case (W_exit reason nde c ss)
  then have "run_event L (db_runs db) (snd (perform now (r_id r) lease wr (db_runs db)))"
    by (simp add: run_event.exited)
  then show ?thesis using ok runs_only event_stands run_event_pins by (metis sound_def)
qed (use advance_visit_ok [OF visit] in simp_all)

lemma commits_kept:
  assumes "numbers R" and "commits R L X G db db'" and "sound R db"
  shows "sound R db' \<and> grows db db'"
  using assms(2,3)
proof (induction rule: commits.induct)
  case (created cats i m name doc u db p db')
  then show ?case using create_kept [OF assms(1) _ created(1)] all_stand_same [of db' db R]
    by (simp add: sound_def grows_def)
next
  case (saved cats m wid doc db q db')
  then show ?case using save_kept [OF assms(1) _ saved(1)] all_stand_same [of db' db R]
    by (simp add: sound_def grows_def)
next
  case (published cats m wid u db p db')
  then show ?case using publish_kept [OF _ _ published(1)] by (simp add: sound_def)
next
  case (status_set m wid status db q db')
  then show ?case using status_kept [OF _ status_set(1)] all_stand_same [of db' db R]
    by (auto simp: sound_def grows_def)
next
  case (migrated m wid v v' db k db')
  then show ?case using migrate_kept [OF _ _ migrated(1)] by (simp add: sound_def grows_def)
next
  case (enrolled p db doc d e now i c wake ctx key r s')
  then show ?case using enrolled_kept by simp
next
  case (walked r db doc d w wr w' now lease)
  then show ?case using walked_kept by simp
next
  case (event db s')
  then show ?case using runs_only event_stands run_event_pins by (simp add: sound_def)
qed


lemma committed_sound:
  assumes "numbers R"
  shows "committed R L X G db \<Longrightarrow> sound R db"
proof (induction rule: committed.induct)
  case nothing
  show ?case by (simp add: sound_def plans_ok_def all_stand_def no_plans_def no_store_def)
next
  case (then_commits db db')
  then show ?case using commits_kept [OF assms] by blast
qed
section \<open>What it means for a run\<close>


text \<open>
  A published version never changes and never goes away: whatever commits afterwards, its number
  reads the same document -- what the walker's cache of documents rests on.
\<close>

theorem published_version_is_immutable:
  assumes "committed R L X G db" and "numbers R" and "(commits R L X G)\<^sup>*\<^sup>* db db'"
    and "get_definition m wid v db = Some doc"
  shows "get_definition m wid v db' = Some doc"
proof -
  have "sound R db' \<and> grows db db'" using assms(3)
  proof (induction rule: rtranclp_induct)
    case base
    then show ?case using committed_sound [OF assms(2,1)] by simp
  next
    case (step y z)
    then show ?case using commits_kept [OF assms(2) step(2)] grows_trans by blast
  qed
  then show ?thesis using get_definition_grows assms(4) by blast
qed

text \<open>
  The document that goes live need not be the one that was approved: the publish atom reads the
  draft without a lock and copies the column later, so a draft saved between the two goes live
  unread, under a version row -- and a mode -- that hold the approved one.
\<close>

theorem publish_takes_a_draft_it_never_read:
  assumes ok: "plans_ok R db"
    and pub: "publish_in_txn R L X G cats m wid by (\<lambda>x. snd (save_draft m wid other x)) db = Inr (p', db')"
  shows "pl_definition p' = Some other \<and> p' \<in> set (db_plans db')
    \<and> (\<exists>p draft. get_workflow m wid db = Some p \<and> pl_draft p = Some draft
         \<and> get_definition m wid (pl_version p') db' = Some draft)"
proof -
  obtain p draft d where g: "get_workflow m wid db = Some p"
      and j: "judge_draft R L X G cats m wid p db = Inr (draft, d)"
    using pub by (auto simp: publish_in_txn_def split: option.splits sum.splits)
  have p: "p \<in> set (db_plans db)" "is_plan m wid p" using get_workflow_Some [OF g] by simp_all
  have dr: "pl_draft p = Some draft"
    using j by (auto simp: judge_draft_def Let_def split: option.splits if_splits sum.splits)
  let ?mid = "snd (save_draft m wid other db)" and ?P = "\<lambda>q. is_plan m wid q \<and> pl_draft q \<noteq> None"
  obtain db1 db2 where a: "apply_publish m wid ?mid = (Some p', db1)"
      and i: "insert_version m wid (pl_version p') draft (d_on_publish d) by db1 = Some db2"
      and db': "db_plans db' = db_plans db2" "db_versions db' = db_versions db2"
    using pub g j by (auto simp: publish_in_txn_def split: option.splits prod.splits if_splits)
  have a2: "map_option publish_set (find ?P (db_plans ?mid)) = Some p'" and d1: "db1 = snd (rewrite_plans ?P publish_set ?mid)"
    using a by (simp_all add: apply_publish_def prod_eq_iff)
  then obtain q where q: "find ?P (db_plans ?mid) = Some q" and p': "p' = publish_set q" by auto
  have q2: "q \<in> set (db_plans ?mid)" "?P q" using find_Some_set [OF q] by blast+
  have "pl_draft q = Some other"
  proof -
    obtain q0 where "q = (if is_plan m wid q0 then q0\<lparr>pl_draft := Some other\<rparr> else q0)"
      using q2(1) unfolding save_draft_def rewrite_plans_simps set_map by (elim imageE)
    then show ?thesis using q2(2) by (cases "is_plan m wid q0") auto
  qed
  moreover have "p' \<in> set (db_plans db1)"
  proof -
    have "(if ?P q then publish_set q else q) \<in> set (db_plans db1)"
      unfolding d1 rewrite_plans_simps set_map by (rule imageI [OF q2(1)])
    then show ?thesis using q2(2) p' by simp
  qed
  moreover have db2: "db2 = db1\<lparr>db_versions := db_versions db1 @ [\<lparr>vr_merchant = m, vr_workflow = wid,
        vr_version = pl_version p', vr_definition = draft, vr_mode = d_on_publish d, vr_by = by\<rparr>]\<rparr>"
    and new: "\<not> list_ex (is_version m wid (pl_version p')) (db_versions db1)"
    using i by (simp_all add: insert_version_def split: if_splits)
  moreover have "get_definition m wid (pl_version p') db2 = Some draft"
    using find_none_key [OF new] by (simp add: db2 get_definition_def find_append is_version_def)
  ultimately show ?thesis
    using g dr p' db' by (auto simp: publish_set_def get_definition_def)
qed

section \<open>Instances\<close>

definition demo_readers :: readers where
  "demo_readers = \<lparr>rd_stages = \<lambda>_. Inl [], rd_number = \<lambda>m. JInt \<lfloor>m\<rfloor>, rd_definition = \<lambda>_. Inr board_plan,
     rd_entry = \<lambda>_. None, rd_door = \<lambda>_. None\<rparr>"

definition demo_registry :: registry where
  "demo_registry = \<lparr>rg_channel = \<lambda>_. False, rg_verdict = \<lambda>_ _ _. None\<rparr>"

definition demo_doc :: dict where "demo_doc = [(''name'', JStr ''first'')]"
definition demo_doc2 :: dict where "demo_doc2 = [(''name'', JStr ''second'')]"

definition demo_plan :: plan_row where
  "demo_plan = \<lparr>pl_id = ''w1'', pl_merchant = ''m1'', pl_name = ''Plan'', pl_status = ''draft'', pl_version = 0,
     pl_definition = None, pl_draft = Some demo_doc, pl_created_by = None\<rparr>"

definition drafted_db :: plan_db where
  "drafted_db = no_plans\<lparr>db_plans := [demo_plan]\<rparr>"

definition live_db :: plan_db where
  "live_db = no_plans\<lparr>db_plans := [publish_set demo_plan], db_versions :=
     [\<lparr>vr_merchant = ''m1'', vr_workflow = ''w1'', vr_version = 1, vr_definition = demo_doc,
       vr_mode = d_on_publish board_plan, vr_by = None\<rparr>]\<rparr>"

lemma demo_numbers: "numbers demo_readers"
  by (simp add: numbers_def demo_readers_def)

lemma demo_laws: "document_problems india_lib quiet_ext None board_plan = []"
  by code_simp

lemma demo_settled: "expand_stages st fl demo_doc = Inr demo_doc"
  by (simp add: expand_stages_def demo_doc_def dget_def)

lemma demo_valid: "validate_definition demo_readers india_lib quiet_ext demo_doc [] JNull None = []"
  unfolding validate_definition_def demo_settled
  by (simp add: demo_readers_def demo_laws stranding_problems_def retired_words_def demo_doc_def dget_def)

definition demo_run :: run where
  "demo_run = born 0 ''r1'' ''m1'' ''w1'' 1 ''c1'' ''s'' 0 [] ''c1''"

definition running_db :: plan_db where
  "running_db = live_db\<lparr>db_runs := no_store\<lparr>s_rows := [demo_run]\<rparr>\<rparr>"

lemma demo_drafted: "committed demo_readers india_lib quiet_ext demo_registry drafted_db"
proof -
  have "stored_form demo_readers demo_doc = demo_doc" by (simp add: stored_form_def demo_settled)
  then have "create_workflow demo_readers india_lib quiet_ext None ''w1'' ''m1'' ''Plan'' demo_doc None no_plans
      = Inr (demo_plan, drafted_db)"
    by (simp add: create_workflow_def demo_valid insert_workflow_def Let_def drafted_db_def no_plans_def demo_plan_def)
  then show ?thesis using committed.nothing commits.created by (blast intro: committed.then_commits)
qed

lemma demo_judged:
  "judge_draft demo_readers india_lib quiet_ext demo_registry None ''m1'' ''w1'' demo_plan drafted_db
     = Inr (demo_doc, board_plan)"
proof -
  have occ: "occupied_nodes ''m1'' ''w1'' (db_runs drafted_db) = []" by code_simp
  have le: "live_entry demo_plan = JNull" by (simp add: live_entry_def demo_plan_def)
  have sf: "stored_form demo_readers demo_doc = demo_doc" by (simp add: stored_form_def demo_settled)
  have eq: "py_equal (JObj demo_doc) (JObj demo_doc)" by code_simp
  have tp: "template_problems demo_registry ''m1'' board_plan = []" by code_simp
  have dr: "pl_draft demo_plan = Some demo_doc" by (simp add: demo_plan_def)
  have ne: "demo_doc \<noteq> []" by (simp add: demo_doc_def)
  have rd: "rd_definition demo_readers demo_doc = Inr board_plan" by (simp add: demo_readers_def)
  show ?thesis
    unfolding judge_draft_def dr option.case occ le Let_def demo_valid sf by (simp add: ne eq rd tp del: py_equal.simps)
qed

lemma demo_published:
  "publish_in_txn demo_readers india_lib quiet_ext demo_registry None ''m1'' ''w1'' None id drafted_db
     = Inr (publish_set demo_plan, live_db)"
proof -
  have g: "get_workflow ''m1'' ''w1'' drafted_db = Some demo_plan" by code_simp
  have a: "apply_publish ''m1'' ''w1'' drafted_db = (Some (publish_set demo_plan), no_plans\<lparr>db_plans := [publish_set demo_plan]\<rparr>)"
    by (simp add: apply_publish_def rewrite_plans_def drafted_db_def no_plans_def is_plan_def demo_plan_def)
  have v: "pl_version (publish_set demo_plan) = 1" by (simp add: publish_set_def demo_plan_def)
  have i: "insert_version ''m1'' ''w1'' 1 demo_doc (d_on_publish board_plan) None (no_plans\<lparr>db_plans := [publish_set demo_plan]\<rparr>)
      = Some live_db"
    by (simp add: insert_version_def no_plans_def is_plan_def publish_set_def demo_plan_def live_db_def)
  have m: "d_on_publish board_plan \<noteq> Migrate" by code_simp
  show ?thesis unfolding publish_in_txn_def g by (simp add: demo_judged a v i m)
qed

lemma demo_live: "committed demo_readers india_lib quiet_ext demo_registry live_db"
  using demo_drafted commits.published [OF demo_published] by (rule committed.then_commits)

lemma demo_running: "committed demo_readers india_lib quiet_ext demo_registry running_db"
proof -
  obtain e where e: "e \<in> set (doors board_plan)" "e_start e = ''s''"
  proof -
    have "list_ex (\<lambda>e. e_start e = ''s'') (doors board_plan)" by code_simp
    then show thesis using that by (auto simp: list_ex_iff)
  qed
  have ins: "insert_enrollment 0 ''r1'' ''m1'' ''w1'' 1 ''c1'' (e_start e) 0 [] ''c1'' (db_runs live_db)
      = Some (demo_run, no_store\<lparr>s_rows := [demo_run]\<rparr>)"
    by (simp add: e insert_enrollment_def Let_def demo_run_def live_db_def no_plans_def no_store_def)
  have p: "publish_set demo_plan \<in> set (db_plans live_db)" by (simp add: live_db_def)
  have f: "pl_status (publish_set demo_plan) = ''live''" "pl_definition (publish_set demo_plan) = Some demo_doc"
      "pl_merchant (publish_set demo_plan) = ''m1''" "pl_id (publish_set demo_plan) = ''w1''" "pl_version (publish_set demo_plan) = 1"
    by (simp_all add: publish_set_def demo_plan_def)
  have "commits demo_readers india_lib quiet_ext demo_registry live_db (live_db\<lparr>db_runs := no_store\<lparr>s_rows := [demo_run]\<rparr>\<rparr>)"
    by (rule commits.enrolled [OF p f(1,2) _ e(1), unfolded f, OF _ ins]) (simp add: demo_readers_def)
  then show ?thesis unfolding running_db_def using demo_live by (rule committed.then_commits [rotated])
qed


theorem published_version_is_immutable_witness:
  "get_definition ''m1'' ''w1'' 1 (snd (case set_status ''m1'' ''w1'' ''paused'' live_db of Inr x \<Rightarrow> x | _ \<Rightarrow> (None, no_plans)))
     = Some demo_doc"
proof -
  obtain q db' where s: "set_status ''m1'' ''w1'' ''paused'' live_db = Inr (q, db')"
  proof -
    have "case set_status ''m1'' ''w1'' ''paused'' live_db of Inr x \<Rightarrow> True | Inl e \<Rightarrow> False" by code_simp
    then show thesis using that by (auto split: sum.splits)
  qed
  have st: "(commits demo_readers india_lib quiet_ext demo_registry)\<^sup>*\<^sup>* live_db db'"
    using commits.status_set [OF s] by blast
  have d: "get_definition ''m1'' ''w1'' 1 live_db = Some demo_doc"
    by (simp add: live_db_def get_definition_def is_version_def no_plans_def)
  show ?thesis using published_version_is_immutable [OF demo_live demo_numbers st d] s by simp
qed

theorem publish_takes_a_draft_it_never_read_witness:
  "\<exists>p' db'. publish_in_txn demo_readers india_lib quiet_ext demo_registry None ''m1'' ''w1'' None
       (\<lambda>x. snd (save_draft ''m1'' ''w1'' demo_doc2 x)) drafted_db = Inr (p', db')
     \<and> pl_definition p' = Some demo_doc2 \<and> get_definition ''m1'' ''w1'' (pl_version p') db' = Some demo_doc"
proof -
  let ?pub = "publish_in_txn demo_readers india_lib quiet_ext demo_registry None ''m1'' ''w1'' None
       (\<lambda>x. snd (save_draft ''m1'' ''w1'' demo_doc2 x)) drafted_db"
  have g: "get_workflow ''m1'' ''w1'' drafted_db = Some demo_plan" by code_simp
  have m: "d_on_publish board_plan \<noteq> Migrate" by code_simp
  have "\<exists>p' db'. ?pub = Inr (p', db')"
    unfolding publish_in_txn_def g option.case demo_judged sum.case prod.case
    by (simp add: m apply_publish_def save_draft_def rewrite_plans_def drafted_db_def no_plans_def
        is_plan_def demo_plan_def publish_set_def insert_version_def)
  then obtain p' db' where pub: "?pub = Inr (p', db')" by blast
  have ok: "plans_ok demo_readers drafted_db"
    using committed_sound [OF demo_numbers demo_drafted] by (simp add: sound_def)
  have "get_workflow ''m1'' ''w1'' drafted_db = Some p \<Longrightarrow> pl_draft p = Some draft \<Longrightarrow> draft = demo_doc" for p draft
    using g by (auto simp: demo_plan_def)
  then show ?thesis using publish_takes_a_draft_it_never_read [OF ok pub] pub by blast
qed

end
