(* ===== verification/Definitions.thy ===== *)
theory Definitions
  imports Plan_Store_Laws
begin

text \<open>
  The cache of parsed documents, \<open>app/crm/outreach/definitions.py\<close>: which document a run executes.
  The cache is an ordered dictionary under (plan, version), the least recently used first; it is
  never invalidated and only evicts, past 512 documents.  The read of a version row suspends the
  coroutine, so between the lookup and the store other runs' lookups and other transactions go by.
\<close>

section \<open>The ordered dictionary\<close>

type_synonym ('k, 'v) ordered_dict = "('k \<times> 'v) list"

definition move_to_end :: "'k \<Rightarrow> ('k, 'v) ordered_dict \<Rightarrow> ('k, 'v) ordered_dict" where
  "move_to_end k c = (case map_of c k of None \<Rightarrow> c | Some v \<Rightarrow> AList.delete k c @ [(k, v)])"

text \<open>\<open>while len(c) > size: c.popitem(last=False)\<close>.\<close>

function evict :: "nat \<Rightarrow> ('k, 'v) ordered_dict \<Rightarrow> ('k, 'v) ordered_dict" where
  "evict n c = (if n < length c then evict n (tl c) else c)"
  by pat_completeness auto
termination
  by (relation "measure (\<lambda>(n, c). length c)") auto

declare evict.simps [simp del]

text \<open>An assignment keeps the place of a key that is there, and appends a new one.\<close>

definition keep :: "nat \<Rightarrow> 'k \<Rightarrow> 'v \<Rightarrow> ('k, 'v) ordered_dict \<Rightarrow> ('k, 'v) ordered_dict" where
  "keep n k v c = evict n (AList.update k v c)"

section \<open>The document of a run\<close>

definition definition_cache_size :: nat where
  "definition_cache_size = 512"

type_synonym document_cache = "(string \<times> int, workflow_definition) ordered_dict"

definition cache_key :: "run \<Rightarrow> string \<times> int" where
  "cache_key r = (r_workflow r, r_version r)"

text \<open>
  \<open>read\<close> is the point read of the version row and \<open>meanwhile\<close> what became of the cache while it was
  awaited.  \<open>Inl\<close> is a document the model refuses, which raises.
\<close>

definition definition_for ::
    "readers \<Rightarrow> (string \<Rightarrow> string \<Rightarrow> int \<Rightarrow> dict option) \<Rightarrow> (document_cache \<Rightarrow> document_cache)
     \<Rightarrow> run \<Rightarrow> document_cache \<Rightarrow> (string + workflow_definition option) \<times> document_cache" where
  "definition_for R read meanwhile r c =
     (case map_of c (cache_key r) of
        Some d \<Rightarrow> (Inr (Some d), move_to_end (cache_key r) c)
      | None \<Rightarrow> (case read (r_merchant r) (r_workflow r) (r_version r) of
          None \<Rightarrow> (Inr None, meanwhile c)
        | Some doc \<Rightarrow> (case rd_definition R doc of
            Inl e \<Rightarrow> (Inl e, meanwhile c)
          | Inr d \<Rightarrow> (Inr (Some d), keep definition_cache_size (cache_key r) d (meanwhile c)))))"

section \<open>A cache over something that only grows\<close>

lemma evict_drop: "evict n c = drop (length c - n) c"
proof (induction n c rule: evict.induct)
  case (1 n c)
  show ?case
  proof (cases "n < length c")
    case True
    then obtain x xs where "c = x # xs" by (cases c) auto
    then show ?thesis using 1 True by (subst evict.simps) (auto simp: Suc_diff_le)
  qed (subst evict.simps, simp)
qed

lemma evict_length: "length (evict n c) = min n (length c)"
  by (simp add: evict_drop)

lemma evict_set: "set (evict n c) \<subseteq> set c"
  by (simp add: evict_drop set_drop_subset)

lemma keep_length: "length (keep n k v c) \<le> n"
  by (simp add: keep_def evict_length)

lemma keep_keys: "distinct (map fst c) \<Longrightarrow> distinct (map fst (keep n k v c))"
  by (simp add: keep_def evict_drop drop_map [symmetric] distinct_drop distinct_update)

lemma update_entries: "distinct (map fst c) \<Longrightarrow> x \<in> set (AList.update k v c) \<Longrightarrow> x = (k, v) \<or> x \<in> set c"
  by (induction c) (auto split: if_splits)

lemma keep_entries: "distinct (map fst c) \<Longrightarrow> x \<in> set (keep n k v c) \<Longrightarrow> x = (k, v) \<or> x \<in> set c"
  using evict_set update_entries unfolding keep_def by (metis subsetD)

lemma delete_length: "distinct (map fst c) \<Longrightarrow> k \<in> fst ` set c \<Longrightarrow> Suc (length (AList.delete k c)) = length c"
proof (induction c)
  case (Cons a c)
  show ?case
  proof (cases "k = fst a")
    case True
    then show ?thesis using Cons.prems by (cases a) (simp add: delete_id)
  next
    case False
    then show ?thesis using Cons by (cases a) auto
  qed
qed simp

lemma move_length: "distinct (map fst c) \<Longrightarrow> length (move_to_end k c) = length c"
proof (cases "map_of c k")
  case (Some v)
  assume "distinct (map fst c)"
  moreover have "k \<in> fst ` set c" using Some by (force dest: map_of_SomeD)
  ultimately show ?thesis using Some delete_length [of c k] by (simp add: move_to_end_def)
qed (simp add: move_to_end_def)

lemma move_keys: "distinct (map fst c) \<Longrightarrow> distinct (map fst (move_to_end k c))"
  by (auto simp: move_to_end_def AList.delete_eq distinct_map_filter split: option.splits)

lemma move_entries: "set (move_to_end k c) \<subseteq> set c"
  by (auto simp: move_to_end_def AList.delete_eq dest: map_of_SomeD split: option.splits)

section \<open>The contract\<close>

text \<open>
  \<open>before\<close> and \<open>after\<close> are what can be read under a key at two moments, with only additions in
  between.  Then a cache that was true before stays true, whatever it forgets and moves.
\<close>

locale growing =
  fixes before :: "'k \<Rightarrow> 'v option" and after :: "'k \<Rightarrow> 'v option"
  assumes persists: "before k = Some v \<Longrightarrow> after k = Some v"
begin

definition true_before :: "('k, 'v) ordered_dict \<Rightarrow> bool" where
  "true_before c \<longleftrightarrow> (\<forall>(k, v)\<in>set c. before k = Some v)"

definition true_after :: "('k, 'v) ordered_dict \<Rightarrow> bool" where
  "true_after c \<longleftrightarrow> (\<forall>(k, v)\<in>set c. after k = Some v)"

lemma still_true: "true_before c \<Longrightarrow> true_after c"
  using persists by (auto simp: true_before_def true_after_def)

lemma moved_true: "true_before c \<Longrightarrow> true_after (move_to_end k c)"
  using persists move_entries by (fastforce simp: true_before_def true_after_def)

lemma kept_true:
  assumes "distinct (map fst c)" and "true_before c" and "before k = Some v"
  shows "true_after (keep n k v c)"
proof -
  have "after k' = Some v'" if "(k', v') \<in> set (keep n k v c)" for k' v'
    using keep_entries [OF assms(1) that] assms(2,3) persists by (auto simp: true_before_def)
  then show ?thesis by (auto simp: true_after_def)
qed

lemma found_true: "true_before c \<Longrightarrow> map_of c k = Some v \<Longrightarrow> after k = Some v"
  using persists map_of_SomeD [of c k v] by (auto simp: true_before_def)

end

text \<open>
  What can be read of a plan's version: the plan is named by its id alone, as the cache names it.
\<close>

definition pinned_document :: "readers \<Rightarrow> plan_db \<Rightarrow> string \<times> int \<Rightarrow> workflow_definition option" where
  "pinned_document R db k =
     (case find (\<lambda>x. (vr_workflow x, vr_version x) = k) (db_versions db) of
        None \<Rightarrow> None
      | Some x \<Rightarrow> (case rd_definition R (vr_definition x) of Inl e \<Rightarrow> None | Inr d \<Rightarrow> Some d))"

interpretation versions: growing "pinned_document R db" "pinned_document R (db\<lparr>db_versions := db_versions db @ newer\<rparr>)"
  by unfold_locales (auto simp: pinned_document_def find_append split: option.splits)

text \<open>Under the tables' invariant the plan's id names the merchant too.\<close>

lemma pinned_document_row:
  assumes ok: "plans_ok R db" and g: "get_definition m wid v db = Some doc"
  shows "pinned_document R db (wid, v) = (case rd_definition R doc of Inl e \<Rightarrow> None | Inr d \<Rightarrow> Some d)"
proof -
  obtain x where x: "x \<in> set (db_versions db)" "is_version m wid v x" "vr_definition x = doc"
    using get_definition_row [OF g] by blast
  let ?P = "\<lambda>x. (vr_workflow x, vr_version x) = (wid, v)"
  obtain y where y: "find ?P (db_versions db) = Some y"
    using x by (cases "find ?P (db_versions db)") (auto simp: find_None_iff is_version_def)
  have y2: "y \<in> set (db_versions db)" "?P y" using find_Some_set [OF y] by blast+
  obtain p q where p: "p \<in> set (db_plans db)" "is_plan (vr_merchant x) (vr_workflow x) p"
      and q: "q \<in> set (db_plans db)" "is_plan (vr_merchant y) (vr_workflow y) q"
    using ok x(1) y2(1) unfolding plans_ok_def version_ok_def by blast
  have "pl_id p = pl_id q" using p(2) q(2) x(2) y2(2) by (simp add: is_plan_def is_version_def)
  then have "p = q" using ok p(1) q(1) by (auto simp: plans_ok_def distinct_map dest: inj_onD)
  then have "version_key x = version_key y"
    using p(2) q(2) x(2) y2(2) by (simp add: version_key_def is_plan_def is_version_def)
  then have "x = y" using ok x(1) y2(1) by (auto simp: plans_ok_def distinct_map dest: inj_onD)
  then show ?thesis using y x(3) by (simp add: pinned_document_def)
qed
section \<open>A process that serves runs\<close>

text \<open>
  The database, one process's cache, and its reads under way: a document read and parsed, not yet
  stored.
\<close>

record server =
  sv_db :: plan_db
  sv_cache :: document_cache
  sv_read :: "((string \<times> int) \<times> workflow_definition) list"

inductive serves :: "readers \<Rightarrow> lib \<Rightarrow> 'w ext \<Rightarrow> registry \<Rightarrow> server \<Rightarrow> server \<Rightarrow> bool" for R L X G where
  others: "commits R L X G (sv_db s) db' \<Longrightarrow> serves R L X G s (s\<lparr>sv_db := db'\<rparr>)"
| cached: "map_of (sv_cache s) (cache_key r) = Some d \<Longrightarrow>
    serves R L X G s (s\<lparr>sv_cache := snd (definition_for R rd mw r (sv_cache s))\<rparr>)"
| reads: "get_definition (r_merchant r) (r_workflow r) (r_version r) (sv_db s) = Some doc \<Longrightarrow>
    rd_definition R doc = Inr d \<Longrightarrow>
    serves R L X G s (s\<lparr>sv_read := (cache_key r, d) # sv_read s\<rparr>)"
| stores: "(k, d) \<in> set (sv_read s) \<Longrightarrow>
    serves R L X G s (s\<lparr>sv_cache := keep definition_cache_size k d (sv_cache s), sv_read := remove1 (k, d) (sv_read s)\<rparr>)"

inductive serving :: "readers \<Rightarrow> lib \<Rightarrow> 'w ext \<Rightarrow> registry \<Rightarrow> server \<Rightarrow> bool" for R L X G where
  start: "serving R L X G \<lparr>sv_db = no_plans, sv_cache = [], sv_read = []\<rparr>"
| go: "serving R L X G s \<Longrightarrow> serves R L X G s s' \<Longrightarrow> serving R L X G s'"

definition server_ok :: "readers \<Rightarrow> server \<Rightarrow> bool" where
  "server_ok R s \<longleftrightarrow> sound R (sv_db s) \<and> distinct (map fst (sv_cache s))
     \<and> length (sv_cache s) \<le> definition_cache_size
     \<and> (\<forall>(k, d)\<in>set (sv_cache s) \<union> set (sv_read s). pinned_document R (sv_db s) k = Some d)"

lemma pinned_grows:
  assumes "grows db db'" and "pinned_document R db k = Some d"
  shows "pinned_document R db' k = Some d"
proof -
  obtain newer where n: "db_versions db' = db_versions db @ newer" using assms(1) by (auto simp: grows_def)
  have "pinned_document R db' k = pinned_document R (db\<lparr>db_versions := db_versions db @ newer\<rparr>) k"
    by (simp add: pinned_document_def n)
  then show ?thesis using versions.persists [OF assms(2)] by simp
qed

lemma serves_kept:
  assumes "numbers R" and "serves R L X G s s'" and "server_ok R s"
  shows "server_ok R s'"
  using assms(2,3)
proof (induction rule: serves.induct)
  case (others s db')
  then have k: "sound R db'" "grows (sv_db s) db'"
    using commits_kept [OF assms(1) others(1)] by (simp_all add: server_ok_def)
  then show ?case using others(2) pinned_grows [OF k(2)] by (fastforce simp: server_ok_def)
next
  case (cached s r d rd mw)
  then have "snd (definition_for R rd mw r (sv_cache s)) = move_to_end (cache_key r) (sv_cache s)"
    by (simp add: definition_for_def)
  moreover have sub: "set (move_to_end (cache_key r) (sv_cache s)) \<union> set (sv_read s) \<subseteq> set (sv_cache s) \<union> set (sv_read s)"
    by (intro Un_mono move_entries subset_refl)
  moreover have "\<forall>x\<in>set (move_to_end (cache_key r) (sv_cache s)) \<union> set (sv_read s).
      case x of (k, d) \<Rightarrow> pinned_document R (sv_db s) k = Some d"
    using cached(2) sub unfolding server_ok_def by blast
  ultimately show ?case using cached(2) move_keys [of "sv_cache s"] move_length [of "sv_cache s"]
    unfolding server_ok_def by simp
next
  case (reads r s doc d)
  then have "pinned_document R (sv_db s) (cache_key r) = Some d"
    using pinned_document_row [of R "sv_db s"] by (simp add: server_ok_def sound_def cache_key_def)
  then show ?case using reads(3) by (auto simp: server_ok_def)
next
  case (stores k d s)
  have d: "distinct (map fst (sv_cache s))" using stores(2) by (simp add: server_ok_def)
  have "pinned_document R (sv_db s) k' = Some d'"
    if "(k', d') \<in> set (keep definition_cache_size k d (sv_cache s)) \<union> set (remove1 (k, d) (sv_read s))" for k' d'
  proof -
    have "(k', d') \<in> set (sv_cache s) \<union> set (sv_read s)"
      using that keep_entries [OF d] stores(1) set_remove1_subset [of "(k, d)" "sv_read s"] by blast
    then show ?thesis using stores(2) by (auto simp: server_ok_def)
  qed
  then show ?case using stores(2) keep_keys [OF d] keep_length unfolding server_ok_def by auto
qed

lemma serving_ok:
  assumes "numbers R"
  shows "serving R L X G s \<Longrightarrow> server_ok R s"
proof (induction rule: serving.induct)
  case start
  have "sound R no_plans" using committed_sound [OF assms committed.nothing] .
  then show ?case by (simp add: server_ok_def)
next
  case (go s s')
  then show ?case using serves_kept [OF assms] by blast
qed



end
