(* ===== verification/Enrol.thy ===== *)
theory Enrol
  imports Definitions
begin

text \<open>
  The one creator of runs, \<open>app/crm/outreach/enrol.py\<close>: the admission guards of a door, the first
  alarm, and the atom that judges the history and inserts the row.  The plan is the row the caller
  read, \<open>wall\<close> the process's clock and \<open>now\<close> the transaction's.  A refusal is a value; what raises
  is \<open>Raised\<close>.  The advisory locks on templates change no row and are left out.
\<close>

section \<open>The guards\<close>

definition admission :: "door \<Rightarrow> nat \<Rightarrow> time option \<Rightarrow> time \<Rightarrow> bool \<times> string" where
  "admission e runs latest now =
     (if runs \<noteq> 0 \<and> \<not> e_reenter e then (False, ''reenter_disabled'')
      else if (case latest of None \<Rightarrow> False
               | Some t \<Rightarrow> 0 < e_cooldown_hours e \<and> now < t + td_hours (e_cooldown_hours e))
      then (False, ''cooldown_active'')
      else (True, ''admitted''))"

definition first_wake :: "lib \<Rightarrow> node \<Rightarrow> time \<Rightarrow> rat \<Rightarrow> time" where
  "first_wake L start now max_age_days =
     (if is_wait start then alarm L start now (now + td_days max_age_days) else now)"

section \<open>The atom\<close>

datatype enrolment = Enrolled run | Skipped string | Raised string

definition enrol_in_txn ::
    "lib \<Rightarrow> time \<Rightarrow> time \<Rightarrow> string \<Rightarrow> plan_row \<Rightarrow> workflow_definition \<Rightarrow> door \<Rightarrow> string \<Rightarrow> dict \<Rightarrow> string
     \<Rightarrow> store \<Rightarrow> enrolment \<times> store" where
  "enrol_in_txn L wall now i p d e c ctx key s =
     (let source = dget ctx ''source_event_id'' in
      if truthy source \<and> source_event_used (pl_merchant p) (pl_id p) c (py_str source) s
      then (Skipped ''source_event_replayed'', s)
      else let (runs, latest) = admission_facts (pl_merchant p) (pl_id p) c (if opt_text (e_key e) then Some key else None) s;
               (admit, reason) = admission e runs latest wall
           in if \<not> admit then (Skipped reason, s)
              else case first_node d (e_start e) of
                None \<Rightarrow> (Raised ''door starts on unknown node'', s)
              | Some start \<Rightarrow>
                  (case insert_enrollment now i (pl_merchant p) (pl_id p) (pl_version p) c (e_start e)
                          (first_wake L start wall (x_max_age_days (d_exits d))) ctx key s of
                     None \<Rightarrow> (Skipped ''open_run_exists'', s)
                   | Some (r, s') \<Rightarrow> (Enrolled r, s')))"

text \<open>
  The caller's merchant is the plan's.  Without a door the plan's first one stands in; without a
  key the customer's id.
\<close>

definition enrol ::
    "readers \<Rightarrow> lib \<Rightarrow> time \<Rightarrow> time \<Rightarrow> string \<Rightarrow> plan_row \<Rightarrow> string \<Rightarrow> dict \<Rightarrow> string option \<Rightarrow> door option
     \<Rightarrow> store \<Rightarrow> enrolment \<times> store" where
  "enrol R L wall now i p c ctx key door s =
     (if pl_status p \<noteq> ''live'' \<or> (case pl_definition p of None \<Rightarrow> True | Some doc \<Rightarrow> doc = [])
      then (Skipped ''not_live'', s)
      else case rd_definition R (the (pl_definition p)) of
        Inl err \<Rightarrow> (Raised err, s)
      | Inr d \<Rightarrow>
          (case (case door of Some e \<Rightarrow> Some e | None \<Rightarrow> (case doors d of [] \<Rightarrow> None | e # _ \<Rightarrow> Some e)) of
             None \<Rightarrow> (Raised ''no door'', s)
           | Some e \<Rightarrow> enrol_in_txn L wall now i p d e c ctx (if opt_text key then the key else c) s))"

section \<open>What a run's birth means\<close>

lemma insert_enrollment_Some:
  "insert_enrollment now i m wid v c nd wake ctx key s = Some (r, s') \<longleftrightarrow>
     (\<forall>x\<in>set (s_rows s). \<not> (is_open x \<and> open_key x = (m, wid, key)) \<and> r_id x \<noteq> i)
     \<and> r = born now i m wid v c nd wake ctx key \<and> s' = s\<lparr>s_rows := s_rows s @ [r]\<rparr>"
  by (auto simp: insert_enrollment_def Let_def list_ex_iff)

lemma enrol_cases:
  assumes "enrol R L wall now i p c ctx key (Some e) s = (out, s')"
  shows "(\<exists>r. out = Enrolled r) \<or> s' = s"
  using assms
  by (auto simp: enrol_def enrol_in_txn_def Let_def split: if_splits option.splits sum.splits prod.splits)

text \<open>The runs an admission judges, and what they say.\<close>

definition history :: "string \<Rightarrow> string \<Rightarrow> string \<Rightarrow> string option \<Rightarrow> store \<Rightarrow> run list" where
  "history m wid c key s =
     filter (\<lambda>r. r_merchant r = m \<and> r_workflow r = wid \<and> r_customer r = c
               \<and> (case key of None \<Rightarrow> True | Some k \<Rightarrow> r_key r = k)) (s_rows s)"

lemma fold_max_run: "fold (\<lambda>r t. max (r_entered r) t) rs t = Max (insert t (r_entered ` set rs))" for t :: time
proof (induction rs arbitrary: t)
  case (Cons r rs)
  have "Max (insert (max (r_entered r) t) (r_entered ` set rs)) = Max (insert t (insert (r_entered r) (r_entered ` set rs)))"
  proof (cases "rs = []")
    case False
    then show ?thesis by (simp add: max.left_commute max.assoc)
  qed (simp add: max.commute)
  then show ?case using Cons by simp
qed simp

lemma admission_facts_history:
  "admission_facts m wid c key s =
     (length (history m wid c key s),
      if history m wid c key s = [] then None else Some (Max (r_entered ` set (history m wid c key s))))"
proof -
  let ?h = "history m wid c key s"
  have "fold (\<lambda>r t. max (r_entered r) t) (tl ?h) (r_entered (hd ?h)) = Max (r_entered ` set ?h)" if "?h \<noteq> []"
    using that fold_max_run [of "tl ?h" "r_entered (hd ?h)"] by (cases ?h) simp_all
  then show ?thesis unfolding admission_facts_def history_def [symmetric] Let_def by simp
qed

definition admits :: "door \<Rightarrow> run list \<Rightarrow> time \<Rightarrow> bool" where
  "admits e h now \<longleftrightarrow> (h = [] \<or> e_reenter e)
     \<and> (0 < e_cooldown_hours e \<longrightarrow> (\<forall>r\<in>set h. r_entered r + td_hours (e_cooldown_hours e) \<le> now))"

lemma admission_admits:
  "fst (admission e (length h) (if h = [] then None else Some (Max (r_entered ` set h))) now) = admits e h now"
proof (cases "h = []")
  case False
  have "(Max (r_entered ` set h) + x \<le> now) = (\<forall>r\<in>set h. r_entered r + x \<le> now)" for x
    using False Max_le_iff [of "r_entered ` set h" "now - x"] by (simp add: le_diff_eq)
  then have "(now < Max (r_entered ` set h) + x) = (\<not> (\<forall>r\<in>set h. r_entered r + x \<le> now))" for x
    by (metis not_le)
  then show ?thesis using False unfolding admission_def admits_def by (simp del: not_all)
qed (simp add: admission_def admits_def)

text \<open>Everything a door asks before it lets a customer in.\<close>

definition admitted :: "plan_row \<Rightarrow> door \<Rightarrow> string \<Rightarrow> dict \<Rightarrow> string \<Rightarrow> time \<Rightarrow> store \<Rightarrow> bool" where
  "admitted p e c ctx key wall s \<longleftrightarrow>
     pl_status p = ''live''
     \<and> \<not> (truthy (dget ctx ''source_event_id'')
          \<and> source_event_used (pl_merchant p) (pl_id p) c (py_str (dget ctx ''source_event_id'')) s)
     \<and> admits e (history (pl_merchant p) (pl_id p) c (if opt_text (e_key e) then Some key else None) s) wall
     \<and> \<not> (\<exists>x\<in>set (s_rows s). is_open x \<and> open_key x = (pl_merchant p, pl_id p, key))"

text \<open>
  C10 A run starts exactly when the door's words say so: the plan is live, the letter started no run
  before, the history -- of the key on a keyed door, of the customer on another -- is empty or the
  door lets her back in, every run of it is older than the cooldown, and no run of the key is
  open.  Then one row is born, waiting on the door's square under the plan's version, and nothing
  else changes; otherwise nothing does.
\<close>

theorem enrol_exactly_when_admitted:
  assumes doc: "pl_definition p = Some doc" "doc \<noteq> []" "rd_definition R doc = Inr d"
    and start: "first_node d (e_start e) = Some start" and new: "\<forall>x\<in>set (s_rows s). r_id x \<noteq> i"
    and k: "k = (if opt_text key then the key else c)"
  shows "case enrol R L wall now i p c ctx key (Some e) s of
      (Enrolled r, s') \<Rightarrow> admitted p e c ctx k wall s \<and> s' = s\<lparr>s_rows := s_rows s @ [r]\<rparr>
        \<and> r = born now i (pl_merchant p) (pl_id p) (pl_version p) c (e_start e)
                (first_wake L start wall (x_max_age_days (d_exits d))) ctx k
    | (Skipped reason, s') \<Rightarrow> \<not> admitted p e c ctx k wall s \<and> s' = s
    | (Raised err, s') \<Rightarrow> False"
proof -
  let ?h = "history (pl_merchant p) (pl_id p) c (if opt_text (e_key e) then Some k else None) s"
  let ?ins = "insert_enrollment now i (pl_merchant p) (pl_id p) (pl_version p) c (e_start e)
      (first_wake L start wall (x_max_age_days (d_exits d))) ctx k s"
  obtain ok reason where adm: "admission e (length ?h) (if ?h = [] then None else Some (Max (r_entered ` set ?h))) wall = (ok, reason)"
      and okh: "ok = admits e ?h wall"
    using admission_admits [of e ?h wall] by (metis prod.collapse)
  have ins: "?ins = (if \<exists>x\<in>set (s_rows s). is_open x \<and> open_key x = (pl_merchant p, pl_id p, k) then None
      else let r = born now i (pl_merchant p) (pl_id p) (pl_version p) c (e_start e)
             (first_wake L start wall (x_max_age_days (d_exits d))) ctx k in Some (r, s\<lparr>s_rows := s_rows s @ [r]\<rparr>))"
    using new by (auto simp: insert_enrollment_def list_ex_iff)
  show ?thesis
  proof (cases "pl_status p = ''live''")
    case False
    then show ?thesis by (simp add: enrol_def admitted_def)
  next
    case True
    then have "enrol R L wall now i p c ctx key (Some e) s = enrol_in_txn L wall now i p d e c ctx k s"
      using doc by (simp add: enrol_def k)
    then show ?thesis
      unfolding enrol_in_txn_def admission_facts_history Let_def prod.case adm start option.case ins
      using True okh by (auto simp: admitted_def Let_def)
  qed
qed

text \<open>A cart's letter on the live demonstration plan.\<close>

definition demo_context :: dict where
  "demo_context = [(''cart'', JInt 1), (''source_event_id'', JStr ''e1''), (''phone'', JStr ''+919876543210'')]"

lemma demo_start: "first_node board_plan ''s'' = Some half_split"
  by (simp add: first_node_def board_plan_def half_split_def blank_node_def)

theorem enrol_exactly_when_admitted_witness:
  "admitted (publish_set demo_plan) (cart_door\<lparr>e_start := ''s''\<rparr>) ''c1'' demo_context ''c1'' 7 no_store
   \<and> (\<exists>r s'. enrol demo_readers india_lib 7 8 ''r1'' (publish_set demo_plan) ''c1'' demo_context None
        (Some (cart_door\<lparr>e_start := ''s''\<rparr>)) no_store = (Enrolled r, s') \<and> s_rows s' = [r] \<and> r_node r = ''s'')"
proof -
  let ?e = "cart_door\<lparr>e_start := ''s''\<rparr>"
  have adm: "admitted (publish_set demo_plan) ?e ''c1'' demo_context ''c1'' 7 no_store"
    by (simp add: admitted_def publish_set_def demo_plan_def source_event_used_def no_store_def admits_def history_def)
  have f: "pl_definition (publish_set demo_plan) = Some demo_doc" "demo_doc \<noteq> []"
      "rd_definition demo_readers demo_doc = Inr board_plan" "first_node board_plan (e_start ?e) = Some half_split"
      "\<forall>x\<in>set (s_rows no_store). r_id x \<noteq> ''r1''"
    by (simp_all add: publish_set_def demo_plan_def demo_doc_def demo_readers_def demo_start no_store_def)
  have "''c1'' = (if opt_text None then the None else ''c1'')" by (simp add: opt_text_def)
  from enrol_exactly_when_admitted [OF f this, where L = india_lib and wall = 7 and now = 8 and ctx = demo_context] adm
  have "case enrol demo_readers india_lib 7 8 ''r1'' (publish_set demo_plan) ''c1'' demo_context None (Some ?e) no_store of
      (Enrolled r, s') \<Rightarrow> s_rows s' = [r] \<and> r_node r = ''s'' | _ \<Rightarrow> False"
    by (simp add: no_store_def born_def split: prod.splits enrolment.splits)
  then show ?thesis using adm by (auto split: prod.splits enrolment.splits)
qed

end
