(* ===== verification/Normalize.thy ===== *)
theory Normalize
  imports Prelude
begin

text \<open>
  The stored form of a contact handle, \<open>app/crm/shared/normalize.py\<close>: identity, platform's
  suppression list and the letters' consumer all write and probe the form computed here.
\<close>

definition phone_char :: "char \<Rightarrow> bool" where
  "phone_char c \<longleftrightarrow> is_digit c \<or> c = CHR ''+''"

text \<open>\<open>^\+[1-9][0-9]{6,14}$\<close>.\<close>

definition e164 :: "string \<Rightarrow> bool" where
  "e164 s \<longleftrightarrow> (case s of
       p # d # ds \<Rightarrow> p = CHR ''+'' \<and> is_digit d \<and> d \<noteq> CHR ''0'' \<and> list_all is_digit ds
                    \<and> 6 \<le> length ds \<and> length ds \<le> 14
     | _ \<Rightarrow> False)"

definition with_country :: "string \<Rightarrow> string" where
  "with_country s =
     (if prefix_of ''+'' s then s
      else if length s = 10 then ''+91'' @ s
      else if length s = 11 \<and> prefix_of ''0'' s then ''+91'' @ drop 1 s
      else if length s = 12 \<and> prefix_of ''91'' s then ''+'' @ s
      else ''+'' @ s)"

definition normalize_phone :: "string \<Rightarrow> string option" where
  "normalize_phone raw =
     (let s = filter phone_char raw;
          t = with_country (if prefix_of ''00'' s then ''+'' @ drop 2 s else s)
      in if e164 t then Some t else None)"

definition normalize_email :: "string \<Rightarrow> string option" where
  "normalize_email raw = (let e = lower (strip raw) in if CHR ''@'' \<in> set e then Some e else None)"

section \<open>Facts\<close>

lemma e164_shape:
  "e164 s \<Longrightarrow> prefix_of ''+'' s \<and> filter phone_char s = s \<and> \<not> prefix_of ''00'' s"
  by (auto simp: e164_def phone_char_def prefix_of_def list_all_iff split: list.splits intro!: filter_True)

lemma normalize_e164: "normalize_phone raw = Some p \<Longrightarrow> e164 p"
  by (auto simp: normalize_phone_def Let_def split: if_splits)

text \<open>The stored form is the probed form.\<close>

lemma normalize_again:
  assumes "normalize_phone raw = Some p"
  shows "normalize_phone p = Some p"
  using normalize_e164 [OF assms] e164_shape [of p] by (simp add: normalize_phone_def Let_def with_country_def)

text \<open>However punctuated, only the digits and the plus count.\<close>

lemma normalize_punctuation: "normalize_phone raw = normalize_phone (filter phone_char raw)"
  by (simp add: normalize_phone_def)

lemma digits_kept: "list_all is_digit s \<Longrightarrow> filter phone_char s = s"
  by (auto simp: list_all_iff phone_char_def intro!: filter_True)

lemma char_facts: "is_digit (CHR ''0'')" "is_digit (CHR ''9'')" "is_digit (CHR ''1'')" "\<not> is_digit (CHR ''+'')"
  by code_simp+

text \<open>
  C12 A phone has one stored form: it is E.164 text, it is its own stored form, and every way an
  Indian customer's number is written -- bare, after a trunk zero, after 91, +91 or 0091, with any
  punctuation -- has the same one, so a suppression finds every spelling.
\<close>

theorem phone_has_one_form:
  assumes d: "list_all is_digit d" "length d = 10" "hd d \<noteq> CHR ''0''"
    and raw: "filter phone_char raw \<in> {d, ''0'' @ d, ''91'' @ d, ''+91'' @ d, ''0091'' @ d}"
  shows "normalize_phone raw = Some (''+91'' @ d) \<and> e164 (''+91'' @ d)
    \<and> normalize_phone (''+91'' @ d) = Some (''+91'' @ d)"
proof -
  obtain c cs where dc: "d = c # cs" using d(2) by (cases d) auto
  have nz: "c \<noteq> CHR ''0''" and cd: "is_digit c" "list_all is_digit cs" and l: "length cs = 9"
    using d dc by simp_all
  have c: "c \<noteq> CHR ''+''" using cd(1) char_facts(4) by auto
  have e: "e164 (''+91'' @ d)" using d char_facts by (simp add: e164_def)
  have base: "normalize_phone s = Some (''+91'' @ d)" if "s \<in> {d, ''0'' @ d, ''91'' @ d, ''+91'' @ d, ''0091'' @ d}" for s
  proof -
    have f: "filter phone_char s = s"
      using that digits_kept [OF d(1)] char_facts by (auto simp: phone_char_def)
    show ?thesis
      using that e nz c l unfolding normalize_phone_def f Let_def
      by (auto simp: with_country_def prefix_of_def dc)
  qed
  show ?thesis using base [OF raw] normalize_punctuation [of raw] base [of "''+91'' @ d"] e by simp
qed

theorem phone_has_one_form_witness:
  "normalize_phone ''+91 98765-43210'' = Some ''+919876543210''"
proof -
  have d: "list_all is_digit ''9876543210''" "length ''9876543210'' = 10" "hd ''9876543210'' \<noteq> CHR ''0''"
    by code_simp+
  have f: "filter phone_char ''+91 98765-43210'' = ''+91'' @ ''9876543210''" by code_simp
  show ?thesis using phone_has_one_form [OF d, of "''+91 98765-43210''"] f by simp
qed

end
