(* ===== verification/Manifest.thy ===== *)
theory Manifest
  imports Prelude
begin

text \<open>
  The manifest of outbound messages: the table \<open>crm_message\<close> with the statements of
  \<open>app/crm/connectivity/db/queries/message.py\<close>, its words of
  \<open>app/crm/connectivity/vocabulary/status.py\<close> and \<open>reasons.py\<close>.  A statement is one atomic step on
  the list of the rows; the clock \<open>now()\<close> is an argument.  The table's CHECK closes the nine status
  words, so they are a datatype.
\<close>

section \<open>Words\<close>

datatype message_status =
  M_queued | M_sending | M_blocked | M_accepted | M_sent | M_delivered | M_read | M_failed | M_dead

definition reason_attempts_exhausted :: string where
  "reason_attempts_exhausted = ''max_attempts_exhausted''"

definition reason_reclaimed_stale_claim :: string where
  "reason_reclaimed_stale_claim = ''reclaimed_stale_claim''"

section \<open>A row\<close>

record manifest_row =
  mg_id :: string
  mg_merchant :: string
  mg_customer :: string
  mg_channel :: string
  mg_address :: string
  mg_binding :: "string option"
  mg_source_kind :: string
  mg_source_id :: "string option"
  mg_purpose :: string
  mg_template :: "string option"
  mg_variables :: dict
  mg_dedupe :: string
  mg_status :: message_status
  mg_reason :: "string option"
  mg_provider :: "string option"
  mg_attempt :: nat
  mg_claimed :: "time option"
  mg_next :: time
  mg_sent_at :: "time option"
  mg_delivered_at :: "time option"
  mg_read_at :: "time option"
  mg_pricing :: "string option"

text \<open>\<open>COALESCE\<close>.\<close>

definition or_else :: "'a option \<Rightarrow> 'a option \<Rightarrow> 'a option" where
  "or_else x y = (case x of None \<Rightarrow> y | Some v \<Rightarrow> Some v)"

section \<open>The producer's statement\<close>

text \<open>
  \<open>i\<close> is the uuid the table draws.  \<open>None\<close>: the dedupe unique absorbed the row.
\<close>

definition insert_message ::
    "time \<Rightarrow> string \<Rightarrow> string \<Rightarrow> string \<Rightarrow> string \<Rightarrow> string \<Rightarrow> string \<Rightarrow> string option \<Rightarrow> string
     \<Rightarrow> string option \<Rightarrow> dict \<Rightarrow> string \<Rightarrow> manifest_row list \<Rightarrow> string option \<times> manifest_row list" where
  "insert_message now i merchant customer channel address kind source purpose template vars dedupe ms =
     (if list_ex (\<lambda>m. mg_merchant m = merchant \<and> mg_dedupe m = dedupe) ms then (None, ms)
      else (Some i, ms @ [\<lparr>mg_id = i, mg_merchant = merchant, mg_customer = customer, mg_channel = channel,
        mg_address = address, mg_binding = None, mg_source_kind = kind, mg_source_id = source,
        mg_purpose = purpose, mg_template = template, mg_variables = vars, mg_dedupe = dedupe,
        mg_status = M_queued, mg_reason = None, mg_provider = None, mg_attempt = 0, mg_claimed = None,
        mg_next = now, mg_sent_at = None, mg_delivered_at = None, mg_read_at = None, mg_pricing = None\<rparr>]))"

section \<open>The dispatcher's statements\<close>

definition rewrite_rows :: "(manifest_row \<Rightarrow> bool) \<Rightarrow> (manifest_row \<Rightarrow> manifest_row) \<Rightarrow> manifest_row list \<Rightarrow> manifest_row list" where
  "rewrite_rows P f ms = map (\<lambda>m. if P m then f m else m) ms"

definition is_queued_due :: "time \<Rightarrow> manifest_row \<Rightarrow> bool" where
  "is_queued_due now m \<longleftrightarrow> mg_status m = M_queued \<and> mg_next m \<le> now"

definition claim_mark :: "time \<Rightarrow> manifest_row \<Rightarrow> manifest_row" where
  "claim_mark now m = m\<lparr>mg_status := M_sending, mg_claimed := Some now, mg_attempt := mg_attempt m + 1\<rparr>"

text \<open>\<open>locked\<close> names the rows other workers hold at the moment, which \<open>SKIP LOCKED\<close> steps over.\<close>

definition claimed_messages :: "(string \<Rightarrow> bool) \<Rightarrow> time \<Rightarrow> nat \<Rightarrow> manifest_row list \<Rightarrow> string set" where
  "claimed_messages locked now batch ms =
     mg_id ` set (take batch (sort_key mg_next (filter (\<lambda>m. is_queued_due now m \<and> \<not> locked (mg_id m)) ms)))"

definition claim_queued_messages ::
    "(string \<Rightarrow> bool) \<Rightarrow> time \<Rightarrow> nat \<Rightarrow> manifest_row list \<Rightarrow> manifest_row list \<times> manifest_row list" where
  "claim_queued_messages locked now batch ms =
     (let P = (\<lambda>m. mg_id m \<in> claimed_messages locked now batch ms)
      in (map (claim_mark now) (filter P ms), rewrite_rows P (claim_mark now) ms))"

definition is_stale :: "time \<Rightarrow> nat \<Rightarrow> manifest_row \<Rightarrow> bool" where
  "is_stale now stale_minutes m \<longleftrightarrow>
     mg_status m = M_sending \<and> (case mg_claimed m of None \<Rightarrow> False | Some t \<Rightarrow> t < now - int stale_minutes * minute_us)"

definition reclaim_mark :: "nat \<Rightarrow> manifest_row \<Rightarrow> manifest_row" where
  "reclaim_mark max_attempts m =
     m\<lparr>mg_status := (if max_attempts \<le> mg_attempt m then M_dead else M_queued),
       mg_reason := Some (if max_attempts \<le> mg_attempt m then reason_attempts_exhausted else reason_reclaimed_stale_claim),
       mg_claimed := None\<rparr>"

definition requeue_stale_claims ::
    "time \<Rightarrow> nat \<Rightarrow> nat \<Rightarrow> manifest_row list \<Rightarrow> (string list \<times> string list) \<times> manifest_row list" where
  "requeue_stale_claims now stale_minutes max_attempts ms =
     (let hit = map (reclaim_mark max_attempts) (filter (is_stale now stale_minutes) ms)
      in ((map mg_id (filter (\<lambda>m. mg_status m = M_queued) hit), map mg_id (filter (\<lambda>m. mg_status m \<noteq> M_queued) hit)),
          rewrite_rows (is_stale now stale_minutes) (reclaim_mark max_attempts) ms))"

text \<open>Pinned to the claim that did the send: the attempt is the generation of the claim.\<close>

definition holds_claim :: "string \<Rightarrow> nat \<Rightarrow> manifest_row \<Rightarrow> bool" where
  "holds_claim i attempt m \<longleftrightarrow> mg_id m = i \<and> mg_status m = M_sending \<and> mg_attempt m = attempt"

definition outcome_mark ::
    "time \<Rightarrow> message_status \<Rightarrow> string option \<Rightarrow> string option \<Rightarrow> bool \<Rightarrow> int option \<Rightarrow> string option \<Rightarrow> manifest_row \<Rightarrow> manifest_row" where
  "outcome_mark now status reason provider mark_sent retry binding m =
     m\<lparr>mg_status := status, mg_reason := reason, mg_provider := or_else provider (mg_provider m),
       mg_binding := or_else (mg_binding m) binding, mg_claimed := None,
       mg_sent_at := (if mark_sent then Some now else mg_sent_at m),
       mg_next := (case retry of None \<Rightarrow> mg_next m | Some s \<Rightarrow> now + s * second_us)\<rparr>"

text \<open>\<open>None\<close>: the unique index on the provider's id refuses the statement, which raises.\<close>

definition apply_outcome ::
    "time \<Rightarrow> string \<Rightarrow> message_status \<Rightarrow> string option \<Rightarrow> string option \<Rightarrow> bool \<Rightarrow> nat \<Rightarrow> int option \<Rightarrow> string option
     \<Rightarrow> manifest_row list \<Rightarrow> (bool \<times> manifest_row list) option" where
  "apply_outcome now i status reason provider mark_sent attempt retry binding ms =
     (let hit = holds_claim i attempt
      in if list_ex hit ms \<and> provider \<noteq> None \<and> list_ex (\<lambda>m. \<not> hit m \<and> mg_provider m = provider) ms then None
         else Some (list_ex hit ms, rewrite_rows hit (outcome_mark now status reason provider mark_sent retry binding) ms))"

section \<open>Receipts\<close>

fun rank :: "message_status \<Rightarrow> nat" where
  "rank M_accepted = 1" | "rank M_sent = 2" | "rank M_delivered = 3" | "rank M_read = 4"
| "rank M_queued = 0" | "rank M_sending = 0" | "rank M_blocked = 0" | "rank M_failed = 0" | "rank M_dead = 0"

definition fails :: "message_status \<Rightarrow> manifest_row \<Rightarrow> bool" where
  "fails state m \<longleftrightarrow> state = M_failed \<and> mg_status m \<in> {M_accepted, M_sent}"

definition moved_on :: "message_status \<Rightarrow> manifest_row \<Rightarrow> bool" where
  "moved_on state m \<longleftrightarrow> mg_status m \<notin> {M_failed, M_dead} \<and> rank state > rank (mg_status m)"

definition receipt_mark ::
    "time \<Rightarrow> message_status \<Rightarrow> time option \<Rightarrow> string option \<Rightarrow> string option \<Rightarrow> manifest_row \<Rightarrow> manifest_row" where
  "receipt_mark now state occurred error pricing m =
     (let seen = (\<lambda>stamp. or_else stamp (or_else occurred (Some now)))
      in m\<lparr>mg_status := (if fails state m then M_failed else if state \<noteq> M_failed \<and> moved_on state m then state else mg_status m),
           mg_reason := (if fails state m then or_else error (mg_reason m) else mg_reason m),
           mg_sent_at := (if state \<noteq> M_failed then seen (mg_sent_at m) else mg_sent_at m),
           mg_delivered_at := (if state \<in> {M_delivered, M_read} then seen (mg_delivered_at m) else mg_delivered_at m),
           mg_read_at := (if state = M_read then seen (mg_read_at m) else mg_read_at m),
           mg_pricing := or_else pricing (mg_pricing m)\<rparr>)"

definition names :: "string \<Rightarrow> string \<Rightarrow> manifest_row \<Rightarrow> bool" where
  "names merchant provider m \<longleftrightarrow> mg_merchant m = merchant \<and> mg_provider m = Some provider"

text \<open>The status after the receipt, or \<open>None\<close> when no row of this merchant carries the id.\<close>

definition apply_receipt ::
    "time \<Rightarrow> string \<Rightarrow> string \<Rightarrow> message_status \<Rightarrow> time option \<Rightarrow> string option \<Rightarrow> string option
     \<Rightarrow> manifest_row list \<Rightarrow> message_status option \<times> manifest_row list" where
  "apply_receipt now merchant provider state occurred error pricing ms =
     (let f = receipt_mark now state occurred error pricing
      in (map_option (\<lambda>m. mg_status (f m)) (find (names merchant provider) ms),
          rewrite_rows (names merchant provider) f ms))"

section \<open>Whose send it was\<close>

record sent_row =
  sr_kind :: string
  sr_source_id :: "string option"
  sr_dedupe :: string

definition send_behind :: "manifest_row list \<Rightarrow> string \<Rightarrow> string \<Rightarrow> sent_row option" where
  "send_behind ms merchant provider =
     map_option (\<lambda>m. \<lparr>sr_kind = mg_source_kind m, sr_source_id = mg_source_id m, sr_dedupe = mg_dedupe m\<rparr>)
       (find (names merchant provider) ms)"

end
