(* ===== verification/Entry.thy ===== *)
theory Entry
  imports Enrol Normalize Manifest
begin

text \<open>
  The letters' consumer, \<open>app/crm/outreach/entry.py\<close>, with the addressing of replies,
  \<open>app/crm/outreach/reply_attribution.py\<close>: one attributed letter ends, wakes or refreshes the
  customer's open runs, each judged by the version it is pinned to, and then knocks at the doors of
  the live plans.  The manifest's lookup of a sent message is connectivity's and an argument.  One
  letter is consumed in one go here; each statement re-checks its row, and what other transactions
  do between two of them is the business of the statements' own laws.
\<close>

section \<open>Whose reply it is\<close>

text \<open>\<open>s.partition(":")\<close>, without the separator.\<close>

definition partition_colon :: "string \<Rightarrow> string \<times> string" where
  "partition_colon s = (takeWhile (\<lambda>c. c \<noteq> CHR '':'') s, drop 1 (dropWhile (\<lambda>c. c \<noteq> CHR '':'') s))"

definition addressed_run ::
    "lib \<Rightarrow> (string \<Rightarrow> string \<Rightarrow> sent_row option) \<Rightarrow> letter \<Rightarrow> string option" where
  "addressed_run L behind ev =
     (let thread = field_value (ev_payload ev) (canonical_path L ''replied_to'') (derive_for L (ev_source ev) (ev_topic ev))
      in if \<not> truthy thread then None
         else case behind (ev_merchant ev) (py_str thread) of
           None \<Rightarrow> None
         | Some m \<Rightarrow>
             if sr_kind m \<noteq> ''workflow'' \<or> \<not> opt_text (sr_source_id m) then None
             else let (named, nd) = partition_colon (sr_dedupe m)
                  in if named \<noteq> the (sr_source_id m) \<or> nd = [] then None else Some named)"

section \<open>What a letter says\<close>

definition phone_paths :: "string list" where
  "phone_paths = [''customer_mobile_number'', ''phone'']"

definition phone_from_payload :: "dict \<Rightarrow> string option" where
  "phone_from_payload payload =
     (let raw = (case find (\<lambda>k. truthy (dget payload k)) phone_paths of
            Some k \<Rightarrow> Some (py_str (dget payload k))
          | None \<Rightarrow> (case dget payload ''customer'' of
                JObj c \<Rightarrow> (if truthy (dget c ''phone'') then Some (py_str (dget c ''phone'')) else None)
              | _ \<Rightarrow> None))
      in case raw of None \<Rightarrow> None
         | Some s \<Rightarrow> Some (case normalize_phone s of Some p \<Rightarrow> p | None \<Rightarrow> s))"

definition context_from_payload :: "int \<Rightarrow> dict \<Rightarrow> dict" where
  "context_from_payload max_chars payload =
     filter (\<lambda>(k, v). \<not> is_bookkeeping k \<and> (v = JNull \<or> is_scalar v) \<and> int (length (py_str v)) \<le> max_chars) payload"

definition letter_words :: "int \<Rightarrow> letter \<Rightarrow> dict \<Rightarrow> dict" where
  "letter_words max_chars ev variables =
     dmerge (context_from_payload max_chars (ev_payload ev)) (context_from_payload max_chars variables)"

definition amount_keys :: "string list" where
  "amount_keys = [''total_price'', ''amount'']"

definition goal_patch :: "letter \<Rightarrow> dict" where
  "goal_patch ev = [(''goal'', JObj ([(''topic'', JStr (ev_topic ev)), (''event_id'', JStr (ev_id ev))]
     @ (case find (\<lambda>k. finite_number (dget (ev_payload ev) k) \<noteq> None) amount_keys of
          None \<Rightarrow> [] | Some k \<Rightarrow> [(''amount'', dget (ev_payload ev) k)])))]"

definition call_report_sources :: "string list" where
  "call_report_sources = [''telephony'']"

definition is_about :: "lib \<Rightarrow> node \<Rightarrow> letter \<Rightarrow> run \<Rightarrow> bool" where
  "is_about L n ev r =
     (case n_match n of None \<Rightarrow> True
      | Some m \<Rightarrow>
          (let claimed = field_value (ev_payload ev) (canonical_path L (m_payload m)) (derive_for L (ev_source ev) (ev_topic ev));
               mine = (if m_run m = ''id'' then JStr (r_id r) else dget (r_context r) (m_run m))
           in claimed \<noteq> JNull \<and> mine \<noteq> JNull \<and> py_str claimed = py_str mine))"

definition answer_for :: "lib \<Rightarrow> node \<Rightarrow> letter \<Rightarrow> string option" where
  "answer_for L n ev =
     (if \<not> listens n \<or> ev_topic ev \<notin> set (n_topics n) then None
      else if n_key n = Some topic_key then Some (ev_topic ev)
      else let v = field_value (ev_payload ev) (canonical_path L (case n_key n of None \<Rightarrow> [] | Some k \<Rightarrow> k))
                     (derive_for L (ev_source ev) (ev_topic ev))
           in if v = JNull then None else Some (py_str v))"

definition reply_patch :: "node \<Rightarrow> letter \<Rightarrow> string \<Rightarrow> dict" where
  "reply_patch n ev answer =
     [(reply_key (n_id n), JStr answer), (cut_short_by_key, JStr (ev_id ev))]
     @ (if ev_source ev \<notin> set call_report_sources then [(latest_letter_key, JStr (n_id n))] else [])"

section \<open>Her open runs\<close>

text \<open>
  The key a tier is judged by: \<open>None\<close> skips the tier, \<open>Some None\<close> is a tier without one.
\<close>

definition tier_key :: "run \<Rightarrow> goal \<Rightarrow> letter \<Rightarrow> (string \<times> string) option option" where
  "tier_key r g ev =
     (case g_key g of None \<Rightarrow> Some None
      | Some k \<Rightarrow>
          (let v = dget (ev_payload ev) (gk_event k);
               mine = (case map_of (r_context r) (gk_run k) of None \<Rightarrow> [] | Some u \<Rightarrow> py_str u)
           in if blank v then None
              else if mine \<noteq> py_str v then None
              else Some (Some (gk_run k, py_str v))))"

text \<open>\<open>None\<close> is the statement that raises.\<close>

fun end_on_goal ::
    "lib \<Rightarrow> time \<Rightarrow> time \<Rightarrow> run \<Rightarrow> workflow_definition \<Rightarrow> letter \<Rightarrow> goal list \<Rightarrow> store \<Rightarrow> (bool \<times> store) option" where
  "end_on_goal L wall now r d ev [] s = Some (False, s)"
| "end_on_goal L wall now r d ev (g # gs) s =
     (case tier_key r g ev of
        None \<Rightarrow> end_on_goal L wall now r d ev gs s
      | Some key \<Rightarrow>
          if \<not> conditions_match L (g_where g) ev then end_on_goal L wall now r d ev gs s
          else case cancel_run L now (r_merchant r) (r_id r) (g_exit_reason g) (ev_occurred ev) key (Some (goal_patch ev))
                      (as_rows (closing r (Some d) (g_exit_reason g) wall (Some (ev_id ev)))) s of
            None \<Rightarrow> None
          | Some (True, s') \<Rightarrow> Some (True, s')
          | Some (False, s') \<Rightarrow> end_on_goal L wall now r d ev gs s')"

definition offer :: "lib \<Rightarrow> time \<Rightarrow> run \<Rightarrow> letter \<Rightarrow> dict \<Rightarrow> node \<Rightarrow> store \<Rightarrow> store" where
  "offer L now r ev facts n s =
     (if listens n \<and> ev_topic ev \<in> set (n_topics n) \<and> is_about L n ev r then
        (case answer_for L n ev of None \<Rightarrow> s
         | Some a \<Rightarrow> snd (resume_run_by_id now (r_merchant r) (r_id r) (n_id n) (reply_patch n ev a) facts s))
      else s)"

definition takes_letter :: "lib \<Rightarrow> run \<Rightarrow> letter \<Rightarrow> node \<Rightarrow> bool" where
  "takes_letter L r ev n \<longleftrightarrow> listens n \<and> ev_topic ev \<in> set (n_topics n) \<and> is_about L n ev r \<and> answer_for L n ev \<noteq> None"

definition wake_on_reply ::
    "lib \<Rightarrow> int \<Rightarrow> time \<Rightarrow> run \<Rightarrow> workflow_definition \<Rightarrow> letter \<Rightarrow> dict \<Rightarrow> string option \<Rightarrow> store \<Rightarrow> store" where
  "wake_on_reply L max_chars now r d ev variables addressed s =
     (if (case addressed of None \<Rightarrow> False | Some i \<Rightarrow> i \<noteq> r_id r) then s
      else let facts = letter_words max_chars ev variables;
               s1 = fold (offer L now r ev facts) (d_nodes d) s
           in case first_node d (r_node r) of
                None \<Rightarrow> s1
              | Some cur \<Rightarrow>
                  if listens cur \<or> ev_source ev \<in> set call_report_sources then s1
                  else if list_ex (takes_letter L r ev) (d_nodes d)
                  then snd (refresh_run_facts now (r_merchant r) (r_id r) (n_id cur) facts (Some (ev_id ev)) s1)
                  else s1)"

text \<open>
  What \<open>definition_for\<close> answers: the document of the version the run is pinned to.  A stored
  version the model refuses would raise; there is none.
\<close>

definition pinned :: "readers \<Rightarrow> plan_db \<Rightarrow> run \<Rightarrow> workflow_definition option" where
  "pinned R db r =
     (case get_definition (r_merchant r) (r_workflow r) (r_version r) db of None \<Rightarrow> None
      | Some doc \<Rightarrow> (case rd_definition R doc of Inl e \<Rightarrow> None | Inr d \<Rightarrow> Some d))"

definition judge_run ::
    "readers \<Rightarrow> lib \<Rightarrow> int \<Rightarrow> time \<Rightarrow> time \<Rightarrow> letter \<Rightarrow> dict \<Rightarrow> string option \<Rightarrow> run \<Rightarrow> plan_db \<Rightarrow> plan_db option" where
  "judge_run R L max_chars wall now ev variables addressed r db =
     (case pinned R db r of None \<Rightarrow> Some db
      | Some d \<Rightarrow>
          (case end_on_goal L wall now r d ev (goal_tiers d (Some (ev_topic ev))) (db_runs db) of
             None \<Rightarrow> None
           | Some (True, s) \<Rightarrow> Some (db\<lparr>db_runs := s\<rparr>)
           | Some (False, s) \<Rightarrow>
               Some (db\<lparr>db_runs := wake_on_reply L max_chars now r d ev variables addressed s\<rparr>)))"

section \<open>The doors\<close>

definition enrollment_key :: "lib \<Rightarrow> door \<Rightarrow> letter \<Rightarrow> bool \<times> string option" where
  "enrollment_key L e ev =
     (if \<not> opt_text (e_key e) then (True, None)
      else let v = field_value (ev_payload ev) (canonical_path L (the (e_key e))) (derive_for L (ev_source ev) (ev_topic ev))
           in if blank v then (False, None) else (True, Some (py_str v)))"

definition holds_key :: "plan_row \<Rightarrow> string \<Rightarrow> run \<Rightarrow> bool" where
  "holds_key p key r \<longleftrightarrow> r_workflow r = pl_id p \<and> r_key r = key"

definition answered_by ::
    "readers \<Rightarrow> lib \<Rightarrow> plan_db \<Rightarrow> run list \<Rightarrow> plan_row \<Rightarrow> string \<Rightarrow> letter \<Rightarrow> string option \<Rightarrow> bool" where
  "answered_by R L db open_runs p key ev addressed =
     (case find (holds_key p key) open_runs of None \<Rightarrow> False
      | Some r \<Rightarrow> (case pinned R db r of None \<Rightarrow> False
        | Some d \<Rightarrow> (case first_node d (r_node r) of None \<Rightarrow> False
          | Some square \<Rightarrow> \<not> (case addressed of None \<Rightarrow> False | Some i \<Rightarrow> i \<noteq> r_id r)
              \<and> is_about L square ev r \<and> answer_for L square ev \<noteq> None)))"

text \<open>\<open>None\<close> is \<open>doors[0]\<close> of a document without doors, which raises.\<close>

definition repeat_door ::
    "readers \<Rightarrow> plan_db \<Rightarrow> run list \<Rightarrow> plan_row \<Rightarrow> string \<Rightarrow> string \<Rightarrow> door \<Rightarrow> door option" where
  "repeat_door R db open_runs p key topic latest =
     (case find (holds_key p key) open_runs of None \<Rightarrow> Some latest
      | Some r \<Rightarrow> (case pinned R db r of None \<Rightarrow> Some latest
        | Some d \<Rightarrow> (case find (\<lambda>e. e_topic e = topic) (doors d) of Some e \<Rightarrow> Some e
           | None \<Rightarrow> (case doors d of [] \<Rightarrow> None | e # _ \<Rightarrow> Some e))))"

definition founding_keys :: "string list" where
  "founding_keys = [''source_event_id'', ''entered_event_at'']"

text \<open>What a run is born with.\<close>

definition founding_context ::
    "lib \<Rightarrow> int \<Rightarrow> letter \<Rightarrow> (string \<times> string) list \<Rightarrow> dict \<Rightarrow> dict" where
  "founding_context L max_chars ev handles variables =
     (let phone = (case map_of handles ''phone'' of
            Some h \<Rightarrow> (if h \<noteq> [] then Some h else phone_from_payload (ev_payload ev))
          | None \<Rightarrow> phone_from_payload (ev_payload ev))
      in dmerge (letter_words max_chars ev variables)
           ([(''source_event_id'', JStr (ev_id ev)), (''entered_event_at'', JStr (iso_format L (letter_time ev)))]
            @ (if opt_text phone then [(''phone'', JStr (the phone))] else [])))"

definition try_enrol ::
    "readers \<Rightarrow> lib \<Rightarrow> int \<Rightarrow> time \<Rightarrow> time \<Rightarrow> string \<Rightarrow> plan_row \<Rightarrow> door \<Rightarrow> letter \<Rightarrow> string
     \<Rightarrow> (string \<times> string) list \<Rightarrow> run list \<Rightarrow> dict \<Rightarrow> string option \<Rightarrow> plan_db \<Rightarrow> plan_db option" where
  "try_enrol R L max_chars wall now i p e ev c handles open_runs variables addressed db =
     (let (admit, key) = enrollment_key L e ev in
      if \<not> admit then Some db
      else let ctx = founding_context L max_chars ev handles variables in
        (case enrol R L wall now i p c ctx key (Some e) (db_runs db) of
           (Enrolled r, s) \<Rightarrow> Some (db\<lparr>db_runs := s\<rparr>)
         | (Raised err, s) \<Rightarrow> None
         | (Skipped reason, s) \<Rightarrow>
             (let k = (if opt_text key then the key else c) in
              if answered_by R L db open_runs p k ev addressed then Some db
              else case repeat_door R db open_runs p k (e_topic e) e of
                None \<Rightarrow> None
              | Some words \<Rightarrow>
                  (case apply_repeat now (ev_merchant ev) (pl_id p) k words (ev_id ev)
                          (filter (\<lambda>(x, v). x \<notin> set founding_keys) ctx) (db_runs db) of
                     None \<Rightarrow> None | Some (b, s') \<Rightarrow> Some (db\<lparr>db_runs := s'\<rparr>)))))"

definition knock ::
    "readers \<Rightarrow> lib \<Rightarrow> int \<Rightarrow> time \<Rightarrow> time \<Rightarrow> (string \<Rightarrow> string) \<Rightarrow> letter \<Rightarrow> string
     \<Rightarrow> (string \<times> string) list \<Rightarrow> run list \<Rightarrow> dict \<Rightarrow> string option \<Rightarrow> plan_row \<Rightarrow> plan_db \<Rightarrow> plan_db option" where
  "knock R L max_chars wall now fresh ev c handles open_runs variables addressed p db =
     (case rd_definition R (case pl_definition p of None \<Rightarrow> [] | Some doc \<Rightarrow> doc) of
        Inl err \<Rightarrow> None
      | Inr d \<Rightarrow> (case find (\<lambda>e. e_topic e = ev_topic ev \<and> conditions_match L (e_where e) ev) (doors d) of
          None \<Rightarrow> Some db
        | Some e \<Rightarrow> try_enrol R L max_chars wall now (fresh (pl_id p)) p e ev c handles open_runs variables addressed db))"

section \<open>One letter\<close>

fun each_of :: "('a \<Rightarrow> 's \<Rightarrow> 's option) \<Rightarrow> 'a list \<Rightarrow> 's \<Rightarrow> 's option" where
  "each_of f [] s = Some s"
| "each_of f (x # xs) s = (case f x s of None \<Rightarrow> None | Some s' \<Rightarrow> each_of f xs s')"

definition consume_attributed_event ::
    "readers \<Rightarrow> lib \<Rightarrow> (string \<Rightarrow> string \<Rightarrow> sent_row option) \<Rightarrow> int \<Rightarrow> time \<Rightarrow> time \<Rightarrow> (string \<Rightarrow> string)
     \<Rightarrow> letter \<Rightarrow> string option \<Rightarrow> (string \<times> string) list \<Rightarrow> dict \<Rightarrow> plan_db \<Rightarrow> plan_db option" where
  "consume_attributed_event R L behind max_chars wall now fresh ev customer handles variables db =
     (case customer of None \<Rightarrow> Some db
      | Some c \<Rightarrow>
          (let open_runs = open_runs_for_customer (ev_merchant ev) c (db_runs db);
               addressed = (if open_runs = [] then None else
                  (case addressed_run L behind ev of None \<Rightarrow> None
                   | Some i \<Rightarrow> (if i \<in> r_id ` set open_runs then Some i else None)))
           in case each_of (judge_run R L max_chars wall now ev variables addressed) open_runs db of
                None \<Rightarrow> None
              | Some db1 \<Rightarrow>
                  each_of (knock R L max_chars wall now fresh ev c handles open_runs variables addressed)
                    (live_workflows (ev_merchant ev) db1) db1))"

end
