(* ===== verification/Entry_Laws.thy ===== *)
theory Entry_Laws
  imports Entry
begin

text \<open>
  What one letter may do to the runs: only the table's own statements, none of which touches what a
  run was founded on.
\<close>

section \<open>What a run was founded on\<close>

definition founding :: "run \<Rightarrow> (string \<times> string \<times> string \<times> string \<times> string) \<times> time \<times> json \<times> json" where
  "founding r = ((r_id r, r_merchant r, r_workflow r, r_customer r, r_key r), r_entered r,
     dget (r_context r) ''source_event_id'', dget (r_context r) ''entered_event_at'')"

definition same_founding :: "store \<Rightarrow> store \<Rightarrow> bool" where
  "same_founding s s' \<longleftrightarrow> map founding (s_rows s') = map founding (s_rows s)"

definition founds_kept :: "(run \<Rightarrow> bool) \<Rightarrow> (run \<Rightarrow> run) \<Rightarrow> bool" where
  "founds_kept P f \<longleftrightarrow> (\<forall>r. P r \<longrightarrow> founding (f r) = founding r)"

lemma same_refl [simp]: "same_founding s s"
  by (simp add: same_founding_def)

lemma same_trans [trans]: "same_founding a b \<Longrightarrow> same_founding b c \<Longrightarrow> same_founding a c"
  by (simp add: same_founding_def)

lemma founding_rewrite: "founds_kept P f \<Longrightarrow> same_founding s (rewrite P f s)"
  by (auto simp: same_founding_def store_simps founds_kept_def)

lemma founding_touch: "founds_kept P f \<Longrightarrow> same_founding s (snd (touch P f s))"
  by (simp add: touch_def founding_rewrite)

lemma founding_move: "founds_kept P f \<Longrightarrow> same_founding s (snd (move P f ok steps s))"
  using founding_rewrite [of P f s] by (simp add: same_founding_def store_simps move_def)

section \<open>The patches\<close>

lemma dget_dmerge_avoid: "k \<notin> fst ` set b \<Longrightarrow> dget (dmerge a b) k = dget a k"
  by (rule dget_dmerge_other)

lemma reply_patch_keys: "k \<in> fst ` set (reply_patch n ev a) \<Longrightarrow> k \<notin> set founding_keys"
  by (auto simp: reply_patch_def founding_keys_def reply_key_def cut_short_by_key_def latest_letter_key_def split: if_splits)

lemma words_keys: "k \<in> fst ` set (letter_words mx ev vars) \<Longrightarrow> \<not> is_bookkeeping k"
  by (auto simp: letter_words_def keys_dmerge context_from_payload_def)

lemma founding_bookkeeping: "k \<in> set founding_keys \<Longrightarrow> is_bookkeeping k"
  by (auto simp: founding_keys_def is_bookkeeping_def bookkeeping_keys_def)

definition spares :: "dict \<Rightarrow> bool" where
  "spares p \<longleftrightarrow> set founding_keys \<inter> fst ` set p = {}"

lemma spares_merge: "spares p \<Longrightarrow> k \<in> set founding_keys \<Longrightarrow> dget (dmerge c p) k = dget c k"
  by (intro dget_dmerge_avoid) (auto simp: spares_def)

lemma spares_words: "spares (letter_words mx ev vars)"
  using words_keys founding_bookkeeping unfolding spares_def by blast

lemma spares_reply: "spares (reply_patch n ev a)"
  using reply_patch_keys unfolding spares_def by blast

lemma founding_in: "''source_event_id'' \<in> set founding_keys" "''entered_event_at'' \<in> set founding_keys"
  by (simp_all add: founding_keys_def)

lemma resume_founds: "spares p \<Longrightarrow> founds_kept P (\<lambda>r. (woken now r)\<lparr>r_context := resume_context nd p facts (r_context r)\<rparr>)"
  using spares_merge founding_in
  by (simp add: founds_kept_def founding_def woken_def resume_context_def dget_dmerge_avoid)

lemma refresh_founds: "spares facts \<Longrightarrow> founds_kept P (\<lambda>r. (woken now r)\<lparr>r_context := refresh_context facts ptr (r_context r)\<rparr>)"
  using spares_merge founding_in
  by (simp add: founds_kept_def founding_def woken_def refresh_context_def dget_dmerge_avoid)

lemma cancel_founds: "founds_kept P (cancel_set now reason (Some (goal_patch ev)))"
  by (simp add: founds_kept_def founding_def cancel_set_def goal_patch_def dget_dmerge_avoid)

lemma repeat_founds:
  assumes "spares p"
  shows "founds_kept P (repeat_set now ev p acc mf mv deb)"
proof -
  have "dget (repeat_facts p acc mf mv c) k = dget c k" if "k \<in> set founding_keys" for k c
    using that spares_merge [OF assms]
    by (auto simp: repeat_facts_def dget_dmerge_avoid founding_keys_def split: option.splits)
  then show ?thesis
    using founding_in by (simp add: founds_kept_def founding_def repeat_set_def repeat_context_def dget_dmerge_avoid)
qed
section \<open>Her open runs\<close>

text \<open>Statements of the table, one after the other, that leave every founding alone.\<close>

definition moved :: "lib \<Rightarrow> store \<Rightarrow> store \<Rightarrow> bool" where
  "moved L s s' \<longleftrightarrow> (run_event L)\<^sup>*\<^sup>* s s' \<and> same_founding s s'"

lemma moved_refl [simp]: "moved L s s"
  by (simp add: moved_def)

lemma moved_trans [trans]: "moved L a b \<Longrightarrow> moved L b c \<Longrightarrow> moved L a c"
  using same_trans by (auto simp: moved_def)

lemma moved_step: "run_event L s s' \<Longrightarrow> same_founding s s' \<Longrightarrow> moved L s s'"
  by (auto simp: moved_def)

lemma cancel_moved:
  assumes "cancel_run L now m i reason occ key (Some (goal_patch ev)) steps s = Some (b, s')"
  shows "moved L s s'"
proof (rule moved_step)
  show "run_event L s s'" using assms by (rule run_event.cancelled)
  have "s' = snd (move (cancel_guard L m i occ key) (cancel_set now reason (Some (goal_patch ev))) same_square steps s)"
    using assms by (auto simp: cancel_run_def split: if_splits)
  then show "same_founding s s'" using founding_move [OF cancel_founds] by simp
qed

lemma goal_moved: "end_on_goal L wall now r d ev gs s = Some (b, s') \<Longrightarrow> moved L s s'"
proof (induction gs arbitrary: s)
  case (Cons g gs)
  show ?case
  proof (cases "tier_key r g ev = None \<or> \<not> conditions_match L (g_where g) ev")
    case True
    then have "end_on_goal L wall now r d ev gs s = Some (b, s')" using Cons.prems by (auto split: option.splits)
    then show ?thesis by (rule Cons.IH)
  next
    case False
    then obtain key b1 s1 where key: "tier_key r g ev = Some key"
        and c: "cancel_run L now (r_merchant r) (r_id r) (g_exit_reason g) (ev_occurred ev) key (Some (goal_patch ev))
                  (as_rows (closing r (Some d) (g_exit_reason g) wall (Some (ev_id ev)))) s = Some (b1, s1)"
      using Cons.prems by (auto split: option.splits)
    have m: "moved L s s1" using c by (rule cancel_moved)
    show ?thesis
    proof (cases b1)
      case True
      then show ?thesis using Cons.prems False key c m by simp
    next
      case b1: False
      then have "end_on_goal L wall now r d ev gs s1 = Some (b, s')" using Cons.prems False key c by simp
      then show ?thesis using Cons.IH moved_trans [OF m] by blast
    qed
  qed
qed simp

lemma offer_moved: "moved L s (offer L now r ev facts n s)"
  unfolding offer_def resume_run_by_id_def
  using moved_step [OF run_event.replied [unfolded resume_run_by_id_def] founding_touch [OF resume_founds [OF spares_reply]]]
  by (auto split: option.splits)

lemma wake_moved: "moved L s (wake_on_reply L mx now r d ev vars addressed s)"
proof -
  let ?facts = "letter_words mx ev vars"
  have fold: "moved L s (fold (offer L now r ev ?facts) ns s)" for ns s
  proof (induction ns arbitrary: s)
    case (Cons n ns)
    show ?case by (simp, rule moved_trans [OF offer_moved Cons.IH])
  qed simp
  have ref: "moved L t (snd (refresh_run_facts now (r_merchant r) (r_id r) nd ?facts ptr t))" for t nd ptr
    by (rule moved_step [OF run_event.refreshed])
      (simp add: refresh_run_facts_def founding_touch refresh_founds spares_words)
  show ?thesis
    unfolding wake_on_reply_def Let_def
    by (auto simp: fold split: option.splits intro: moved_trans [OF fold ref])
qed

lemma judge_moved:
  assumes "judge_run R L mx wall now ev vars addressed r db = Some db'"
  shows "\<exists>s. db' = db\<lparr>db_runs := s\<rparr> \<and> moved L (db_runs db) s"
proof (cases "pinned R db r")
  case None
  then have "db' = db\<lparr>db_runs := db_runs db\<rparr>" using assms by (simp add: judge_run_def)
  then show ?thesis using moved_refl by blast
next
  case (Some d)
  then obtain b s where g: "end_on_goal L wall now r d ev (goal_tiers d (Some (ev_topic ev))) (db_runs db) = Some (b, s)"
    using assms by (auto simp: judge_run_def split: option.splits)
  have m: "moved L (db_runs db) s" using g by (rule goal_moved)
  have "db' = db\<lparr>db_runs := if b then s else wake_on_reply L mx now r d ev vars addressed s\<rparr>"
    using assms Some g by (cases b) (simp_all add: judge_run_def)
  then show ?thesis using m moved_trans [OF m wake_moved] by (cases b) auto
qed

lemma each_judged:
  "each_of (judge_run R L mx wall now ev vars addressed) rs db = Some db' \<Longrightarrow>
     \<exists>s. db' = db\<lparr>db_runs := s\<rparr> \<and> moved L (db_runs db) s"
proof (induction rs arbitrary: db)
  case Nil
  then have "db' = db\<lparr>db_runs := db_runs db\<rparr>" by simp
  then show ?case using moved_refl by blast
next
  case (Cons r rs)
  then obtain db1 where 1: "judge_run R L mx wall now ev vars addressed r db = Some db1"
      and 2: "each_of (judge_run R L mx wall now ev vars addressed) rs db1 = Some db'"
    by (auto split: option.splits)
  obtain s1 where s1: "db1 = db\<lparr>db_runs := s1\<rparr>" "moved L (db_runs db) s1" using judge_moved [OF 1] by blast
  obtain s2 where "db' = db1\<lparr>db_runs := s2\<rparr>" "moved L (db_runs db1) s2" using Cons.IH [OF 2] by blast
  then have "db' = db\<lparr>db_runs := s2\<rparr>" "moved L (db_runs db) s2"
    using s1 moved_trans [OF s1(2)] by simp_all
  then show ?case by blast
qed

section \<open>The doors\<close>

text \<open>The run a letter starts.\<close>

definition started_by :: "letter \<Rightarrow> string \<Rightarrow> run \<Rightarrow> bool" where
  "started_by ev c r \<longleftrightarrow> r_customer r = c \<and> r_status r = Waiting
     \<and> dget (r_context r) ''source_event_id'' = JStr (ev_id ev)"

lemma founding_source: "dget (founding_context L mx ev handles vars) ''source_event_id'' = JStr (ev_id ev)"
  by (auto simp: founding_context_def Let_def dget_def map_of_dmerge)

lemma enrol_out:
  assumes "enrol R L wall now i p c ctx key (Some e) s = (out, s')"
  shows "(case out of
      Enrolled r \<Rightarrow> (\<exists>wake key. insert_enrollment now i (pl_merchant p) (pl_id p) (pl_version p) c (e_start e) wake ctx key s = Some (r, s'))
        \<and> \<not> (truthy (dget ctx ''source_event_id'')
             \<and> source_event_used (pl_merchant p) (pl_id p) c (py_str (dget ctx ''source_event_id'')) s)
    | _ \<Rightarrow> s' = s)"
  using assms
  by (auto simp: enrol_def enrol_in_txn_def Let_def split: if_splits option.splits sum.splits prod.splits) blast+

lemma repeat_moved:
  assumes "apply_repeat now m wid k words ev p s = Some (b, s')" and "spares p"
  shows "moved L s s'"
proof (cases "is_noop (make_repeat_plan (door_entry words) p)")
  case True
  then show ?thesis using assms(1) by (simp add: apply_repeat_def Let_def)
next
  case False
  let ?q = "make_repeat_plan (door_entry words) p"
  have q: "spares (rp_patch ?q)"
    using assms(2) by (auto simp: make_repeat_plan_def spares_def split: option.splits policy.splits)
  have e: "patch_open_run now m wid k (e_start words) ev (rp_patch ?q) (rp_accumulate ?q)
      (rp_max_field ?q) (rp_max_value ?q) (rp_debounce ?q) (e_restart_on_repeat words) s = Some (b, s')"
    using assms(1) False by (simp add: apply_repeat_def Let_def)
  show ?thesis
  proof (rule moved_step)
    show "run_event L s s'" using e by (rule run_event.repeated)
    show "same_founding s s'"
      unfolding arg_cong [OF patch_as_touch [OF e], of snd, unfolded snd_conv]
      by (rule founding_touch [OF repeat_founds [OF q]])
  qed
qed

lemma repeat_facts_spare: "spares (filter (\<lambda>(x, v). x \<notin> set founding_keys) ctx)"
  by (auto simp: spares_def)

text \<open>One knock: either a run is born, by this letter, or the runs are moved.\<close>

definition birth :: "letter \<Rightarrow> string \<Rightarrow> plan_row \<Rightarrow> door \<Rightarrow> store \<Rightarrow> store \<Rightarrow> bool" where
  "birth ev c p e s s' \<longleftrightarrow> (\<exists>now i wake ctx key r.
     insert_enrollment now i (pl_merchant p) (pl_id p) (pl_version p) c (e_start e) wake ctx key s = Some (r, s')
     \<and> dget ctx ''source_event_id'' = JStr (ev_id ev)
     \<and> (ev_id ev \<noteq> [] \<longrightarrow> \<not> source_event_used (pl_merchant p) (pl_id p) c (ev_id ev) s))"

lemma try_enrol_shape:
  assumes "try_enrol R L mx wall now i p e ev c handles rs vars addressed db = Some db'"
  shows "\<exists>s. db' = db\<lparr>db_runs := s\<rparr> \<and> (moved L (db_runs db) s \<or> birth ev c p e (db_runs db) s)"
proof -
  obtain admit key where k: "enrollment_key L e ev = (admit, key)" by (cases "enrollment_key L e ev")
  let ?ctx = "founding_context L mx ev handles vars"
  have same: ?thesis if "db' = db"
    using that by (intro exI [of _ "db_runs db"]) simp
  show ?thesis
  proof (cases admit)
    case False
    then show ?thesis using assms k same by (simp add: try_enrol_def)
  next
    case True
    obtain out s where o: "enrol R L wall now i p c ?ctx key (Some e) (db_runs db) = (out, s)"
      by (cases "enrol R L wall now i p c ?ctx key (Some e) (db_runs db)")
    show ?thesis
    proof (cases out)
      case (Enrolled r)
      then have "birth ev c p e (db_runs db) s"
        using enrol_out [OF o] founding_source [of L mx ev handles vars] unfolding birth_def by fastforce
      then show ?thesis using assms k True o Enrolled by (auto simp: try_enrol_def Let_def)
    next
      case (Raised err)
      then show ?thesis using assms k True o by (simp add: try_enrol_def Let_def)
    next
      case (Skipped reason)
      let ?k = "if opt_text key then the key else c"
      show ?thesis
      proof (cases "answered_by R L db rs p ?k ev addressed")
        case True
        then show ?thesis using assms k \<open>admit\<close> o Skipped same by (simp add: try_enrol_def Let_def)
      next
        case False
        then obtain words b s' where "apply_repeat now (ev_merchant ev) (pl_id p) ?k words (ev_id ev)
            (filter (\<lambda>(x, v). x \<notin> set founding_keys) ?ctx) (db_runs db) = Some (b, s')" "db' = db\<lparr>db_runs := s'\<rparr>"
          using assms k \<open>admit\<close> o Skipped by (auto simp: try_enrol_def Let_def split: option.splits)
        then show ?thesis using repeat_moved [OF _ repeat_facts_spare] by blast
      qed
    qed
  qed
qed
section \<open>One letter\<close>

text \<open>Which run a letter started: the plan, the customer and the letter's own id.\<close>

definition origin :: "run \<Rightarrow> string \<times> string \<times> string \<times> string option" where
  "origin r = (r_merchant r, r_workflow r, r_customer r, pg_text (dget (r_context r) ''source_event_id''))"

definition sources_unique :: "store \<Rightarrow> bool" where
  "sources_unique s \<longleftrightarrow>
     distinct (map origin (filter (\<lambda>r. pg_text (dget (r_context r) ''source_event_id'') \<noteq> None) (s_rows s)))"

definition founded_origin :: "(string \<times> string \<times> string \<times> string \<times> string) \<times> time \<times> json \<times> json
    \<Rightarrow> string \<times> string \<times> string \<times> string option" where
  "founded_origin f = (case f of ((i, m, w, c, k), t, src, at0) \<Rightarrow> (m, w, c, pg_text src))"

lemma sources_founding:
  "sources_unique s \<longleftrightarrow> distinct (map founded_origin
     (filter (\<lambda>(x, t, src, at0). pg_text src \<noteq> None) (map founding (s_rows s))))"
  unfolding sources_unique_def filter_map map_map
  by (simp add: comp_def founding_def origin_def [abs_def] founded_origin_def)

lemma same_sources: "same_founding s s' \<Longrightarrow> sources_unique s' = sources_unique s"
  by (simp add: sources_founding same_founding_def)

definition grew :: "letter \<Rightarrow> string \<Rightarrow> store \<Rightarrow> store \<Rightarrow> bool" where
  "grew ev c s s' \<longleftrightarrow> (\<exists>new. map founding (s_rows s') = map founding (s_rows s) @ map founding new
       \<and> (\<forall>r\<in>set new. started_by ev c r))
     \<and> (ev_id ev \<noteq> [] \<longrightarrow> sources_unique s \<longrightarrow> sources_unique s')"

lemma grew_same: "same_founding s s' \<Longrightarrow> grew ev c s s'"
  unfolding grew_def using same_sources [of s s']
  by (intro conjI exI [of _ "[]"]) (simp_all add: same_founding_def)

lemma grew_trans:
  assumes "grew ev c a b" and "grew ev c b d"
  shows "grew ev c a d"
proof -
  obtain n1 n2 where n1: "map founding (s_rows b) = map founding (s_rows a) @ map founding n1" "\<forall>r\<in>set n1. started_by ev c r"
      and n2: "map founding (s_rows d) = map founding (s_rows b) @ map founding n2" "\<forall>r\<in>set n2. started_by ev c r"
    using assms unfolding grew_def by (elim conjE exE) (rule that)
  have "map founding (s_rows d) = map founding (s_rows a) @ map founding (n1 @ n2)"
    by (simp add: n1(1) n2(1))
  moreover have "\<forall>r\<in>set (n1 @ n2). started_by ev c r" using n1(2) n2(2) by auto
  ultimately show ?thesis using assms unfolding grew_def by blast
qed

lemma grew_birth:
  assumes "birth ev c p e s s'"
  shows "grew ev c s s'"
proof -
  obtain now i wake ctx key r where
      ins: "insert_enrollment now i (pl_merchant p) (pl_id p) (pl_version p) c (e_start e) wake ctx key s = Some (r, s')"
      and src: "dget ctx ''source_event_id'' = JStr (ev_id ev)"
      and new: "ev_id ev \<noteq> [] \<Longrightarrow> \<not> source_event_used (pl_merchant p) (pl_id p) c (ev_id ev) s"
    using assms unfolding birth_def by (elim exE conjE) (rule that, assumption+, blast)
  have r: "r = born now i (pl_merchant p) (pl_id p) (pl_version p) c (e_start e) wake ctx key"
    and s': "s' = s\<lparr>s_rows := s_rows s @ [r]\<rparr>"
    using ins by (simp_all add: insert_enrollment_Some)
  have st: "started_by ev c r" using src by (simp add: started_by_def r born_def)
  have o: "origin r = (pl_merchant p, pl_id p, c, Some (ev_id ev))"
    using src by (simp add: origin_def r born_def)
  have "sources_unique s'" if "ev_id ev \<noteq> []" "sources_unique s"
  proof -
    have "origin r \<notin> origin ` set (s_rows s)"
      unfolding o using new [OF that(1)] by (auto simp: source_event_used_def list_ex_iff origin_def)
    then show ?thesis using that(2) by (auto simp: sources_unique_def s')
  qed
  then show ?thesis using st by (auto simp: grew_def s' intro!: exI [of _ "[r]"])
qed

text \<open>The entry read leaves the playbook in the database; reading past it gives the same document.\<close>

definition reads_past_playbook :: "readers \<Rightarrow> bool" where
  "reads_past_playbook R \<longleftrightarrow> (\<forall>doc d. rd_definition R doc = Inr d \<longrightarrow>
     rd_definition R (AList.delete ''playbook'' doc) = Inr (d\<lparr>d_playbook := None\<rparr>))"

definition effect :: "readers \<Rightarrow> lib \<Rightarrow> 'w ext \<Rightarrow> registry \<Rightarrow> letter \<Rightarrow> string \<Rightarrow> plan_db \<Rightarrow> plan_db \<Rightarrow> bool" where
  "effect R L X G ev c db db' \<longleftrightarrow> (commits R L X G)\<^sup>*\<^sup>* db db' \<and> db_plans db' = db_plans db
     \<and> db_versions db' = db_versions db \<and> grew ev c (db_runs db) (db_runs db')"

lemma effect_trans: "effect R L X G ev c a b \<Longrightarrow> effect R L X G ev c b d \<Longrightarrow> effect R L X G ev c a d"
  using grew_trans unfolding effect_def by (metis rtranclp_trans)

lemma effect_refl [simp]: "effect R L X G ev c db db"
  by (simp add: effect_def grew_same)

lemma events_commit: "(run_event L)\<^sup>*\<^sup>* s s' \<Longrightarrow> (commits R L X G)\<^sup>*\<^sup>* (db\<lparr>db_runs := s\<rparr>) (db\<lparr>db_runs := s'\<rparr>)"
proof (induction rule: rtranclp_induct)
  case (step t u)
  have "run_event L (db_runs (db\<lparr>db_runs := t\<rparr>)) u" using step(2) by simp
  from commits.event [OF this] have "commits R L X G (db\<lparr>db_runs := t\<rparr>) (db\<lparr>db_runs := u\<rparr>)" by simp
  then show ?case using step(3) by (rule rtranclp.rtrancl_into_rtrancl [rotated])
qed simp

lemma moved_effect: "moved L (db_runs db) s \<Longrightarrow> effect R L X G ev c db (db\<lparr>db_runs := s\<rparr>)"
  using events_commit [of L "db_runs db" s R X G db] grew_same by (simp add: effect_def moved_def)

lemma birth_effect:
  assumes ok: "sound R db" and past: "reads_past_playbook R"
    and p: "p \<in> set (db_plans db)" "pl_status p = ''live''" "pl_definition p = Some doc"
    and rd: "rd_definition R (AList.delete ''playbook'' doc) = Inr d'" and e: "e \<in> set (doors d')"
    and b: "birth ev c (entry_columns p) e (db_runs db) s"
  shows "effect R L X G ev c db (db\<lparr>db_runs := s\<rparr>)"
proof -
  have "get_definition (pl_merchant p) (pl_id p) (pl_version p) db = Some doc"
    using ok p by (simp add: sound_def plans_ok_def plan_ok_def)
  then obtain x where "x \<in> set (db_versions db)" "vr_definition x = doc" using get_definition_row by blast
  then obtain d where d: "rd_definition R doc = Inr d" using ok by (auto simp: sound_def plans_ok_def version_ok_def lawful_def)
  then have "d' = d\<lparr>d_playbook := None\<rparr>" using past rd by (simp add: reads_past_playbook_def)
  then have e': "e \<in> set (doors d)" using e by (simp add: doors_def entries_def cong: entry_spec.case_cong)
  have cols: "pl_merchant (entry_columns p) = pl_merchant p" "pl_id (entry_columns p) = pl_id p"
      "pl_version (entry_columns p) = pl_version p" by (simp_all add: entry_columns_def)
  obtain now i wake ctx key r where
      ins: "insert_enrollment now i (pl_merchant p) (pl_id p) (pl_version p) c (e_start e) wake ctx key (db_runs db) = Some (r, s)"
    using b unfolding birth_def cols by blast
  have "commits R L X G db (db\<lparr>db_runs := s\<rparr>)" by (rule commits.enrolled [OF p d e' ins])
  then show ?thesis using grew_birth [OF b] by (auto simp: effect_def)
qed

lemma knock_effect:
  assumes ok: "sound R db" and past: "reads_past_playbook R"
    and p: "p \<in> set (db_plans db)" "pl_status p = ''live''"
    and k: "knock R L mx wall now fresh ev c handles rs vars addressed (entry_columns p) db = Some db'"
  shows "effect R L X G ev c db db'"
proof -
  have def: "pl_definition p \<noteq> None" using ok p by (auto simp: sound_def plans_ok_def plan_ok_def)
  then obtain doc where doc: "pl_definition p = Some doc" by blast
  then have doc': "pl_definition (entry_columns p) = Some (AList.delete ''playbook'' doc)" by (simp add: entry_columns_def)
  obtain d' where d': "rd_definition R (AList.delete ''playbook'' doc) = Inr d'"
    using k doc' by (auto simp: knock_def split: sum.splits)
  let ?P = "\<lambda>e. e_topic e = ev_topic ev \<and> conditions_match L (e_where e) ev"
  show ?thesis
  proof (cases "find ?P (doors d')")
    case None
    then show ?thesis using k doc' d' by (simp add: knock_def)
  next
    case (Some e)
    then have e: "e \<in> set (doors d')" using find_Some_set by metis
    have t: "try_enrol R L mx wall now (fresh (pl_id (entry_columns p))) (entry_columns p) e ev c handles rs vars addressed db = Some db'"
      using k doc' d' Some by (simp add: knock_def)
    obtain s where s: "db' = db\<lparr>db_runs := s\<rparr>" "moved L (db_runs db) s \<or> birth ev c (entry_columns p) e (db_runs db) s"
      using try_enrol_shape [OF t] by blast
    then show ?thesis using moved_effect birth_effect [OF ok past p doc d' e] by blast
  qed
qed

lemma effect_sound: "numbers R \<Longrightarrow> effect R L X G ev c db db' \<Longrightarrow> sound R db \<Longrightarrow> sound R db'"
proof -
  assume n: "numbers R" and e: "effect R L X G ev c db db'" and s: "sound R db"
  have "(commits R L X G)\<^sup>*\<^sup>* db db'" using e by (simp add: effect_def)
  then show "sound R db'" using s
    by (induction rule: rtranclp_induct) (use commits_kept [OF n] in blast)+
qed

lemma knocks_effect:
  assumes "numbers R" and past: "reads_past_playbook R"
  shows "each_of (knock R L mx wall now fresh ev c handles rs vars addressed) (map entry_columns ps) db = Some db' \<Longrightarrow>
    sound R db \<Longrightarrow> \<forall>p\<in>set ps. p \<in> set (db_plans db) \<and> pl_status p = ''live'' \<Longrightarrow> effect R L X G ev c db db'"
proof (induction ps arbitrary: db)
  case (Cons p ps)
  obtain db1 where 1: "knock R L mx wall now fresh ev c handles rs vars addressed (entry_columns p) db = Some db1"
      and 2: "each_of (knock R L mx wall now fresh ev c handles rs vars addressed) (map entry_columns ps) db1 = Some db'"
    using Cons.prems(1) by (auto split: option.splits)
  have e: "effect R L X G ev c db db1" using knock_effect [OF Cons.prems(2) past _ _ 1] Cons.prems(3) by simp
  then have "db_plans db1 = db_plans db" by (simp add: effect_def)
  then show ?case
    using Cons.IH [OF 2 effect_sound [OF assms(1) e Cons.prems(2)]] Cons.prems(3) effect_trans [OF e] by simp
qed simp

lemma consume_effect:
  assumes "numbers R" and past: "reads_past_playbook R" and ok: "sound R db"
    and con: "consume_attributed_event R L behind mx wall now fresh ev (Some c) handles vars db = Some db'"
  shows "effect R L X G ev c db db'"
proof -
  let ?rs = "open_runs_for_customer (ev_merchant ev) c (db_runs db)"
  obtain addressed db1 where j: "each_of (judge_run R L mx wall now ev vars addressed) ?rs db = Some db1"
      and k: "each_of (knock R L mx wall now fresh ev c handles ?rs vars addressed)
                (live_workflows (ev_merchant ev) db1) db1 = Some db'"
    using con by (auto simp: consume_attributed_event_def Let_def split: option.splits)
  obtain s where s: "db1 = db\<lparr>db_runs := s\<rparr>" "moved L (db_runs db) s" using each_judged [OF j] by blast
  have e: "effect R L X G ev c db db1" using moved_effect [OF s(2)] s(1) by simp
  have "effect R L X G ev c db1 db'"
    using knocks_effect [OF assms(1) past k [unfolded live_workflows_def] effect_sound [OF assms(1) e ok]] by auto
  then show ?thesis using effect_trans [OF e] by blast
qed
section \<open>The consumer's contract\<close>

text \<open>
  C7 Consuming a letter is nothing but a sequence of the tables' own commits: whatever it says, a
  letter leaves plans and versions alone, keeps the tables in a state the commits reach -- so every
  open run still stands on a square of the version it is pinned to -- and keeps of every run its
  identity, its plan, its customer, its key, its entry and the two pointers to the letter that
  founded it; new rows are waiting runs of this customer founded by this very letter.
\<close>

theorem letter_refines_the_commits:
  assumes "committed R L X G db" and "numbers R" and "reads_past_playbook R"
    and "consume_attributed_event R L behind mx wall now fresh ev (Some c) handles vars db = Some db'"
  shows "(commits R L X G)\<^sup>*\<^sup>* db db' \<and> committed R L X G db'
    \<and> db_plans db' = db_plans db \<and> db_versions db' = db_versions db
    \<and> (\<exists>new. map founding (s_rows (db_runs db')) = map founding (s_rows (db_runs db)) @ map founding new
         \<and> (\<forall>r\<in>set new. started_by ev c r))"
proof -
  have e: "effect R L X G ev c db db'"
    by (rule consume_effect [OF assms(2,3) committed_sound [OF assms(2,1)] assms(4)])
  have "(commits R L X G)\<^sup>*\<^sup>* db db'" using e by (simp add: effect_def)
  moreover from this have "committed R L X G db'"
    using assms(1) by (induction rule: rtranclp_induct) (auto intro: committed.then_commits)
  ultimately show ?thesis using e by (simp add: effect_def grew_def)
qed

text \<open>A stretch of deliveries, in any order and any number of times each.\<close>

record delivery =
  dl_letter :: letter
  dl_customer :: string
  dl_handles :: "(string \<times> string) list"
  dl_variables :: dict
  dl_wall :: time
  dl_now :: time
  dl_fresh :: "string \<Rightarrow> string"

definition deliver ::
    "readers \<Rightarrow> lib \<Rightarrow> (string \<Rightarrow> string \<Rightarrow> sent_row option) \<Rightarrow> int \<Rightarrow> delivery \<Rightarrow> plan_db \<Rightarrow> plan_db option" where
  "deliver R L behind mx x db =
     consume_attributed_event R L behind mx (dl_wall x) (dl_now x) (dl_fresh x) (dl_letter x)
       (Some (dl_customer x)) (dl_handles x) (dl_variables x) db"

lemma deliveries_sources:
  assumes "numbers R" and "reads_past_playbook R"
  shows "each_of (deliver R L behind mx) xs db = Some db' \<Longrightarrow> sound R db \<Longrightarrow> sources_unique (db_runs db)
    \<Longrightarrow> \<forall>x\<in>set xs. ev_id (dl_letter x) \<noteq> [] \<Longrightarrow> sources_unique (db_runs db')"
proof (induction xs arbitrary: db)
  case (Cons x xs)
  obtain db1 where 1: "deliver R L behind mx x db = Some db1" and 2: "each_of (deliver R L behind mx) xs db1 = Some db'"
    using Cons.prems(1) by (auto split: option.splits)
  have e: "effect R L (quiet_ext :: unit ext) demo_registry (dl_letter x) (dl_customer x) db db1"
    using consume_effect [OF assms Cons.prems(2) 1 [unfolded deliver_def]] .
  then have "sources_unique (db_runs db1)" using Cons.prems(3,4) by (simp add: effect_def grew_def)
  then show ?case using Cons.IH [OF 2 effect_sound [OF assms(1) e Cons.prems(2)]] Cons.prems(4) by simp
qed simp

text \<open>
  C8 At-least-once delivery starts runs at most once: however often and in whatever order letters
  are redelivered, no two runs of a plan ever come from the same letter of the same customer --
  open or long over.
\<close>

theorem letter_starts_one_run:
  assumes "committed R L X G db" and "numbers R" and "reads_past_playbook R" and "sources_unique (db_runs db)"
    and "each_of (deliver R L behind mx) xs db = Some db'" and "\<forall>x\<in>set xs. ev_id (dl_letter x) \<noteq> []"
    and "r \<in> set (s_rows (db_runs db'))" and "r' \<in> set (s_rows (db_runs db'))" and "origin r = origin r'"
    and "pg_text (dget (r_context r) ''source_event_id'') = Some y"
  shows "r = r'"
proof -
  have u: "sources_unique (db_runs db')"
    by (rule deliveries_sources [OF assms(2,3,5) committed_sound [OF assms(2,1)] assms(4,6)])
  have "pg_text (dget (r_context r') ''source_event_id'') = Some y" using assms(9,10) by (simp add: origin_def)
  then show ?thesis
    using u assms(7-10) unfolding sources_unique_def distinct_map by (auto dest: inj_onD)
qed

section \<open>Whom a reply reaches\<close>

text \<open>Every other run than the one addressed keeps its row.\<close>

definition only_run :: "string \<Rightarrow> store \<Rightarrow> store \<Rightarrow> bool" where
  "only_run i s s' \<longleftrightarrow> (\<forall>r\<in>set (s_rows s). r_id r \<noteq> i \<longrightarrow> r \<in> set (s_rows s'))"

lemma only_refl [simp]: "only_run i s s"
  by (simp add: only_run_def)

lemma only_trans: "only_run i a b \<Longrightarrow> only_run i b c \<Longrightarrow> only_run i a c"
  by (auto simp: only_run_def)

lemma only_touch: "(\<And>r. P r \<Longrightarrow> r_id r = i) \<Longrightarrow> only_run i s (snd (touch P f s))"
  by (force simp: only_run_def touch_def store_simps)

lemma only_wake:
  assumes "addressed = Some i"
  shows "only_run i s (wake_on_reply L mx now r d ev vars addressed s)"
proof (cases "r_id r = i")
  case True
  have o: "only_run i t (offer L now r ev fs n t)" for t n fs
    using only_touch [of "standing (r_merchant r) (r_id r) (n_id n)" i t] True
    by (auto simp: offer_def resume_run_by_id_def standing_def split: option.splits)
  have f: "only_run i t (fold (offer L now r ev fs) ns t)" for ns t fs
  proof (induction ns arbitrary: t)
    case (Cons n ns)
    show ?case by (simp, rule only_trans [OF o Cons.IH])
  qed simp
  have g: "only_run i t (snd (refresh_run_facts now (r_merchant r) (r_id r) nd fs ptr t))" for t nd fs ptr
    unfolding refresh_run_facts_def by (rule only_touch) (simp add: standing_def True)
  show ?thesis unfolding wake_on_reply_def Let_def
    by (auto simp: f split: option.splits intro: only_trans [OF f g])
next
  case False
  then show ?thesis using assms by (simp add: wake_on_reply_def)
qed

lemma no_tier_no_goal: "goal_tiers d (Some t) = [] \<Longrightarrow> end_on_goal L wall now r d ev (goal_tiers d (Some t)) s = Some (False, s)"
  by simp

lemma only_judged:
  assumes "addressed = Some i" and "\<And>r d. pinned R db r = Some d \<Longrightarrow> goal_tiers d (Some (ev_topic ev)) = []"
    and "judge_run R L mx wall now ev vars addressed r db = Some db'"
  shows "only_run i (db_runs db) (db_runs db')"
proof (cases "pinned R db r")
  case None
  then show ?thesis using assms(3) by (simp add: judge_run_def)
next
  case (Some d)
  then have g: "goal_tiers d (Some (ev_topic ev)) = []" by (rule assms(2))
  have "db' = db\<lparr>db_runs := wake_on_reply L mx now r d ev vars addressed (db_runs db)\<rparr>"
    using assms(3) Some g by (simp add: judge_run_def)
  then show ?thesis using only_wake [OF assms(1)] by simp
qed
lemma pinned_runs [simp]: "pinned R (db\<lparr>db_runs := s\<rparr>) r = pinned R db r"
  by (simp add: pinned_def get_definition_def)

text \<open>The topic is no goal of any run's version, and opens no door of these plans.\<close>

definition no_goal :: "readers \<Rightarrow> plan_db \<Rightarrow> string \<Rightarrow> bool" where
  "no_goal R db topic \<longleftrightarrow> (\<forall>r d. pinned R db r = Some d \<longrightarrow> goal_tiers d (Some topic) = [])"

definition no_door :: "readers \<Rightarrow> plan_row list \<Rightarrow> string \<Rightarrow> bool" where
  "no_door R ps topic \<longleftrightarrow> (\<forall>p\<in>set ps. \<forall>doc d. pl_definition p = Some doc \<longrightarrow> rd_definition R doc = Inr d \<longrightarrow>
     (\<forall>e\<in>set (doors d). e_topic e \<noteq> topic))"

lemma only_all_judged:
  assumes "addressed = Some i"
  shows "each_of (judge_run R L mx wall now ev vars addressed) rs db = Some db' \<Longrightarrow>
    no_goal R db (ev_topic ev) \<Longrightarrow>
    only_run i (db_runs db) (db_runs db')"
proof (induction rs arbitrary: db)
  case (Cons r rs)
  obtain db1 where 1: "judge_run R L mx wall now ev vars addressed r db = Some db1"
      and 2: "each_of (judge_run R L mx wall now ev vars addressed) rs db1 = Some db'"
    using Cons.prems(1) by (auto split: option.splits)
  obtain s where "db1 = db\<lparr>db_runs := s\<rparr>" using judge_moved [OF 1] by blast
  then have "only_run i (db_runs db1) (db_runs db')" using Cons.IH [OF 2] Cons.prems(2) by (simp add: no_goal_def)
  moreover have "only_run i (db_runs db) (db_runs db1)"
    by (rule only_judged [OF assms _ 1]) (use Cons.prems(2) in \<open>simp add: no_goal_def\<close>)
  ultimately show ?case using only_trans by blast
qed simp

lemma no_door_no_knock:
  "no_door R ps (ev_topic ev) \<Longrightarrow> \<forall>p\<in>set ps. pl_definition p \<noteq> None \<Longrightarrow>
    each_of (knock R L mx wall now fresh ev c handles rs vars addressed) ps db = Some db' \<Longrightarrow> db' = db"
proof (induction ps arbitrary: db)
  case (Cons p ps)
  obtain doc where doc: "pl_definition p = Some doc" using Cons.prems(2) by auto
  obtain db1 where 1: "knock R L mx wall now fresh ev c handles rs vars addressed p db = Some db1"
      and 2: "each_of (knock R L mx wall now fresh ev c handles rs vars addressed) ps db1 = Some db'"
    using Cons.prems(3) by (auto split: option.splits)
  obtain d where d: "rd_definition R doc = Inr d" using 1 doc by (auto simp: knock_def split: sum.splits)
  have "\<And>e. e \<in> set (doors d) \<Longrightarrow> e_topic e \<noteq> ev_topic ev" using Cons.prems(1) doc d by (simp add: no_door_def)
  then have "find (\<lambda>e. e_topic e = ev_topic ev \<and> conditions_match L (e_where e) ev) (doors d) = None"
    by (auto simp: find_None_iff)
  then have "db1 = db" using 1 doc d by (simp add: knock_def)
  then show ?case using Cons.IH [OF _ _ 2] Cons.prems(1,2) by (simp add: no_door_def)
qed simp

text \<open>
  C9 A reply is addressed, not matched: a letter answering a message one of her runs sent -- on a
  topic that is no goal of her runs and opens no door -- changes no other run, whatever their
  squares listen for.
\<close>

theorem reply_reaches_only_its_run:
  assumes addr: "addressed_run L behind ev = Some i"
    and her: "i \<in> r_id ` set (open_runs_for_customer (ev_merchant ev) c (db_runs db))"
    and goals: "no_goal R db (ev_topic ev)" and doors: "no_door R (live_workflows (ev_merchant ev) db) (ev_topic ev)"
    and ok: "sound R db"
    and con: "consume_attributed_event R L behind mx wall now fresh ev (Some c) handles vars db = Some db'"
    and r: "r \<in> set (s_rows (db_runs db))" "r_id r \<noteq> i"
  shows "r \<in> set (s_rows (db_runs db'))"
proof -
  let ?rs = "open_runs_for_customer (ev_merchant ev) c (db_runs db)"
  have "?rs \<noteq> []" using her by auto
  then obtain db1 where j: "each_of (judge_run R L mx wall now ev vars (Some i)) ?rs db = Some db1"
      and k: "each_of (knock R L mx wall now fresh ev c handles ?rs vars (Some i)) (live_workflows (ev_merchant ev) db1) db1 = Some db'"
    using con addr her by (auto simp: consume_attributed_event_def Let_def split: option.splits)
  obtain s where s: "db1 = db\<lparr>db_runs := s\<rparr>" using each_judged [OF j] by blast
  then have live: "live_workflows (ev_merchant ev) db1 = live_workflows (ev_merchant ev) db"
    by (simp add: live_workflows_def)
  have "\<forall>p\<in>set (live_workflows (ev_merchant ev) db). pl_definition p \<noteq> None"
    using ok by (auto simp: live_workflows_def entry_columns_def sound_def plans_ok_def plan_ok_def)
  then have "db' = db1" using no_door_no_knock [OF doors] k [unfolded live] by blast
  then show ?thesis using only_all_judged [OF refl j goals] r by (simp add: only_run_def)
qed

section \<open>Instances\<close>

definition cart_letter :: letter where
  "cart_letter = \<lparr>ev_id = ''e1'', ev_merchant = ''m1'', ev_source = ''shop'', ev_topic = ''cart'',
     ev_payload = [(''cart_value'', JInt 100), (''phone'', JStr ''98765 43210'')], ev_received = 5,
     ev_occurred = None, ev_customer = Some ''c1''\<rparr>"

definition cart_delivery :: delivery where
  "cart_delivery = \<lparr>dl_letter = cart_letter, dl_customer = ''c1'', dl_handles = [], dl_variables = [],
     dl_wall = 7, dl_now = 8, dl_fresh = (\<lambda>w. ''r1'')\<rparr>"

lemma demo_past: "reads_past_playbook demo_readers"
  by (simp add: reads_past_playbook_def demo_readers_def board_plan_def)
theorem letter_refines_the_commits_witness:
  "\<exists>db'. deliver demo_readers india_lib (\<lambda>_ _. None) 100 cart_delivery live_db = Some db'
     \<and> committed demo_readers india_lib quiet_ext demo_registry db' \<and> length (s_rows (db_runs db')) = 1"
proof -
  have "case deliver demo_readers india_lib (\<lambda>_ _. None) 100 cart_delivery live_db of
      None \<Rightarrow> False | Some db \<Rightarrow> length (s_rows (db_runs db)) = 1" by code_simp
  then obtain db' where d: "deliver demo_readers india_lib (\<lambda>_ _. None) 100 cart_delivery live_db = Some db'"
      and l: "length (s_rows (db_runs db')) = 1" by (auto split: option.splits)
  then show ?thesis
    using letter_refines_the_commits [OF demo_live demo_numbers demo_past d [unfolded deliver_def]] by blast
qed

theorem letter_starts_one_run_witness:
  "\<exists>db'. each_of (deliver demo_readers india_lib (\<lambda>_ _. None) 100) [cart_delivery, cart_delivery] live_db = Some db'
     \<and> s_rows (db_runs db') \<noteq> []
     \<and> (\<forall>r\<in>set (s_rows (db_runs db')). \<forall>r'\<in>set (s_rows (db_runs db')). origin r = origin r' \<longrightarrow> r = r')"
proof -
  let ?go = "each_of (deliver demo_readers india_lib (\<lambda>_ _. None) 100) [cart_delivery, cart_delivery] live_db"
  let ?src = "\<lambda>r. pg_text (dget (r_context r) ''source_event_id'') = Some ''e1''"
  have "case ?go of None \<Rightarrow> False | Some db \<Rightarrow> s_rows (db_runs db) \<noteq> [] \<and> list_all ?src (s_rows (db_runs db))"
    by code_simp
  then obtain db' where d: "?go = Some db'" and n: "s_rows (db_runs db') \<noteq> []" and a: "\<forall>r\<in>set (s_rows (db_runs db')). ?src r"
    by (auto simp: list_all_iff split: option.splits)
  have u: "sources_unique (db_runs live_db)"
    by (simp add: sources_unique_def live_db_def no_plans_def no_store_def)
  have e: "\<forall>x\<in>set [cart_delivery, cart_delivery]. ev_id (dl_letter x) \<noteq> []"
    by (simp add: cart_delivery_def cart_letter_def)
  show ?thesis
    using d n a letter_starts_one_run [OF demo_live demo_numbers demo_past u d e] by blast
qed

definition reply_letter :: letter where
  "reply_letter = \<lparr>ev_id = ''e2'', ev_merchant = ''m1'', ev_source = ''whatsapp'', ev_topic = ''reply'',
     ev_payload = [(''replied_to'', JStr ''wamid.7'')], ev_received = 5, ev_occurred = None, ev_customer = Some ''c1''\<rparr>"

definition sent_by_r1 :: "string \<Rightarrow> string \<Rightarrow> sent_row option" where
  "sent_by_r1 m pid = (if pid = ''wamid.7''
     then Some \<lparr>sr_kind = ''workflow'', sr_source_id = Some ''r1'', sr_dedupe = ''r1:ask''\<rparr> else None)"

definition other_run :: run where
  "other_run = demo_run\<lparr>r_id := ''r2'', r_key := ''k2''\<rparr>"

definition two_runs :: plan_db where
  "two_runs = live_db\<lparr>db_runs := no_store\<lparr>s_rows := [demo_run, other_run]\<rparr>\<rparr>"

lemma two_runs_sound: "sound demo_readers two_runs"
proof -
  have s: "sound demo_readers running_db" by (rule committed_sound [OF demo_numbers demo_running])
  have p: "pin other_run = pin demo_run" by (simp add: other_run_def pin_def)
  have st: "stands demo_readers running_db demo_run"
    using s by (simp add: sound_def all_stand_def running_db_def is_open_def demo_run_def born_def)
  have t: "two_runs = running_db\<lparr>db_runs := no_store\<lparr>s_rows := [demo_run, other_run]\<rparr>\<rparr>"
    by (simp add: two_runs_def running_db_def)
  show ?thesis unfolding t
    using s runs_only st stands_pin [OF p] by (auto simp: sound_def all_stand_def)
qed

theorem reply_reaches_only_its_run_witness:
  "\<exists>db'. consume_attributed_event demo_readers india_lib sent_by_r1 100 7 8 (\<lambda>_. ''r3'') reply_letter (Some ''c1'') [] [] two_runs
       = Some db' \<and> other_run \<in> set (s_rows (db_runs db'))"
proof -
  let ?go = "consume_attributed_event demo_readers india_lib sent_by_r1 100 7 8 (\<lambda>_. ''r3'') reply_letter (Some ''c1'') [] [] two_runs"
  have "?go \<noteq> None" by code_simp
  then obtain db' where go: "?go = Some db'" by auto
  have "addressed_run india_lib sent_by_r1 reply_letter = Some ''r1''" by code_simp
  moreover have "''r1'' \<in> r_id ` set (open_runs_for_customer (ev_merchant reply_letter) ''c1'' (db_runs two_runs))" by code_simp
  moreover have "no_goal demo_readers two_runs (ev_topic reply_letter)"
  proof -
    have "goal_tiers board_plan (Some (ev_topic reply_letter)) = []" by code_simp
    then show ?thesis by (auto simp: no_goal_def pinned_def demo_readers_def split: option.splits)
  qed
  moreover have "no_door demo_readers (live_workflows (ev_merchant reply_letter) two_runs) (ev_topic reply_letter)"
  proof -
    have "list_all (\<lambda>e. e_topic e \<noteq> ev_topic reply_letter) (doors board_plan)" by code_simp
    then show ?thesis by (simp add: no_door_def demo_readers_def list_all_iff)
  qed
  moreover have "other_run \<in> set (s_rows (db_runs two_runs))" "r_id other_run \<noteq> ''r1''"
    by (simp_all add: two_runs_def other_run_def)
  ultimately show ?thesis using reply_reaches_only_its_run [OF _ _ _ _ two_runs_sound go] go by blast
qed

end
