(* ===== verification/Manifest_Laws.thy ===== *)
theory Manifest_Laws
  imports Manifest
begin

text \<open>
  What the statements of the manifest promise, in whatever order producers, dispatchers, sweeps and
  receipts commit: the shape of a row, that a message is handed to a worker at most as often as the
  attempts allow and each time under a new generation, that a settled row never goes back, and what
  a row says after any receipts in any order.
\<close>

section \<open>Queues that count their claims\<close>

text \<open>
  A queue hands out work under a generation: a step \<open>step s h s'\<close> hands out the pairs of \<open>h\<close>.
\<close>

inductive traced :: "('s \<Rightarrow> (string \<times> nat) list \<Rightarrow> 's \<Rightarrow> bool) \<Rightarrow> 's \<Rightarrow> (string \<times> nat) list \<Rightarrow> 's \<Rightarrow> bool"
  for step :: "'s \<Rightarrow> (string \<times> nat) list \<Rightarrow> 's \<Rightarrow> bool" where
  at_rest: "traced step s [] s"
| and_then: "traced step s hs t \<Longrightarrow> step t h u \<Longrightarrow> traced step s (hs @ h) u"

locale leased_queue =
  fixes step :: "'s \<Rightarrow> (string \<times> nat) list \<Rightarrow> 's \<Rightarrow> bool"
    and generation :: "'s \<Rightarrow> string \<Rightarrow> nat"
    and ok :: "'s \<Rightarrow> bool"
    and limit :: nat
  assumes ok_step: "ok s \<Longrightarrow> step s h s' \<Longrightarrow> ok s'"
    and generation_grows: "ok s \<Longrightarrow> step s h s' \<Longrightarrow> generation s i \<le> generation s' i"
    and handed_new: "ok s \<Longrightarrow> step s h s' \<Longrightarrow> (i, k) \<in> set h \<Longrightarrow> generation s i < k \<and> k = generation s' i"
    and handed_apart: "ok s \<Longrightarrow> step s h s' \<Longrightarrow> distinct (map fst h)"
    and generation_bounded: "ok s \<Longrightarrow> generation s i \<le> limit"
begin

lemma traced_ok: "traced step s hs s' \<Longrightarrow> ok s \<Longrightarrow> ok s'"
  by (induction rule: traced.induct) (auto intro: ok_step)

lemma traced_generation:
  "traced step s hs s' \<Longrightarrow> ok s \<Longrightarrow> (i, k) \<in> set hs \<Longrightarrow> generation s i < k \<and> k \<le> generation s' i"
proof (induction arbitrary: i k rule: traced.induct)
  case (and_then s hs t h u)
  have t: "ok t" using and_then.hyps(1) and_then.prems(1) by (rule traced_ok)
  have st: "generation s i \<le> generation t i"
    using and_then.hyps(1) and_then.prems(1)
    by (induction rule: traced.induct) (auto intro: order_trans generation_grows traced_ok)
  show ?case
    using and_then.prems(2) and_then.IH [OF and_then.prems(1)] generation_grows [OF t and_then.hyps(2), of i]
      handed_new [OF t and_then.hyps(2), of i k] st by (auto intro: order_trans)
qed simp

lemma traced_distinct: "traced step s hs s' \<Longrightarrow> ok s \<Longrightarrow> distinct hs"
proof (induction rule: traced.induct)
  case (and_then s hs t h u)
  have t: "ok t" using and_then.hyps(1) and_then.prems by (rule traced_ok)
  have "distinct h" using handed_apart [OF t and_then.hyps(2)] by (simp add: distinct_map)
  moreover have "(i, k) \<notin> set h" if "(i, k) \<in> set hs" for i k
    using traced_generation [OF and_then.hyps(1) and_then.prems that] handed_new [OF t and_then.hyps(2), of i k] by auto
  ultimately show ?case using and_then.IH [OF and_then.prems] by auto
qed simp

text \<open>One task is handed out at most \<open>limit\<close> times, each time under another generation.\<close>

lemma handed_at_most:
  assumes "traced step s hs s'" and "ok s"
  shows "distinct hs \<and> length (filter (\<lambda>h. fst h = i) hs) \<le> limit"
proof -
  let ?mine = "filter (\<lambda>h. fst h = i) hs"
  have d: "distinct ?mine" using traced_distinct [OF assms] by simp
  have "set ?mine \<subseteq> (\<lambda>k. (i, k)) ` {1..limit}"
  proof
    fix h assume h: "h \<in> set ?mine"
    then have "h \<in> set hs" "fst h = i" by (simp_all only: set_filter mem_Collect_eq)
    then obtain k where k: "h = (i, k)" "(i, k) \<in> set hs" by (metis prod.collapse)
    show "h \<in> (\<lambda>k. (i, k)) ` {1..limit}"
      using k traced_generation [OF assms k(2)] generation_bounded [OF traced_ok [OF assms], of i] by auto
  qed
  then have "card (set ?mine) \<le> card ((\<lambda>k. (i, k)) ` {1..limit})" by (rule card_mono [rotated]) simp
  also have "\<dots> \<le> limit" using card_image_le [of "{1..limit}" "\<lambda>k. (i, k)"] by simp
  finally have "length ?mine \<le> limit" using distinct_card [OF d] by simp
  then show ?thesis using traced_distinct [OF assms] by blast
qed

end

section \<open>The table\<close>

definition unstamped :: "manifest_row \<Rightarrow> bool" where
  "unstamped m \<longleftrightarrow> mg_sent_at m = None \<and> mg_delivered_at m = None \<and> mg_read_at m = None"

definition row_ok :: "nat \<Rightarrow> manifest_row \<Rightarrow> bool" where
  "row_ok N m = (case mg_status m of
       M_queued \<Rightarrow> mg_attempt m < N \<and> mg_claimed m = None \<and> unstamped m
     | M_sending \<Rightarrow> 0 < mg_attempt m \<and> mg_attempt m \<le> N \<and> mg_claimed m \<noteq> None \<and> unstamped m
     | _ \<Rightarrow> mg_attempt m \<le> N)"

text \<open>The primary key, the dedupe unique and the partial unique on the provider's id.\<close>

definition provider_unique :: "manifest_row set \<Rightarrow> bool" where
  "provider_unique M \<longleftrightarrow>
     (\<forall>m\<in>M. \<forall>m'\<in>M. \<forall>p. mg_provider m = Some p \<longrightarrow> mg_provider m' = Some p \<longrightarrow> mg_id m = mg_id m')"

definition keys_unique :: "manifest_row list \<Rightarrow> bool" where
  "keys_unique ms \<longleftrightarrow> distinct (map mg_id ms) \<and> distinct (map (\<lambda>m. (mg_merchant m, mg_dedupe m)) ms)
     \<and> provider_unique (set ms)"

definition manifest_ok :: "nat \<Rightarrow> manifest_row list \<Rightarrow> bool" where
  "manifest_ok N ms \<longleftrightarrow> keys_unique ms \<and> list_all (row_ok N) ms"

definition waits :: "message_status \<Rightarrow> bool" where
  "waits st \<longleftrightarrow> st = M_queued \<or> st = M_sending"

definition handed_out :: "manifest_row list \<Rightarrow> (string \<times> nat) list" where
  "handed_out ms = map (\<lambda>m. (mg_id m, mg_attempt m)) ms"

text \<open>
  Every statement that writes the table, with what it hands to a worker.  An outcome puts a row back
  in the queue only below the limit, as \<open>plan_for_outcome\<close> does, and never leaves it claimed.
\<close>

inductive manifest_step :: "nat \<Rightarrow> manifest_row list \<Rightarrow> (string \<times> nat) list \<Rightarrow> manifest_row list \<Rightarrow> bool" for N where
  proposed: "\<forall>m\<in>set ms. mg_id m \<noteq> i \<Longrightarrow> 0 < N \<Longrightarrow>
    manifest_step N ms [] (snd (insert_message now i mer cus cha addr kind src purp tpl vars ded ms))"
| claimed: "claim_queued_messages locked now batch ms = (got, ms') \<Longrightarrow> manifest_step N ms (handed_out got) ms'"
| swept: "requeue_stale_claims now stale N ms = (ids, ms') \<Longrightarrow> manifest_step N ms [] ms'"
| recorded: "apply_outcome now i status reason provider mark attempt retry binding ms = Some (b, ms') \<Longrightarrow>
    status \<noteq> M_sending \<Longrightarrow> (status = M_queued \<Longrightarrow> attempt < N \<and> \<not> mark) \<Longrightarrow> manifest_step N ms [] ms'"
| received: "apply_receipt now mer provider state occ err pricing ms = (st, ms') \<Longrightarrow>
    state \<in> {M_sent, M_delivered, M_read, M_failed} \<Longrightarrow> manifest_step N ms [] ms'"

section \<open>What a statement does to one row\<close>

lemma set_rewrite_rows: "set (rewrite_rows P f ms) = (\<lambda>m. if P m then f m else m) ` set ms"
  by (simp add: rewrite_rows_def)

lemma map_rewrite_rows: "(\<And>m. g (f m) = g m) \<Longrightarrow> map g (rewrite_rows P f ms) = map g ms"
  by (auto simp: rewrite_rows_def)

lemma row_ok_rewrite:
  assumes "list_all (row_ok N) ms" and "\<And>m. m \<in> set ms \<Longrightarrow> P m \<Longrightarrow> row_ok N m \<Longrightarrow> row_ok N (f m)"
  shows "list_all (row_ok N) (rewrite_rows P f ms)"
  using assms by (auto simp: list_all_iff set_rewrite_rows)

lemma row_ok_attempt: "row_ok N m \<Longrightarrow> mg_attempt m \<le> N"
  by (auto simp: row_ok_def split: message_status.splits)

lemma row_ok_waits: "row_ok N m \<Longrightarrow> waits (mg_status m) \<Longrightarrow> unstamped m"
  by (auto simp: row_ok_def waits_def)

lemma claim_mark_ok: "row_ok N m \<Longrightarrow> mg_status m = M_queued \<Longrightarrow> row_ok N (claim_mark now m)"
  by (simp add: row_ok_def claim_mark_def unstamped_def)

lemma reclaim_mark_ok: "row_ok N m \<Longrightarrow> mg_status m = M_sending \<Longrightarrow> row_ok N (reclaim_mark N m)"
  by (simp add: row_ok_def reclaim_mark_def unstamped_def)

lemma outcome_mark_ok:
  assumes "row_ok N m" and "mg_status m = M_sending" and "status \<noteq> M_sending"
    and "status = M_queued \<Longrightarrow> mg_attempt m < N \<and> \<not> mark"
  shows "row_ok N (outcome_mark now status reason provider mark retry binding m)"
  using assms by (auto simp: row_ok_def outcome_mark_def unstamped_def split: message_status.splits)

lemma receipt_mark_ok:
  assumes "row_ok N m" and "state \<in> {M_sent, M_delivered, M_read, M_failed}"
  shows "row_ok N (receipt_mark now state occ err pricing m)"
  using assms row_ok_attempt [OF assms(1)]
  by (cases "mg_status m"; cases state)
     (simp_all add: row_ok_def receipt_mark_def Let_def fails_def moved_on_def unstamped_def)

lemma provider_uniqueI:
  "(\<And>m m' p. m \<in> M \<Longrightarrow> m' \<in> M \<Longrightarrow> mg_provider m = Some p \<Longrightarrow> mg_provider m' = Some p \<Longrightarrow> mg_id m = mg_id m')
   \<Longrightarrow> provider_unique M"
  unfolding provider_unique_def by blast

lemma provider_uniqueD:
  "provider_unique M \<Longrightarrow> m \<in> M \<Longrightarrow> m' \<in> M \<Longrightarrow> mg_provider m = Some p \<Longrightarrow> mg_provider m' = Some p \<Longrightarrow> mg_id m = mg_id m'"
  unfolding provider_unique_def by blast

lemma keys_rewrite:
  assumes id: "\<And>m. mg_id (f m) = mg_id m" and mer: "\<And>m. mg_merchant (f m) = mg_merchant m"
    and ded: "\<And>m. mg_dedupe (f m) = mg_dedupe m" and k: "keys_unique ms"
    and new: "\<And>m m' p. m \<in> set ms \<Longrightarrow> m' \<in> set ms \<Longrightarrow> P m \<Longrightarrow> mg_provider (f m) = Some p \<Longrightarrow>
      mg_provider (if P m' then f m' else m') = Some p \<Longrightarrow> mg_id m = mg_id m'"
  shows "keys_unique (rewrite_rows P f ms)"
proof -
  have u: "provider_unique (set ms)" using k by (simp add: keys_unique_def)
  have "provider_unique (set (rewrite_rows P f ms))"
  proof (rule provider_uniqueI)
    fix x x' p
    assume "x \<in> set (rewrite_rows P f ms)" "x' \<in> set (rewrite_rows P f ms)"
    then obtain m m' where m: "m \<in> set ms" "m' \<in> set ms"
        and x: "x = (if P m then f m else m)" "x' = (if P m' then f m' else m')"
      unfolding set_rewrite_rows by (elim imageE) (rule that)
    assume p: "mg_provider x = Some p" "mg_provider x' = Some p"
    have "mg_id m = mg_id m'"
    proof (cases "P m")
      case True
      then show ?thesis using new [OF m True] p x by simp
    next
      case False
      show ?thesis
      proof (cases "P m'")
        case True
        then show ?thesis using new [OF m(2) m(1) True, of p] p x False by simp
      next
        case F: False
        then show ?thesis using provider_uniqueD [OF u m] p x False by simp
      qed
    qed
    then show "mg_id x = mg_id x'" using x id by simp
  qed
  then show ?thesis using k id mer ded by (simp add: keys_unique_def map_rewrite_rows)
qed

lemma keys_same:
  assumes "\<And>m. mg_id (f m) = mg_id m" "\<And>m. mg_merchant (f m) = mg_merchant m" "\<And>m. mg_dedupe (f m) = mg_dedupe m"
    and p: "\<And>m. mg_provider (f m) = mg_provider m" and k: "keys_unique ms"
  shows "keys_unique (rewrite_rows P f ms)"
proof (rule keys_rewrite)
  fix m m' q assume m: "m \<in> set ms" "m' \<in> set ms" and q: "mg_provider (f m) = Some q"
    "mg_provider (if P m' then f m' else m') = Some q"
  have "provider_unique (set ms)" using k by (simp add: keys_unique_def)
  then show "mg_id m = mg_id m'" by (rule provider_uniqueD [OF _ m, of q]) (use p q in \<open>simp_all split: if_splits\<close>)
qed (use assms in simp_all)

lemma same_message: "keys_unique ms \<Longrightarrow> m \<in> set ms \<Longrightarrow> m' \<in> set ms \<Longrightarrow> mg_id m = mg_id m' \<Longrightarrow> m = m'"
  by (auto simp: keys_unique_def distinct_map inj_on_def)

lemma keys_outcome:
  assumes k: "keys_unique ms" and ap: "apply_outcome now i status reason provider mark attempt retry binding ms = Some (b, ms')"
  shows "keys_unique ms'"
proof -
  let ?P = "holds_claim i attempt" and ?f = "outcome_mark now status reason provider mark retry binding"
  have ms': "ms' = rewrite_rows ?P ?f ms"
    and fresh: "\<And>m m'. m \<in> set ms \<Longrightarrow> ?P m \<Longrightarrow> m' \<in> set ms \<Longrightarrow> \<not> ?P m' \<Longrightarrow> provider \<noteq> None \<Longrightarrow> mg_provider m' \<noteq> provider"
    using ap by (auto simp: apply_outcome_def Let_def list_ex_iff split: if_splits)
  have same: "mg_id m = mg_id m'" if "?P m" "?P m'" for m m' using that by (simp add: holds_claim_def)
  have u: "provider_unique (set ms)" using k by (simp add: keys_unique_def)
  have apart: "mg_id m = mg_id m'" if m: "m \<in> set ms" "m' \<in> set ms" and P: "?P m" and p: "mg_provider (?f m) = Some p"
      and e: "mg_provider (if ?P m' then ?f m' else m') = Some p" for m m' p
  proof (cases "?P m'")
    case True
    then show ?thesis using same P by blast
  next
    case False
    then have m': "mg_provider m' = Some p" using e by simp
    show ?thesis
    proof (cases provider)
      case None
      then have "mg_provider m = Some p" using p by (simp add: outcome_mark_def or_else_def)
      then show ?thesis using provider_uniqueD [OF u m] m' by blast
    next
      case (Some q)
      then have "provider = Some p" using p by (simp add: outcome_mark_def or_else_def)
      then show ?thesis using fresh [OF m(1) P m(2) False] m' by simp
    qed
  qed
  show ?thesis unfolding ms'
    by (rule keys_rewrite [OF _ _ _ k]) (simp add: outcome_mark_def, simp add: outcome_mark_def, simp add: outcome_mark_def, rule apart)
qed

lemma provider_unique_insert:
  assumes "provider_unique M" and "mg_provider r = None"
  shows "provider_unique (insert r M)"
proof (rule provider_uniqueI)
  fix m m' p
  assume "m \<in> insert r M" "m' \<in> insert r M" and p: "mg_provider m = Some p" "mg_provider m' = Some p"
  then have "m \<in> M" "m' \<in> M" using assms(2) by auto
  then show "mg_id m = mg_id m'" using provider_uniqueD [OF assms(1)] p by blast
qed

lemma keys_insert:
  assumes k: "keys_unique ms" and new: "\<forall>m\<in>set ms. mg_id m \<noteq> i"
  shows "keys_unique (snd (insert_message now i mer cus cha addr kind src purp tpl vars ded ms))"
proof (cases "list_ex (\<lambda>m. mg_merchant m = mer \<and> mg_dedupe m = ded) ms")
  case True
  then show ?thesis using k by (simp add: insert_message_def)
next
  case False
  have "i \<notin> mg_id ` set ms" using new by blast
  moreover have "(mer, ded) \<notin> (\<lambda>m. (mg_merchant m, mg_dedupe m)) ` set ms"
    using False by (auto simp: list_ex_iff)
  moreover have "distinct (map mg_id ms)" "distinct (map (\<lambda>m. (mg_merchant m, mg_dedupe m)) ms)" "provider_unique (set ms)"
    using k by (simp_all add: keys_unique_def)
  ultimately show ?thesis using False
    by (simp add: keys_unique_def insert_message_def provider_unique_insert)
qed

section \<open>The table keeps its shape\<close>

lemma claim_rewrites:
  assumes "claim_queued_messages locked now batch ms = (got, ms')"
  shows "\<exists>P. got = map (claim_mark now) (filter P ms) \<and> ms' = rewrite_rows P (claim_mark now) ms"
  using assms by (auto simp: claim_queued_messages_def Let_def)

lemma claimed_due:
  assumes "m \<in> set ms" and "mg_id m \<in> claimed_messages locked now batch ms" and "distinct (map mg_id ms)"
  shows "is_queued_due now m"
proof -
  have "mg_id m \<in> mg_id ` set (filter (\<lambda>m. is_queued_due now m \<and> \<not> locked (mg_id m)) ms)"
    using assms(2) set_take_subset [of batch "sort_key mg_next (filter (\<lambda>m. is_queued_due now m \<and> \<not> locked (mg_id m)) ms)"]
    unfolding claimed_messages_def by auto
  then obtain m' where "m' \<in> set ms" "is_queued_due now m'" "mg_id m' = mg_id m" by auto
  then show ?thesis using assms(1,3) by (auto simp: distinct_map inj_on_def)
qed

lemma keys_distinct: "keys_unique ms \<Longrightarrow> distinct (map mg_id ms)"
  by (simp add: keys_unique_def)

lemma claim_step_ok:
  assumes "manifest_ok N ms" and "claim_queued_messages locked now batch ms = (got, ms')"
  shows "manifest_ok N ms'"
proof -
  let ?P = "\<lambda>m. mg_id m \<in> claimed_messages locked now batch ms"
  have ms': "ms' = rewrite_rows ?P (claim_mark now) ms" using assms(2) by (simp add: claim_queued_messages_def Let_def)
  have k: "keys_unique ms" and r: "list_all (row_ok N) ms" using assms(1) by (simp_all add: manifest_ok_def)
  have "list_all (row_ok N) ms'"
    unfolding ms' using claimed_due [OF _ _ keys_distinct [OF k]]
    by (intro row_ok_rewrite r claim_mark_ok) (auto simp: is_queued_due_def)
  moreover have "keys_unique ms'" unfolding ms' by (intro keys_same k) (simp_all add: claim_mark_def)
  ultimately show ?thesis by (simp add: manifest_ok_def)
qed

lemma sweep_step_ok:
  assumes "manifest_ok N ms" and "requeue_stale_claims now stale N ms = (ids, ms')"
  shows "manifest_ok N ms'"
proof -
  have ms': "ms' = rewrite_rows (is_stale now stale) (reclaim_mark N) ms"
    using assms(2) by (simp add: requeue_stale_claims_def Let_def)
  show ?thesis
    using assms(1) unfolding manifest_ok_def ms'
    by (intro conjI keys_same row_ok_rewrite reclaim_mark_ok) (auto simp: reclaim_mark_def is_stale_def)
qed

lemma outcome_step_ok:
  assumes "manifest_ok N ms"
    and ap: "apply_outcome now i status reason provider mark attempt retry binding ms = Some (b, ms')"
    and "status \<noteq> M_sending" and "status = M_queued \<Longrightarrow> attempt < N \<and> \<not> mark"
  shows "manifest_ok N ms'"
proof -
  have ms': "ms' = rewrite_rows (holds_claim i attempt) (outcome_mark now status reason provider mark retry binding) ms"
    using ap by (auto simp: apply_outcome_def Let_def split: if_splits)
  have "list_all (row_ok N) ms'"
    unfolding ms' using assms by (intro row_ok_rewrite outcome_mark_ok) (auto simp: manifest_ok_def holds_claim_def)
  then show ?thesis using keys_outcome [OF _ ap] assms(1) by (simp add: manifest_ok_def)
qed

lemma receipt_step_ok:
  assumes "manifest_ok N ms" and "apply_receipt now mer provider state occ err pricing ms = (st, ms')"
    and "state \<in> {M_sent, M_delivered, M_read, M_failed}"
  shows "manifest_ok N ms'"
proof -
  have ms': "ms' = rewrite_rows (names mer provider) (receipt_mark now state occ err pricing) ms"
    using assms(2) by (simp add: apply_receipt_def Let_def)
  show ?thesis
    using assms(1,3) unfolding manifest_ok_def ms'
    by (intro conjI keys_same row_ok_rewrite receipt_mark_ok) (auto simp: receipt_mark_def Let_def)
qed

lemma insert_step_ok:
  assumes "manifest_ok N ms" and "\<forall>m\<in>set ms. mg_id m \<noteq> i" and "0 < N"
  shows "manifest_ok N (snd (insert_message now i mer cus cha addr kind src purp tpl vars ded ms))"
  using assms keys_insert [of ms i]
  by (auto simp: manifest_ok_def insert_message_def row_ok_def unstamped_def)

lemma manifest_step_ok: "manifest_ok N ms \<Longrightarrow> manifest_step N ms h ms' \<Longrightarrow> manifest_ok N ms'"
  by (erule manifest_step.cases)
     (auto intro: insert_step_ok claim_step_ok sweep_step_ok outcome_step_ok receipt_step_ok)
section \<open>Bounded attempts\<close>

definition generation_of :: "manifest_row list \<Rightarrow> string \<Rightarrow> nat" where
  "generation_of ms i = (case find (\<lambda>m. mg_id m = i) ms of None \<Rightarrow> 0 | Some m \<Rightarrow> mg_attempt m)"

lemma generation_rewrite:
  assumes "\<And>m. mg_id (f m) = mg_id m"
  shows "generation_of (rewrite_rows P f ms) i =
    (case find (\<lambda>m. mg_id m = i) ms of None \<Rightarrow> 0 | Some m \<Rightarrow> mg_attempt (if P m then f m else m))"
  using assms by (induction ms) (simp_all add: generation_of_def rewrite_rows_def)

lemma generation_row:
  assumes "distinct (map mg_id ms)" and "m \<in> set ms"
  shows "find (\<lambda>x. mg_id x = mg_id m) ms = Some m"
  using assms by (induction ms) (auto simp: image_iff)

lemma generation_kept:
  assumes "\<And>m. mg_id (f m) = mg_id m" and "\<And>m. mg_attempt (f m) = mg_attempt m"
  shows "generation_of (rewrite_rows P f ms) i = generation_of ms i"
  unfolding generation_rewrite [OF assms(1)] using assms(2) by (simp add: generation_of_def split: option.splits)

lemma generation_claim:
  assumes "claim_queued_messages locked now batch ms = (got, ms')"
  shows "generation_of ms i \<le> generation_of ms' i"
proof -
  obtain P where ms': "ms' = rewrite_rows P (claim_mark now) ms" using claim_rewrites [OF assms] by blast
  have "mg_id (claim_mark now m) = mg_id m" for m by (simp add: claim_mark_def)
  note r = generation_rewrite [of "claim_mark now", OF this]
  show ?thesis
    unfolding ms' r by (simp add: claim_mark_def generation_of_def split: option.splits)
qed

lemma generation_grows:
  assumes "manifest_step N ms h ms'"
  shows "generation_of ms i \<le> generation_of ms' i"
  using assms
proof cases
  case (proposed j now mer cus cha addr kind src purp tpl vars ded)
  then show ?thesis
    by (auto simp: insert_message_def generation_of_def find_append split: option.splits)
next
  case (claimed locked now batch got)
  then show ?thesis using generation_claim by blast
qed (auto simp: requeue_stale_claims_def apply_outcome_def apply_receipt_def Let_def generation_kept
  reclaim_mark_def outcome_mark_def receipt_mark_def split: if_splits)

lemma generation_claimed:
  assumes "keys_unique ms" and "claim_queued_messages locked now batch ms = (got, ms')" and "(i, k) \<in> set (handed_out got)"
  shows "generation_of ms i < k \<and> k = generation_of ms' i"
proof -
  obtain P where got: "got = map (claim_mark now) (filter P ms)" and ms': "ms' = rewrite_rows P (claim_mark now) ms"
    using claim_rewrites [OF assms(2)] by blast
  obtain m where m: "m \<in> set ms" "P m" "i = mg_id m" "k = mg_attempt m + 1"
    using assms(3) unfolding got by (auto simp: handed_out_def claim_mark_def)
  have "find (\<lambda>x. mg_id x = i) ms = Some m" using generation_row [OF keys_distinct [OF assms(1)] m(1)] m(3) by simp
  moreover have "mg_id (claim_mark now x) = mg_id x" for x by (simp add: claim_mark_def)
  note r = generation_rewrite [of "claim_mark now", OF this]
  ultimately show ?thesis
    unfolding ms' r using m by (simp add: generation_of_def claim_mark_def)
qed

lemma handed_distinct:
  assumes "keys_unique ms" and "claim_queued_messages locked now batch ms = (got, ms')"
  shows "distinct (map fst (handed_out got))"
proof -
  obtain P where got: "got = map (claim_mark now) (filter P ms)" using claim_rewrites [OF assms(2)] by blast
  have "map fst (handed_out got) = map mg_id (filter P ms)" unfolding got by (simp add: handed_out_def claim_mark_def)
  then show ?thesis using keys_distinct [OF assms(1)] by (simp add: distinct_map inj_on_def)
qed

lemma generation_limit: "manifest_ok N ms \<Longrightarrow> generation_of ms i \<le> N"
  by (auto simp: generation_of_def manifest_ok_def list_all_iff find_Some_iff dest: row_ok_attempt split: option.splits)

lemma step_hands_out:
  assumes "manifest_ok N ms" and "manifest_step N ms h ms'"
  shows "distinct (map fst h) \<and> (\<forall>i k. (i, k) \<in> set h \<longrightarrow> generation_of ms i < k \<and> k = generation_of ms' i)"
  using assms(2)
proof cases
  case (claimed locked now batch got)
  have k: "keys_unique ms" using assms(1) by (simp add: manifest_ok_def)
  show ?thesis
    using generation_claimed [OF k claimed(2)] handed_distinct [OF k claimed(2)] claimed(1) by blast
qed simp_all

interpretation claims: leased_queue "manifest_step N" generation_of "manifest_ok N" N for N
proof unfold_locales
  fix ms ms' h i k
  assume ok: "manifest_ok N ms" and st: "manifest_step N ms h ms'"
  show "manifest_ok N ms'" using ok st by (rule manifest_step_ok)
  show "generation_of ms i \<le> generation_of ms' i" using st by (rule generation_grows)
  show "distinct (map fst h)" using step_hands_out [OF ok st] by blast
  show "generation_of ms i < k \<and> k = generation_of ms' i" if "(i, k) \<in> set h"
    using step_hands_out [OF ok st] that by blast
qed (rule generation_limit)

lemma empty_manifest_ok: "manifest_ok N []"
  by (simp add: manifest_ok_def keys_unique_def provider_unique_def)

section \<open>A settled row\<close>

definition same_proposal :: "manifest_row \<Rightarrow> manifest_row \<Rightarrow> bool" where
  "same_proposal m m' \<longleftrightarrow> mg_id m' = mg_id m \<and> mg_merchant m' = mg_merchant m \<and> mg_customer m' = mg_customer m
     \<and> mg_channel m' = mg_channel m \<and> mg_address m' = mg_address m \<and> mg_source_kind m' = mg_source_kind m
     \<and> mg_source_id m' = mg_source_id m \<and> mg_purpose m' = mg_purpose m \<and> mg_template m' = mg_template m
     \<and> mg_variables m' = mg_variables m \<and> mg_dedupe m' = mg_dedupe m"

definition first_seen :: "'a option \<Rightarrow> 'a option \<Rightarrow> bool" where
  "first_seen x y \<longleftrightarrow> (\<forall>v. x = Some v \<longrightarrow> y = Some v)"

definition stamps_kept :: "manifest_row \<Rightarrow> manifest_row \<Rightarrow> bool" where
  "stamps_kept m m' \<longleftrightarrow> first_seen (mg_binding m) (mg_binding m') \<and> first_seen (mg_sent_at m) (mg_sent_at m')
     \<and> first_seen (mg_delivered_at m) (mg_delivered_at m') \<and> first_seen (mg_read_at m) (mg_read_at m')"

definition status_forward :: "message_status \<Rightarrow> message_status \<Rightarrow> bool" where
  "status_forward st st' \<longleftrightarrow> (if st \<in> {M_failed, M_dead} then st' = st
     else \<not> waits st' \<and> (rank st \<le> rank st' \<or> st' = M_failed \<and> rank st \<le> rank M_sent))"

definition keeps :: "manifest_row \<Rightarrow> manifest_row \<Rightarrow> bool" where
  "keeps m m' \<longleftrightarrow> same_proposal m m' \<and> stamps_kept m m' \<and> mg_attempt m \<le> mg_attempt m'
     \<and> (\<not> waits (mg_status m) \<longrightarrow> status_forward (mg_status m) (mg_status m')
          \<and> mg_attempt m' = mg_attempt m \<and> mg_provider m' = mg_provider m)"

lemma first_seen_refl [simp]: "first_seen x x"
  by (simp add: first_seen_def)

lemma first_seen_None [simp]: "first_seen None x"
  by (simp add: first_seen_def)

lemma first_seen_or_else [simp]: "first_seen x (or_else x y)"
  by (cases x) (simp_all add: first_seen_def or_else_def)

lemma first_seen_trans: "first_seen x y \<Longrightarrow> first_seen y z \<Longrightarrow> first_seen x z"
  by (simp add: first_seen_def)

lemma status_forward_refl: "\<not> waits st \<Longrightarrow> status_forward st st"
  by (simp add: status_forward_def)

lemma status_forward_settled: "status_forward st st' \<Longrightarrow> \<not> waits st \<Longrightarrow> \<not> waits st'"
  by (auto simp: status_forward_def split: if_splits)

lemma status_forward_trans: "status_forward st st' \<Longrightarrow> status_forward st' st'' \<Longrightarrow> status_forward st st''"
  by (auto simp: status_forward_def split: if_splits)

lemma kept_refl: "keeps m m"
  by (simp add: keeps_def same_proposal_def stamps_kept_def status_forward_refl)

lemma kept_trans:
  assumes "keeps m m'" and "keeps m' m''"
  shows "keeps m m''"
proof -
  have "same_proposal m m''" using assms by (simp add: keeps_def same_proposal_def)
  moreover have "stamps_kept m m''"
    using assms unfolding keeps_def stamps_kept_def by (auto intro: first_seen_trans)
  moreover have "status_forward (mg_status m) (mg_status m'') \<and> mg_attempt m'' = mg_attempt m \<and> mg_provider m'' = mg_provider m"
    if "\<not> waits (mg_status m)"
    using that assms status_forward_settled [OF _ that] unfolding keeps_def by (auto intro: status_forward_trans)
  ultimately show ?thesis using assms by (simp add: keeps_def)
qed

lemma claim_keeps: "mg_status m = M_queued \<Longrightarrow> keeps m (claim_mark now m)"
  by (simp add: keeps_def same_proposal_def stamps_kept_def claim_mark_def waits_def)

lemma reclaim_keeps: "mg_status m = M_sending \<Longrightarrow> keeps m (reclaim_mark N m)"
  by (simp add: keeps_def same_proposal_def stamps_kept_def reclaim_mark_def waits_def)

lemma outcome_keeps:
  "row_ok N m \<Longrightarrow> mg_status m = M_sending \<Longrightarrow> keeps m (outcome_mark now status reason provider mark retry binding m)"
  by (simp add: keeps_def same_proposal_def stamps_kept_def outcome_mark_def waits_def row_ok_def unstamped_def)

lemma receipt_keeps:
  "state \<in> {M_sent, M_delivered, M_read, M_failed} \<Longrightarrow> keeps m (receipt_mark now state occ err pricing m)"
  by (cases "mg_status m"; cases state)
     (simp_all add: keeps_def same_proposal_def stamps_kept_def receipt_mark_def Let_def waits_def status_forward_def
       fails_def moved_on_def)

lemma step_keeps:
  assumes ok: "manifest_ok N ms" and st: "manifest_step N ms h ms'" and m: "m \<in> set ms"
  shows "\<exists>m'\<in>set ms'. keeps m m'"
proof -
  have r: "row_ok N m" using ok m by (simp add: manifest_ok_def list_all_iff)
  have rw: "\<exists>m'\<in>set (rewrite_rows P f ms). keeps m m'" if "P m \<Longrightarrow> keeps m (f m)" for P f
    using m that kept_refl [of m] by (auto simp: set_rewrite_rows)
  show ?thesis using st
  proof cases
    case (proposed j now mer cus cha addr kind src purp tpl vars ded)
    then show ?thesis using m kept_refl [of m] by (auto simp: insert_message_def)
  next
    case (claimed locked now batch got)
    have "keys_unique ms" using ok by (simp add: manifest_ok_def)
    then show ?thesis
      using claimed(2) claimed_due [OF m _ keys_distinct, of locked now batch] claim_keeps [of m now]
      by (auto simp: claim_queued_messages_def Let_def is_queued_due_def intro!: rw)
  next
    case (swept now stale ids)
    then show ?thesis
      using reclaim_keeps [of m N] by (auto simp: requeue_stale_claims_def Let_def is_stale_def intro!: rw)
  next
    case (recorded now i status reason provider mark attempt retry binding b)
    then show ?thesis
      using outcome_keeps [OF r] by (auto simp: apply_outcome_def Let_def holds_claim_def split: if_splits intro!: rw)
  next
    case (received now mer provider state occ err pricing st)
    then show ?thesis
      using receipt_keeps [of state m now occ err pricing] by (auto simp: apply_receipt_def Let_def intro!: rw)
  qed
qed

lemma traced_keeps:
  assumes "traced (manifest_step N) ms hs ms'" and "manifest_ok N ms" and "m \<in> set ms"
  shows "\<exists>m'\<in>set ms'. keeps m m'"
  using assms
proof (induction rule: traced.induct)
  case (and_then s hs t h u)
  obtain m' where m': "m' \<in> set t" "keeps m m'" using and_then by blast
  obtain m'' where "m'' \<in> set u" "keeps m' m''"
    using step_keeps [OF claims.traced_ok [OF and_then.hyps(1) and_then.prems(1)] and_then.hyps(2) m'(1)] by blast
  then show ?case using kept_trans [OF m'(2)] by blast
qed (auto intro: kept_refl)

end
