(* ===== verification/Whatsapp.thy ===== *)
theory Whatsapp
  imports Decode
begin

text \<open>
  Meta's inbound face, \<open>app/crm/connectivity/providers/meta/inbound.py\<close> -- the signature, the
  handshake, the unwrapping of a callback into letters -- and the derived fields the catalog declares
  for WhatsApp letters, \<open>app/crm/record/extractors/whatsapp\<close>.  The digest and \<open>json.loads\<close> are the
  standard library's and arguments.  A header, a token and a body are compared as the bytes they are.
\<close>

section \<open>Authentication\<close>

definition signature_header :: string where
  "signature_header = ''x-hub-signature-256''"

definition signature_prefix :: string where
  "signature_prefix = ''sha256=''"

definition verify_signature :: "(string \<Rightarrow> string \<Rightarrow> string) \<Rightarrow> string \<Rightarrow> string \<Rightarrow> (string \<times> string) list \<Rightarrow> bool" where
  "verify_signature hmac_hex secret body headers =
     (if secret = [] then False
      else case find (\<lambda>(k, v). lower k = signature_header) headers of
        None \<Rightarrow> False
      | Some (k, header) \<Rightarrow>
          if header = [] \<or> \<not> prefix_of signature_prefix header then False
          else hmac_hex secret body = drop (length signature_prefix) header)"

definition handshake_challenge :: "string \<Rightarrow> (string \<times> string) list \<Rightarrow> string option" where
  "handshake_challenge verify_token params =
     (if verify_token = [] then None
      else let token = map_of params ''hub.verify_token''; challenge = map_of params ''hub.challenge''
           in if map_of params ''hub.mode'' \<noteq> Some ''subscribe'' \<or> \<not> opt_text token \<or> challenge = None then None
              else if the token \<noteq> verify_token then None else challenge)"

section \<open>Letters\<close>

datatype owner_kind = Owner_endpoint | Owner_account

record provider_letter =
  pv_owner_kind :: owner_kind
  pv_owner_id :: string
  pv_source :: string
  pv_channel :: string
  pv_connector :: string
  pv_topic :: string
  pv_external :: string
  pv_payload :: dict
  pv_occurred :: "time option"
  pv_version :: string

record words =
  w_source :: string
  w_channel :: string
  w_connector :: string

definition words_for_object :: "(string \<times> words) list" where
  "words_for_object =
     [(''whatsapp_business_account'', \<lparr>w_source = ''whatsapp'', w_channel = ''whatsapp'', w_connector = ''whatsapp''\<rparr>)]"

definition topic_status :: string where "topic_status = ''message.status''"
definition topic_inbound :: string where "topic_inbound = ''message.inbound''"

definition topic_for_field :: "(string \<times> string) list" where
  "topic_for_field =
     [(''message_template_status_update'', ''template.status''), (''template_category_update'', ''template.category''),
      (''message_template_quality_update'', ''template.quality''), (''account_update'', ''account.update'')]"

definition event_word_for_field :: "(string \<times> string) list" where
  "event_word_for_field = [(''template_category_update'', ''category''), (''message_template_quality_update'', ''quality'')]"

text \<open>\<open>str(x or "")\<close>.\<close>

definition text_or_empty :: "json \<Rightarrow> string" where
  "text_or_empty v = (if truthy v then py_str v else [])"

text \<open>\<open>int(text)\<close>: an optional sign and digits, single underscores between them, space around.\<close>

definition whole_text :: "string \<Rightarrow> int option" where
  "whole_text s =
     (let t = strip s;
          neg = prefix_of ''-'' t;
          body = (if neg \<or> prefix_of ''+'' t then drop 1 t else t);
          groups = split_on (CHR ''_'') body
      in if list_all (\<lambda>g. g \<noteq> [] \<and> list_all is_digit g) groups
         then Some ((if neg then - 1 else 1) * foldl (\<lambda>n c. 10 * n + int (of_char c) - 48) 0 (concat groups))
         else None)"

text \<open>\<open>int(value)\<close>; \<open>None\<close> raises.\<close>

fun whole_number :: "json \<Rightarrow> int option" where
  "whole_number (JInt i) = Some i"
| "whole_number (JBool b) = Some (if b then 1 else 0)"
| "whole_number (JDec m e) = (let q = dec_val m e in Some (if q < 0 then - \<lfloor>- q\<rfloor> else \<lfloor>q\<rfloor>))"
| "whole_number (JStr s) = whole_text s"
| "whole_number _ = None"

text \<open>Unix seconds a \<open>datetime\<close> holds, from year 1 to year 9999.\<close>

definition provider_timestamp :: "json \<Rightarrow> time option" where
  "provider_timestamp v =
     (case whole_number v of None \<Rightarrow> None
      | Some s \<Rightarrow> if - 62135596800 \<le> s \<and> s \<le> 253402300799 then Some (s * second_us) else None)"

definition narrowed :: "dict \<Rightarrow> string \<Rightarrow> json \<Rightarrow> dict" where
  "narrowed value key item =
     dmerge (filter (\<lambda>(k, v). k \<noteq> ''statuses'' \<and> k \<noteq> ''messages'') value) [(key, JList [item])]"

definition status_letter_id :: "string \<Rightarrow> string \<Rightarrow> string" where
  "status_letter_id message_id state = message_id @ '':'' @ state"

definition endpoint_letter ::
    "words \<Rightarrow> string \<Rightarrow> string \<Rightarrow> string \<Rightarrow> dict \<Rightarrow> string \<Rightarrow> json \<Rightarrow> dict \<Rightarrow> string \<Rightarrow> provider_letter" where
  "endpoint_letter w version number topic value key item d external =
     \<lparr>pv_owner_kind = Owner_endpoint, pv_owner_id = number, pv_source = w_source w, pv_channel = w_channel w,
      pv_connector = w_connector w, pv_topic = topic, pv_external = external,
      pv_payload = narrowed value key item, pv_occurred = provider_timestamp (dget d ''timestamp''),
      pv_version = version\<rparr>"

definition status_letter :: "words \<Rightarrow> string \<Rightarrow> string \<Rightarrow> dict \<Rightarrow> json \<Rightarrow> provider_letter list" where
  "status_letter w version number value item =
     (case item of JObj d \<Rightarrow>
        (if truthy (dget d ''id'') \<and> truthy (dget d ''status'')
         then [endpoint_letter w version number topic_status value ''statuses'' item d
                 (status_letter_id (py_str (dget d ''id'')) (py_str (dget d ''status'')))]
         else [])
      | _ \<Rightarrow> [])"

definition inbound_letter :: "words \<Rightarrow> string \<Rightarrow> string \<Rightarrow> dict \<Rightarrow> json \<Rightarrow> provider_letter list" where
  "inbound_letter w version number value item =
     (case item of JObj d \<Rightarrow>
        (if truthy (dget d ''id'')
         then [endpoint_letter w version number topic_inbound value ''messages'' item d (py_str (dget d ''id''))]
         else [])
      | _ \<Rightarrow> [])"

definition list_of :: "json \<Rightarrow> json list" where
  "list_of v = (case v of JList xs \<Rightarrow> xs | _ \<Rightarrow> [])"

definition message_letters :: "words \<Rightarrow> string \<Rightarrow> dict \<Rightarrow> provider_letter list" where
  "message_letters w version value =
     (let number = (case dget value ''metadata'' of JObj m \<Rightarrow> text_or_empty (dget m ''phone_number_id'') | _ \<Rightarrow> [])
      in if number = [] then []
         else concat (map (status_letter w version number value) (list_of (dget value ''statuses'')))
            @ concat (map (inbound_letter w version number value) (list_of (dget value ''messages''))))"

definition account_letter :: "words \<Rightarrow> string \<Rightarrow> string \<Rightarrow> string \<Rightarrow> dict \<Rightarrow> time option \<Rightarrow> provider_letter option" where
  "account_letter w version waba field value entry_time =
     (if waba = [] then None
      else let template = text_or_empty (dget value ''message_template_id'');
               event = (case map_of event_word_for_field field of Some x \<Rightarrow> x
                        | None \<Rightarrow> (if truthy (dget value ''event'') then py_str (dget value ''event'') else field));
               ts = (case entry_time of None \<Rightarrow> 0 | Some t \<Rightarrow> t div second_us)
           in Some \<lparr>pv_owner_kind = Owner_account, pv_owner_id = waba, pv_source = w_source w, pv_channel = w_channel w,
                pv_connector = w_connector w, pv_topic = the (map_of topic_for_field field),
                pv_external = waba @ '':'' @ (if template \<noteq> [] then template else ''account'') @ '':'' @ event @ '':'' @ int_text ts,
                pv_payload = value, pv_occurred = entry_time, pv_version = version\<rparr>)"

definition change_letters :: "words \<Rightarrow> string \<Rightarrow> string \<Rightarrow> time option \<Rightarrow> json \<Rightarrow> provider_letter list" where
  "change_letters w version waba entry_time change =
     (case change of JObj c \<Rightarrow>
        (case dget c ''value'' of JObj value \<Rightarrow>
           (let field = text_or_empty (dget c ''field'')
            in if field \<in> fst ` set topic_for_field
               then (case account_letter w version waba field value entry_time of None \<Rightarrow> [] | Some l \<Rightarrow> [l])
               else message_letters w version value)
         | _ \<Rightarrow> [])
      | _ \<Rightarrow> [])"

definition entry_letters :: "words \<Rightarrow> string \<Rightarrow> json \<Rightarrow> provider_letter list" where
  "entry_letters w version entry =
     (case entry of JObj e \<Rightarrow>
        concat (map (change_letters w version (text_or_empty (dget e ''id'')) (provider_timestamp (dget e ''time'')))
                  (list_of (dget e ''changes'')))
      | _ \<Rightarrow> [])"

definition meta_letters :: "string \<Rightarrow> dict \<Rightarrow> provider_letter list" where
  "meta_letters version body =
     (case map_of words_for_object (text_or_empty (dget body ''object'')) of
        None \<Rightarrow> []
      | Some w \<Rightarrow> concat (map (entry_letters w version) (list_of (dget body ''entry''))))"

text \<open>Where a message's receipts were filed, asked of every inbound face in turn; there is one.\<close>

definition status_letter_keys :: "string \<Rightarrow> string \<Rightarrow> string list \<Rightarrow> (string \<times> string list) option" where
  "status_letter_keys channel message_id states =
     map_option (\<lambda>(ob, w). (w_source w, map (status_letter_id message_id) states))
       (find (\<lambda>(ob, w). w_channel w = channel) words_for_object)"
section \<open>The fields read from a letter\<close>

text \<open>The one item the ingress door left under \<open>key\<close>.\<close>

definition only_item :: "dict \<Rightarrow> string \<Rightarrow> dict" where
  "only_item payload key = (case dget payload key of JList (JObj d # rest) \<Rightarrow> d | _ \<Rightarrow> [])"

definition sub_object :: "dict \<Rightarrow> string \<Rightarrow> dict" where
  "sub_object d k = (case dget d k of JObj o' \<Rightarrow> o' | _ \<Rightarrow> [])"

definition recipient_phone :: "dict \<Rightarrow> json" where
  "recipient_phone payload = dget (only_item payload ''statuses'') ''recipient_id''"

definition receipt_status :: "dict \<Rightarrow> json" where
  "receipt_status payload = dget (only_item payload ''statuses'') ''status''"

definition status_message_id :: "dict \<Rightarrow> json" where
  "status_message_id payload = dget (only_item payload ''statuses'') ''id''"

definition status_error :: "dict \<Rightarrow> json" where
  "status_error payload =
     (case dget (only_item payload ''statuses'') ''errors'' of
        JList (JObj e # rest) \<Rightarrow> (if dget e ''code'' = JNull then JNull else JStr (py_str (dget e ''code'')))
      | _ \<Rightarrow> JNull)"

definition billed_category :: "dict \<Rightarrow> json" where
  "billed_category payload = dget (sub_object (only_item payload ''statuses'') ''pricing'') ''category''"

definition sender_phone :: "dict \<Rightarrow> json" where
  "sender_phone payload = dget (only_item payload ''messages'') ''from''"

definition is_contact_of :: "json \<Rightarrow> json \<Rightarrow> bool" where
  "is_contact_of sender c = (case c of JObj d \<Rightarrow> py_str (dget d ''wa_id'') = py_str sender | _ \<Rightarrow> False)"

definition sender_name :: "dict \<Rightarrow> json" where
  "sender_name payload =
     (let sender = sender_phone payload in
      case dget payload ''contacts'' of
        JList contacts \<Rightarrow>
          (if sender = JNull then JNull
           else case find (is_contact_of sender) contacts of
             Some (JObj d) \<Rightarrow>
               (let nm = dget (sub_object d ''profile'') ''name'' in if truthy nm then JStr (py_str nm) else JNull)
           | _ \<Rightarrow> JNull)
      | _ \<Rightarrow> JNull)"

definition message_type :: "dict \<Rightarrow> json" where
  "message_type payload = dget (only_item payload ''messages'') ''type''"

definition message_text :: "dict \<Rightarrow> json" where
  "message_text payload = dget (sub_object (only_item payload ''messages'') ''text'') ''body''"

definition replied_to :: "dict \<Rightarrow> json" where
  "replied_to payload = dget (sub_object (only_item payload ''messages'') ''context'') ''id''"

definition form_submitted :: string where
  "form_submitted = ''form_submitted''"

definition nfm_reply :: "dict \<Rightarrow> dict" where
  "nfm_reply payload =
     (let item = only_item payload ''messages''; interactive = sub_object item ''interactive''
      in if dget item ''type'' = JStr ''interactive'' \<and> dget interactive ''type'' = JStr ''nfm_reply''
         then sub_object interactive ''nfm_reply'' else [])"

definition raw_submission :: "dict \<Rightarrow> string option" where
  "raw_submission payload =
     (case dget (nfm_reply payload) ''response_json'' of JStr s \<Rightarrow> (if s = [] then None else Some s) | _ \<Rightarrow> None)"

definition reply_of :: "dict \<Rightarrow> json" where
  "reply_of payload =
     (let item = only_item payload ''messages'';
          button = dget (sub_object item ''button'') ''payload'';
          interactive = sub_object item ''interactive'';
          chosen = find (\<lambda>kind. dget (sub_object interactive kind) ''id'' \<noteq> JNull) [''button_reply'', ''list_reply'']
      in if button \<noteq> JNull then button
         else case chosen of Some kind \<Rightarrow> dget (sub_object interactive kind) ''id''
            | None \<Rightarrow> (if raw_submission payload \<noteq> None then JStr form_submitted else message_text payload))"

text \<open>\<open>json.dumps(value, ensure_ascii=False)\<close>.\<close>

definition dumps_char :: "char \<Rightarrow> string" where
  "dumps_char c =
     (if c = CHR 0x08 then [CHR 0x5C, CHR ''b''] else if c = CHR 0x0C then [CHR 0x5C, CHR ''f'']
      else if c \<in> {CHR 0x22, CHR 0x5C, CHR 0x0A, CHR 0x0D, CHR 0x09} then json_char c
      else if (of_char c :: nat) < 32
      then [CHR 0x5C, CHR ''u'', CHR ''0'', CHR ''0'', hex_char (of_char c div 16), hex_char (of_char c mod 16)]
      else [c])"

definition dumps_str :: "string \<Rightarrow> string" where
  "dumps_str s = [CHR 0x22] @ concat (map dumps_char s) @ [CHR 0x22]"

fun json_dumps :: "json \<Rightarrow> string" where
  "json_dumps JNull = ''null''"
| "json_dumps (JBool b) = (if b then ''true'' else ''false'')"
| "json_dumps (JInt i) = int_text i"
| "json_dumps (JDec m e) = dec_text m e"
| "json_dumps (JStr s) = dumps_str s"
| "json_dumps (JList xs) = ''['' @ join_with '', '' (map json_dumps xs) @ '']''"
| "json_dumps (JObj kvs) =
     ''{'' @ join_with '', '' (map (\<lambda>(k, v). dumps_str k @ '': '' @ v) (map (map_prod id json_dumps) kvs)) @ ''}''"

fun plain_answer :: "json \<Rightarrow> bool" where
  "plain_answer (JStr s) = True"
| "plain_answer (JInt i) = True"
| "plain_answer (JDec m e) = True"
| "plain_answer _ = False"

definition readable :: "json \<Rightarrow> string" where
  "readable v =
     (if plain_answer v then py_str v
      else case v of
        JList xs \<Rightarrow> (if list_all plain_answer xs then join_with '', '' (map py_str xs) else json_dumps v)
      | _ \<Rightarrow> json_dumps v)"

definition flow_token_key :: string where
  "flow_token_key = ''flow_token''"

definition flow_response :: "(string \<Rightarrow> json option) \<Rightarrow> dict \<Rightarrow> json" where
  "flow_response loads payload =
     (case raw_submission payload of None \<Rightarrow> JNull
      | Some raw \<Rightarrow> (case loads raw of
          Some (JObj kvs) \<Rightarrow>
            (let answers = map (\<lambda>(k, v). k @ '': '' @ readable v) (filter (\<lambda>(k, v). k \<noteq> flow_token_key) kvs)
             in if answers = [] then JNull else JStr (join_with [CHR 0x0A] answers))
        | _ \<Rightarrow> JStr raw))"

definition flow_token :: "(string \<Rightarrow> json option) \<Rightarrow> dict \<Rightarrow> json" where
  "flow_token loads payload =
     (case raw_submission payload of None \<Rightarrow> JNull
      | Some raw \<Rightarrow> (case loads raw of
          Some (JObj kvs) \<Rightarrow>
            (case dget kvs flow_token_key of
               JStr t \<Rightarrow> (if t = [] \<or> t = ''unused'' then JNull else JStr t) | _ \<Rightarrow> JNull)
        | _ \<Rightarrow> JNull))"

definition ban_state :: "dict \<Rightarrow> json" where
  "ban_state payload =
     (case dget (sub_object payload ''ban_info'') ''waba_ban_state'' of
        JList xs \<Rightarrow> (case xs of [] \<Rightarrow> JNull | x # rest \<Rightarrow> x) | v \<Rightarrow> v)"

definition whatsapp_derivers :: "(string \<Rightarrow> json option) \<Rightarrow> (string \<times> (dict \<Rightarrow> json)) list" where
  "whatsapp_derivers loads =
     [(''sender_phone'', sender_phone), (''sender_name'', sender_name), (''message_type'', message_type),
      (''message_text'', message_text), (''replied_to'', replied_to), (''reply'', reply_of),
      (''flow_response'', flow_response loads), (''flow_token'', flow_token loads),
      (''recipient_phone'', recipient_phone), (''status'', receipt_status),
      (''status_message_id'', status_message_id), (''status_error'', status_error),
      (''billed_category'', billed_category), (''ban_state'', ban_state)]"

end
