(* ===== verification/Spine.thy ===== *)
theory Spine
  imports Decode
begin

text \<open>
  The event spine: the table \<open>crm_event_raw\<close> with the statements of
  \<open>app/crm/record/db/queries.py\<close> and the front door \<open>app/crm/record/ingest.py\<close>.  A letter is stored
  raw, deduplicated by its producer's id, claimed by the event worker and stamped or quarantined once.
\<close>

record event_row = letter +
  er_external :: string
  er_version :: string
  er_attempts :: nat
  er_processed :: "time option"
  er_quarantine :: "string option"

definition letter_of :: "event_row \<Rightarrow> letter" where
  "letter_of e = letter.truncate e"

text \<open>\<open>LEAST(x, now())\<close>, which ignores a null argument.\<close>

definition least_now :: "time option \<Rightarrow> time \<Rightarrow> time" where
  "least_now x now = (case x of None \<Rightarrow> now | Some t \<Rightarrow> min t now)"

definition filed_under :: "string \<Rightarrow> string \<Rightarrow> string \<Rightarrow> event_row \<Rightarrow> bool" where
  "filed_under merchant source external e \<longleftrightarrow> ev_merchant e = merchant \<and> ev_source e = source \<and> er_external e = external"

definition insert_event ::
    "time \<Rightarrow> string \<Rightarrow> string \<Rightarrow> string \<Rightarrow> string \<Rightarrow> string \<Rightarrow> dict \<Rightarrow> string \<Rightarrow> time option \<Rightarrow> string option \<Rightarrow> bool
     \<Rightarrow> event_row list \<Rightarrow> string option \<times> event_row list" where
  "insert_event now i merchant source topic external payload version occurred customer processed es =
     (if list_ex (filed_under merchant source external) es then (None, es)
      else (Some i, es @ [\<lparr>ev_id = i, ev_merchant = merchant, ev_source = source, ev_topic = topic, ev_payload = payload,
        ev_received = now, ev_occurred = Some (least_now occurred now), ev_customer = customer,
        er_external = external, er_version = version, er_attempts = 0,
        er_processed = (if processed then Some now else None), er_quarantine = None\<rparr>]))"

definition is_pending :: "event_row \<Rightarrow> bool" where
  "is_pending e \<longleftrightarrow> er_processed e = None"

definition claimed_events :: "(string \<Rightarrow> bool) \<Rightarrow> nat \<Rightarrow> event_row list \<Rightarrow> string set" where
  "claimed_events locked limit es =
     ev_id ` set (take limit (sort_key ev_received (filter (\<lambda>e. is_pending e \<and> \<not> locked (ev_id e)) es)))"

definition spend_attempt :: "event_row \<Rightarrow> event_row" where
  "spend_attempt e = e\<lparr>er_attempts := er_attempts e + 1\<rparr>"

definition update_events :: "(event_row \<Rightarrow> bool) \<Rightarrow> (event_row \<Rightarrow> event_row) \<Rightarrow> event_row list \<Rightarrow> event_row list" where
  "update_events P f es = map (\<lambda>e. if P e then f e else e) es"

definition claim_pending_events ::
    "(string \<Rightarrow> bool) \<Rightarrow> nat \<Rightarrow> event_row list \<Rightarrow> event_row list \<times> event_row list" where
  "claim_pending_events locked limit es =
     (let P = (\<lambda>e. ev_id e \<in> claimed_events locked limit es)
      in (sort_key ev_received (map spend_attempt (filter P es)), update_events P spend_attempt es))"

definition stamp_event :: "time \<Rightarrow> string \<Rightarrow> string option \<Rightarrow> event_row list \<Rightarrow> event_row list" where
  "stamp_event now i customer = update_events (\<lambda>e. ev_id e = i) (\<lambda>e. e\<lparr>ev_customer := customer, er_processed := Some now\<rparr>)"

definition quarantine_event :: "time \<Rightarrow> string \<Rightarrow> string \<Rightarrow> event_row list \<Rightarrow> event_row list" where
  "quarantine_event now i reason =
     update_events (\<lambda>e. ev_id e = i) (\<lambda>e. e\<lparr>er_quarantine := Some reason, er_processed := Some now\<rparr>)"

section \<open>Reads\<close>

definition hers_since :: "string \<Rightarrow> string \<Rightarrow> string list \<Rightarrow> time \<Rightarrow> (string \<times> string) option \<Rightarrow> event_row \<Rightarrow> bool" where
  "hers_since merchant customer topics since narrow e \<longleftrightarrow>
     ev_merchant e = merchant \<and> ev_customer e = Some customer \<and> ev_topic e \<in> set topics
     \<and> (case ev_occurred e of Some t \<Rightarrow> since < t | None \<Rightarrow> since < ev_received e)
     \<and> (case narrow of None \<Rightarrow> True | Some (k, v) \<Rightarrow> pg_text (dget (ev_payload e) k) = Some v)"

definition customer_has_event ::
    "string \<Rightarrow> string \<Rightarrow> string list \<Rightarrow> time \<Rightarrow> (string \<times> string) option \<Rightarrow> event_row list \<Rightarrow> bool" where
  "customer_has_event merchant customer topics since narrow es = list_ex (hers_since merchant customer topics since narrow) es"

definition newest :: "event_row \<Rightarrow> event_row \<Rightarrow> event_row" where
  "newest e f = (if letter_time (letter_of e) < letter_time (letter_of f)
        \<or> letter_time (letter_of e) = letter_time (letter_of f) \<and> ev_received e < ev_received f then f else e)"

definition latest_customer_event ::
    "string \<Rightarrow> string \<Rightarrow> string list \<Rightarrow> time \<Rightarrow> string \<times> string \<Rightarrow> event_row list \<Rightarrow> letter option" where
  "latest_customer_event merchant customer topics since narrow es =
     (case filter (hers_since merchant customer topics since (Some narrow)) es of
        [] \<Rightarrow> None | e # fs \<Rightarrow> Some (letter_of (fold (\<lambda>f best. newest best f) fs e)))"

definition event_topics :: "string \<Rightarrow> string list \<Rightarrow> event_row list \<Rightarrow> (string \<times> string) list" where
  "event_topics merchant ids es =
     map (\<lambda>e. (ev_id e, ev_topic e)) (filter (\<lambda>e. ev_merchant e = merchant \<and> ev_id e \<in> set ids) es)"

definition letters_by_external_ids :: "event_row list \<Rightarrow> string \<Rightarrow> string \<Rightarrow> string list \<Rightarrow> letter list" where
  "letters_by_external_ids es merchant source externals =
     map letter_of (filter (\<lambda>e. ev_merchant e = merchant \<and> ev_source e = source \<and> er_external e \<in> set externals) es)"

section \<open>Facts\<close>

lemma letter_of_simps [simp]:
  "ev_id (letter_of e) = ev_id e" "ev_merchant (letter_of e) = ev_merchant e" "ev_source (letter_of e) = ev_source e"
  "ev_topic (letter_of e) = ev_topic e" "ev_payload (letter_of e) = ev_payload e"
  "ev_received (letter_of e) = ev_received e" "ev_occurred (letter_of e) = ev_occurred e"
  "ev_customer (letter_of e) = ev_customer e"
  by (simp_all add: letter_of_def letter.truncate_def)

text \<open>The latest letter is among the letters the existence check counts, and nothing of hers is newer.\<close>

lemma newest_in: "newest e f \<in> {e, f}"
  by (simp add: newest_def)

lemma newest_max: "letter_time (letter_of e) \<le> letter_time (letter_of (newest e f))"
    "letter_time (letter_of f) \<le> letter_time (letter_of (newest e f))"
  by (auto simp: newest_def)

lemma fold_newest_in: "fold (\<lambda>f best. newest best f) fs e \<in> set (e # fs)"
proof (induction fs arbitrary: e)
  case (Cons f fs)
  have "fold (\<lambda>f best. newest best f) fs (newest e f) \<in> set (newest e f # fs)" by (rule Cons.IH)
  then show ?case using newest_in [of e f] by (elim insertE emptyE) (simp_all, blast?)
qed simp

lemma fold_newest_max:
  "x \<in> set (e # fs) \<Longrightarrow> letter_time (letter_of x) \<le> letter_time (letter_of (fold (\<lambda>f best. newest best f) fs e))"
proof (induction fs arbitrary: e x)
  case (Cons f fs)
  have step: "letter_time (letter_of y) \<le> letter_time (letter_of (fold (\<lambda>f best. newest best f) fs (newest e f)))"
    if "y \<in> set (newest e f # fs)" for y using Cons.IH that by simp
  show ?case
    using Cons.prems step step [of "newest e f"] newest_max [of e f] newest_max [of f e]
    by (auto intro: order_trans)
qed simp

lemma latest_event_matches:
  "latest_customer_event m c topics since narrow es = None \<longleftrightarrow> \<not> customer_has_event m c topics since (Some narrow) es"
proof -
  have "\<not> list_ex P es \<longleftrightarrow> filter P es = []" for P :: "event_row \<Rightarrow> bool"
    by (auto simp: list_ex_iff filter_empty_conv)
  then show ?thesis by (simp add: latest_customer_event_def customer_has_event_def split: list.split)
qed

end
