(* ===== verification/Receipts.thy ===== *)
theory Receipts
  imports Manifest_Laws Whatsapp Spine
begin

text \<open>
  What became of a message that was sent, \<open>app/crm/connectivity/messaging/shared/receipts.py\<close>: a
  receipt is read through the catalog's declared fields, moves at most one row, and is read back from
  the spine when it came before the row knew its provider id.
\<close>

section \<open>A receipt\<close>

definition receipt_states :: "(string \<times> message_status) list" where
  "receipt_states = [(''sent'', M_sent), (''delivered'', M_delivered), (''read'', M_read), (''failed'', M_failed)]"

text \<open>The order of the read-back; its keys are the states a receipt can say.\<close>

fun ladder :: "message_status \<Rightarrow> nat" where
  "ladder M_sent = 0" | "ladder M_delivered = 1" | "ladder M_read = 2" | "ladder M_failed = 3" | "ladder _ = 4"

record receipt =
  rc_provider :: string
  rc_state :: message_status
  rc_occurred :: "time option"
  rc_error :: "string option"
  rc_pricing :: "string option"

definition reason_provider_rejected :: string where
  "reason_provider_rejected = ''provider_rejected''"

definition declared_value :: "lib \<Rightarrow> letter \<Rightarrow> string \<Rightarrow> string option" where
  "declared_value L ev name =
     (let found = field_value (ev_payload ev) (canonical_path L name) (derive_for L (ev_source ev) (ev_topic ev))
      in if blank found then None else Some (py_str found))"

definition read_receipt :: "lib \<Rightarrow> letter \<Rightarrow> receipt option" where
  "read_receipt L ev =
     (case (declared_value L ev ''status_message_id'', declared_value L ev ''status'') of
        (Some i, Some word) \<Rightarrow>
          (case map_of receipt_states word of None \<Rightarrow> None
           | Some state \<Rightarrow> Some \<lparr>rc_provider = i, rc_state = state, rc_occurred = ev_occurred ev,
               rc_error = (if state = M_failed
                  then Some (case declared_value L ev ''status_error'' of Some e \<Rightarrow> e | None \<Rightarrow> reason_provider_rejected)
                  else None),
               rc_pricing = declared_value L ev ''billed_category''\<rparr>)
      | _ \<Rightarrow> None)"

definition take_receipt :: "time \<Rightarrow> string \<Rightarrow> receipt \<Rightarrow> manifest_row list \<Rightarrow> message_status option \<times> manifest_row list" where
  "take_receipt now merchant r =
     apply_receipt now merchant (rc_provider r) (rc_state r) (rc_occurred r) (rc_error r) (rc_pricing r)"

definition consume_status_event :: "lib \<Rightarrow> time \<Rightarrow> letter \<Rightarrow> manifest_row list \<Rightarrow> manifest_row list" where
  "consume_status_event L now ev ms =
     (if ev_topic ev \<noteq> topic_status then ms
      else case read_receipt L ev of None \<Rightarrow> ms | Some r \<Rightarrow> snd (take_receipt now (ev_merchant ev) r ms))"

definition filed_receipts :: "lib \<Rightarrow> letter list \<Rightarrow> receipt list" where
  "filed_receipts L letters = sort_key (\<lambda>r. ladder (rc_state r)) (List.map_filter (read_receipt L) letters)"

text \<open>
  \<open>spine\<close> reads letters back by merchant, source and external ids; \<open>None\<close> is a read that raises, which
  is logged and leaves the manifest as it was.  Each write is its own statement: \<open>landed\<close> of them land
  before one raises.
\<close>

definition backfill_early_receipts ::
    "lib \<Rightarrow> (string \<Rightarrow> string \<Rightarrow> string list \<Rightarrow> letter list option) \<Rightarrow> nat \<Rightarrow> time \<Rightarrow> string \<Rightarrow> string \<Rightarrow> string option
     \<Rightarrow> manifest_row list \<Rightarrow> manifest_row list" where
  "backfill_early_receipts L spine landed now merchant channel provider ms =
     (if \<not> opt_text provider then ms
      else case status_letter_keys channel (the provider) (map fst receipt_states) of
        None \<Rightarrow> ms
      | Some (source, ids) \<Rightarrow>
          (case spine merchant source ids of None \<Rightarrow> ms
           | Some letters \<Rightarrow> fold (\<lambda>r ms. snd (take_receipt now merchant r ms)) (take landed (filed_receipts L letters)) ms))"

section \<open>What a row says after its receipts\<close>

text \<open>
  The reference: a failure counts while the customer does not have the message, and then for good;
  otherwise the furthest receipt does.
\<close>

definition verdict :: "message_status list \<Rightarrow> message_status" where
  "verdict states =
     (if M_failed \<in> set (takeWhile (\<lambda>s. s \<notin> {M_delivered, M_read}) states) then M_failed
      else if M_read \<in> set states then M_read
      else if M_delivered \<in> set states then M_delivered
      else if M_sent \<in> set states then M_sent else M_accepted)"

definition said_at :: "time \<times> receipt \<Rightarrow> time" where
  "said_at x = (case rc_occurred (snd x) of Some t \<Rightarrow> t | None \<Rightarrow> fst x)"

definition receipt_on :: "time \<times> receipt \<Rightarrow> manifest_row \<Rightarrow> manifest_row" where
  "receipt_on x = (case x of (now, r) \<Rightarrow> receipt_mark now (rc_state r) (rc_occurred r) (rc_error r) (rc_pricing r))"

definition is_receipt :: "time \<times> receipt \<Rightarrow> bool" where
  "is_receipt x \<longleftrightarrow> rc_state (snd x) \<in> {M_sent, M_delivered, M_read, M_failed}"

definition after :: "message_status \<Rightarrow> message_status list \<Rightarrow> message_status" where
  "after st states = (case st of
      M_accepted \<Rightarrow> verdict states
    | M_sent \<Rightarrow> verdict (M_sent # states)
    | M_delivered \<Rightarrow> verdict (M_delivered # states)
    | M_read \<Rightarrow> M_read
    | st \<Rightarrow> st)"

lemma status_step:
  assumes "is_receipt x" and "mg_status m \<in> {M_accepted, M_sent, M_delivered, M_read, M_failed}"
  shows "mg_status (receipt_on x m) \<in> {M_accepted, M_sent, M_delivered, M_read, M_failed}
    \<and> after (mg_status (receipt_on x m)) states = after (mg_status m) (rc_state (snd x) # states)"
  using assms
  by (cases x; cases "rc_state (snd x)"; cases "mg_status m")
     (simp_all add: is_receipt_def receipt_on_def receipt_mark_def Let_def fails_def moved_on_def after_def verdict_def)

lemma status_after:
  assumes "list_all is_receipt xs" and "mg_status m \<in> {M_accepted, M_sent, M_delivered, M_read, M_failed}"
  shows "mg_status (fold receipt_on xs m) = after (mg_status m) (map (rc_state \<circ> snd) xs)"
  using assms
proof (induction xs arbitrary: m)
  case Nil
  then show ?case by (auto simp: after_def verdict_def)
next
  case (Cons x xs)
  then show ?case using status_step [of x m "map (rc_state \<circ> snd) xs"] Cons.IH [of "receipt_on x m"]
    by (simp add: o_def)
qed

lemma stamps_after:
  "mg_sent_at (fold receipt_on xs m) =
     or_else (mg_sent_at m) (map_option said_at (find (\<lambda>x. rc_state (snd x) \<noteq> M_failed) xs))"
  "mg_delivered_at (fold receipt_on xs m) =
     or_else (mg_delivered_at m) (map_option said_at (find (\<lambda>x. rc_state (snd x) \<in> {M_delivered, M_read}) xs))"
  "mg_read_at (fold receipt_on xs m) =
     or_else (mg_read_at m) (map_option said_at (find (\<lambda>x. rc_state (snd x) = M_read) xs))"
  by (induction xs arbitrary: m)
     (auto simp: receipt_on_def receipt_mark_def Let_def or_else_def said_at_def split: option.splits prod.splits)

definition take_receipts :: "string \<Rightarrow> (time \<times> receipt) list \<Rightarrow> manifest_row list \<Rightarrow> manifest_row list" where
  "take_receipts merchant xs ms = fold (\<lambda>(now, r) ms. snd (take_receipt now merchant r ms)) xs ms"

lemma receipt_on_keys: "mg_merchant (receipt_on x m) = mg_merchant m" "mg_provider (receipt_on x m) = mg_provider m"
    "mg_id (receipt_on x m) = mg_id m"
  by (simp_all add: receipt_on_def receipt_mark_def Let_def split: prod.splits)

lemma rewrite_rewrite:
  "(\<And>m. P (f m) = P m) \<Longrightarrow> rewrite_rows P g (rewrite_rows P f ms) = rewrite_rows P (g \<circ> f) ms"
  by (simp add: rewrite_rows_def)

lemma take_receipts_rewrite:
  assumes "\<forall>x\<in>set xs. rc_provider (snd x) = p"
  shows "take_receipts merchant xs ms = rewrite_rows (names merchant p) (fold receipt_on xs) ms"
  using assms
proof (induction xs arbitrary: ms)
  case Nil
  have "rewrite_rows P id ms = ms" for P by (induction ms) (simp_all add: rewrite_rows_def)
  then show ?case by (simp add: take_receipts_def id_def)
next
  case (Cons x xs)
  obtain now r where x: "x = (now, r)" by (cases x)
  have "snd (take_receipt now merchant r ms) = rewrite_rows (names merchant p) (receipt_on x) ms"
    using Cons.prems by (simp add: take_receipt_def apply_receipt_def Let_def receipt_on_def x)
  then have "take_receipts merchant (x # xs) ms = take_receipts merchant xs (rewrite_rows (names merchant p) (receipt_on x) ms)"
    by (simp add: take_receipts_def x)
  also have "\<dots> = rewrite_rows (names merchant p) (fold receipt_on xs) (rewrite_rows (names merchant p) (receipt_on x) ms)"
    using Cons by simp
  also have "\<dots> = rewrite_rows (names merchant p) (fold receipt_on (x # xs)) ms"
    by (subst rewrite_rewrite) (simp_all add: names_def receipt_on_keys)
  finally show ?case .
qed

text \<open>
  C19 Receipts may come in any order and any number of times.  An accepted row ends failed exactly when
  a failure is heard before the message reached her, and otherwise at the furthest receipt of all;
  delivered and read are stamped by the first receipt that says so, with the provider's time; no
  other row moves.
\<close>

theorem receipts_reach_the_verdict:
  assumes "m \<in> set ms" and "names merchant p m" and "mg_status m = M_accepted"
    and "mg_delivered_at m = None" and "mg_read_at m = None"
    and "list_all is_receipt xs" and "\<forall>x\<in>set xs. rc_provider (snd x) = p"
  defines "m' \<equiv> fold receipt_on xs m"
  shows "take_receipts merchant xs ms = rewrite_rows (names merchant p) (fold receipt_on xs) ms
    \<and> m' \<in> set (take_receipts merchant xs ms)
    \<and> mg_status m' = verdict (map (rc_state \<circ> snd) xs)
    \<and> mg_delivered_at m' = map_option said_at (find (\<lambda>x. rc_state (snd x) \<in> {M_delivered, M_read}) xs)
    \<and> mg_read_at m' = map_option said_at (find (\<lambda>x. rc_state (snd x) = M_read) xs)"
proof -
  have "take_receipts merchant xs ms = rewrite_rows (names merchant p) (fold receipt_on xs) ms"
    using assms(7) by (rule take_receipts_rewrite)
  moreover have "fold receipt_on xs m \<in> set (rewrite_rows (names merchant p) (fold receipt_on xs) ms)"
    using assms(1,2) by (force simp: set_rewrite_rows)
  moreover have "mg_status (fold receipt_on xs m) = verdict (map (rc_state \<circ> snd) xs)"
    using status_after [OF assms(6), of m] assms(3) by (simp add: after_def)
  ultimately show ?thesis using assms(4,5) by (simp add: stamps_after or_else_def m'_def)
qed

text \<open>Without a failure only the set of receipts counts: order and repetition do not.\<close>

lemma verdict_set: "M_failed \<notin> set ss \<Longrightarrow> verdict ss =
    (if M_read \<in> set ss then M_read else if M_delivered \<in> set ss then M_delivered
     else if M_sent \<in> set ss then M_sent else M_accepted)"
  by (auto simp: verdict_def dest: set_takeWhileD)

lemma verdict_permutes: "M_failed \<notin> set ss \<Longrightarrow> set ss = set ss' \<Longrightarrow> verdict ss = verdict ss'"
  by (simp add: verdict_set)

definition demo_row :: manifest_row where
  "demo_row = \<lparr>mg_id = ''m1'', mg_merchant = ''shop'', mg_customer = ''c1'', mg_channel = ''whatsapp'',
     mg_address = ''+919876543210'', mg_binding = Some ''b1'', mg_source_kind = ''workflow'', mg_source_id = Some ''r1'',
     mg_purpose = ''utility'', mg_template = Some ''hello'', mg_variables = [], mg_dedupe = ''r1:n1'',
     mg_status = M_accepted, mg_reason = None, mg_provider = Some ''wamid'', mg_attempt = 1, mg_claimed = None,
     mg_next = 0, mg_sent_at = Some 10, mg_delivered_at = None, mg_read_at = None, mg_pricing = None\<rparr>"

definition demo_receipt :: "message_status \<Rightarrow> time \<Rightarrow> receipt" where
  "demo_receipt st t = \<lparr>rc_provider = ''wamid'', rc_state = st, rc_occurred = Some t, rc_error = None, rc_pricing = None\<rparr>"

definition demo_receipts :: "(time \<times> receipt) list" where
  "demo_receipts = [(50, demo_receipt M_read 40), (60, demo_receipt M_sent 20), (70, demo_receipt M_failed 30)]"

theorem receipts_reach_the_verdict_witness:
  "mg_status (fold receipt_on demo_receipts demo_row) = M_read"
proof -
  have "mg_status (fold receipt_on demo_receipts demo_row)
      = verdict (map (rc_state \<circ> snd) demo_receipts)"
    using receipts_reach_the_verdict [of demo_row "[demo_row]" "''shop''" "''wamid''"
        demo_receipts]
    by (simp add: demo_receipts_def demo_row_def demo_receipt_def names_def is_receipt_def)
  also have "\<dots> = M_read" by (simp add: verdict_def demo_receipts_def demo_receipt_def)
  finally show ?thesis .
qed
section \<open>A receipt that comes before its row is ready\<close>

text \<open>
  One claimed message \<open>m\<close> the provider took under the id \<open>p\<close>: its receipts are filed on the spine and
  heard by the event worker, and its dispatcher stamps the outcome and reads the receipts back, in
  any interleaving.
\<close>

datatype happening = Files event_row | Hears time event_row | Stamps time | Reads_back time

definition stamp_outcome :: "time \<Rightarrow> manifest_row \<Rightarrow> string \<Rightarrow> manifest_row list \<Rightarrow> manifest_row list" where
  "stamp_outcome now m p ms =
     (case apply_outcome now (mg_id m) M_accepted None (Some p) True (mg_attempt m) None None ms of
        None \<Rightarrow> ms | Some (b, ms') \<Rightarrow> ms')"

fun happens :: "lib \<Rightarrow> manifest_row \<Rightarrow> string \<Rightarrow> happening \<Rightarrow> event_row list \<times> manifest_row list
    \<Rightarrow> event_row list \<times> manifest_row list" where
  "happens L m p (Files e) (es, ms) = (es @ [e], ms)"
| "happens L m p (Hears now e) (es, ms) = (es, consume_status_event L now (letter_of e) ms)"
| "happens L m p (Stamps now) (es, ms) = (es, stamp_outcome now m p ms)"
| "happens L m p (Reads_back now) (es, ms) =
     (es, backfill_early_receipts L (\<lambda>mer src ids. Some (letters_by_external_ids es mer src ids)) (length es) now
            (mg_merchant m) (mg_channel m) (Some p) ms)"

definition receipt_for :: "lib \<Rightarrow> string \<Rightarrow> string \<Rightarrow> event_row \<Rightarrow> receipt option" where
  "receipt_for L mer p e =
     (if ev_topic e = topic_status \<and> ev_merchant e = mer
      then (case read_receipt L (letter_of e) of Some r \<Rightarrow> (if rc_provider r = p then Some r else None) | None \<Rightarrow> None)
      else None)"

definition under_its_id :: "string \<Rightarrow> string \<Rightarrow> event_row \<Rightarrow> bool" where
  "under_its_id mer p e \<longleftrightarrow> ev_merchant e = mer \<and> ev_source e = ''whatsapp''
     \<and> er_external e \<in> set (map (status_letter_id p) (map fst receipt_states))"

text \<open>The producer files a receipt of \<open>p\<close> where the read-back looks, and no other receipt there.\<close>

definition well_filed :: "lib \<Rightarrow> string \<Rightarrow> string \<Rightarrow> event_row \<Rightarrow> bool" where
  "well_filed L mer p e \<longleftrightarrow>
     (receipt_for L mer p e \<noteq> None \<longrightarrow> under_its_id mer p e)
     \<and> (under_its_id mer p e \<longrightarrow> read_receipt L (letter_of e) = receipt_for L mer p e)"

definition row_of :: "manifest_row list \<Rightarrow> string \<Rightarrow> manifest_row option" where
  "row_of ms i = find (\<lambda>m. mg_id m = i) ms"

lemma row_of_rewrite:
  "(\<And>m. mg_id (f m) = mg_id m) \<Longrightarrow> row_of (rewrite_rows P f ms) i = map_option (\<lambda>m. if P m then f m else m) (row_of ms i)"
  by (induction ms) (simp_all add: row_of_def rewrite_rows_def)

lemma take_receipt_rewrite:
  "snd (take_receipt now mer r ms) = rewrite_rows (names mer (rc_provider r)) (receipt_on (now, r)) ms"
  by (simp add: take_receipt_def apply_receipt_def Let_def receipt_on_def)

lemma row_of_receipt:
  assumes "row_of ms i = Some m" and "mg_merchant m = mer" and "mg_provider m = Some p"
  shows "row_of (snd (take_receipt now mer' r ms)) i =
    Some (if mer' = mer \<and> rc_provider r = p then receipt_on (now, r) m else m)"
  using assms by (auto simp: take_receipt_rewrite row_of_rewrite receipt_on_keys names_def)

text \<open>What one happening applies to the stamped row.\<close>

definition heard :: "lib \<Rightarrow> string \<Rightarrow> string \<Rightarrow> time \<Rightarrow> event_row \<Rightarrow> (time \<times> receipt) list" where
  "heard L mer p now e = (case receipt_for L mer p e of None \<Rightarrow> [] | Some r \<Rightarrow> [(now, r)])"

lemma row_of_heard:
  assumes "row_of ms i = Some m" and "mg_merchant m = mer" and "mg_provider m = Some p"
  shows "row_of (consume_status_event L now (letter_of e) ms) i = Some (fold receipt_on (heard L mer p now e) m)"
  using assms row_of_receipt [OF assms]
  by (auto simp: consume_status_event_def heard_def receipt_for_def split: option.splits)

lemma row_of_unheard:
  assumes "row_of ms i = Some m" and "mg_provider m = None"
  shows "row_of (consume_status_event L now (letter_of e) ms) i = Some m"
  using assms
  by (auto simp: consume_status_event_def take_receipt_rewrite row_of_rewrite receipt_on_keys names_def split: option.splits)

definition read_back :: "lib \<Rightarrow> string \<Rightarrow> string \<Rightarrow> event_row list \<Rightarrow> receipt list" where
  "read_back L mer p es = filed_receipts L (map letter_of (filter (under_its_id mer p) es))"

lemma fold_receipts_row:
  assumes "row_of ms i = Some m" and "mg_merchant m = mer" and "mg_provider m = Some p" and "\<forall>r\<in>set rs. rc_provider r = p"
  shows "row_of (fold (\<lambda>r ms. snd (take_receipt now mer r ms)) rs ms) i = Some (fold receipt_on (map (Pair now) rs) m)"
  using assms
proof (induction rs arbitrary: ms m)
  case (Cons r rs)
  have "row_of (snd (take_receipt now mer r ms)) i = Some (receipt_on (now, r) m)"
    using row_of_receipt [OF Cons.prems(1-3)] Cons.prems(4) by simp
  then show ?case using Cons.IH [of _ "receipt_on (now, r) m"] Cons.prems by (simp add: receipt_on_keys)
qed simp

lemma read_back_set:
  assumes "\<forall>e\<in>set es. well_filed L mer p e"
  shows "r \<in> set (read_back L mer p es) \<longleftrightarrow> (\<exists>e\<in>set es. receipt_for L mer p e = Some r)"
proof
  assume "r \<in> set (read_back L mer p es)"
  then obtain e where "e \<in> set es" "under_its_id mer p e" "read_receipt L (letter_of e) = Some r"
    by (auto simp: read_back_def filed_receipts_def List.map_filter_def)
  then show "\<exists>e\<in>set es. receipt_for L mer p e = Some r" using assms by (auto simp: well_filed_def)
next
  assume "\<exists>e\<in>set es. receipt_for L mer p e = Some r"
  then obtain e where e: "e \<in> set es" "receipt_for L mer p e = Some r" by blast
  then have "under_its_id mer p e" "read_receipt L (letter_of e) = Some r" using assms by (auto simp: well_filed_def)
  then show "r \<in> set (read_back L mer p es)" using e(1)
    by (force simp: read_back_def filed_receipts_def List.map_filter_def)
qed

lemma read_back_length: "length (read_back L mer p es) \<le> length es"
proof -
  have "length (List.map_filter f xs) \<le> length xs" for f :: "letter \<Rightarrow> receipt option" and xs
    by (induction xs) (auto simp: List.map_filter_simps split: option.splits)
  then show ?thesis
    unfolding read_back_def filed_receipts_def
    by (simp del: filter_map) (metis (no_types) length_filter_le length_map order_trans)
qed
lemma read_back_provider:
  assumes "\<forall>e\<in>set es. well_filed L mer p e" and "r \<in> set (read_back L mer p es)"
  shows "rc_provider r = p \<and> is_receipt (now, r)"
proof -
  obtain e where "receipt_for L mer p e = Some r" using assms by (auto simp: read_back_set)
  then show ?thesis
    by (auto simp: receipt_for_def read_receipt_def receipt_states_def is_receipt_def
        split: if_splits option.splits)
qed

lemma heard_is_receipt: "x \<in> set (heard L mer p now e) \<Longrightarrow> is_receipt x"
  by (auto simp: heard_def receipt_for_def read_receipt_def receipt_states_def is_receipt_def
      split: if_splits option.splits)

lemma row_of_read_back:
  assumes "row_of ms (mg_id m) = Some x" and "mg_merchant x = mg_merchant m" and "mg_provider x = Some p"
    and "p \<noteq> []" and "mg_channel m = ''whatsapp''" and w: "\<forall>e\<in>set es. well_filed L (mg_merchant m) p e"
  shows "row_of (snd (happens L m p (Reads_back now) (es, ms))) (mg_id m)
    = Some (fold receipt_on (map (Pair now) (read_back L (mg_merchant m) p es)) x)"
proof -
  have k: "status_letter_keys (mg_channel m) p (map fst receipt_states)
      = Some (''whatsapp'', map (status_letter_id p) (map fst receipt_states))"
    using assms(5) by (simp add: status_letter_keys_def words_for_object_def)
  have f: "filed_receipts L (letters_by_external_ids es (mg_merchant m) ''whatsapp'' (map (status_letter_id p) (map fst receipt_states)))
      = read_back L (mg_merchant m) p es"
    unfolding read_back_def letters_by_external_ids_def under_its_id_def ..
  have "snd (happens L m p (Reads_back now) (es, ms))
      = fold (\<lambda>r ms. snd (take_receipt now (mg_merchant m) r ms)) (read_back L (mg_merchant m) p es) ms"
    using assms(4) read_back_length [of L "mg_merchant m" p es]
    by (simp add: backfill_early_receipts_def opt_text_def k f del: map_map list.map_comp)
  then show ?thesis
    using fold_receipts_row [OF assms(1-3), of "read_back L (mg_merchant m) p es" now] read_back_provider [OF w] by simp
qed

fun files :: "happening list \<Rightarrow> event_row list" where
  "files [] = []"
| "files (Files e # hs) = e # files hs"
| "files (h # hs) = files hs"

fun applied :: "lib \<Rightarrow> string \<Rightarrow> string \<Rightarrow> happening list \<Rightarrow> event_row list \<Rightarrow> (time \<times> receipt) list" where
  "applied L mer p [] es = []"
| "applied L mer p (Files e # hs) es = applied L mer p hs (es @ [e])"
| "applied L mer p (Hears now e # hs) es = heard L mer p now e @ applied L mer p hs es"
| "applied L mer p (Stamps now # hs) es = applied L mer p hs es"
| "applied L mer p (Reads_back now # hs) es = map (Pair now) (read_back L mer p es) @ applied L mer p hs es"

definition taken_over :: "manifest_row \<Rightarrow> string \<Rightarrow> manifest_row \<Rightarrow> bool" where
  "taken_over m p x \<longleftrightarrow> mg_id x = mg_id m \<and> mg_merchant x = mg_merchant m \<and> mg_provider x = Some p
     \<and> mg_status x \<in> {M_accepted, M_sent, M_delivered, M_read, M_failed}"

lemma taken_over_receipts:
  assumes "list_all is_receipt xs" and "taken_over m p x"
  shows "taken_over m p (fold receipt_on xs x)"
  using assms
proof (induction xs arbitrary: x)
  case (Cons y ys)
  have "mg_status (receipt_on y x) \<in> {M_accepted, M_sent, M_delivered, M_read, M_failed}"
    using status_step [of y x "[]"] Cons.prems by (simp add: taken_over_def)
  then show ?case using Cons by (simp add: taken_over_def receipt_on_keys)
qed simp

lemma stamped_again:
  assumes "row_of ms (mg_id m) = Some x" and "mg_status x \<noteq> M_sending"
  shows "row_of (stamp_outcome now m p ms) (mg_id m) = Some x"
proof -
  have "\<not> holds_claim (mg_id m) (mg_attempt m) x" using assms(2) by (simp add: holds_claim_def)
  moreover have "mg_id (outcome_mark now M_accepted None (Some p) True None None y) = mg_id y" for y
    by (simp add: outcome_mark_def)
  ultimately show ?thesis
    using assms(1) by (simp add: stamp_outcome_def apply_outcome_def Let_def row_of_rewrite)
qed

lemma after_the_stamp:
  assumes "row_of ms (mg_id m) = Some x" and "taken_over m p x" and "p \<noteq> []" and "mg_channel m = ''whatsapp''"
    and "\<forall>e\<in>set (es @ files hs). well_filed L (mg_merchant m) p e"
  shows "list_all is_receipt (applied L (mg_merchant m) p hs es)
    \<and> row_of (snd (fold (happens L m p) hs (es, ms))) (mg_id m) = Some (fold receipt_on (applied L (mg_merchant m) p hs es) x)"
  using assms(1,2,5)
proof (induction hs arbitrary: es ms x)
  case Nil
  then show ?case by simp
next
  case (Cons h hs)
  have xm: "mg_merchant x = mg_merchant m" "mg_provider x = Some p" "mg_status x \<noteq> M_sending"
    using Cons.prems(2) by (auto simp: taken_over_def)
  show ?case
  proof (cases h)
    case (Files e)
    then show ?thesis using Cons.IH [OF Cons.prems(1,2), of "es @ [e]"] Cons.prems(3) by simp
  next
    case (Hears now e)
    let ?xs = "heard L (mg_merchant m) p now e"
    have r: "list_all is_receipt ?xs" using heard_is_receipt by (simp add: list_all_iff)
    show ?thesis
      using Cons.IH [OF row_of_heard [OF Cons.prems(1) xm(1,2)] taken_over_receipts [OF r Cons.prems(2)], of es] Cons.prems(3) r
      by (simp add: Hears)
  next
    case (Stamps now)
    then show ?thesis using Cons.IH [OF stamped_again [OF Cons.prems(1) xm(3)] Cons.prems(2), of es] Cons.prems(3) by simp
  next
    case (Reads_back now)
    let ?xs = "map (Pair now) (read_back L (mg_merchant m) p es)"
    have w: "\<forall>e\<in>set es. well_filed L (mg_merchant m) p e" using Cons.prems(3) by simp
    have r: "list_all is_receipt ?xs" using read_back_provider [OF w] by (auto simp: list_all_iff)
    obtain ms' where ms': "happens L m p (Reads_back now) (es, ms) = (es, ms')" by simp
    have "row_of ms' (mg_id m) = Some (fold receipt_on ?xs x)"
      using row_of_read_back [OF Cons.prems(1) xm(1,2) assms(3,4) w, of now] ms' by simp
    then show ?thesis
      using Cons.IH [OF _ taken_over_receipts [OF r Cons.prems(2)], of ms' es] Cons.prems(3) r
      unfolding Reads_back fold_simps ms' by simp
  qed
qed
lemma applied_append: "applied L mer p (hs @ hs') es = applied L mer p hs es @ applied L mer p hs' (es @ files hs)"
proof (induction hs arbitrary: es)
  case (Cons h hs)
  then show ?case by (cases h) simp_all
qed simp

lemma files_append: "files (hs @ hs') = files hs @ files hs'"
proof (induction hs)
  case (Cons h hs)
  then show ?case by (cases h) simp_all
qed simp

lemma heard_applied: "Hears now e \<in> set hs \<Longrightarrow> receipt_for L mer p e = Some r \<Longrightarrow> (now, r) \<in> set (applied L mer p hs es)"
proof (induction hs arbitrary: es)
  case (Cons h hs)
  then show ?case by (cases h) (auto simp: heard_def)
qed simp

lemma applied_from_filed:
  assumes "x \<in> set (applied L mer p hs es)" and "\<forall>e\<in>set (es @ files hs). well_filed L mer p e \<and> e \<in> F"
    and "\<forall>now e. Hears now e \<in> set hs \<longrightarrow> e \<in> F"
  shows "\<exists>e\<in>F. receipt_for L mer p e = Some (snd x)"
  using assms
proof (induction hs arbitrary: es)
  case (Cons h hs)
  have later: "\<forall>now e. Hears now e \<in> set hs \<longrightarrow> e \<in> F" using Cons.prems(3) by simp
  show ?case
  proof (cases h)
    case (Files e)
    then show ?thesis using Cons.IH [of "es @ [e]"] Cons.prems later by simp
  next
    case (Hears now e)
    then have "e \<in> F" using Cons.prems(3) by simp
    then show ?thesis using Cons.IH [of es] Cons.prems later Hears by (auto simp: heard_def split: option.splits)
  next
    case (Stamps now)
    then show ?thesis using Cons.IH [of es] Cons.prems later by simp
  next
    case (Reads_back now)
    have w: "\<forall>e\<in>set es. well_filed L mer p e" using Cons.prems(2) by simp
    have "x \<in> set (map (Pair now) (read_back L mer p es)) \<or> x \<in> set (applied L mer p hs es)"
      using Cons.prems(1) by (simp add: Reads_back)
    then show ?thesis
    proof
      assume "x \<in> set (map (Pair now) (read_back L mer p es))"
      then obtain e where "e \<in> set es" "receipt_for L mer p e = Some (snd x)" by (auto simp: read_back_set [OF w])
      then show ?thesis using Cons.prems(2) by auto
    qed (use Cons.IH [of es] Cons.prems(2) later Reads_back in simp)
  qed
qed simp

lemma filed_so_far: "fst (fold (happens L m p) hs (es, ms)) = es @ files hs"
proof (induction hs arbitrary: es ms)
  case (Cons h hs)
  then show ?case by (cases h) simp_all
qed simp

definition untaken :: "manifest_row \<Rightarrow> string \<Rightarrow> manifest_row list \<Rightarrow> bool" where
  "untaken m p ms \<longleftrightarrow> row_of ms (mg_id m) = Some m \<and> mg_provider m = None \<and> (\<forall>y\<in>set ms. mg_provider y \<noteq> Some p)"

lemma untaken_receipt: "untaken m p ms \<Longrightarrow> untaken m p (snd (take_receipt now mer r ms))"
  by (auto simp: untaken_def take_receipt_rewrite row_of_rewrite receipt_on_keys names_def set_rewrite_rows)

lemma untaken_receipts: "untaken m p ms \<Longrightarrow> untaken m p (fold (\<lambda>r ms. snd (take_receipt now mer r ms)) rs ms)"
  by (induction rs arbitrary: ms) (simp_all add: untaken_receipt)

lemma untaken_happens:
  assumes "untaken m p ms" and "\<forall>t. h \<noteq> Stamps t"
  shows "untaken m p (snd (happens L m p h (es, ms)))"
proof (cases h)
  case (Hears now e)
  then show ?thesis
    using assms untaken_receipt by (simp add: consume_status_event_def split: option.splits)
next
  case (Reads_back now)
  then show ?thesis
    using assms untaken_receipts by (simp add: backfill_early_receipts_def split: option.splits prod.splits)
qed (use assms in simp_all)

lemma before_the_stamp:
  "untaken m p ms \<Longrightarrow> \<forall>t. Stamps t \<notin> set hs \<Longrightarrow> untaken m p (snd (fold (happens L m p) hs (es, ms)))"
proof (induction hs arbitrary: es ms)
  case (Cons h hs)
  obtain es' ms' where s: "happens L m p h (es, ms) = (es', ms')" by (cases "happens L m p h (es, ms)")
  have "\<forall>t. h \<noteq> Stamps t" using Cons.prems(2) by auto
  then have "untaken m p ms'" using untaken_happens [OF Cons.prems(1), of h L es] s by simp
  then show ?case using Cons.IH Cons.prems(2) s by simp
qed simp

lemma the_stamp:
  assumes "untaken m p ms" and "mg_status m = M_sending"
  shows "\<exists>x. row_of (stamp_outcome now m p ms) (mg_id m) = Some x \<and> taken_over m p x \<and> mg_status x = M_accepted"
proof -
  let ?f = "outcome_mark now M_accepted None (Some p) True None None"
  have h: "holds_claim (mg_id m) (mg_attempt m) m" using assms(2) by (simp add: holds_claim_def)
  have "\<not> list_ex (\<lambda>y. \<not> holds_claim (mg_id m) (mg_attempt m) y \<and> mg_provider y = Some p) ms"
    using assms(1) by (auto simp: untaken_def list_ex_iff)
  then have "stamp_outcome now m p ms = rewrite_rows (holds_claim (mg_id m) (mg_attempt m)) ?f ms"
    by (simp add: stamp_outcome_def apply_outcome_def Let_def)
  moreover have "mg_id (?f y) = mg_id y" for y by (simp add: outcome_mark_def)
  ultimately have "row_of (stamp_outcome now m p ms) (mg_id m) = Some (?f m)"
    using assms(1) h by (simp add: row_of_rewrite untaken_def)
  then show ?thesis by (simp add: taken_over_def outcome_mark_def or_else_def)
qed

section \<open>Meta files receipts where they are looked for\<close>

definition status_fields :: "string list" where
  "status_fields = [''recipient_phone'', ''status'', ''status_message_id'', ''status_error'', ''billed_category'']"

definition inbound_fields :: "string list" where
  "inbound_fields = [''sender_phone'', ''sender_name'', ''message_type'', ''message_text'', ''reply'', ''replied_to'',
     ''flow_response'', ''flow_token'']"

text \<open>The catalog's table of derived fields, for the two topics about messages.\<close>

definition reads_whatsapp :: "lib \<Rightarrow> (string \<Rightarrow> json option) \<Rightarrow> bool" where
  "reads_whatsapp L loads \<longleftrightarrow>
     deriver L (''whatsapp'', topic_status) = filter (\<lambda>(n, f). n \<in> set status_fields) (whatsapp_derivers loads)
     \<and> deriver L (''whatsapp'', topic_inbound) = filter (\<lambda>(n, f). n \<in> set inbound_fields) (whatsapp_derivers loads)
     \<and> set (status_fields @ inbound_fields) \<subseteq> set (derived_names L)"

definition filed_as :: "provider_letter \<Rightarrow> event_row \<Rightarrow> bool" where
  "filed_as l e \<longleftrightarrow> ev_source e = pv_source l \<and> ev_topic e = pv_topic l \<and> er_external e = pv_external l \<and> ev_payload e = pv_payload l"

lemma only_item_narrowed: "only_item (narrowed value ''statuses'' (JObj d)) ''statuses'' = d"
  by (simp add: only_item_def narrowed_def dmerge_Cons dget_update)

lemma status_names:
  assumes "name \<in> set status_fields"
  shows "\<not> prefix_of payload_prefix name" and "map_of (whatsapp_derivers loads) name \<noteq> None"
  using assms by (auto simp: status_fields_def payload_prefix_def prefix_of_def whatsapp_derivers_def)

lemma status_lookup:
  assumes L: "reads_whatsapp L loads" and n: "name \<in> set status_fields"
    and e: "ev_source e = ''whatsapp''" "ev_topic e = topic_status"
  shows "declared_value L e name =
    (let v = the (map_of (whatsapp_derivers loads) name) (ev_payload e) in if blank v then None else Some (py_str v))"
proof -
  have c: "canonical_path L name = name"
    using L n by (auto simp: canonical_path_def reads_whatsapp_def)
  have d: "map_of (derive_for L (ev_source e) (ev_topic e)) name = map_of (whatsapp_derivers loads) name"
    using L n e by (simp add: derive_for_def reads_whatsapp_def map_of_filter_key)
  obtain f where "map_of (whatsapp_derivers loads) name = Some f" using status_names(2) [OF n] by blast
  then show ?thesis using d status_names(1) [OF n] by (simp add: declared_value_def c field_value_def)
qed

lemma derived_status:
  "map_of (whatsapp_derivers loads) ''status_message_id'' = Some status_message_id"
  "map_of (whatsapp_derivers loads) ''status'' = Some receipt_status"
  by (simp_all add: whatsapp_derivers_def)

lemma meta_status_letter:
  assumes "l \<in> set (meta_letters version body)" and "pv_topic l = topic_status"
  shows "\<exists>value d. pv_source l = ''whatsapp'' \<and> truthy (dget d ''id'') \<and> truthy (dget d ''status'')
    \<and> pv_payload l = narrowed value ''statuses'' (JObj d)
    \<and> pv_external l = status_letter_id (py_str (dget d ''id'')) (py_str (dget d ''status''))"
proof -
  obtain ob w en ch where w: "(ob, w) \<in> set words_for_object"
      and en: "l \<in> set (entry_letters w version en)"
    using assms(1) unfolding meta_letters_def
    by (cases "map_of words_for_object (text_or_empty (dget body ''object''))") (auto dest: map_of_SomeD)
  have src: "w_source w = ''whatsapp''" using w by (simp add: words_for_object_def)
  obtain waba t ch where ch: "l \<in> set (change_letters w version waba t ch)"
    using en by (auto simp: entry_letters_def split: json.splits)
  have "\<exists>value. l \<in> set (message_letters w version value)"
  proof -
    obtain c where c: "ch = JObj c" using ch by (cases ch) (simp_all add: change_letters_def)
    obtain vl where "dget c ''value'' = JObj vl"
      using ch c by (cases "dget c ''value''") (simp_all add: change_letters_def)
    note v = c this
    show ?thesis
    proof (cases "text_or_empty (dget c ''field'') \<in> fst ` set topic_for_field")
      case True
      then have "pv_topic l = the (map_of topic_for_field (text_or_empty (dget c ''field'')))"
        using ch v by (auto simp: change_letters_def account_letter_def Let_def split: option.splits if_splits)
      then show ?thesis using True assms(2) by (auto simp: topic_for_field_def topic_status_def)
    next
      case False
      then show ?thesis using ch v by (auto simp: change_letters_def Let_def)
    qed
  qed
  then obtain vl number item where "l \<in> set (status_letter w version number vl item) \<or> l \<in> set (inbound_letter w version number vl item)"
    by (auto simp: message_letters_def Let_def split: if_splits)
  then show ?thesis
  proof
    assume a: "l \<in> set (status_letter w version number vl item)"
    obtain d where d: "item = JObj d" using a by (cases item) (simp_all add: status_letter_def)
    show ?thesis
      using a src unfolding d
      by (intro exI [of _ vl] exI [of _ d]) (simp add: status_letter_def endpoint_letter_def split: if_splits)
  next
    assume "l \<in> set (inbound_letter w version number vl item)"
    then have "pv_topic l = topic_inbound"
      by (auto simp: inbound_letter_def endpoint_letter_def split: json.splits if_splits)
    then show ?thesis using assms(2) by (simp add: topic_inbound_def topic_status_def)
  qed
qed

lemma colon_split:
  assumes "p @ '':'' @ s = p' @ '':'' @ s'" and "CHR '':'' \<notin> set s" and "CHR '':'' \<notin> set s'"
  shows "p = p' \<and> s = s'"
proof -
  have tw: "takeWhile (\<lambda>c. c \<noteq> CHR '':'') (rev r @ CHR '':'' # rev q) = rev r" if "CHR '':'' \<notin> set r" for q r
    using that by (subst takeWhile_append2) auto
  have "rev s @ CHR '':'' # rev p = rev s' @ CHR '':'' # rev p'"
    using arg_cong [OF assms(1), of rev] by simp
  then have "rev s = rev s'" using tw [OF assms(2)] tw [OF assms(3)] by metis
  then show ?thesis using assms(1) by simp
qed

text \<open>
  C21 A receipt is filed where it is looked for: every status letter Meta's callback is unwrapped into
  carries, as the spine stores it, the external id under which the dispatcher reads the receipts of
  its message back, and is read there as the receipt of exactly that message.
\<close>

theorem meta_receipts_are_well_filed:
  assumes "l \<in> set (meta_letters version body)" and "pv_topic l = topic_status" and "filed_as l e" and "reads_whatsapp L loads"
  shows "well_filed L mer p e"
proof -
  obtain vl d where l: "pv_source l = ''whatsapp''" "truthy (dget d ''id'')" "truthy (dget d ''status'')"
      "pv_payload l = narrowed vl ''statuses'' (JObj d)"
      "pv_external l = status_letter_id (py_str (dget d ''id'')) (py_str (dget d ''status''))"
    using meta_status_letter [OF assms(1,2)] by blast
  have e: "ev_source e = ''whatsapp''" "ev_topic e = topic_status" "ev_payload e = narrowed vl ''statuses'' (JObj d)"
      "er_external e = status_letter_id (py_str (dget d ''id'')) (py_str (dget d ''status''))"
    using assms(2,3) l by (simp_all add: filed_as_def)
  let ?le = "letter_of e" and ?i = "py_str (dget d ''id'')" and ?w = "py_str (dget d ''status'')"
  have le: "ev_source ?le = ''whatsapp''" "ev_topic ?le = topic_status" using e by simp_all
  have nb: "\<not> blank v" if "truthy v" for v using that by (auto simp: blank_def)
  have vi: "declared_value L ?le ''status_message_id'' = Some ?i"
    using status_lookup [OF assms(4) _ le, of "''status_message_id''"] nb [OF l(2)] e(3)
    by (simp add: status_fields_def derived_status status_message_id_def only_item_narrowed)
  have vs: "declared_value L ?le ''status'' = Some ?w"
    using status_lookup [OF assms(4) _ le, of "''status''"] nb [OF l(3)] e(3)
    by (simp add: status_fields_def derived_status receipt_status_def only_item_narrowed)
  have r: "read_receipt L ?le = (case map_of receipt_states ?w of None \<Rightarrow> None
      | Some st \<Rightarrow> Some \<lparr>rc_provider = ?i, rc_state = st, rc_occurred = ev_occurred ?le,
          rc_error = (if st = M_failed then Some (case declared_value L ?le ''status_error'' of Some x \<Rightarrow> x
             | None \<Rightarrow> reason_provider_rejected) else None),
          rc_pricing = declared_value L ?le ''billed_category''\<rparr>)"
    unfolding read_receipt_def vi vs by simp
  have word: "?w \<in> set (map fst receipt_states)" if "read_receipt L ?le \<noteq> None"
  proof -
    have "map_of receipt_states ?w \<noteq> None" using that r by (cases "map_of receipt_states ?w") simp_all
    then show ?thesis by (simp add: map_of_eq_None_iff)
  qed
  have "under_its_id mer p e" if f: "receipt_for L mer p e \<noteq> None"
  proof -
    have "ev_merchant e = mer" and s: "read_receipt L ?le \<noteq> None" and "?i = p"
      using f r by (auto simp: receipt_for_def split: if_splits option.splits)
    moreover have "er_external e \<in> status_letter_id p ` set (map fst receipt_states)"
      using e(4) \<open>?i = p\<close> word [OF s] by blast
    ultimately show ?thesis using e(1) by (simp only: under_its_id_def set_map simp_thms)
  qed
  moreover have "read_receipt L ?le = receipt_for L mer p e" if u: "under_its_id mer p e"
  proof (cases "read_receipt L ?le")
    case None
    then show ?thesis by (simp add: receipt_for_def)
  next
    case (Some x)
    obtain s where s: "s \<in> set (map fst receipt_states)" "er_external e = status_letter_id p s" and m: "ev_merchant e = mer"
      using u by (auto simp: under_its_id_def)
    have nc: "CHR '':'' \<notin> set q" if "q \<in> set (map fst receipt_states)" for q
      using that by (auto simp: receipt_states_def)
    have w: "?w \<in> set (map fst receipt_states)" using word Some by simp
    have "?i @ '':'' @ ?w = p @ '':'' @ s" using s(2) e(4) by (simp add: status_letter_id_def)
    then have "?i = p" using colon_split [OF _ nc [OF w] nc [OF s(1)]] by blast
    moreover have "rc_provider x = ?i" using r Some by (auto split: option.splits)
    ultimately show ?thesis using Some m e(2) by (simp add: receipt_for_def)
  qed
  ultimately show ?thesis by (simp add: well_filed_def)
qed
section \<open>Example\<close>

definition whatsapp_lib :: lib where
  "whatsapp_lib = \<lparr>iso_parse = (\<lambda>_. None), iso_format = (\<lambda>_. []), zone_of = (\<lambda>_. undefined),
     date_iso = (\<lambda>_. []), naive_ts = (\<lambda>t. t), sha256_hex = (\<lambda>_. []),
     deriver = (\<lambda>st. if st = (''whatsapp'', topic_status)
         then filter (\<lambda>(n, f). n \<in> set status_fields) (whatsapp_derivers (\<lambda>_. None))
       else if st = (''whatsapp'', topic_inbound)
         then filter (\<lambda>(n, f). n \<in> set inbound_fields) (whatsapp_derivers (\<lambda>_. None)) else []),
     derived_names = status_fields @ inbound_fields\<rparr>"

lemma whatsapp_lib_reads: "reads_whatsapp whatsapp_lib (\<lambda>_. None)"
  by (simp add: reads_whatsapp_def whatsapp_lib_def topic_status_def topic_inbound_def)

definition demo_status :: "string \<Rightarrow> json" where
  "demo_status st = JObj [(''id'', JStr ''wamid''), (''status'', JStr st), (''timestamp'', JStr ''1700000000'')]"

definition demo_callback :: dict where
  "demo_callback = [(''object'', JStr ''whatsapp_business_account''),
     (''entry'', JList [JObj [(''id'', JStr ''waba''), (''time'', JInt 1700000001),
        (''changes'', JList [JObj [(''field'', JStr ''messages''),
           (''value'', JObj [(''metadata'', JObj [(''phone_number_id'', JStr ''77'')]),
              (''statuses'', JList [demo_status ''delivered'', demo_status ''read''])])]])]])]"

definition demo_event :: "string \<Rightarrow> event_row" where
  "demo_event st = \<lparr>ev_id = ''e-'' @ st, ev_merchant = ''shop'', ev_source = ''whatsapp'', ev_topic = topic_status,
     ev_payload = narrowed [(''metadata'', JObj [(''phone_number_id'', JStr ''77'')])] ''statuses'' (demo_status st),
     ev_received = 1700000000000000, ev_occurred = Some 1700000000000000, ev_customer = None,
     er_external = status_letter_id ''wamid'' st, er_version = ''v21.0'', er_attempts = 0, er_processed = None,
     er_quarantine = None\<rparr>"

definition demo_letters :: "provider_letter list" where
  "demo_letters = meta_letters ''v21.0'' demo_callback"

lemma demo_letters_filed:
  "length demo_letters = 2" "pv_topic (demo_letters ! 0) = topic_status" "pv_topic (demo_letters ! 1) = topic_status"
  "filed_as (demo_letters ! 0) (demo_event ''delivered'')" "filed_as (demo_letters ! 1) (demo_event ''read'')"
  by code_simp+

theorem meta_receipts_are_well_filed_witness:
  "well_filed whatsapp_lib ''shop'' ''wamid'' (demo_event ''delivered'')
   \<and> well_filed whatsapp_lib ''shop'' ''wamid'' (demo_event ''read'')"
proof -
  have l: "demo_letters ! 0 \<in> set (meta_letters ''v21.0'' demo_callback)" "demo_letters ! 1 \<in> set (meta_letters ''v21.0'' demo_callback)"
    using demo_letters_filed(1) nth_mem [of 0 demo_letters] nth_mem [of 1 demo_letters] by (simp_all add: demo_letters_def)
  show ?thesis
    using meta_receipts_are_well_filed [OF l(1) demo_letters_filed(2,4) whatsapp_lib_reads]
      meta_receipts_are_well_filed [OF l(2) demo_letters_filed(3,5) whatsapp_lib_reads] by blast
qed

definition demo_claimed :: manifest_row where
  "demo_claimed = demo_row\<lparr>mg_status := M_sending, mg_provider := None, mg_claimed := Some 1, mg_sent_at := None\<rparr>"

definition demo_race :: "happening list" where
  "demo_race = [Files (demo_event ''delivered''), Hears 3 (demo_event ''delivered'')]
     @ Stamps 5 # [] @ Reads_back 6 # [Files (demo_event ''read''), Hears 8 (demo_event ''read'')]"


end
