(* ===== verification/Suppression.thy ===== *)
theory Suppression
  imports Normalize Schemas
begin

text \<open>
  The handles book, \<open>app/crm/platform/suppression.py\<close> with its statements
  \<open>app/crm/platform/db/queries.py\<close>: one row per contact handle across merchants, and whether the
  person behind it said stop.  The liveness trigger of migration 048 derives \<open>is_suppressed\<close> on every
  insert and update of a row.  \<open>ts\<close> reads the text of a stored moment, as \<open>::timestamptz\<close> does.
\<close>

record platform_row =
  pi_kind :: string
  pi_value :: string
  pi_suppressed :: bool
  pi_suppressions :: dict
  pi_log :: "json list"
  pi_seen :: "time option"

section \<open>The trigger\<close>

definition entry_live :: "(string \<Rightarrow> time) \<Rightarrow> time \<Rightarrow> json \<Rightarrow> bool" where
  "entry_live ts now entry =
     (case entry of JObj d \<Rightarrow> (case pg_text (dget d ''until'') of None \<Rightarrow> True | Some s \<Rightarrow> now < ts s) | _ \<Rightarrow> True)"

definition recompute :: "(string \<Rightarrow> time) \<Rightarrow> time \<Rightarrow> platform_row \<Rightarrow> platform_row" where
  "recompute ts now r = r\<lparr>pi_suppressed := list_ex (\<lambda>(channel, entry). entry_live ts now entry) (pi_suppressions r)\<rparr>"

section \<open>The statements\<close>

definition is_pair :: "string \<Rightarrow> string \<Rightarrow> platform_row \<Rightarrow> bool" where
  "is_pair kind val r \<longleftrightarrow> pi_kind r = kind \<and> pi_value r = val"

text \<open>The CHECKs of the table.\<close>

definition pair_checks :: "string \<Rightarrow> string \<Rightarrow> bool" where
  "pair_checks kind val \<longleftrightarrow> kind \<in> {''phone'', ''email'', ''device''}
     \<and> (kind \<noteq> ''phone'' \<or> e164 val) \<and> (kind \<noteq> ''email'' \<or> val = lower val)"

definition seen_today :: "time \<Rightarrow> platform_row \<Rightarrow> bool" where
  "seen_today now r \<longleftrightarrow> (case pi_seen r of None \<Rightarrow> False | Some t \<Rightarrow> now - day_us \<le> t)"

text \<open>\<open>None\<close> is a CHECK that refuses the row, which raises.\<close>

definition ensure_identity ::
    "(string \<Rightarrow> time) \<Rightarrow> time \<Rightarrow> string \<Rightarrow> string \<Rightarrow> platform_row list \<Rightarrow> platform_row list option" where
  "ensure_identity ts now kind val rs =
     (if list_ex (is_pair kind val) rs
      then Some (map (\<lambda>r. if is_pair kind val r \<and> \<not> seen_today now r then recompute ts now (r\<lparr>pi_seen := Some now\<rparr>) else r) rs)
      else if pair_checks kind val
      then Some (rs @ [recompute ts now \<lparr>pi_kind = kind, pi_value = val, pi_suppressed = False,
                   pi_suppressions = [], pi_log = [], pi_seen = Some now\<rparr>])
      else None)"

definition update_suppression ::
    "(string \<Rightarrow> time) \<Rightarrow> time \<Rightarrow> string \<Rightarrow> string \<Rightarrow> dict \<Rightarrow> json list \<Rightarrow> platform_row list \<Rightarrow> platform_row list" where
  "update_suppression ts now kind val channels ledger =
     map (\<lambda>r. if is_pair kind val r then recompute ts now (r\<lparr>pi_suppressions := channels, pi_log := ledger\<rparr>) else r)"

text \<open>\<open>bool_or\<close> over the rows of the pairs; over none it is NULL, which reads as no.\<close>

definition probe_pairs :: "(string \<times> string) list \<Rightarrow> platform_row list \<Rightarrow> bool" where
  "probe_pairs pairs rs = list_ex (\<lambda>r. list_ex (\<lambda>(kind, val). is_pair kind val r) pairs \<and> pi_suppressed r) rs"

section \<open>The contracts\<close>

definition handle_kinds :: "(string \<times> string) list" where
  "handle_kinds = [(''phone'', ''phone''), (''email'', ''email'')]"

definition normalize_pair :: "string \<Rightarrow> string \<Rightarrow> string option" where
  "normalize_pair kind val =
     (if kind = ''phone'' then normalize_phone val else if kind = ''email'' then normalize_email val
      else if strip val = [] then None else Some (strip val))"

definition platform_pair :: "string \<times> string \<Rightarrow> (string \<times> string) option" where
  "platform_pair h = (case h of (name, val) \<Rightarrow>
     (case map_of handle_kinds name of None \<Rightarrow> None
      | Some kind \<Rightarrow> (if val = [] then None else map_option (Pair kind) (normalize_pair kind val))))"

definition platform_pairs :: "(string \<times> string) list \<Rightarrow> (string \<times> string) list" where
  "platform_pairs handles = List.map_filter platform_pair handles"

definition entry_is_live :: "lib \<Rightarrow> time \<Rightarrow> dict \<Rightarrow> bool" where
  "entry_is_live L now entry =
     (case dget entry ''until'' of
        JStr s \<Rightarrow> (if s = [] then True else case iso_parse L s of Some (Aware t) \<Rightarrow> now < t | _ \<Rightarrow> True)
      | _ \<Rightarrow> True)"

text \<open>Each upsert is its own statement; the first that raises ends the loop, and the caller swallows it.\<close>

fun ensure_pairs ::
    "(string \<Rightarrow> time) \<Rightarrow> time \<Rightarrow> (string \<times> string) list \<Rightarrow> platform_row list \<Rightarrow> platform_row list" where
  "ensure_pairs ts now [] rs = rs"
| "ensure_pairs ts now ((kind, val) # ps) rs =
     (case ensure_identity ts now kind val rs of None \<Rightarrow> rs | Some rs' \<Rightarrow> ensure_pairs ts now ps rs')"

definition ensure_identities ::
    "(string \<Rightarrow> time) \<Rightarrow> time \<Rightarrow> (string \<times> string) list \<Rightarrow> platform_row list \<Rightarrow> platform_row list" where
  "ensure_identities ts now handles rs = ensure_pairs ts now (platform_pairs handles) rs"

text \<open>\<open>answers\<close> is whether the database does; a probe that raises reads as suppressed.\<close>

definition is_suppressed :: "bool \<Rightarrow> (string \<times> string) list \<Rightarrow> platform_row list \<Rightarrow> bool" where
  "is_suppressed answers handles rs =
     (let pairs = platform_pairs handles in if pairs = [] then False else if answers then probe_pairs pairs rs else True)"

definition build_entry ::
    "lib \<Rightarrow> time \<Rightarrow> string \<Rightarrow> string \<Rightarrow> string \<Rightarrow> string option \<Rightarrow> time option \<Rightarrow> dict" where
  "build_entry L now channel reason source evidence until =
     (let text = (\<lambda>x. case x of None \<Rightarrow> JNull | Some s \<Rightarrow> JStr s)
      in [(''channel'', JStr channel), (''reason'', JStr reason), (''source'', JStr source), (''evidence_ref'', text evidence),
          (''from'', JStr (iso_format L now)), (''until'', text (map_option (iso_format L) until)),
          (''at'', JStr (iso_format L now))])"

definition merge_entry :: "platform_row \<Rightarrow> string \<Rightarrow> dict \<Rightarrow> dict \<times> json list" where
  "merge_entry r channel entry =
     (AList.update channel (JObj (filter (\<lambda>(k, v). k \<noteq> ''channel'') entry)) (pi_suppressions r), pi_log r @ [JObj entry])"

definition record_in_txn ::
    "(string \<Rightarrow> time) \<Rightarrow> time \<Rightarrow> string \<Rightarrow> string \<Rightarrow> string \<Rightarrow> dict \<Rightarrow> platform_row list \<Rightarrow> platform_row list option" where
  "record_in_txn ts now kind val channel entry rs =
     (case ensure_identity ts now kind val rs of None \<Rightarrow> None
      | Some rs1 \<Rightarrow> (case find (is_pair kind val) rs1 of None \<Rightarrow> None
        | Some r \<Rightarrow> (let (channels, ledger) = merge_entry r channel entry in Some (update_suppression ts now kind val channels ledger rs1))))"

text \<open>\<open>None\<close>: the call raises and nothing is written.\<close>

definition record_suppression ::
    "lib \<Rightarrow> (string \<Rightarrow> time) \<Rightarrow> time \<Rightarrow> string \<Rightarrow> string \<Rightarrow> string \<Rightarrow> string \<Rightarrow> string \<Rightarrow> string option \<Rightarrow> time option
     \<Rightarrow> platform_row list \<Rightarrow> platform_row list option" where
  "record_suppression L ts now kind val channel reason source evidence until rs =
     (case normalize_pair kind val of None \<Rightarrow> None
      | Some v \<Rightarrow> record_in_txn ts now kind v channel (build_entry L now channel reason source evidence until) rs)"
section \<open>A stop is heard\<close>

text \<open>The book holds a lasting stop for a pair: an entry on some channel without an end.\<close>

definition lasting :: "string \<Rightarrow> platform_row \<Rightarrow> bool" where
  "lasting channel r \<longleftrightarrow> (\<exists>d. map_of (pi_suppressions r) channel = Some (JObj d) \<and> dget d ''until'' = JNull)"

definition stopped :: "string \<Rightarrow> string \<Rightarrow> string \<Rightarrow> platform_row list \<Rightarrow> bool" where
  "stopped kind val channel rs \<longleftrightarrow> (\<exists>r\<in>set rs. is_pair kind val r) \<and>
     (\<forall>r\<in>set rs. is_pair kind val r \<longrightarrow> lasting channel r \<and> pi_suppressed r)"

lemma recompute_lasting: "lasting channel r \<Longrightarrow> pi_suppressed (recompute ts now r)"
  by (force simp: lasting_def recompute_def list_ex_iff entry_live_def dest: map_of_SomeD)

lemma recompute_keys [simp]: "is_pair kind val (recompute ts now r) = is_pair kind val r"
    "lasting channel (recompute ts now r) = lasting channel r"
  by (simp_all add: recompute_def is_pair_def lasting_def)

lemma seen_keys [simp]: "is_pair kind val (r\<lparr>pi_seen := x\<rparr>) = is_pair kind val r"
    "lasting channel (r\<lparr>pi_seen := x\<rparr>) = lasting channel r"
  by (simp_all add: is_pair_def lasting_def)

lemma stopped_map:
  assumes "stopped kind val channel rs" and "\<And>r. is_pair kind val (f r) = is_pair kind val r"
    and "\<And>r. is_pair kind val r \<Longrightarrow> lasting channel r \<Longrightarrow> pi_suppressed r \<Longrightarrow> lasting channel (f r) \<and> pi_suppressed (f r)"
  shows "stopped kind val channel (map f rs)"
  using assms by (auto simp: stopped_def)

lemma ensure_stopped:
  assumes "ensure_identity ts now kind' val' rs = Some rs'" and "stopped kind val channel rs"
  shows "stopped kind val channel rs'"
proof (cases "list_ex (is_pair kind' val') rs")
  case True
  let ?f = "\<lambda>r. if is_pair kind' val' r \<and> \<not> seen_today now r then recompute ts now (r\<lparr>pi_seen := Some now\<rparr>) else r"
  have "rs' = map ?f rs" using True assms(1) by (simp add: ensure_identity_def)
  moreover have "stopped kind val channel (map ?f rs)"
  proof (rule stopped_map [OF assms(2)])
    fix r show "is_pair kind val (?f r) = is_pair kind val r" by simp
    assume "lasting channel r" "pi_suppressed r"
    then show "lasting channel (?f r) \<and> pi_suppressed (?f r)" by (simp add: recompute_lasting [of channel])
  qed
  ultimately show ?thesis by simp
next
  case False
  then have new: "rs' = rs @ [recompute ts now \<lparr>pi_kind = kind', pi_value = val', pi_suppressed = False,
      pi_suppressions = [], pi_log = [], pi_seen = Some now\<rparr>]"
    using assms(1) by (auto simp: ensure_identity_def split: if_splits)
  obtain r where "r \<in> set rs" "is_pair kind val r" using assms(2) by (auto simp: stopped_def)
  then have "\<not> (kind' = kind \<and> val' = val)" using False by (auto simp: list_ex_iff)
  then have "\<not> is_pair kind val \<lparr>pi_kind = kind', pi_value = val', pi_suppressed = False,
      pi_suppressions = [], pi_log = [], pi_seen = Some now\<rparr>" by (auto simp: is_pair_def)
  then show ?thesis using assms(2) unfolding new by (auto simp: stopped_def)
qed

lemma ensure_pairs_stopped: "stopped kind val channel rs \<Longrightarrow> stopped kind val channel (ensure_pairs ts now ps rs)"
proof (induction ps arbitrary: rs)
  case (Cons p ps)
  obtain k v where "p = (k, v)" by (cases p)
  then show ?case using Cons ensure_stopped by (auto split: option.splits)
qed simp

lemma ensure_has_pair: "ensure_identity ts now kind val rs = Some rs' \<Longrightarrow> \<exists>r\<in>set rs'. is_pair kind val r"
proof (cases "list_ex (is_pair kind val) rs")
  case True
  assume e: "ensure_identity ts now kind val rs = Some rs'"
  let ?f = "\<lambda>r. if is_pair kind val r \<and> \<not> seen_today now r then recompute ts now (r\<lparr>pi_seen := Some now\<rparr>) else r"
  obtain r where r: "r \<in> set rs" "is_pair kind val r" using True by (auto simp: list_ex_iff)
  have "rs' = map ?f rs" using True e by (simp add: ensure_identity_def)
  moreover have "is_pair kind val (?f r)" using r(2) by simp
  ultimately show ?thesis using r(1) by (metis (no_types, lifting) image_eqI list.set_map)
next
  case False
  assume "ensure_identity ts now kind val rs = Some rs'"
  then show ?thesis using False by (auto simp: ensure_identity_def is_pair_def recompute_def split: if_splits)
qed

text \<open>What one call may write: anything but an end to this very stop.\<close>

definition spares :: "string \<Rightarrow> string \<Rightarrow> string \<Rightarrow> string \<Rightarrow> string \<Rightarrow> string \<Rightarrow> time option \<Rightarrow> bool" where
  "spares kind val channel kind' val' channel' until \<longleftrightarrow> (kind', val', channel') \<noteq> (kind, val, channel) \<or> until = None"

lemma until_entry: "dget (filter (\<lambda>(k, v). k \<noteq> ''channel'') (build_entry L now ch reason source evidence until)) ''until''
    = (case until of None \<Rightarrow> JNull | Some t \<Rightarrow> JStr (iso_format L t))"
  by (simp add: build_entry_def dget_def Let_def split: option.split)

lemma update_stopped:
  assumes "stopped kind val channel rs" and "spares kind val channel kind' val' channel' until"
    and "r \<in> set rs" and "is_pair kind' val' r"
    and m: "merge_entry r channel' (build_entry L now channel' reason source evidence until) = (channels, ledger)"
  shows "stopped kind val channel (update_suppression ts now kind' val' channels ledger rs)"
proof -
  have ch: "channels = AList.update channel' (JObj (filter (\<lambda>(k, v). k \<noteq> ''channel'')
      (build_entry L now channel' reason source evidence until))) (pi_suppressions r)"
    using m by (simp add: merge_entry_def)
  have l: "lasting channel (x\<lparr>pi_suppressions := channels, pi_log := ledger\<rparr>)" if "is_pair kind val r" for x :: platform_row
  proof (cases "channel' = channel")
    case True
    have "kind' = kind" "val' = val" using that assms(4) by (auto simp: is_pair_def)
    then have "until = None" using assms(2) True by (simp add: spares_def)
    then show ?thesis using until_entry [of L now channel' reason source evidence until]
      by (simp add: lasting_def ch True update_conv')
  next
    case False
    have "lasting channel r" using assms(1,3) that by (simp add: stopped_def)
    then show ?thesis using False by (simp add: lasting_def ch update_conv')
  qed
  show ?thesis
    unfolding update_suppression_def
  proof (rule stopped_map [OF assms(1)])
    fix x assume x: "is_pair kind val x" "lasting channel x" "pi_suppressed x"
    have "lasting channel (x\<lparr>pi_suppressions := channels, pi_log := ledger\<rparr>)" if "is_pair kind' val' x"
      using l x(1) that assms(4) by (simp add: is_pair_def)
    then show "lasting channel (if is_pair kind' val' x then recompute ts now (x\<lparr>pi_suppressions := channels, pi_log := ledger\<rparr>) else x)
      \<and> pi_suppressed (if is_pair kind' val' x then recompute ts now (x\<lparr>pi_suppressions := channels, pi_log := ledger\<rparr>) else x)"
      using x by (simp add: recompute_lasting [of channel])
  qed (simp add: is_pair_def recompute_def)
qed
inductive book_step :: "lib \<Rightarrow> (string \<Rightarrow> time) \<Rightarrow> string \<Rightarrow> string \<Rightarrow> string \<Rightarrow> platform_row list \<Rightarrow> platform_row list \<Rightarrow> bool"
  for L ts kind val channel where
  seen: "book_step L ts kind val channel rs (ensure_identities ts now handles rs)"
| written: "record_suppression L ts now kind' raw channel' reason source evidence until rs = Some rs' \<Longrightarrow>
    spares kind val channel kind' (the (normalize_pair kind' raw)) channel' until \<Longrightarrow> book_step L ts kind val channel rs rs'"

lemma record_cases:
  assumes "record_suppression L ts now kind raw channel reason source evidence until rs = Some rs'"
  obtains v rs1 r channels ledger where "normalize_pair kind raw = Some v" "ensure_identity ts now kind v rs = Some rs1"
    "r \<in> set rs1" "is_pair kind v r"
    "merge_entry r channel (build_entry L now channel reason source evidence until) = (channels, ledger)"
    "rs' = update_suppression ts now kind v channels ledger rs1"
proof -
  obtain v where v: "normalize_pair kind raw = Some v" using assms by (auto simp: record_suppression_def split: option.splits)
  obtain rs1 where rs1: "ensure_identity ts now kind v rs = Some rs1"
    using assms v by (auto simp: record_suppression_def record_in_txn_def split: option.splits)
  obtain r where r: "find (is_pair kind v) rs1 = Some r"
    using assms v rs1 by (auto simp: record_suppression_def record_in_txn_def split: option.splits)
  then have "r \<in> set rs1" "is_pair kind v r" by (auto simp: find_Some_iff)
  moreover obtain channels ledger where "merge_entry r channel (build_entry L now channel reason source evidence until) = (channels, ledger)"
    by (cases "merge_entry r channel (build_entry L now channel reason source evidence until)")
  ultimately show thesis using assms v rs1 r that by (simp add: record_suppression_def record_in_txn_def)
qed

lemma step_stopped:
  assumes "book_step L ts kind val channel rs rs'" and "stopped kind val channel rs"
  shows "stopped kind val channel rs'"
  using assms(1)
proof cases
  case (seen now handles)
  then show ?thesis using assms(2) ensure_pairs_stopped by (simp add: ensure_identities_def)
next
  case (written now kind' raw channel' reason source evidence until)
  obtain v rs1 r channels ledger where w: "normalize_pair kind' raw = Some v" "ensure_identity ts now kind' v rs = Some rs1"
      "r \<in> set rs1" "is_pair kind' v r"
      "merge_entry r channel' (build_entry L now channel' reason source evidence until) = (channels, ledger)"
      "rs' = update_suppression ts now kind' v channels ledger rs1"
    using written(1) by (rule record_cases)
  have "spares kind val channel kind' v channel' until" using written(2) w(1) by simp
  then show ?thesis using update_stopped [OF ensure_stopped [OF w(2) assms(2)] _ w(3-5)] w(6) by simp
qed

lemma record_stops:
  assumes "record_suppression L ts now kind raw channel reason source evidence None rs = Some rs'"
  shows "stopped kind (the (normalize_pair kind raw)) channel rs'"
proof -
  obtain v rs1 r channels ledger where w: "normalize_pair kind raw = Some v" "ensure_identity ts now kind v rs = Some rs1"
      "r \<in> set rs1" "is_pair kind v r"
      "merge_entry r channel (build_entry L now channel reason source evidence None) = (channels, ledger)"
      "rs' = update_suppression ts now kind v channels ledger rs1"
    using assms by (rule record_cases)
  have ch: "channels = AList.update channel (JObj (filter (\<lambda>(k, v). k \<noteq> ''channel'')
      (build_entry L now channel reason source evidence None))) (pi_suppressions r)"
    using w(5) by (simp add: merge_entry_def)
  have l: "lasting channel (x\<lparr>pi_suppressions := channels, pi_log := ledger\<rparr>)" for x :: platform_row
    using until_entry [of L now channel reason source evidence None] by (simp add: lasting_def ch update_conv')
  have p: "is_pair kind v (x\<lparr>pi_suppressions := channels, pi_log := ledger\<rparr>) = is_pair kind v x" for x :: platform_row
    by (simp add: is_pair_def)
  let ?f = "\<lambda>x. if is_pair kind v x then recompute ts now (x\<lparr>pi_suppressions := channels, pi_log := ledger\<rparr>) else x"
  have rs': "set rs' = ?f ` set rs1" by (simp add: w(6) update_suppression_def)
  have "?f r \<in> set rs'" unfolding rs' using w(3) by (rule imageI)
  moreover have "is_pair kind v (?f r)" using w(4) by (simp add: p)
  moreover have "lasting channel x \<and> pi_suppressed x" if x: "x \<in> set rs'" "is_pair kind v x" for x
  proof -
    obtain y where y: "x = ?f y" using x(1) unfolding rs' by blast
    then have "is_pair kind v y" using x(2) by (cases "is_pair kind v y") (simp_all add: p)
    then show ?thesis using y l recompute_lasting [of channel] by simp
  qed
  ultimately have "stopped kind v channel rs'" unfolding stopped_def by blast
  then show ?thesis using w(1) by simp
qed

lemma stopped_suppressed:
  assumes "stopped ''phone'' v channel rs" and "normalize_phone raw = Some v"
  shows "is_suppressed answers [(''phone'', raw)] rs"
proof -
  have "normalize_phone [] = None" by code_simp
  then have "raw \<noteq> []" using assms(2) by auto
  then have "platform_pairs [(''phone'', raw)] = [(''phone'', v)]"
    using assms(2) by (simp add: platform_pairs_def List.map_filter_simps platform_pair_def handle_kinds_def normalize_pair_def)
  then show ?thesis using assms(1) by (auto simp: is_suppressed_def probe_pairs_def stopped_def list_ex_iff)
qed

text \<open>
  C20 Someone who said stop stays stopped: once a lasting suppression of a phone is on record, the
  probe answers yes for every spelling of that number, whether or not the database does, whatever
  the book records afterwards for anybody -- short of an end written over this very stop.
\<close>

theorem stop_is_heard:
  assumes "record_suppression L ts now ''phone'' raw channel reason source evidence None rs = Some rs1"
    and "(book_step L ts ''phone'' v channel)\<^sup>*\<^sup>* rs1 rs2"
    and "normalize_phone raw = Some v" and "normalize_phone raw' = Some v"
  shows "is_suppressed answers [(''phone'', raw')] rs2"
proof -
  have "stopped ''phone'' v channel rs1" using record_stops [OF assms(1)] assms(3) by (simp add: normalize_pair_def)
  with assms(2) have "stopped ''phone'' v channel rs2"
    by (induction rule: rtranclp_induct) (simp_all add: step_stopped)
  then show ?thesis using assms(4) by (rule stopped_suppressed)
qed

section \<open>Examples\<close>

definition book_lib :: lib where
  "book_lib = \<lparr>iso_parse = (\<lambda>_. None), iso_format = int_text, zone_of = (\<lambda>_. undefined), date_iso = (\<lambda>_. []),
     naive_ts = (\<lambda>t. t), sha256_hex = (\<lambda>_. []), deriver = (\<lambda>_. []), derived_names = []\<rparr>"

definition book_ts :: "string \<Rightarrow> time" where
  "book_ts s = foldl (\<lambda>n c. 10 * n + int (of_char c) - 48) 0 s"

definition demo_stop :: "platform_row list option" where
  "demo_stop = record_suppression book_lib book_ts 5 ''phone'' ''+91 98765-43210'' ''*'' ''stop'' ''whatsapp'' None None []"

theorem stop_is_heard_witness:
  "is_suppressed False [(''phone'', ''09876543210'')] (the demo_stop) \<and> is_suppressed True [(''phone'', ''9876543210'')] (the demo_stop)"
proof -
  have n: "normalize_phone ''+91 98765-43210'' = Some ''+919876543210''" "normalize_phone ''09876543210'' = Some ''+919876543210''"
      "normalize_phone ''9876543210'' = Some ''+919876543210''"
    by code_simp+
  have "demo_stop \<noteq> None" by code_simp
  then have d: "record_suppression book_lib book_ts 5 ''phone'' ''+91 98765-43210'' ''*'' ''stop'' ''whatsapp'' None None [] = Some (the demo_stop)"
    by (simp add: demo_stop_def)
  show ?thesis
    using stop_is_heard [OF d rtranclp.rtrancl_refl n(1) n(2), of False] stop_is_heard [OF d rtranclp.rtrancl_refl n(1) n(3), of True]
    by blast
qed

definition demo_timed :: "platform_row list option" where
  "demo_timed = Option.bind demo_stop (record_suppression book_lib book_ts 6 ''phone'' ''9876543210'' ''*'' ''backfill'' ''list'' None (Some 100))"

text \<open>
  A later entry with an end on the same channel replaces a lasting stop: the person stays blocked,
  past that end too, only until her row is next written -- the day she is seen again -- and may then
  be contacted, though her stop was recorded for good.
\<close>

theorem timed_entry_lifts_a_stop:
  "is_suppressed True [(''phone'', ''9876543210'')] (the demo_timed)
   \<and> \<not> is_suppressed True [(''phone'', ''9876543210'')]
        (ensure_identities book_ts (2 * day_us) [(''phone'', ''9876543210'')] (the demo_timed))"
  by code_simp

end
