(* ===== verification/Registry.thy ===== *)
theory Registry
  imports Schemas
begin

text \<open>
  What a message leaves by: the channels (\<open>app/crm/connectivity/channels/registry.py\<close>), the pipe
  (\<open>crm_channel_binding\<close>), the door behind it (\<open>crm_connector_installation\<close>,
  \<open>accounts/installations.py\<close>), its stored secret, and the template registry's reads
  (\<open>crm_channel_template\<close>, \<open>templates/reads.py\<close>).  The credential vault belongs to another part of
  the system; here it is a list of its rows.  The dash in the words of a refusal is a hyphen here.
\<close>

section \<open>Channels\<close>

record channel_entry =
  ch_handle :: string
  ch_registers :: bool

definition channels :: "(string \<times> channel_entry) list" where
  "channels = [(''whatsapp'', \<lparr>ch_handle = ''phone'', ch_registers = True\<rparr>)]"

definition gate_handle_kind_for :: "string \<Rightarrow> string option" where
  "gate_handle_kind_for channel = map_option ch_handle (map_of channels channel)"

definition registers_templates_for :: "string \<Rightarrow> bool" where
  "registers_templates_for channel = (case map_of channels channel of Some e \<Rightarrow> ch_registers e | None \<Rightarrow> True)"

section \<open>Rows\<close>

record binding =
  bd_id :: string
  bd_merchant :: string
  bd_channel :: string
  bd_installation :: string
  bd_address :: string
  bd_capabilities :: dict
  bd_primary :: bool
  bd_status :: string

record installation =
  in_id :: string
  in_merchant :: string
  in_connector :: string
  in_account :: string
  in_label :: "string option"
  in_credential :: "string option"
  in_status :: string

record template_row =
  tp_id :: string
  tp_merchant :: string
  tp_channel :: string
  tp_account :: string
  tp_name :: string
  tp_language :: string
  tp_provider :: "string option"
  tp_category :: "string option"
  tp_submitted_category :: "string option"
  tp_category_at :: "time option"
  tp_components :: "json list"
  tp_status :: string
  tp_status_at :: time
  tp_rejection :: "string option"
  tp_quality :: string
  tp_quality_at :: "time option"
  tp_created :: time

record credential =
  cr_id :: string
  cr_active :: bool
  cr_value :: dict

record channel_db =
  cd_bindings :: "binding list"
  cd_installations :: "installation list"
  cd_templates :: "template_row list"
  cd_vault :: "credential list"

section \<open>The pipe\<close>

definition binding_active :: string where "binding_active = ''active''"

definition primary_binding :: "string \<Rightarrow> string \<Rightarrow> binding list \<Rightarrow> binding option" where
  "primary_binding merchant channel bs =
     find (\<lambda>b. bd_merchant b = merchant \<and> bd_channel b = channel \<and> bd_primary b \<and> bd_status b = binding_active) bs"

definition binding_by_id :: "string \<Rightarrow> string \<Rightarrow> string \<Rightarrow> binding list \<Rightarrow> binding option" where
  "binding_by_id merchant i channel bs =
     find (\<lambda>b. bd_merchant b = merchant \<and> bd_id b = i \<and> bd_channel b = channel \<and> bd_status b = binding_active) bs"

definition get_binding :: "string \<Rightarrow> string \<Rightarrow> string option \<Rightarrow> binding list \<Rightarrow> binding option" where
  "get_binding merchant channel named bs =
     (if opt_text named then binding_by_id merchant (the named) channel bs else primary_binding merchant channel bs)"

section \<open>The door\<close>

definition get_installation :: "string \<Rightarrow> string \<Rightarrow> installation list \<Rightarrow> installation option" where
  "get_installation merchant i ins = find (\<lambda>x. in_merchant x = merchant \<and> in_id x = i) ins"

definition usable_installation_states :: "string set" where
  "usable_installation_states = {''healthy''}"

definition is_usable :: "installation \<Rightarrow> bool" where
  "is_usable x \<longleftrightarrow> in_status x \<in> usable_installation_states"

definition get_installation_by_account :: "string \<Rightarrow> string \<Rightarrow> string \<Rightarrow> installation list \<Rightarrow> installation option" where
  "get_installation_by_account merchant connector account ins =
     find (\<lambda>x. in_merchant x = merchant \<and> in_connector x = connector \<and> in_account x = account) ins"

text \<open>\<open>Inl\<close> is the \<open>AccountError\<close>, in its own words.\<close>

definition healthy_installation :: "string \<Rightarrow> string \<Rightarrow> string \<Rightarrow> installation list \<Rightarrow> string + installation" where
  "healthy_installation merchant connector account ins =
     (case get_installation_by_account merchant connector account ins of
        None \<Rightarrow> Inl (''no connected account '' @ [CHR 0x27] @ account @ [CHR 0x27] @ '' on this channel'')
      | Some x \<Rightarrow> (if is_usable x then Inr x
          else Inl (''the account '' @ [CHR 0x27] @ account @ [CHR 0x27] @ '' is '' @ [CHR 0x27] @ in_status x @ [CHR 0x27]
                    @ '' - reconnect it before using it'')))"

definition bundle_for :: "credential list \<Rightarrow> installation \<Rightarrow> string + dict" where
  "bundle_for vault x =
     (if \<not> opt_text (in_credential x) then Inl ''this connection has no stored credential''
      else case find (\<lambda>c. cr_id c = the (in_credential x)) vault of
        None \<Rightarrow> Inl (''this connection'' @ [CHR 0x27] @ ''s credential is missing or unreadable'')
      | Some c \<Rightarrow> (if \<not> cr_active c \<or> cr_value c = []
          then Inl (''this connection'' @ [CHR 0x27] @ ''s credential is missing or unreadable'') else Inr (cr_value c)))"

section \<open>The registry of templates\<close>

definition template_approved :: string where "template_approved = ''approved''"

definition is_template :: "string \<Rightarrow> string \<Rightarrow> string \<Rightarrow> template_row \<Rightarrow> bool" where
  "is_template merchant channel name t \<longleftrightarrow> tp_merchant t = merchant \<and> tp_channel t = channel \<and> tp_name t = name"

text \<open>\<open>LIMIT 2\<close>: one from many is all the caller asks.\<close>

definition approved_templates_for_send :: "string \<Rightarrow> string \<Rightarrow> string \<Rightarrow> string \<Rightarrow> template_row list \<Rightarrow> template_row list" where
  "approved_templates_for_send merchant channel account name ts =
     take 2 (filter (\<lambda>t. is_template merchant channel name t \<and> tp_account t = account \<and> tp_status t = template_approved) ts)"

definition approved_template :: "string \<Rightarrow> string \<Rightarrow> string \<Rightarrow> string \<Rightarrow> template_row list \<Rightarrow> template_row option" where
  "approved_template merchant channel account name ts =
     (case approved_templates_for_send merchant channel account name ts of [t] \<Rightarrow> Some t | _ \<Rightarrow> None)"

text \<open>\<open>ORDER BY status_updated_at DESC, created_at DESC\<close>.\<close>

definition templates_by_name :: "string \<Rightarrow> string \<Rightarrow> string \<Rightarrow> template_row list \<Rightarrow> template_row list" where
  "templates_by_name merchant channel name ts =
     sort_key (\<lambda>t. - tp_status_at t) (sort_key (\<lambda>t. - tp_created t) (filter (is_template merchant channel name) ts))"

text \<open>The verdict: \<open>None\<close> is publishable, \<open>Some\<close> the reason it is not.\<close>

definition template_status :: "channel_db \<Rightarrow> string \<Rightarrow> string \<Rightarrow> string \<Rightarrow> string option" where
  "template_status db merchant channel name =
     (case (case get_binding merchant channel None (cd_bindings db) of None \<Rightarrow> None
            | Some b \<Rightarrow> get_installation merchant (bd_installation b) (cd_installations db)) of
        None \<Rightarrow> Some (''cannot be sent: no active primary '' @ channel @ '' pipe is connected'')
      | Some x \<Rightarrow>
          (let rows = filter (\<lambda>t. tp_account t = in_account x) (templates_by_name merchant channel name (cd_templates db));
               approved = filter (\<lambda>t. tp_status t = template_approved) rows
           in if rows = [] then Some (''is not registered on the sending '' @ channel @ '' account ('' @ in_account x @ '')'')
              else if 1 < length approved
              then Some (''is approved in '' @ nat_text (length approved) @ '' languages on the sending '' @ channel
                         @ '' account - exactly one is required to send'')
              else if approved = []
              then Some (''is '' @ [CHR 0x27] @ tp_status (hd rows) @ [CHR 0x27] @ '', not approved, on the sending '' @ channel @ '' account'')
              else None))"

section \<open>Publish asks what send will find\<close>

text \<open>The route a send takes to its template, when it names no pipe.\<close>

definition sendable_template :: "channel_db \<Rightarrow> string \<Rightarrow> string \<Rightarrow> string \<Rightarrow> template_row option" where
  "sendable_template db merchant channel name =
     (case get_binding merchant channel None (cd_bindings db) of None \<Rightarrow> None
      | Some b \<Rightarrow> (case get_installation merchant (bd_installation b) (cd_installations db) of None \<Rightarrow> None
         | Some x \<Rightarrow> approved_template merchant channel (in_account x) name (cd_templates db)))"

lemma filter_sort_key: "filter P (sort_key f xs) = sort_key f (filter P xs)"
  by (simp add: filter_sort)

lemma one_of_take: "(case take 2 xs of [t] \<Rightarrow> Some t | _ \<Rightarrow> None) \<noteq> None \<longleftrightarrow> length xs = 1"
  by (cases xs; cases "tl xs") auto

lemma approved_one:
  "approved_template merchant channel account name ts \<noteq> None \<longleftrightarrow>
     length (filter (\<lambda>t. is_template merchant channel name t \<and> tp_account t = account \<and> tp_status t = template_approved) ts) = 1"
  unfolding approved_template_def approved_templates_for_send_def by (rule one_of_take)

lemma approved_rows:
  "length (filter (\<lambda>t. tp_status t = template_approved) (filter (\<lambda>t. tp_account t = account) (templates_by_name merchant channel name ts)))
   = length (filter (\<lambda>t. is_template merchant channel name t \<and> tp_account t = account \<and> tp_status t = template_approved) ts)"
  by (simp add: templates_by_name_def filter_sort_key conj_commute conj_left_commute)

lemma one_verdict:
  "(rows = [] \<Longrightarrow> ok = []) \<Longrightarrow>
   ((if rows = [] then Some x else if 1 < length ok then Some y else if ok = [] then Some z else None) = None) = (length ok = 1)"
  by (cases ok; cases "tl ok") auto

text \<open>
  The question publish asks of a template is the question the send door asks: a name is
  publishable on a channel exactly when a send that names no pipe will find its one approved row, on
  the account it will leave from.
\<close>

theorem publishable_iff_sendable:
  "template_status db merchant channel name = None \<longleftrightarrow> sendable_template db merchant channel name \<noteq> None"
proof (cases "get_binding merchant channel None (cd_bindings db)")
  case None
  then show ?thesis by (simp add: template_status_def sendable_template_def)
next
  case (Some b)
  note b = this
  show ?thesis
  proof (cases "get_installation merchant (bd_installation b) (cd_installations db)")
    case None
    then show ?thesis by (simp add: template_status_def sendable_template_def b)
  next
    case (Some x)
    let ?rows = "filter (\<lambda>t. tp_account t = in_account x) (templates_by_name merchant channel name (cd_templates db))"
    let ?ok = "filter (\<lambda>t. tp_status t = template_approved) ?rows"
    have "template_status db merchant channel name = None \<longleftrightarrow> length ?ok = 1"
      unfolding template_status_def b Some Let_def option.case by (rule one_verdict) simp
    moreover have "sendable_template db merchant channel name = approved_template merchant channel (in_account x) name (cd_templates db)"
      by (simp add: sendable_template_def b Some)
    ultimately show ?thesis by (simp only: approved_one approved_rows)
  qed
qed

end
