(* ===== verification/Dispatch.thy ===== *)
theory Dispatch
  imports Receipts Suppression Registry
begin

text \<open>
  A message from proposal to outcome: \<open>messaging/outbound/queue.py\<close>, the permission gate
  \<open>messaging/shared/gate.py\<close>, the send door \<open>send.py\<close> and the dispatcher
  \<open>messaging/outbound/dispatch.py\<close> of \<open>app/crm/connectivity\<close>, with the reasons of
  \<open>vocabulary/reasons.py\<close>.  Whether an awaited call answers, raises or outlasts its deadline, what a
  provider's adapter answers, the spine's read and the random jitter are the outside world's: the
  fields of the record \<open>wire\<close>.  What a row of another table says is read from the tables themselves.
\<close>

section \<open>Queueing\<close>

definition source_kinds :: "string set" where
  "source_kinds = {''broadcast'', ''workflow'', ''agent'', ''transactional''}"

definition purpose_roots :: "string set" where
  "purpose_roots = {''marketing'', ''utility'', ''transactional'', ''authentication''}"

definition normalize_address :: "string \<Rightarrow> string \<Rightarrow> string option" where
  "normalize_address channel address =
     (case gate_handle_kind_for channel of None \<Rightarrow> None
      | Some kind \<Rightarrow> (if kind = ''phone'' then normalize_phone address
                     else if kind = ''email'' then normalize_email address else None))"

definition validate_proposal :: "string \<Rightarrow> string \<Rightarrow> bool" where
  "validate_proposal kind purpose \<longleftrightarrow> kind \<in> source_kinds \<and> takeWhile (\<lambda>c. c \<noteq> CHR ''.'') purpose \<in> purpose_roots"

text \<open>\<open>None\<close> is the \<open>ValueError\<close>.\<close>

definition queue_message ::
    "time \<Rightarrow> string \<Rightarrow> string \<Rightarrow> string \<Rightarrow> string \<Rightarrow> string \<Rightarrow> string \<Rightarrow> string option \<Rightarrow> string \<Rightarrow> string option
     \<Rightarrow> dict \<Rightarrow> string \<Rightarrow> manifest_row list \<Rightarrow> (string option \<times> manifest_row list) option" where
  "queue_message now i merchant customer channel address kind source purpose template vars dedupe ms =
     (if \<not> validate_proposal kind purpose then None
      else case normalize_address channel address of None \<Rightarrow> None
      | Some sent_to \<Rightarrow> Some (insert_message now i merchant customer channel sent_to kind source purpose template vars dedupe ms))"

section \<open>The outside world\<close>

datatype 'a answered = Answer 'a | Raises | Times_out

type_synonym ('w, 'a) call = "'w \<Rightarrow> 'a answered \<times> 'w"

definition call_bind :: "('w, 'a) call \<Rightarrow> ('a \<Rightarrow> ('w, 'b) call) \<Rightarrow> ('w, 'b) call" where
  "call_bind c f = (\<lambda>w. case c w of
     (Answer x, w') \<Rightarrow> f x w' | (Raises, w') \<Rightarrow> (Raises, w') | (Times_out, w') \<Rightarrow> (Times_out, w'))"

definition call_return :: "'a \<Rightarrow> ('w, 'a) call" where
  "call_return x = (\<lambda>w. (Answer x, w))"

datatype outcome_word = So_accepted | So_failed | So_blocked

record send_outcome =
  so_status :: outcome_word
  so_provider :: "string option"
  so_binding :: "string option"
  so_reason :: "string option"
  so_retryable :: bool

record send_route =
  ro_installation :: installation
  ro_binding :: binding
  ro_bundle :: dict
  ro_template :: "template_row option"

record 'w wire =
  wr_read :: "('w, unit) call"
  wr_adapter :: "string \<Rightarrow> (manifest_row \<Rightarrow> send_route \<Rightarrow> ('w, send_outcome) call) option"
  wr_spine :: "'w \<Rightarrow> ((string \<Rightarrow> string \<Rightarrow> string list \<Rightarrow> letter list option) \<times> nat) \<times> 'w"
  wr_jitter :: "'w \<Rightarrow> rat \<times> 'w"

section \<open>Reasons\<close>

definition reason_gate_refused :: string where "reason_gate_refused = ''gate_refused''"
definition reason_no_adapter :: string where "reason_no_adapter = ''channel_not_supported''"
definition reason_no_binding :: string where "reason_no_binding = ''no_active_binding''"
definition reason_no_installation :: string where "reason_no_installation = ''connector_not_installed''"
definition reason_installation_unhealthy :: string where "reason_installation_unhealthy = ''connector_unhealthy''"
definition reason_template_not_approved :: string where "reason_template_not_approved = ''template_not_approved''"
definition reason_timeout :: string where "reason_timeout = ''send_timeout''"
definition reason_send_error :: string where "reason_send_error = ''send_error''"
definition reason_no_credential :: string where "reason_no_credential = ''connector_credential_missing''"
definition reason_no_template :: string where "reason_no_template = ''template_missing''"
definition reason_bad_address :: string where "reason_bad_address = ''recipient_address_invalid''"
definition reason_bad_variables :: string where "reason_bad_variables = ''template_variables_invalid''"
definition reason_suppressed :: string where "reason_suppressed = ''suppressed''"
definition reason_gate_unavailable :: string where "reason_gate_unavailable = ''gate_unavailable''"

definition merchant_reasons :: "string set" where
  "merchant_reasons = {reason_no_binding, reason_no_installation, reason_template_not_approved, reason_no_credential,
     reason_no_template, reason_bad_variables, reason_bad_address,
     ''190'', ''10'', ''200'', ''131005'', ''133010'', ''131030'', ''132001'', ''132005'', ''132007'', ''132015'',
     ''132016'', ''132000'', ''132012'', ''131008'', ''131009''}"

definition policy_reasons :: "string set" where
  "policy_reasons = {reason_gate_refused, reason_suppressed, ''131047'', ''131026''}"

definition reason_class :: "string option \<Rightarrow> string option" where
  "reason_class r = (case r of None \<Rightarrow> None
     | Some x \<Rightarrow> Some (if x \<in> merchant_reasons then ''merchant'' else if x \<in> policy_reasons then ''policy'' else ''provider''))"

definition provider_code_reasons :: "(string \<times> string) list" where
  "provider_code_reasons =
     [(''10'', ''permission_denied''), (''190'', ''token_expired''), (''200'', ''permission_denied''),
      (''131005'', ''access_denied''), (''133010'', ''number_not_registered''), (''100'', ''invalid_parameter''),
      (''131008'', ''required_parameter_missing''), (''131009'', ''parameter_value_invalid''),
      (''131026'', ''recipient_cannot_receive_whatsapp''), (''131030'', ''recipient_not_in_allowed_list''),
      (''131047'', ''outside_24h_window''), (''132000'', ''template_variable_count_mismatch''),
      (''132001'', ''template_not_found''), (''132005'', ''template_too_long''), (''132007'', ''template_policy_violation''),
      (''132012'', ''template_variable_format_invalid''), (''132015'', ''template_paused''), (''132016'', ''template_disabled''),
      (''4'', ''provider_rate_limited''), (''613'', ''provider_rate_limited''), (''80007'', ''account_rate_limited''),
      (''131056'', ''pair_rate_limited''), (''130429'', ''throughput_limit_reached''), (''131048'', ''spam_rate_limit_reached''),
      (''131049'', ''engagement_limit_reached''), (''429'', ''provider_rate_limited'')]"

definition reason_label :: "string option \<Rightarrow> string option" where
  "reason_label r = (case r of None \<Rightarrow> None
     | Some x \<Rightarrow> Some (case map_of provider_code_reasons x of Some y \<Rightarrow> y | None \<Rightarrow> x))"

section \<open>The gate\<close>

record send_token =
  tk_message :: string
  tk_purpose :: string
  tk_granted :: bool

text \<open>
  The probe reads the database only when there is a handle to ask about; a read that raises is
  answered inside the probe, one that outlasts the deadline ends the gate.
\<close>

definition gate :: "'w wire \<Rightarrow> platform_row list \<Rightarrow> manifest_row \<Rightarrow> 'w \<Rightarrow> string option \<times> 'w" where
  "gate W book m w =
     (case gate_handle_kind_for (mg_channel m) of
        None \<Rightarrow> (Some reason_gate_unavailable, w)
      | Some kind \<Rightarrow>
          (let handles = [(kind, mg_address m)]
           in if platform_pairs handles = []
              then ((if is_suppressed True handles book then Some reason_suppressed else None), w)
              else case wr_read W w of
                (Answer u, w') \<Rightarrow> ((if is_suppressed True handles book then Some reason_suppressed else None), w')
              | (Raises, w') \<Rightarrow> ((if is_suppressed False handles book then Some reason_suppressed else None), w')
              | (Times_out, w') \<Rightarrow> (Some reason_gate_unavailable, w')))"

definition mint_send_token :: "manifest_row \<Rightarrow> send_token" where
  "mint_send_token m = \<lparr>tk_message = mg_id m, tk_purpose = mg_purpose m, tk_granted = True\<rparr>"

section \<open>The send door\<close>

definition refused :: "string \<Rightarrow> send_outcome" where
  "refused reason = \<lparr>so_status = So_blocked, so_provider = None, so_binding = None, so_reason = Some reason, so_retryable = False\<rparr>"

definition failed_retryable :: "string \<Rightarrow> send_outcome" where
  "failed_retryable reason = \<lparr>so_status = So_failed, so_provider = None, so_binding = None, so_reason = Some reason, so_retryable = True\<rparr>"

definition token_grants :: "send_token \<Rightarrow> manifest_row \<Rightarrow> bool" where
  "token_grants t m \<longleftrightarrow> tk_granted t \<and> tk_message t = mg_id m \<and> tk_purpose t = mg_purpose m"

text \<open>\<open>Inl\<close> is the refusal.\<close>

definition resolve_send_route ::
    "'w wire \<Rightarrow> channel_db \<Rightarrow> string \<Rightarrow> string \<Rightarrow> string option \<Rightarrow> string option \<Rightarrow> ('w, string + send_route) call" where
  "resolve_send_route W db merchant channel named template_name =
     call_bind (wr_read W) (\<lambda>u. case get_binding merchant channel named (cd_bindings db) of
       None \<Rightarrow> call_return (Inl reason_no_binding)
     | Some b \<Rightarrow> call_bind (wr_read W) (\<lambda>u. case get_installation merchant (bd_installation b) (cd_installations db) of
         None \<Rightarrow> call_return (Inl reason_no_installation)
       | Some x \<Rightarrow>
           if \<not> is_usable x then call_return (Inl reason_installation_unhealthy)
           else call_bind
             (if \<not> registers_templates_for channel then call_return (Inr None)
              else if \<not> opt_text template_name then call_return (Inl reason_no_template)
              else call_bind (wr_read W) (\<lambda>u. case approved_template merchant channel (in_account x) (the template_name) (cd_templates db) of
                  None \<Rightarrow> call_return (Inl reason_template_not_approved)
                | Some t \<Rightarrow> call_return (Inr (Some t))))
             (\<lambda>found. case found of
                Inl reason \<Rightarrow> call_return (Inl reason)
              | Inr template \<Rightarrow> call_bind (if opt_text (in_credential x) then wr_read W else call_return ()) (\<lambda>u.
                  case bundle_for (cd_vault db) x of
                    Inl e \<Rightarrow> call_return (Inl reason_no_credential)
                  | Inr bundle \<Rightarrow> call_return (Inr \<lparr>ro_installation = x, ro_binding = b, ro_bundle = bundle, ro_template = template\<rparr>)))))"

definition resolve_and_deliver ::
    "'w wire \<Rightarrow> channel_db \<Rightarrow> (manifest_row \<Rightarrow> send_route \<Rightarrow> ('w, send_outcome) call) \<Rightarrow> manifest_row \<Rightarrow> ('w, send_outcome) call" where
  "resolve_and_deliver W db adapter m =
     call_bind (resolve_send_route W db (mg_merchant m) (mg_channel m) (mg_binding m) (mg_template m)) (\<lambda>r. case r of
       Inl reason \<Rightarrow> call_return (refused reason)
     | Inr route \<Rightarrow> call_bind (adapter m route) (\<lambda>out.
         if so_status out \<noteq> So_accepted then call_return out
         else call_return (out\<lparr>so_binding := Some (bd_id (ro_binding route))\<rparr>)))"

definition send :: "'w wire \<Rightarrow> channel_db \<Rightarrow> send_token \<Rightarrow> manifest_row \<Rightarrow> 'w \<Rightarrow> send_outcome \<times> 'w" where
  "send W db token m w =
     (if \<not> token_grants token m then (refused reason_gate_refused, w)
      else case wr_adapter W (mg_channel m) of
        None \<Rightarrow> (refused reason_no_adapter, w)
      | Some adapter \<Rightarrow> (case resolve_and_deliver W db adapter m w of
          (Answer out, w') \<Rightarrow> (out, w')
        | (Times_out, w') \<Rightarrow> (failed_retryable reason_timeout, w')
        | (Raises, w') \<Rightarrow> (failed_retryable reason_send_error, w')))"

section \<open>What an outcome means for the row\<close>

definition backoff_seconds :: "nat \<Rightarrow> nat \<Rightarrow> nat \<Rightarrow> nat" where
  "backoff_seconds attempt base cap = min (base * 2 ^ (attempt - 1)) cap"

definition retry_max_seconds :: nat where
  "retry_max_seconds = 300"

record dispatch_plan =
  dp_status :: message_status
  dp_reason :: "string option"
  dp_provider :: "string option"
  dp_mark_sent :: bool
  dp_retry :: "nat option"

definition permanent :: "dispatch_plan \<Rightarrow> bool" where
  "permanent p \<longleftrightarrow> dp_status p \<noteq> M_queued"

definition reason_or :: "string option \<Rightarrow> string \<Rightarrow> string" where
  "reason_or r d = (if opt_text r then the r else d)"

definition plan_for_outcome :: "nat \<Rightarrow> send_outcome \<Rightarrow> nat \<Rightarrow> nat \<Rightarrow> dispatch_plan" where
  "plan_for_outcome base out attempt max_attempts =
     (case so_status out of
        So_accepted \<Rightarrow> \<lparr>dp_status = M_accepted, dp_reason = None, dp_provider = so_provider out, dp_mark_sent = True, dp_retry = None\<rparr>
      | So_blocked \<Rightarrow> \<lparr>dp_status = M_blocked, dp_reason = Some (reason_or (so_reason out) reason_gate_unavailable),
                        dp_provider = None, dp_mark_sent = False, dp_retry = None\<rparr>
      | So_failed \<Rightarrow>
          (if \<not> so_retryable out
           then \<lparr>dp_status = M_failed, dp_reason = Some (reason_or (so_reason out) reason_provider_rejected),
                 dp_provider = so_provider out, dp_mark_sent = False, dp_retry = None\<rparr>
           else if max_attempts \<le> attempt
           then \<lparr>dp_status = M_dead, dp_reason = Some reason_attempts_exhausted, dp_provider = so_provider out,
                 dp_mark_sent = False, dp_retry = None\<rparr>
           else \<lparr>dp_status = M_queued, dp_reason = Some (reason_or (so_reason out) reason_provider_rejected),
                 dp_provider = so_provider out, dp_mark_sent = False,
                 dp_retry = Some (backoff_seconds attempt base retry_max_seconds)\<rparr>))"

text \<open>The random factor is drawn between 0.8 and 1.2.\<close>

definition jittered :: "'w wire \<Rightarrow> nat option \<Rightarrow> 'w \<Rightarrow> int option \<times> 'w" where
  "jittered W seconds w =
     (case seconds of None \<Rightarrow> (None, w)
      | Some s \<Rightarrow> (case wr_jitter W w of (u, w') \<Rightarrow> (Some (max 1 (py_round (of_nat s * u))), w')))"

section \<open>One pass\<close>

definition claim_sends ::
    "(string \<Rightarrow> bool) \<Rightarrow> time \<Rightarrow> nat \<Rightarrow> nat \<Rightarrow> nat \<Rightarrow> manifest_row list \<Rightarrow> manifest_row list \<times> manifest_row list" where
  "claim_sends locked now stale_minutes max_attempts batch ms =
     claim_queued_messages locked now batch (snd (requeue_stale_claims now stale_minutes max_attempts ms))"

text \<open>What one attempt comes to, before anything is written.\<close>

definition attempt_send :: "'w wire \<Rightarrow> channel_db \<Rightarrow> platform_row list \<Rightarrow> manifest_row \<Rightarrow> 'w \<Rightarrow> send_outcome \<times> 'w" where
  "attempt_send W db book m w =
     (case gate W book m w of
        (Some refusal, w') \<Rightarrow> (refused refusal, w')
      | (None, w') \<Rightarrow> send W db (mint_send_token m) m w')"

definition record_outcome ::
    "lib \<Rightarrow> 'w wire \<Rightarrow> time \<Rightarrow> manifest_row \<Rightarrow> dispatch_plan \<Rightarrow> string option \<Rightarrow> manifest_row list \<Rightarrow> 'w \<Rightarrow> manifest_row list \<times> 'w" where
  "record_outcome L W now m p binding ms w =
     (case jittered W (dp_retry p) w of (retry, w1) \<Rightarrow>
      (case wr_read W w1 of
         (Answer u, w2) \<Rightarrow>
           (case apply_outcome now (mg_id m) (dp_status p) (dp_reason p) (dp_provider p) (dp_mark_sent p) (mg_attempt m) retry binding ms of
              None \<Rightarrow> (ms, w2)
            | Some (False, ms') \<Rightarrow> (ms', w2)
            | Some (True, ms') \<Rightarrow> (case wr_spine W w2 of ((spine, landed), w3) \<Rightarrow>
                (backfill_early_receipts L spine landed now (mg_merchant m) (mg_channel m) (dp_provider p) ms', w3)))
       | (x, w2) \<Rightarrow> (ms, w2)))"

definition dispatch_one ::
    "lib \<Rightarrow> 'w wire \<Rightarrow> channel_db \<Rightarrow> platform_row list \<Rightarrow> nat \<Rightarrow> nat \<Rightarrow> time \<Rightarrow> manifest_row
     \<Rightarrow> manifest_row list \<Rightarrow> 'w \<Rightarrow> manifest_row list \<times> 'w" where
  "dispatch_one L W db book base max_attempts now m ms w =
     (case attempt_send W db book m w of (out, w') \<Rightarrow>
        record_outcome L W now m (plan_for_outcome base out (mg_attempt m) max_attempts) (so_binding out) ms w')"

end
