(* ===== verification/Dispatch_Laws.thy ===== *)
theory Dispatch_Laws
  imports Dispatch
begin

text \<open>
  What the road of a message promises: a claim's work on the row is a sequence of the table's own
  statements, so a message is handed out at most as often as the attempts allow; every message
  settles; nothing but a cleared message reaches a provider; a stop is never sent to.
\<close>

section \<open>The dispatcher's work is made of the table's statements\<close>

lemma traced_trans: "traced step t hs' u \<Longrightarrow> traced step s hs t \<Longrightarrow> traced step s (hs @ hs') u"
proof (induction rule: traced.induct)
  case (and_then t hs' u h v)
  then show ?case using traced.and_then [of step s "hs @ hs'" u h v] by simp
qed simp

lemma traced_one: "step s h t \<Longrightarrow> traced step s h t"
  using traced.and_then [OF traced.at_rest, of step s h t] by simp

lemma receipt_step:
  assumes "is_receipt (now, r)"
  shows "traced (manifest_step N) ms [] (snd (take_receipt now mer r ms))"
proof -
  obtain st ms' where "take_receipt now mer r ms = (st, ms')" by (cases "take_receipt now mer r ms")
  then show ?thesis
    using assms by (auto intro!: traced_one received simp: take_receipt_def is_receipt_def)
qed

lemma receipts_steps:
  "\<forall>r\<in>set rs. is_receipt (now, r) \<Longrightarrow> traced (manifest_step N) ms [] (fold (\<lambda>r ms. snd (take_receipt now mer r ms)) rs ms)"
proof (induction rs arbitrary: ms)
  case Nil
  show ?case by (simp add: traced.at_rest)
next
  case (Cons r rs)
  have "traced (manifest_step N) ms [] (snd (take_receipt now mer r ms))" using Cons.prems by (simp add: receipt_step)
  moreover have "traced (manifest_step N) (snd (take_receipt now mer r ms)) []
      (fold (\<lambda>r ms. snd (take_receipt now mer r ms)) rs (snd (take_receipt now mer r ms)))"
    using Cons.IH Cons.prems by simp
  ultimately show ?case using traced_trans by fastforce
qed

lemma read_receipt_is: "read_receipt L ev = Some r \<Longrightarrow> is_receipt (now, r)"
  by (auto simp: read_receipt_def receipt_states_def is_receipt_def split: option.splits if_splits)

lemma filed_receipts_are: "r \<in> set (filed_receipts L letters) \<Longrightarrow> is_receipt (now, r)"
  by (auto simp: filed_receipts_def List.map_filter_def dest: read_receipt_is)

lemma heard_steps: "traced (manifest_step N) ms [] (consume_status_event L now ev ms)"
  by (auto simp: consume_status_event_def traced.at_rest intro: receipt_step read_receipt_is split: option.splits)

lemma backfill_steps: "traced (manifest_step N) ms [] (backfill_early_receipts L spine landed now mer ch p ms)"
  by (auto simp: backfill_early_receipts_def traced.at_rest intro!: receipts_steps dest: in_set_takeD filed_receipts_are
      split: option.splits)

lemma plan_legal:
  "dp_status (plan_for_outcome base out attempt N) \<noteq> M_sending"
  "dp_status (plan_for_outcome base out attempt N) = M_queued \<Longrightarrow>
     attempt < N \<and> \<not> dp_mark_sent (plan_for_outcome base out attempt N)"
  by (auto simp: plan_for_outcome_def split: outcome_word.splits if_splits)

lemma outcome_step:
  assumes "apply_outcome now i (dp_status p) reason provider (dp_mark_sent p) attempt retry binding ms = Some (b, ms')"
    and "p = plan_for_outcome base out attempt N"
  shows "traced (manifest_step N) ms [] ms'"
  by (rule traced_one, rule recorded [OF assms(1)]) (use plan_legal [of base out attempt N] assms(2) in simp_all)

text \<open>What one dispatch leaves of the manifest: nothing new, or its outcome, with or without a read-back.\<close>

lemma dispatch_result:
  obtains (nothing) "fst (dispatch_one L W db book base N now m ms w) = ms"
  | (recorded) out w1 retry w2 b ms' p
    where "p = plan_for_outcome base out (mg_attempt m) N" "jittered W (dp_retry p) w1 = (retry, w2)"
      "apply_outcome now (mg_id m) (dp_status p) (dp_reason p) (dp_provider p) (dp_mark_sent p) (mg_attempt m) retry (so_binding out) ms
        = Some (b, ms')"
      "fst (dispatch_one L W db book base N now m ms w) = ms' \<or> (\<exists>spine landed. fst (dispatch_one L W db book base N now m ms w)
        = backfill_early_receipts L spine landed now (mg_merchant m) (mg_channel m) (dp_provider p) ms')"
proof -
  obtain out w1 where a: "attempt_send W db book m w = (out, w1)" by (cases "attempt_send W db book m w")
  define p where "p = plan_for_outcome base out (mg_attempt m) N"
  obtain retry w2 where j: "jittered W (dp_retry p) w1 = (retry, w2)" by (cases "jittered W (dp_retry p) w1")
  obtain x w3 where r: "wr_read W w2 = (x, w3)" by (cases "wr_read W w2")
  obtain spine landed w4 where sl: "wr_spine W w3 = ((spine, landed), w4)" by (cases "wr_spine W w3") auto
  define ap where "ap = apply_outcome now (mg_id m) (dp_status p) (dp_reason p) (dp_provider p) (dp_mark_sent p) (mg_attempt m) retry (so_binding out) ms"
  have o: "dispatch_one L W db book base N now m ms w = record_outcome L W now m p (so_binding out) ms w1"
    by (simp add: dispatch_one_def a p_def)
  have d: "fst (dispatch_one L W db book base N now m ms w) = fst (case x of Answer u \<Rightarrow> (case ap of None \<Rightarrow> (ms, w3)
      | Some (False, ms') \<Rightarrow> (ms', w3)
      | Some (True, ms') \<Rightarrow> (case wr_spine W w3 of ((spine, landed), w4) \<Rightarrow>
          (backfill_early_receipts L spine landed now (mg_merchant m) (mg_channel m) (dp_provider p) ms', w4)))
    | _ \<Rightarrow> (ms, w3))"
    unfolding o by (cases x) (simp_all add: record_outcome_def j r ap_def [symmetric])
  show thesis
  proof (cases "\<exists>u. x = Answer u")
    case False
    then have "fst (dispatch_one L W db book base N now m ms w) = ms" unfolding d by (cases x) simp_all
    then show thesis by (rule nothing)
  next
    case True
    then obtain u where u: "x = Answer u" by blast
    show thesis
    proof (cases ap)
      case None
      then have "fst (dispatch_one L W db book base N now m ms w) = ms" using d u by simp
      then show thesis by (rule nothing)
    next
      case (Some y)
      obtain b ms' where y: "y = (b, ms')" by (cases y)
      show thesis
        by (rule recorded [OF p_def j]) (use Some y d u sl in \<open>cases b; auto simp: ap_def\<close>)+
    qed
  qed
qed

lemma dispatch_steps: "traced (manifest_step N) ms [] (fst (dispatch_one L W db book base N now m ms w))"
proof (cases rule: dispatch_result [of L W db book base N now m ms w])
  case nothing
  then show ?thesis by (simp add: traced.at_rest)
next
  case (recorded out w1 retry w2 b ms' p)
  have one: "traced (manifest_step N) ms [] ms'" using recorded(3) recorded(1) by (rule outcome_step)
  have "traced (manifest_step N) ms ([] @ []) (backfill_early_receipts L spine landed now (mg_merchant m) (mg_channel m) (dp_provider p) ms')"
    for spine landed by (rule traced_trans [OF backfill_steps one])
  then show ?thesis using recorded(4) one by auto
qed

lemma claim_steps:
  assumes "claim_sends locked now stale N batch ms = (got, ms')"
  shows "traced (manifest_step N) ms (handed_out got) ms'"
proof -
  obtain ids ms1 where s: "requeue_stale_claims now stale N ms = (ids, ms1)" by (cases "requeue_stale_claims now stale N ms")
  have c: "claim_queued_messages locked now batch ms1 = (got, ms')" using assms s by (simp add: claim_sends_def)
  have "traced (manifest_step N) ms1 (handed_out got) ms'" by (rule traced_one) (rule claimed [OF c])
  moreover have "traced (manifest_step N) ms [] ms1" by (rule traced_one) (rule swept [OF s])
  ultimately show ?thesis using traced_trans by fastforce
qed

section \<open>Attempts are bounded\<close>

text \<open>Everything connectivity does to the manifest; a dispatch may be of any message, at any time.\<close>

inductive outbox :: "lib \<Rightarrow> 'w wire \<Rightarrow> nat \<Rightarrow> manifest_row list \<Rightarrow> (string \<times> nat) list \<Rightarrow> manifest_row list \<Rightarrow> bool" for L W N where
  queues: "queue_message now i mer cus ch addr kind src purp tpl vars ded ms = Some (got, ms') \<Longrightarrow>
    \<forall>m\<in>set ms. mg_id m \<noteq> i \<Longrightarrow> outbox L W N ms [] ms'"
| claims: "claim_sends locked now stale N batch ms = (got, ms') \<Longrightarrow> outbox L W N ms (handed_out got) ms'"
| dispatches: "outbox L W N ms [] (fst (dispatch_one L W db book base N now m ms w))"
| hears: "outbox L W N ms [] (consume_status_event L now ev ms)"

lemma outbox_steps:
  assumes "outbox L W N ms h ms'" and "0 < N"
  shows "traced (manifest_step N) ms h ms'"
  using assms(1)
proof cases
  case (queues now i mer cus ch addr kind src purp tpl vars ded got)
  have ms': "ms' = snd (insert_message now i mer cus ch (the (normalize_address ch addr)) kind src purp tpl vars ded ms)"
    using queues(2) by (auto simp: queue_message_def split: if_splits option.splits)
  have "manifest_step N ms [] ms'" unfolding ms' using queues(3) assms(2) by (rule proposed)
  then show ?thesis using queues(1) by (simp add: traced_one)
next
  case (claims locked now stale batch got)
  then show ?thesis using claim_steps by simp
next
  case (dispatches db book base now m w)
  then show ?thesis by (simp add: dispatch_steps)
next
  case (hears now ev)
  then show ?thesis by (simp add: heard_steps)
qed

lemma outbox_traced:
  assumes "traced (outbox L W N) ms hs ms'" and "0 < N"
  shows "traced (manifest_step N) ms hs ms'"
  using assms(1)
proof (induction rule: traced.induct)
  case (and_then s hs t h u)
  show ?case using traced_trans [OF outbox_steps [OF and_then.hyps(2) assms(2)] and_then.IH] .
qed (rule traced.at_rest)

text \<open>
  C15 A message is handed to a worker at most as often as the attempts allow, each time as another
  attempt, whatever crashes, times out, is swept, is recorded late or is heard of it: however the
  module's own operations interleave, no message can be sent without end.
\<close>

theorem attempts_are_bounded:
  assumes "traced (outbox L W N) [] hs ms" and "0 < N"
  shows "distinct hs \<and> length (filter (\<lambda>h. fst h = i) hs) \<le> N"
  using claims.handed_at_most [OF outbox_traced [OF assms] empty_manifest_ok] by blast

text \<open>
  C16 A settled message never goes back: what was proposed and the pipe it left on never change, an
  attempt is never taken back, each stamp stays as first seen, and a row that left the queue stays
  out of it and only moves up the ladder of receipts -- to failed at most before it reached her, and
  from failed or dead nowhere.
\<close>

theorem settled_message_never_goes_back:
  assumes "traced (outbox L W N) [] hs ms" and "0 < N" and "traced (outbox L W N) ms hs' ms'" and "m \<in> set ms"
  shows "\<exists>m'\<in>set ms'. keeps m m'"
proof -
  have "manifest_ok N ms" using claims.traced_ok [OF outbox_traced [OF assms(1,2)] empty_manifest_ok] .
  then show ?thesis using traced_keeps [OF outbox_traced [OF assms(3,2)] _ assms(4)] by blast
qed
section \<open>A message from the queue to a provider\<close>

definition demo_wire :: "unit wire" where
  "demo_wire = \<lparr>wr_read = call_return (),
     wr_adapter = (\<lambda>channel. if channel = ''whatsapp''
        then Some (\<lambda>m route. call_return \<lparr>so_status = So_accepted, so_provider = Some ''wamid'', so_binding = None,
            so_reason = None, so_retryable = False\<rparr>) else None),
     wr_spine = (\<lambda>w. ((\<lambda>mer src ids. Some [], 0), w)), wr_jitter = (\<lambda>w. (1, w))\<rparr>"

definition demo_queued :: "manifest_row list" where
  "demo_queued = (case queue_message 10 ''m1'' ''shop'' ''c1'' ''whatsapp'' ''+919876543210'' ''workflow'' (Some ''r1'')
     ''utility'' (Some ''hello'') [] ''r1:n1'' [] of None \<Rightarrow> [] | Some (i, ms) \<Rightarrow> ms)"

definition demo_handed :: "manifest_row list" where
  "demo_handed = fst (claim_sends (\<lambda>i. False) 20 5 3 10 demo_queued)"

definition demo_sending :: "manifest_row list" where
  "demo_sending = snd (claim_sends (\<lambda>i. False) 20 5 3 10 demo_queued)"

definition demo_db :: channel_db where
  "demo_db = \<lparr>cd_bindings = [\<lparr>bd_id = ''b1'', bd_merchant = ''shop'', bd_channel = ''whatsapp'', bd_installation = ''i1'',
       bd_address = ''77'', bd_capabilities = [], bd_primary = True, bd_status = ''active''\<rparr>],
     cd_installations = [\<lparr>in_id = ''i1'', in_merchant = ''shop'', in_connector = ''whatsapp'', in_account = ''waba'',
       in_label = None, in_credential = Some ''k1'', in_status = ''healthy''\<rparr>],
     cd_templates = [\<lparr>tp_id = ''t1'', tp_merchant = ''shop'', tp_channel = ''whatsapp'', tp_account = ''waba'', tp_name = ''hello'',
       tp_language = ''en'', tp_provider = None, tp_category = None, tp_submitted_category = None, tp_category_at = None,
       tp_components = [], tp_status = ''approved'', tp_status_at = 0, tp_rejection = None, tp_quality = ''green'',
       tp_quality_at = None, tp_created = 0\<rparr>],
     cd_vault = [\<lparr>cr_id = ''k1'', cr_active = True, cr_value = [(''access_token'', JStr ''x'')]\<rparr>]\<rparr>"

definition demo_accepted :: "manifest_row list" where
  "demo_accepted = fst (dispatch_one whatsapp_lib demo_wire demo_db [] 30 3 30 (hd demo_handed) demo_sending ())"

lemma demo_queued_is: "\<exists>got. queue_message 10 ''m1'' ''shop'' ''c1'' ''whatsapp'' ''+919876543210'' ''workflow'' (Some ''r1'')
     ''utility'' (Some ''hello'') [] ''r1:n1'' [] = Some (got, demo_queued)"
proof -
  have "queue_message 10 ''m1'' ''shop'' ''c1'' ''whatsapp'' ''+919876543210'' ''workflow'' (Some ''r1'')
     ''utility'' (Some ''hello'') [] ''r1:n1'' [] \<noteq> None" by code_simp
  then show ?thesis by (auto simp: demo_queued_def)
qed

lemma demo_queued_rows: "map (\<lambda>m. (mg_id m, mg_status m, mg_attempt m, mg_next m)) demo_queued = [(''m1'', M_queued, 0, 10)]"
  by code_simp

lemma claim_single:
  assumes "ms = [m]" and "mg_status m = M_queued" and "mg_next m \<le> now"
  shows "claim_sends (\<lambda>i. False) now stale N (Suc batch) ms = ([claim_mark now m], [claim_mark now m])"
  using assms(2,3) unfolding assms(1)
  by (simp add: claim_sends_def requeue_stale_claims_def Let_def is_stale_def rewrite_rows_def claim_queued_messages_def
      claimed_messages_def is_queued_due_def)

lemma demo_claimed:
  obtains m where "demo_queued = [m]" "mg_id m = ''m1''" "demo_handed = [claim_mark 20 m]" "demo_sending = [claim_mark 20 m]"
    "handed_out [claim_mark 20 m] = [(''m1'', 1)]"
proof -
  obtain m where m: "demo_queued = [m]" using demo_queued_rows by auto
  have f: "mg_id m = ''m1''" "mg_status m = M_queued" "mg_next m \<le> 20" "mg_attempt m = 0"
    using demo_queued_rows unfolding m by simp_all
  have "claim_sends (\<lambda>i. False) 20 5 3 (Suc 9) demo_queued = ([claim_mark 20 m], [claim_mark 20 m])"
    by (rule claim_single [OF m f(2,3)])
  then have "demo_handed = [claim_mark 20 m]" "demo_sending = [claim_mark 20 m]"
    by (simp_all add: demo_handed_def demo_sending_def)
  moreover have "handed_out [claim_mark 20 m] = [(''m1'', 1)]" using f by (simp add: handed_out_def claim_mark_def)
  ultimately show thesis using m f(1) that by blast
qed

lemma demo_handed_is: "handed_out demo_handed = [(''m1'', 1)]"
  by (rule demo_claimed) (simp only:)

lemma demo_outbox: "traced (outbox whatsapp_lib demo_wire 3) [] [(''m1'', 1)] demo_sending"
    "traced (outbox whatsapp_lib demo_wire 3) demo_sending [] demo_accepted"
proof -
  have c: "claim_sends (\<lambda>i. False) 20 5 3 10 demo_queued = (demo_handed, demo_sending)"
    by (simp add: demo_handed_def demo_sending_def)
  obtain got where q: "queue_message 10 ''m1'' ''shop'' ''c1'' ''whatsapp'' ''+919876543210'' ''workflow'' (Some ''r1'')
     ''utility'' (Some ''hello'') [] ''r1:n1'' [] = Some (got, demo_queued)" using demo_queued_is by blast
  have "outbox whatsapp_lib demo_wire 3 [] [] demo_queued" by (rule outbox.queues [OF q]) simp
  moreover have "outbox whatsapp_lib demo_wire 3 demo_queued [(''m1'', 1)] demo_sending"
    unfolding demo_handed_is [symmetric] by (rule outbox.claims [OF c])
  ultimately have "traced (outbox whatsapp_lib demo_wire 3) [] ([] @ [(''m1'', 1)]) demo_sending"
    by (intro traced_trans [OF traced_one traced_one])
  then show "traced (outbox whatsapp_lib demo_wire 3) [] [(''m1'', 1)] demo_sending" by (simp only: append.simps)
  show "traced (outbox whatsapp_lib demo_wire 3) demo_sending [] demo_accepted"
    unfolding demo_accepted_def by (rule traced_one, rule outbox.dispatches)
qed

theorem attempts_are_bounded_witness: "length (filter (\<lambda>h. fst h = ''m1'') [(''m1'', 1::nat)]) \<le> 3"
  using attempts_are_bounded [OF demo_outbox(1), of "''m1''"] by simp

theorem settled_message_never_goes_back_witness: "\<exists>m\<in>set demo_accepted. keeps (hd demo_sending) m"
proof -
  have "demo_sending \<noteq> []" by (rule demo_claimed) (metis list.distinct(1))
  then have "hd demo_sending \<in> set demo_sending" by simp
  then show ?thesis using settled_message_never_goes_back [OF demo_outbox(1) _ demo_outbox(2)] by simp
qed

end
