(* ===== verification/Settling.thy ===== *)
theory Settling
  imports Dispatch_Laws
begin

text \<open>
  Every message settles.  The dispatcher's role in \<open>app/crm/worker_main.py\<close> runs one pass after
  another; in a pass its workers finish some of what was claimed, in any order, and may die with the
  rest.  What is left waiting has spent an attempt, so the attempts run out.
\<close>

section \<open>Passes\<close>

datatype work = Finishes time channel_db "platform_row list" manifest_row | Is_told time letter

fun work_time :: "work \<Rightarrow> time" where
  "work_time (Finishes t db book m) = t"
| "work_time (Is_told t ev) = t"

fun works_on :: "lib \<Rightarrow> 'w wire \<Rightarrow> nat \<Rightarrow> nat \<Rightarrow> work \<Rightarrow> manifest_row list \<times> 'w \<Rightarrow> manifest_row list \<times> 'w" where
  "works_on L W base N (Finishes t db book m) (ms, w) = dispatch_one L W db book base N t m ms w"
| "works_on L W base N (Is_told t ev) (ms, w) = (consume_status_event L t ev ms, w)"

text \<open>One pass: a claim that finds every row that is due unlocked, and the work that follows it.\<close>

definition one_pass ::
    "lib \<Rightarrow> 'w wire \<Rightarrow> nat \<Rightarrow> nat \<Rightarrow> nat \<Rightarrow> time \<times> work list \<Rightarrow> manifest_row list \<times> 'w \<Rightarrow> manifest_row list \<times> 'w" where
  "one_pass L W base N stale p s =
     (case s of (ms, w) \<Rightarrow> fold (works_on L W base N) (snd p)
        (snd (claim_sends (\<lambda>i. False) (fst p) stale N (length ms) ms), w))"

text \<open>
  The longest a retry waits, with its jitter: a pass that starts later than that, and than the lease
  of a claim, finds every row of the pass before due or stale.
\<close>

definition longest_wait :: int where
  "longest_wait = 360 * second_us"

fun paced :: "nat \<Rightarrow> (time \<times> work list) list \<Rightarrow> bool" where
  "paced stale [] = True"
| "paced stale [p] = True"
| "paced stale (p # q # ps) \<longleftrightarrow> fst p + int stale * minute_us < fst q
     \<and> (\<forall>x\<in>set (snd p). work_time x + longest_wait \<le> fst q) \<and> paced stale (q # ps)"

definition mild_jitter :: "'w wire \<Rightarrow> bool" where
  "mild_jitter W \<longleftrightarrow> (\<forall>w. fst (wr_jitter W w) \<le> 6 / 5)"

section \<open>What waits after a pass\<close>

text \<open>A waiting row has spent \<open>k\<close> attempts, comes due by \<open>due\<close> and, if claimed, was claimed by \<open>since\<close>.\<close>

definition waits_since :: "nat \<Rightarrow> time \<Rightarrow> time \<Rightarrow> manifest_row \<Rightarrow> bool" where
  "waits_since k since due m \<longleftrightarrow> (waits (mg_status m) \<longrightarrow> k \<le> mg_attempt m \<and> mg_next m \<le> due
     \<and> (mg_status m = M_sending \<longrightarrow> (\<exists>t. mg_claimed m = Some t \<and> t \<le> since)))"

lemma rewrite_all: "(\<And>m. m \<in> set ms \<Longrightarrow> Q m \<Longrightarrow> P m \<Longrightarrow> Q (f m)) \<Longrightarrow> \<forall>m\<in>set ms. Q m \<Longrightarrow> \<forall>m\<in>set (rewrite_rows P f ms). Q m"
  by (auto simp: set_rewrite_rows)

lemma receipt_waits: "waits_since k since due m \<Longrightarrow> state \<in> {M_sent, M_delivered, M_read, M_failed}
    \<Longrightarrow> waits_since k since due (receipt_mark now state occ err pricing m)"
  by (cases "mg_status m"; cases state)
     (simp_all add: waits_since_def receipt_mark_def Let_def waits_def fails_def moved_on_def)

lemma heard_waits:
  assumes "\<forall>m\<in>set ms. waits_since k since due m" and "is_receipt (now, r)"
  shows "\<forall>m\<in>set (snd (take_receipt now' mer r ms)). waits_since k since due m"
  unfolding take_receipt_rewrite receipt_on_def prod.case
  using assms by (intro rewrite_all receipt_waits) (simp_all add: is_receipt_def)

lemma all_heard_waits:
  assumes "\<forall>m\<in>set ms. waits_since k since due m" and "\<forall>r\<in>set rs. is_receipt (now, r)"
  shows "\<forall>m\<in>set (fold (\<lambda>r ms. snd (take_receipt now mer r ms)) rs ms). waits_since k since due m"
  using assms
proof (induction rs arbitrary: ms)
  case (Cons r rs)
  then show ?case using heard_waits [OF Cons.prems(1), of now r now mer] by simp
qed simp

lemma told_waits:
  "\<forall>m\<in>set ms. waits_since k since due m \<Longrightarrow> \<forall>m\<in>set (consume_status_event L now ev ms). waits_since k since due m"
  using heard_waits [OF _ read_receipt_is] by (auto simp: consume_status_event_def split: option.splits)

lemma backfill_waits:
  "\<forall>m\<in>set ms. waits_since k since due m \<Longrightarrow>
   \<forall>m\<in>set (backfill_early_receipts L spine landed now mer ch p ms). waits_since k since due m"
  by (auto simp: backfill_early_receipts_def dest: in_set_takeD filed_receipts_are split: option.splits
      elim!: all_heard_waits [rule_format, rotated -1])

section \<open>A retry waits at most six minutes\<close>

lemma retry_at_most:
  assumes "mild_jitter W" and "jittered W (dp_retry (plan_for_outcome base out attempt N)) w = (retry, w')"
  shows "case retry of None \<Rightarrow> dp_status (plan_for_outcome base out attempt N) \<noteq> M_queued | Some s \<Rightarrow> s \<le> 360"
proof (cases "dp_retry (plan_for_outcome base out attempt N)")
  case None
  then have "dp_status (plan_for_outcome base out attempt N) \<noteq> M_queued"
    by (auto simp: plan_for_outcome_def split: outcome_word.splits if_splits)
  then show ?thesis using assms(2) None by (simp add: jittered_def)
next
  case (Some s)
  obtain u w'' where u: "wr_jitter W w = (u, w'')" by (cases "wr_jitter W w")
  have s: "s \<le> 300"
    using Some by (auto simp: plan_for_outcome_def backoff_seconds_def retry_max_seconds_def split: outcome_word.splits if_splits)
  have le: "u \<le> 6 / 5" using assms(1) u unfolding mild_jitter_def by (metis fst_conv)
  have "of_nat s * u \<le> (of_int 360 :: rat)"
  proof (cases "0 \<le> u")
    case True
    have "of_nat s * u \<le> (300 :: rat) * (6 / 5)" using s le True by (intro mult_mono) simp_all
    then show ?thesis by simp
  next
    case False
    then have "of_nat s * u \<le> 0" by (simp add: mult_nonneg_nonpos)
    then show ?thesis by simp
  qed
  then have "py_round (of_nat s * u) \<le> 360" by (rule py_round_le)
  then show ?thesis using assms(2) Some u by (auto simp: jittered_def)
qed
lemma outcome_waits:
  assumes ap: "apply_outcome now i (dp_status p) reason provider mark attempt retry binding ms = Some (b, ms')"
    and p: "p = plan_for_outcome base out k N"
    and retry: "case retry of None \<Rightarrow> dp_status p \<noteq> M_queued | Some s \<Rightarrow> s \<le> 360"
    and w: "\<forall>m\<in>set ms. waits_since n since due m" and due: "now + longest_wait \<le> due"
  shows "\<forall>m\<in>set ms'. waits_since n since due m"
proof -
  have ms': "ms' = rewrite_rows (holds_claim i attempt) (outcome_mark now (dp_status p) reason provider mark retry binding) ms"
    using ap by (auto simp: apply_outcome_def Let_def split: if_splits)
  have next_due: "s \<le> 360 \<Longrightarrow> now + s * second_us \<le> due" for s
    using due by (simp add: longest_wait_def second_us_def)
  show ?thesis
    unfolding ms' using plan_legal(1) [of base out k N] retry next_due
    by (intro rewrite_all w) (auto simp: waits_since_def holds_claim_def outcome_mark_def waits_def p split: option.splits)
qed

lemma dispatch_waits:
  assumes W: "mild_jitter W" and w: "\<forall>x\<in>set ms. waits_since n since due x" and due: "now + longest_wait \<le> due"
  shows "\<forall>x\<in>set (fst (dispatch_one L W db book base N now m ms s)). waits_since n since due x"
proof (cases rule: dispatch_result [of L W db book base N now m ms s])
  case nothing
  then show ?thesis using w by simp
next
  case (recorded out w1 retry w2 b ms' p)
  have r: "case retry of None \<Rightarrow> dp_status p \<noteq> M_queued | Some s \<Rightarrow> s \<le> 360"
    using retry_at_most [OF W] recorded(2) unfolding recorded(1) by blast
  have ms': "\<forall>x\<in>set ms'. waits_since n since due x" by (rule outcome_waits [OF recorded(3,1) r w due])
  show ?thesis
  proof (cases "fst (dispatch_one L W db book base N now m ms s) = ms'")
    case True
    then show ?thesis using ms' by (simp only:)
  next
    case False
    then obtain spine landed where e: "fst (dispatch_one L W db book base N now m ms s)
        = backfill_early_receipts L spine landed now (mg_merchant m) (mg_channel m) (dp_provider p) ms'"
      using recorded(4) by blast
    show ?thesis unfolding e by (rule backfill_waits [OF ms'])
  qed
qed

lemma work_waits:
  assumes "mild_jitter W" and "\<forall>m\<in>set (fst s). waits_since n since due m" and "work_time x + longest_wait \<le> due"
  shows "\<forall>m\<in>set (fst (works_on L W base N x s)). waits_since n since due m"
proof (cases s)
  case (Pair ms w)
  have w: "\<forall>m\<in>set ms. waits_since n since due m" using assms(2) unfolding Pair by (simp only: fst_conv)
  show ?thesis
  proof (cases x)
    case (Finishes t db book m)
    have t: "t + longest_wait \<le> due" using assms(3) unfolding Finishes by (simp only: work_time.simps)
    show ?thesis unfolding Finishes Pair works_on.simps by (rule dispatch_waits [OF assms(1) w t])
  next
    case (Is_told t ev)
    show ?thesis unfolding Is_told Pair works_on.simps fst_conv by (rule told_waits [OF w])
  qed
qed

lemma works_wait:
  assumes "mild_jitter W" and "\<forall>m\<in>set (fst s). waits_since n since due m" and "\<forall>x\<in>set xs. work_time x + longest_wait \<le> due"
  shows "\<forall>m\<in>set (fst (fold (works_on L W base N) xs s)). waits_since n since due m"
  using assms
proof (induction xs arbitrary: s)
  case (Cons x xs)
  have "\<forall>m\<in>set (fst (works_on L W base N x s)). waits_since n since due m"
    using Cons.prems by (intro work_waits) simp_all
  from Cons.IH [OF Cons.prems(1) this] show ?case using Cons.prems(3) unfolding fold_simps(2) by (meson list.set_intros(2))
qed simp

section \<open>A claim spends an attempt of everything that waits\<close>

lemma claim_all:
  assumes "keys_unique ms" and "length ms \<le> batch" and "\<forall>m\<in>set ms. waits (mg_status m) \<longrightarrow> mg_status m = M_queued \<and> mg_next m \<le> now"
  shows "snd (claim_queued_messages (\<lambda>i. False) now batch ms) = rewrite_rows (\<lambda>m. waits (mg_status m)) (claim_mark now) ms"
proof -
  let ?due = "sort_key mg_next (filter (is_queued_due now) ms)"
  have "length ?due \<le> batch" using assms(2) length_filter_le [of "is_queued_due now" ms] by (simp only: length_sort)
  then have "claimed_messages (\<lambda>i. False) now batch ms = mg_id ` set (filter (is_queued_due now) ms)"
    by (simp add: claimed_messages_def)
  moreover have "mg_id m \<in> mg_id ` set (filter (is_queued_due now) ms) \<longleftrightarrow> waits (mg_status m)" if m: "m \<in> set ms" for m
  proof
    assume "mg_id m \<in> mg_id ` set (filter (is_queued_due now) ms)"
    then obtain m' where "m' \<in> set ms" "is_queued_due now m'" "mg_id m = mg_id m'" by auto
    then have "is_queued_due now m" using same_message [OF assms(1) m, of m'] by simp
    then show "waits (mg_status m)" by (simp add: is_queued_due_def waits_def)
  next
    assume "waits (mg_status m)"
    then have "is_queued_due now m" using assms(3) m by (simp add: is_queued_due_def)
    then show "mg_id m \<in> mg_id ` set (filter (is_queued_due now) ms)" using m by simp
  qed
  ultimately show ?thesis by (simp add: claim_queued_messages_def Let_def rewrite_rows_def)
qed

lemma claim_spends:
  assumes ok: "manifest_ok N ms" and w: "\<forall>m\<in>set ms. waits_since k since due m"
    and due: "due \<le> now" and since: "since < now - int stale * minute_us"
  shows "\<forall>m\<in>set (snd (claim_sends (\<lambda>i. False) now stale N (length ms) ms)). waits_since (Suc k) now now m"
proof -
  let ?swept = "rewrite_rows (is_stale now stale) (reclaim_mark N) ms"
  have swept: "snd (requeue_stale_claims now stale N ms) = ?swept" by (simp add: requeue_stale_claims_def Let_def)
  have ok': "keys_unique ?swept"
    using ok sweep_step_ok [of N ms now stale] by (simp add: requeue_stale_claims_def Let_def manifest_ok_def)
  have q: "waits (mg_status m) \<longrightarrow> mg_status m = M_queued \<and> mg_next m \<le> now \<and> k \<le> mg_attempt m"
    if m: "m \<in> set ?swept" for m
  proof -
    obtain x where x: "x \<in> set ms" "m = (if is_stale now stale x then reclaim_mark N x else x)"
      using m by (auto simp: set_rewrite_rows)
    have "waits_since k since due x" using w x(1) by blast
    then show ?thesis
      using x(2) due since by (auto simp: waits_since_def is_stale_def reclaim_mark_def waits_def)
  qed
  have c: "snd (claim_sends (\<lambda>i. False) now stale N (length ms) ms) = rewrite_rows (\<lambda>m. waits (mg_status m)) (claim_mark now) ?swept"
    unfolding claim_sends_def swept using ok' q by (intro claim_all) (simp_all add: rewrite_rows_def)
  have d: "waits_since (Suc k) now now m" if y: "m \<in> set (rewrite_rows (\<lambda>m. waits (mg_status m)) (claim_mark now) ?swept)" for m
  proof -
    obtain x where x: "x \<in> set ?swept" "m = (if waits (mg_status x) then claim_mark now x else x)"
      using y unfolding set_rewrite_rows [of "\<lambda>m. waits (mg_status m)"] by (elim imageE) (rule that)
    then show ?thesis using q [OF x(1)] by (auto simp: waits_since_def claim_mark_def)
  qed
  show ?thesis unfolding c using d by blast
qed
section \<open>The attempts run out\<close>

lemma work_steps: "traced (manifest_step N) (fst s) [] (fst (works_on L W base N x s))"
  by (cases x; cases s) (simp_all add: dispatch_steps heard_steps)

lemma works_steps: "traced (manifest_step N) (fst s) [] (fst (fold (works_on L W base N) xs s))"
proof (induction xs arbitrary: s)
  case Nil
  show ?case by (simp add: traced.at_rest)
next
  case (Cons x xs)
  have "traced (manifest_step N) (fst s) ([] @ []) (fst (fold (works_on L W base N) xs (works_on L W base N x s)))"
    by (rule traced_trans [OF Cons.IH work_steps])
  then show ?case by simp
qed

lemma pass_steps: "\<exists>hs. traced (manifest_step N) (fst s) hs (fst (one_pass L W base N stale p s))"
proof (cases s)
  case (Pair ms w)
  obtain got ms1 where c: "claim_sends (\<lambda>i. False) (fst p) stale N (length ms) ms = (got, ms1)"
    by (cases "claim_sends (\<lambda>i. False) (fst p) stale N (length ms) ms")
  have "traced (manifest_step N) ms (handed_out got @ []) (fst (fold (works_on L W base N) (snd p) (ms1, w)))"
    using works_steps [of N "(ms1, w)"] by (intro traced_trans [OF _ claim_steps [OF c]]) simp
  then show ?thesis by (auto simp: one_pass_def Pair c)
qed

lemma pass_waits:
  assumes W: "mild_jitter W" and ok: "manifest_ok N (fst s)" and w: "\<forall>m\<in>set (fst s). waits_since k since due m"
    and due: "due \<le> fst p" and since: "since < fst p - int stale * minute_us"
    and due': "fst p \<le> due'" "\<forall>x\<in>set (snd p). work_time x + longest_wait \<le> due'"
  shows "\<forall>m\<in>set (fst (one_pass L W base N stale p s)). waits_since (Suc k) (fst p) due' m"
proof (cases s)
  case (Pair ms v)
  let ?ms = "snd (claim_sends (\<lambda>i. False) (fst p) stale N (length ms) ms)"
  have ms: "manifest_ok N ms" "\<forall>m\<in>set ms. waits_since k since due m" using ok w unfolding Pair by (simp_all only: fst_conv)
  have later: "waits_since (Suc k) (fst p) (fst p) m \<Longrightarrow> waits_since (Suc k) (fst p) due' m" for m
    using due'(1) by (auto simp: waits_since_def)
  have "\<forall>m\<in>set (fst (?ms, v)). waits_since (Suc k) (fst p) due' m"
    using claim_spends [OF ms due since] later unfolding fst_conv by blast
  from works_wait [OF W this due'(2), of L base N] show ?thesis by (simp only: one_pass_def Pair prod.case)
qed

lemma passes_wait:
  assumes "mild_jitter W" and "manifest_ok N (fst s)" and "\<forall>m\<in>set (fst s). waits_since k since due m"
    and "due \<le> fst p" and "since < fst p - int stale * minute_us" and "paced stale (p # ps)"
  shows "\<forall>m\<in>set (fst (fold (one_pass L W base N stale) (p # ps) s)). waits (mg_status m) \<longrightarrow> k + length (p # ps) \<le> mg_attempt m"
  using assms
proof (induction ps arbitrary: p s k since due)
  case Nil
  define due' where "due' = fold max (map (\<lambda>x. work_time x + longest_wait) (snd p)) (fst p)"
  have big: "y \<le> fold max ys y \<and> (\<forall>x\<in>set ys. x \<le> fold max ys y)" for y :: time and ys
  proof (induction ys arbitrary: y)
    case (Cons z ys)
    show ?case using Cons.IH [of "max z y"] by (auto intro: order_trans [OF max.cobounded1] order_trans [OF max.cobounded2])
  qed simp
  have "fst p \<le> due'" "\<forall>x\<in>set (snd p). work_time x + longest_wait \<le> due'"
    using big [of "fst p" "map (\<lambda>x. work_time x + longest_wait) (snd p)"] by (simp_all add: due'_def)
  from pass_waits [OF Nil.prems(1-5) this, of L base] show ?case by (simp add: waits_since_def)
next
  case (Cons q ps)
  let ?s = "one_pass L W base N stale p s"
  have q: "fst p < fst q - int stale * minute_us" "\<forall>x\<in>set (snd p). work_time x + longest_wait \<le> fst q" "paced stale (q # ps)"
    using Cons.prems(6) by simp_all
  have "0 \<le> int stale * minute_us" by (simp add: minute_us_def)
  then have le: "fst p \<le> fst q" using q(1) by linarith
  have ok: "manifest_ok N (fst ?s)"
    using pass_steps [of N s L W base stale p] claims.traced_ok Cons.prems(2) by blast
  have w: "\<forall>m\<in>set (fst ?s). waits_since (Suc k) (fst p) (fst q) m"
    by (rule pass_waits [OF Cons.prems(1-5) le q(2)])
  show ?case using Cons.IH [OF Cons.prems(1) ok w order_refl q(1,3)] by simp
qed

lemma passes_steps: "\<exists>hs. traced (manifest_step N) (fst s) hs (fst (fold (one_pass L W base N stale) ps s))"
proof (induction ps arbitrary: s)
  case Nil
  have "traced (manifest_step N) (fst s) [] (fst s)" by (rule traced.at_rest)
  then show ?case by auto
next
  case (Cons p ps)
  obtain hs where hs: "traced (manifest_step N) (fst s) hs (fst (one_pass L W base N stale p s))"
    using pass_steps by blast
  obtain hs' where "traced (manifest_step N) (fst (one_pass L W base N stale p s)) hs'
      (fst (fold (one_pass L W base N stale) ps (one_pass L W base N stale p s)))"
    using Cons.IH by blast
  from traced_trans [OF this hs] show ?case by auto
qed

text \<open>Every row that waits is due when the pass begins, or was claimed so long ago that its claim is stale.\<close>

definition finds_due :: "nat \<Rightarrow> time \<Rightarrow> manifest_row \<Rightarrow> bool" where
  "finds_due stale now = waits_since 0 (now - int stale * minute_us - 1) now"


definition demo_passes :: "(time \<times> work list) list" where
  "demo_passes = map (\<lambda>t. (t * second_us, [])) [1, 1000, 2000, 3000]"


end
