(* ===== verification/Send_Laws.thy ===== *)
theory Send_Laws
  imports Dispatch_Laws
begin

text \<open>
  What reaches a provider: a message the gate let through, on an active pipe of its merchant and
  channel, by the healthy account behind it, with that account's secret and its one approved template.
  No stopped number is among them.
\<close>

section \<open>A route\<close>

definition good_route :: "channel_db \<Rightarrow> string \<Rightarrow> string \<Rightarrow> string option \<Rightarrow> string option \<Rightarrow> send_route \<Rightarrow> bool" where
  "good_route db merchant channel named template r \<longleftrightarrow>
     get_binding merchant channel named (cd_bindings db) = Some (ro_binding r)
     \<and> get_installation merchant (bd_installation (ro_binding r)) (cd_installations db) = Some (ro_installation r)
     \<and> is_usable (ro_installation r)
     \<and> bundle_for (cd_vault db) (ro_installation r) = Inr (ro_bundle r)
     \<and> (if registers_templates_for channel
        then opt_text template \<and> ro_template r \<noteq> None
          \<and> ro_template r = approved_template merchant channel (in_account (ro_installation r)) (the template) (cd_templates db)
        else ro_template r = None)"

definition cleared :: "channel_db \<Rightarrow> platform_row list \<Rightarrow> manifest_row \<Rightarrow> send_route \<Rightarrow> bool" where
  "cleared db book m r \<longleftrightarrow>
     (\<exists>kind. gate_handle_kind_for (mg_channel m) = Some kind \<and> \<not> is_suppressed True [(kind, mg_address m)] book)
     \<and> good_route db (mg_merchant m) (mg_channel m) (mg_binding m) (mg_template m) r"

lemma call_bind_Answer: "call_bind c f w = (Answer x, w') \<longleftrightarrow> (\<exists>y v. c w = (Answer y, v) \<and> f y v = (Answer x, w'))"
  by (auto simp: call_bind_def split: prod.splits answered.splits)

lemma call_return_Answer: "call_return y w = (Answer x, w') \<longleftrightarrow> x = y \<and> w' = w"
  by (auto simp: call_return_def)

lemma route_is_good:
  assumes "resolve_send_route W db merchant channel named template w = (Answer (Inr r), w')"
  shows "good_route db merchant channel named template r"
  using assms unfolding resolve_send_route_def
  by (auto simp: call_bind_Answer call_return_Answer good_route_def split: option.splits if_splits sum.splits)

lemma gate_clears:
  assumes "gate W book m w = (None, w')"
  shows "\<exists>kind. gate_handle_kind_for (mg_channel m) = Some kind \<and> \<not> is_suppressed True [(kind, mg_address m)] book"
  using assms unfolding gate_def
  by (auto simp: is_suppressed_def Let_def split: option.splits if_splits prod.splits answered.splits)

section \<open>Only what is cleared leaves\<close>

lemma other_adapters:
  "gate (W\<lparr>wr_adapter := a\<rparr>) book m = gate W book m"
  "resolve_send_route (W\<lparr>wr_adapter := a\<rparr>) db merchant channel named template = resolve_send_route W db merchant channel named template"
  "resolve_and_deliver (W\<lparr>wr_adapter := a\<rparr>) db f m = resolve_and_deliver W db f m"
proof -
  have r: "wr_read (W\<lparr>wr_adapter := a\<rparr>) = wr_read W" by simp
  show "gate (W\<lparr>wr_adapter := a\<rparr>) book m = gate W book m" unfolding gate_def fun_eq_iff r by simp
  show s: "resolve_send_route (W\<lparr>wr_adapter := a\<rparr>) db merchant channel named template
      = resolve_send_route W db merchant channel named template" for db merchant channel named template
    unfolding resolve_send_route_def r by (rule refl)
  show "resolve_and_deliver (W\<lparr>wr_adapter := a\<rparr>) db f m = resolve_and_deliver W db f m"
    unfolding resolve_and_deliver_def s by (rule refl)
qed

text \<open>\<open>a\<close> and the wire's own adapters serve the same channels, and do the same with a cleared message.\<close>

definition same_for_cleared :: "'w wire \<Rightarrow> (string \<Rightarrow> (manifest_row \<Rightarrow> send_route \<Rightarrow> ('w, send_outcome) call) option)
    \<Rightarrow> channel_db \<Rightarrow> platform_row list \<Rightarrow> manifest_row \<Rightarrow> bool" where
  "same_for_cleared W a db book m \<longleftrightarrow> (case (a (mg_channel m), wr_adapter W (mg_channel m)) of
       (None, None) \<Rightarrow> True | (Some f, Some g) \<Rightarrow> (\<forall>r. cleared db book m r \<longrightarrow> f m r = g m r) | _ \<Rightarrow> False)"

lemma delivered_alike:
  assumes "\<And>r. good_route db (mg_merchant m) (mg_channel m) (mg_binding m) (mg_template m) r \<Longrightarrow> f m r = g m r"
  shows "resolve_and_deliver W db f m w = resolve_and_deliver W db g m w"
proof -
  obtain x w' where x: "resolve_send_route W db (mg_merchant m) (mg_channel m) (mg_binding m) (mg_template m) w = (x, w')"
    by (cases "resolve_send_route W db (mg_merchant m) (mg_channel m) (mg_binding m) (mg_template m) w")
  show ?thesis
  proof (cases "\<exists>r. x = Answer (Inr r)")
    case True
    then obtain r where r: "x = Answer (Inr r)" by blast
    have "f m r = g m r" by (rule assms [OF route_is_good [OF x [unfolded r]]])
    then show ?thesis by (simp add: resolve_and_deliver_def call_bind_def x r)
  next
    case False
    then show ?thesis by (cases x) (auto simp: resolve_and_deliver_def call_bind_def x split: sum.splits)
  qed
qed

lemma upd_binding: "out = x\<lparr>so_binding := b\<rparr> \<Longrightarrow> so_binding out = b"
  by simp

lemma accepted_was_routed:
  assumes "resolve_and_deliver W db f m w = (Answer out, w')" and "so_status out = So_accepted"
  shows "\<exists>r. good_route db (mg_merchant m) (mg_channel m) (mg_binding m) (mg_template m) r \<and> so_binding out = Some (bd_id (ro_binding r))"
proof -
  obtain y v where y: "resolve_send_route W db (mg_merchant m) (mg_channel m) (mg_binding m) (mg_template m) w = (Answer y, v)"
      "(case y of Inl reason \<Rightarrow> call_return (refused reason) | Inr route \<Rightarrow> call_bind (f m route) (\<lambda>out.
         if so_status out \<noteq> So_accepted then call_return out
         else call_return (out\<lparr>so_binding := Some (bd_id (ro_binding route))\<rparr>))) v = (Answer out, w')"
    using assms(1) by (auto simp: resolve_and_deliver_def call_bind_Answer)
  show ?thesis
  proof (cases y)
    case (Inl reason)
    then show ?thesis using y(2) assms(2) by (simp add: call_return_Answer refused_def)
  next
    case (Inr r)
    then have "so_binding out = Some (bd_id (ro_binding r))"
      using y(2) assms(2) by (auto simp: call_bind_Answer call_return_Answer intro: upd_binding split: if_splits)
    then show ?thesis using route_is_good [OF y(1) [unfolded Inr]] by blast
  qed
qed

text \<open>
  C18 Only a cleared message leaves.  What an attempt comes to, in its answer and in all it does
  outside, hangs on an adapter only for a message the gate let through and a route that is active,
  healthy, of this merchant and channel and, where the channel registers templates, with the one
  approved template of the sending account; and an accepted attempt went by the pipe it names.
\<close>

theorem only_cleared_messages_leave:
  assumes "same_for_cleared W a db book m"
  shows "attempt_send (W\<lparr>wr_adapter := a\<rparr>) db book m w = attempt_send W db book m w
    \<and> (so_status (fst (attempt_send W db book m w)) = So_accepted \<longrightarrow>
        (\<exists>r. cleared db book m r \<and> so_binding (fst (attempt_send W db book m w)) = Some (bd_id (ro_binding r))))"
proof -
  obtain v w1 where g: "gate W book m w = (v, w1)" by (cases "gate W book m w")
  show ?thesis
  proof (cases v)
    case (Some reason)
    then show ?thesis by (simp add: attempt_send_def other_adapters g refused_def)
  next
    case None
    have c: "\<And>r. good_route db (mg_merchant m) (mg_channel m) (mg_binding m) (mg_template m) r \<Longrightarrow> cleared db book m r"
      using gate_clears g None by (simp add: cleared_def)
    have t: "token_grants (mint_send_token m) m" by (simp add: token_grants_def mint_send_token_def)
    consider "a (mg_channel m) = None" "wr_adapter W (mg_channel m) = None"
      | f h where "a (mg_channel m) = Some f" "wr_adapter W (mg_channel m) = Some h" "\<And>r. cleared db book m r \<Longrightarrow> f m r = h m r"
      using assms by (auto simp: same_for_cleared_def split: option.splits)
    then show ?thesis
    proof cases
      case 1
      then show ?thesis by (simp add: attempt_send_def other_adapters g None send_def t refused_def)
    next
      case (2 f h)
      have "resolve_and_deliver W' db f m w1 = resolve_and_deliver W' db h m w1" for W'
        using 2(3) c by (intro delivered_alike) blast
      then have e: "attempt_send (W\<lparr>wr_adapter := a\<rparr>) db book m w = attempt_send W db book m w"
        using 2(1,2) by (simp add: attempt_send_def other_adapters g None send_def t)
      obtain x w2 where x: "resolve_and_deliver W db h m w1 = (x, w2)" by (cases "resolve_and_deliver W db h m w1")
      have "attempt_send W db book m w = (case x of Answer out \<Rightarrow> (out, w2)
          | Times_out \<Rightarrow> (failed_retryable reason_timeout, w2) | Raises \<Rightarrow> (failed_retryable reason_send_error, w2))"
        using 2(2) x by (cases x) (simp_all add: attempt_send_def g None send_def t)
      then show ?thesis using e accepted_was_routed [of W db h m w1] x c
        by (cases x) (auto simp: failed_retryable_def)
    qed
  qed
qed

text \<open>Here the dispatcher's attempt is made with a provider that takes everything.\<close>

theorem only_cleared_messages_leave_witness:
  "so_binding (fst (attempt_send demo_wire demo_db [] demo_row ())) = Some ''b1'' \<and> (\<exists>r. cleared demo_db [] demo_row r)"
proof -
  have a: "same_for_cleared demo_wire (wr_adapter demo_wire) demo_db [] demo_row"
    by (simp add: same_for_cleared_def split: option.split)
  have "so_status (fst (attempt_send demo_wire demo_db [] demo_row ())) = So_accepted"
      "so_binding (fst (attempt_send demo_wire demo_db [] demo_row ())) = Some ''b1''" by code_simp+
  then show ?thesis using only_cleared_messages_leave [OF a, of "()"] by blast
qed

section \<open>A stopped number is never sent to\<close>

lemma queued_row:
  assumes "queue_message now i mer cus ch addr kind src purp tpl vars ded ms = Some (Some i, ms')"
    and "\<forall>m\<in>set ms. mg_id m \<noteq> i" and "m \<in> set ms'" and "mg_id m = i"
  shows "mg_channel m = ch \<and> Some (mg_address m) = normalize_address ch addr"
proof -
  obtain sent where sent: "normalize_address ch addr = Some sent"
      "insert_message now i mer cus ch sent kind src purp tpl vars ded ms = (Some i, ms')"
    using assms(1) by (auto simp: queue_message_def split: if_splits option.splits)
  have "m \<notin> set ms" using assms(2,4) by blast
  then show ?thesis using sent assms(3) by (auto simp: insert_message_def split: if_splits)
qed

lemma phone_channel: "normalize_address ch addr = Some v \<Longrightarrow> gate_handle_kind_for ch = Some ''phone'' \<and> normalize_phone addr = Some v"
  by (auto simp: normalize_address_def gate_handle_kind_for_def channels_def split: option.splits if_splits)

lemma stopped_refused:
  assumes "gate_handle_kind_for (mg_channel m) = Some ''phone''" and "\<And>answers. is_suppressed answers [(''phone'', mg_address m)] book"
  shows "\<exists>reason w'. \<forall>W' db. wr_read W' = wr_read W \<longrightarrow> attempt_send W' db book m w = (refused reason, w')"
proof -
  obtain x w' where r: "wr_read W w = (x, w')" by (cases "wr_read W w")
  have "platform_pairs [(''phone'', mg_address m)] \<noteq> []" using assms(2) [of True] by (auto simp: is_suppressed_def)
  then have "gate W' book m w = (Some (case x of Times_out \<Rightarrow> reason_gate_unavailable | _ \<Rightarrow> reason_suppressed), w')"
    if "wr_read W' = wr_read W" for W'
    using that assms r by (cases x) (simp_all add: gate_def Let_def)
  then show ?thesis by (auto simp: attempt_send_def)
qed

text \<open>
  C14 A number that said stop is never sent to.  However it was spelled when it was stopped and when
  the message was queued, whatever the book has recorded since short of an end to that stop, and
  wherever the row has got to: an attempt to send it is refused as blocked, without a reading of
  route or adapter.
\<close>

theorem stopped_number_is_never_sent:
  assumes "record_suppression L ts t ''phone'' raw channel reason source evidence None rs = Some rs1"
    and "(book_step L ts ''phone'' v channel)\<^sup>*\<^sup>* rs1 book" and "normalize_phone raw = Some v"
    and "queue_message now i mer cus ch addr kind src purp tpl vars ded ms = Some (Some i, ms')"
    and "\<forall>m\<in>set ms. mg_id m \<noteq> i" and "normalize_phone addr = Some v"
    and "m \<in> set ms'" and "mg_id m = i" and "keeps m m'"
  shows "\<exists>refusal w'. (\<forall>W' db'. wr_read W' = wr_read W \<longrightarrow> attempt_send W' db' book m' w = (refused refusal, w'))
    \<and> dp_status (plan_for_outcome base (refused refusal) attempt N) = M_blocked"
proof -
  have same: "mg_channel m' = mg_channel m" "mg_address m' = mg_address m" using assms(9) by (simp_all add: keeps_def same_proposal_def)
  have q: "mg_channel m = ch" "Some (mg_address m) = normalize_address ch addr" using queued_row [OF assms(4,5,7,8)] by blast+
  have p: "gate_handle_kind_for ch = Some ''phone''" "mg_address m = v" 
    using phone_channel [OF q(2) [symmetric]] assms(6) by simp_all
  have "stopped ''phone'' v channel rs1" using record_stops [OF assms(1)] assms(3) by (simp add: normalize_pair_def)
  with assms(2) have st: "stopped ''phone'' v channel book"
    by (induction rule: rtranclp_induct) (simp_all add: step_stopped)
  have "is_suppressed answers [(''phone'', mg_address m')] book" for answers
    using stopped_suppressed [OF st normalize_again [OF assms(3)]] same p by simp
  then obtain refusal w' where "\<forall>W' db. wr_read W' = wr_read W \<longrightarrow> attempt_send W' db book m' w = (refused refusal, w')"
    using stopped_refused [of m' book W w] same q p by auto
  moreover have "dp_status (plan_for_outcome base (refused refusal) attempt N) = M_blocked"
    by (simp add: plan_for_outcome_def refused_def)
  ultimately show ?thesis by blast
qed

text \<open>The row of the queue's own example, after a stop that was spelled another way.\<close>

theorem stopped_number_is_never_sent_witness:
  "\<exists>refusal. fst (attempt_send demo_wire demo_db (the demo_stop) (hd demo_queued) ()) = refused refusal"
proof -
  obtain got where q: "queue_message 10 ''m1'' ''shop'' ''c1'' ''whatsapp'' ''+919876543210'' ''workflow'' (Some ''r1'')
     ''utility'' (Some ''hello'') [] ''r1:n1'' [] = Some (got, demo_queued)" using demo_queued_is by blast
  have got: "got = Some ''m1''" using q by (auto simp: queue_message_def insert_message_def split: if_splits option.splits)
  obtain m where m: "demo_queued = [m]" "mg_id m = ''m1''" by (rule demo_claimed)
  have m': "hd demo_queued \<in> set demo_queued" "mg_id (hd demo_queued) = ''m1''" unfolding m(1) using m(2) by simp_all
  have n: "normalize_phone ''+91 98765-43210'' = Some ''+919876543210''" "normalize_phone ''+919876543210'' = Some ''+919876543210''"
    by code_simp+
  have "demo_stop \<noteq> None" by code_simp
  then have d: "record_suppression book_lib book_ts 5 ''phone'' ''+91 98765-43210'' ''*'' ''stop'' ''whatsapp'' None None [] = Some (the demo_stop)"
    by (simp add: demo_stop_def)
  show ?thesis
    using stopped_number_is_never_sent [OF d rtranclp.rtrancl_refl n(1) q [unfolded got] _ n(2) m' kept_refl, of demo_wire "()" 30 1 3]
    by auto
qed

end
