(* ===== verification/Extract.thy ===== *)
theory Extract
  imports Catalog_Laws Normalize
begin

text \<open>
  Decoding a letter: the one engine \<open>app/crm/record/extractors/engine.py\<close> over the flat shape
  \<open>flat.py\<close>, the specs it reads, and the registered layer of the catalog, \<open>app/crm/record/catalog.py\<close>
  -- the laws of a registration, its row and the cached read of the worker.  The declared code entries
  are data and an argument.
\<close>

section \<open>Items\<close>

definition variable_max_chars :: nat where
  "variable_max_chars = 1000"

definition list_join :: string where
  "list_join = '', ''"

text \<open>A key, and keys between dots: \<open>[A-Za-z_][A-Za-z0-9_]*(\.[A-Za-z_][A-Za-z0-9_]*)*\<close>.\<close>

definition plain_name :: "string \<Rightarrow> bool" where
  "plain_name s = (case s of [] \<Rightarrow> False
     | c # cs \<Rightarrow> (is_upper c \<or> is_lower c \<or> c = CHR ''_'') \<and> list_all (\<lambda>x. is_upper x \<or> is_lower x \<or> is_digit x \<or> x = CHR ''_'') cs)"

definition dotted_name :: "string \<Rightarrow> bool" where
  "dotted_name s = list_all plain_name (split_on (CHR ''.'') s)"

datatype item_piece = Lit char | Blank string

text \<open>\<open>ITEM_BLANK\<close>: the next brace group that is a dotted name.\<close>

function item_pieces :: "string \<Rightarrow> item_piece list" where
  "item_pieces [] = []"
| "item_pieces (c # cs) =
     (let name = takeWhile (\<lambda>x. x \<noteq> CHR ''}'') cs; rest = dropWhile (\<lambda>x. x \<noteq> CHR ''}'') cs
      in if c = CHR ''{'' \<and> dotted_name name \<and> rest \<noteq> [] then Blank name # item_pieces (tl rest) else Lit c # item_pieces cs)"
  by pat_completeness auto
termination
  by (relation "measure size") (auto simp: less_Suc_eq_le intro: le_trans [OF _ length_dropWhile_le] diff_le_self)

text \<open>\<open>ANY_BLANK\<close>: the next brace group without a brace inside; \<open>Blank\<close> is its inside.\<close>

function groups :: "string \<Rightarrow> item_piece list" where
  "groups [] = []"
| "groups (c # cs) =
     (let name = takeWhile (\<lambda>x. x \<noteq> CHR ''{'' \<and> x \<noteq> CHR ''}'') cs; rest = dropWhile (\<lambda>x. x \<noteq> CHR ''{'' \<and> x \<noteq> CHR ''}'') cs
      in if c = CHR ''{'' \<and> rest \<noteq> [] \<and> hd rest = CHR ''}'' then Blank name # groups (tl rest) else Lit c # groups cs)"
  by pat_completeness auto
termination
  by (relation "measure size") (auto simp: less_Suc_eq_le intro: le_trans [OF _ length_dropWhile_le] diff_le_self)

fun text_value :: "json \<Rightarrow> string option" where
  "text_value (JStr s) = Some s"
| "text_value (JInt i) = Some (py_str (JInt i))"
| "text_value (JDec m e) = Some (py_str (JDec m e))"
| "text_value v = None"

definition present :: "string \<Rightarrow> string option" where
  "present s = (if strip s = [] then None else Some (strip s))"

definition item_blank :: "json \<Rightarrow> string \<Rightarrow> string option" where
  "item_blank element name =
     Option.bind (case walk element (split_on (CHR ''.'') name) [] of
         JList vs \<Rightarrow> (if vs \<noteq> [] \<and> list_all (\<lambda>v. text_value v \<noteq> None) vs
             then Some (join_with list_join (List.map_filter text_value vs)) else None)
       | v \<Rightarrow> text_value v) present"

fun fill :: "json \<Rightarrow> item_piece list \<Rightarrow> string option" where
  "fill element [] = Some []"
| "fill element (Lit c # ps) = map_option (Cons c) (fill element ps)"
| "fill element (Blank name # ps) = (case item_blank element name of None \<Rightarrow> None
     | Some t \<Rightarrow> map_option (\<lambda>u. t @ u) (fill element ps))"

definition render_item :: "json \<Rightarrow> string \<Rightarrow> string option" where
  "render_item element item_format = Option.bind (fill element (item_pieces item_format)) present"

text \<open>One value of a list: through the format, or as it is.\<close>

definition item_text :: "string option \<Rightarrow> json \<Rightarrow> string option" where
  "item_text item_format v = (if opt_text item_format then render_item v (the item_format) else Option.bind (text_value v) present)"

definition more_tail :: "nat \<Rightarrow> string" where
  "more_tail n = (if n = 0 then [] else '' +'' @ nat_text n @ '' more'')"

fun kept_parts :: "nat \<Rightarrow> string \<Rightarrow> string list \<Rightarrow> string list \<Rightarrow> string list" where
  "kept_parts budget separator kept [] = kept"
| "kept_parts budget separator kept (part # rest) =
     (if budget < length (join_with separator (kept @ [part])) + length (more_tail (length rest)) then kept
      else kept_parts budget separator (kept @ [part]) rest)"

definition joined_within :: "string list \<Rightarrow> nat \<Rightarrow> string \<Rightarrow> string" where
  "joined_within parts budget separator =
     (let kept = kept_parts budget separator [] parts;
          text = join_with separator kept;
          remaining = length parts - length kept
      in if remaining = 0 then take budget text
         else let counted = (if text \<noteq> [] then text @ '' +'' @ nat_text remaining @ '' more'' else ''+'' @ nat_text remaining @ '' more'')
              in if length counted \<le> budget then counted else take budget text)"

definition join_list :: "json list option \<Rightarrow> string option \<Rightarrow> nat \<Rightarrow> bool \<Rightarrow> string option" where
  "join_list vals item_format budget by_line =
     (case vals of None \<Rightarrow> None
      | Some vs \<Rightarrow>
          (let parts = List.map_filter (item_text item_format) vs
           in if parts = [] then None
              else Some (if by_line then joined_within (map (\<lambda>(n, part). nat_text (n + 1) @ ''. '' @ part) (enumerate 0 parts)) budget [CHR 0x0A]
                   else joined_within parts budget list_join)))"

section \<open>Specs\<close>

datatype about = About_customer | About_merchant

record catalog_entry =
  ce_source :: string
  ce_topic :: string
  ce_label :: string
  ce_about :: about
  ce_version :: nat
  ce_fields :: "catalog_field list"

record decode_spec =
  ds_identity :: "(string \<times> string list) list"
  ds_variables :: "(string \<times> string) list"
  ds_lists :: "(string \<times> string option) list"
  ds_filters :: "(string \<times> condition list) list"
  ds_numbered :: "(string \<times> bool) list"
  ds_derive :: "(string \<times> (dict \<Rightarrow> json)) list"
  ds_about :: about

definition empty_spec :: decode_spec where
  "empty_spec = \<lparr>ds_identity = [], ds_variables = [], ds_lists = [], ds_filters = [], ds_numbered = [], ds_derive = [],
     ds_about = About_customer\<rparr>"

definition read_by :: "catalog_field \<Rightarrow> decode_spec \<Rightarrow> decode_spec" where
  "read_by f s = (case cf_identity f of None \<Rightarrow> s
     | Some role \<Rightarrow> s\<lparr>ds_identity := AList.update role
         ((case map_of (ds_identity s) role of None \<Rightarrow> [] | Some ps \<Rightarrow> ps) @ cf_path f # cf_fallbacks f) (ds_identity s)\<rparr>)"

definition fills :: "catalog_field \<Rightarrow> decode_spec \<Rightarrow> decode_spec" where
  "fills f s =
     (let name = variable_name (cf_path f); t = s\<lparr>ds_variables := AList.update name (cf_path f) (ds_variables s)\<rparr>
      in if cf_type f \<noteq> T_list then t\<lparr>ds_lists := AList.delete name (ds_lists t)\<rparr>
         else t\<lparr>ds_lists := AList.update name (cf_item_format f) (ds_lists t),
               ds_filters := (if cf_item_where f = [] then ds_filters t else AList.update name (cf_item_where f) (ds_filters t)),
               ds_numbered := (if cf_item_numbered f then AList.update name True (ds_numbered t) else ds_numbered t)\<rparr>)"

definition spec_field :: "catalog_field \<Rightarrow> decode_spec \<Rightarrow> decode_spec" where
  "spec_field f s = (if cf_deprecated f then s else let t = read_by f s in if cf_variable f then fills f t else t)"

definition spec_for_entry :: "catalog_entry \<Rightarrow> (string \<times> (dict \<Rightarrow> json)) list \<Rightarrow> decode_spec" where
  "spec_for_entry e derive = (fold spec_field (ce_fields e) empty_spec)\<lparr>ds_derive := derive, ds_about := ce_about e\<rparr>"

section \<open>One letter\<close>

record extracted =
  ex_handles :: "(string \<times> string) list"
  ex_facts :: dict
  ex_about :: about
  ex_variables :: dict

definition fact_keys :: "(string \<times> string) list" where
  "fact_keys = [(''customer_name'', ''name''), (''locale'', ''locale''), (''timezone'', ''timezone'')]"

fun text_or_none :: "json \<Rightarrow> string option" where
  "text_or_none (JStr s) = Some s"
| "text_or_none v = None"

text \<open>The flat shape; a number that is no text is refused by the model of the answer.\<close>

definition flat_extract :: "dict \<Rightarrow> extracted option" where
  "flat_extract payload =
     (let phone = dget payload ''customer_mobile_number''
      in if truthy phone \<and> text_or_none phone = None then None
         else Some \<lparr>ex_handles = (case phone of JStr s \<Rightarrow> (if s = [] then [] else [(''phone'', s)]) | _ \<Rightarrow> []),
           ex_facts = List.map_filter (\<lambda>(key, attribute). if truthy (dget payload key) then Some (attribute, dget payload key) else None) fact_keys,
           ex_about = About_customer, ex_variables = []\<rparr>)"

definition first_present :: "dict \<Rightarrow> string list \<Rightarrow> (string \<times> (dict \<Rightarrow> json)) list \<Rightarrow> json" where
  "first_present payload paths derive =
     (case find (\<lambda>v. \<not> blank v) (map (\<lambda>p. field_value payload p derive) paths) of None \<Rightarrow> JNull | Some v \<Rightarrow> v)"

definition handle_of :: "string \<Rightarrow> json \<Rightarrow> string option" where
  "handle_of role raw = (if role = ''phone'' then normalize_phone (py_str raw)
     else if role = ''email'' then normalize_email (py_str raw) else Some (strip (py_str raw)))"

definition read_role :: "dict \<Rightarrow> (string \<times> (dict \<Rightarrow> json)) list \<Rightarrow> string \<times> string list \<Rightarrow> extracted \<Rightarrow> extracted" where
  "read_role payload derive rp x = (case rp of (role, paths) \<Rightarrow>
     (let raw = first_present payload paths derive
      in if raw = JNull then x
         else if role = ''name'' then
           (if strip (py_str raw) = [] then x else x\<lparr>ex_facts := AList.update ''name'' (JStr (strip (py_str raw))) (ex_facts x)\<rparr>)
         else case handle_of role raw of None \<Rightarrow> x
           | Some v \<Rightarrow> (if v = [] then x else x\<lparr>ex_handles := AList.update role v (ex_handles x)\<rparr>)))"

definition read_variable :: "lib \<Rightarrow> dict \<Rightarrow> decode_spec \<Rightarrow> string \<times> string \<Rightarrow> dict \<Rightarrow> dict" where
  "read_variable L payload spec np vs = (case np of (name, path) \<Rightarrow>
     (case map_of (ds_lists spec) name of
        Some item_format \<Rightarrow>
          (let filters = (case map_of (ds_filters spec) name of None \<Rightarrow> [] | Some w \<Rightarrow> w);
               by_line = (case map_of (ds_numbered spec) name of None \<Rightarrow> False | Some b \<Rightarrow> b)
           in AList.update name (case join_list (list_values L payload path filters) item_format variable_max_chars by_line of
                None \<Rightarrow> JNull | Some t \<Rightarrow> (if t = [] then JNull else JStr t)) vs)
      | None \<Rightarrow>
          (let v = field_value payload path (ds_derive spec)
           in if is_scalar v \<and> length (py_str v) \<le> variable_max_chars then AList.update name v vs else vs)))"

text \<open>\<open>None\<close> is a raise.\<close>

definition extract_letter :: "lib \<Rightarrow> dict \<Rightarrow> decode_spec \<Rightarrow> extracted option" where
  "extract_letter L payload spec =
     map_option (\<lambda>flat. (fold (read_role payload (ds_derive spec)) (ds_identity spec) flat)
         \<lparr>ex_about := ds_about spec, ex_variables := fold (read_variable L payload spec) (ds_variables spec) []\<rparr>)
       (flat_extract payload)"

section \<open>A registration\<close>

record registration =
  rg_source :: string
  rg_topic :: string
  rg_label :: string
  rg_fields :: "catalog_field list"

definition max_registered_fields :: nat where
  "max_registered_fields = 200"

definition item_where_ops :: "op list" where
  "item_where_ops = [Is, Is_not, In] @ partial_ops @ presence_ops"

text \<open>\<open>re.match\<close> with \<open>$\<close>: a line break may follow.\<close>

definition but_newline :: "string \<Rightarrow> string" where
  "but_newline s = (if s \<noteq> [] \<and> last s = CHR 0x0A then butlast s else s)"

definition payload_path :: "string \<Rightarrow> bool" where
  "payload_path s \<longleftrightarrow> prefix_of payload_prefix s \<and> dotted_name (but_newline (drop (length payload_prefix) s))"

definition element_path :: "string \<Rightarrow> bool" where
  "element_path s \<longleftrightarrow> dotted_name (but_newline s)"

definition vendor_roles :: "string list" where
  "vendor_roles = [''phone'', ''name'']"

definition keyable_types :: "field_type list" where
  "keyable_types = [T_text, T_number]"

datatype format_fault = Unmatched_brace | Names_no_key | Not_a_key string

definition format_faults :: "string \<Rightarrow> format_fault list" where
  "format_faults item_format =
     (let gs = groups item_format; insides = List.map_filter (\<lambda>g. case g of Blank n \<Rightarrow> Some n | Lit c \<Rightarrow> None) gs
      in if Lit (CHR ''{'') \<in> set gs \<or> Lit (CHR ''}'') \<in> set gs then [Unmatched_brace]
         else if insides = [] then [Names_no_key]
         else map Not_a_key (filter (\<lambda>n. \<not> dotted_name n) insides))"

datatype registration_problem =
    Declared_in_code | Too_many_fields nat
  | Derived_field | Has_fallbacks | Role_unknown string | Path_malformed | Declared_twice
  | Format_on_no_list | Format_fault format_fault | Where_on_no_list | Where_op op | Where_field string
  | Numbered_without_format | List_no_variable | List_identity | Blank_taken string string | Boolean_variable
  | Choice_without_values | Values_without_choice | Not_keyable | Role_taken string string
  | Phone_role_type | Identity_keyable | Phone_type_role

definition when_problem :: "bool \<Rightarrow> registration_problem \<Rightarrow> registration_problem list" where
  "when_problem b p = (if b then [p] else [])"

text \<open>The problems one field adds, given the paths seen, the roles and the blanks taken before it.\<close>

definition signed_field_problems ::
    "catalog_field \<Rightarrow> string list \<Rightarrow> (string \<times> string) list \<Rightarrow> (string \<times> string) list \<Rightarrow> registration_problem list" where
  "signed_field_problems f seen roles blanks =
     when_problem (cf_derived f) Derived_field
   @ when_problem (cf_fallbacks f \<noteq> []) Has_fallbacks
   @ (case cf_identity f of None \<Rightarrow> [] | Some role \<Rightarrow> when_problem (role \<notin> set vendor_roles) (Role_unknown role))
   @ when_problem (\<not> payload_path (cf_path f)) Path_malformed
   @ when_problem (cf_path f \<in> set seen) Declared_twice
   @ (case cf_item_format f of None \<Rightarrow> [] | Some t \<Rightarrow>
        (if cf_type f \<noteq> T_list then [Format_on_no_list] else map Format_fault (format_faults t)))
   @ when_problem (cf_item_where f \<noteq> [] \<and> cf_type f \<noteq> T_list) Where_on_no_list
   @ concat (map (\<lambda>c. when_problem (c_op c \<notin> set item_where_ops) (Where_op (c_op c))
       @ when_problem (prefix_of payload_prefix (c_field c) \<or> \<not> element_path (c_field c)) (Where_field (c_field c))) (cf_item_where f))
   @ when_problem (cf_item_numbered f \<and> (cf_type f \<noteq> T_list \<or> \<not> opt_text (cf_item_format f))) Numbered_without_format
   @ when_problem (cf_type f = T_list \<and> \<not> cf_variable f) List_no_variable
   @ when_problem (cf_type f = T_list \<and> cf_identity f \<noteq> None) List_identity
   @ (if cf_variable f \<and> \<not> cf_deprecated f then
        (case map_of blanks (variable_name (cf_path f)) of None \<Rightarrow> [] | Some p \<Rightarrow> [Blank_taken (variable_name (cf_path f)) p])
      else [])
   @ when_problem (cf_type f = T_boolean \<and> cf_variable f) Boolean_variable
   @ when_problem (cf_type f = T_choice \<and> cf_values f = []) Choice_without_values
   @ when_problem (cf_type f \<noteq> T_choice \<and> cf_values f \<noteq> []) Values_without_choice
   @ when_problem (cf_keyable f \<and> cf_type f \<notin> set keyable_types) Not_keyable
   @ (case cf_identity f of None \<Rightarrow> [] | Some role \<Rightarrow>
        (case map_of roles role of None \<Rightarrow> [] | Some p \<Rightarrow> [Role_taken role p])
      @ when_problem (role = ''phone'' \<and> cf_type f \<noteq> T_phone) Phone_role_type
      @ when_problem (cf_keyable f) Identity_keyable)
   @ when_problem (cf_type f = T_phone \<and> cf_identity f \<noteq> Some ''phone'') Phone_type_role"

fun fields_problems ::
    "string list \<Rightarrow> (string \<times> string) list \<Rightarrow> (string \<times> string) list \<Rightarrow> catalog_field list \<Rightarrow> (string \<times> registration_problem) list" where
  "fields_problems seen roles blanks [] = []"
| "fields_problems seen roles blanks (f # fs) =
     map (Pair (cf_path f)) (signed_field_problems f seen roles blanks)
   @ fields_problems (cf_path f # seen)
       (case cf_identity f of None \<Rightarrow> roles | Some role \<Rightarrow> AList.update role (cf_path f) roles)
       (if cf_variable f \<and> \<not> cf_deprecated f \<and> map_of blanks (variable_name (cf_path f)) = None
        then AList.update (variable_name (cf_path f)) (cf_path f) blanks else blanks) fs"

definition validate_registration ::
    "(string \<times> string) list \<Rightarrow> registration \<Rightarrow> (string \<times> registration_problem) list" where
  "validate_registration code_keys g =
     map (Pair []) (when_problem ((rg_source g, rg_topic g) \<in> set code_keys) Declared_in_code
       @ when_problem (max_registered_fields < length (rg_fields g)) (Too_many_fields (length (rg_fields g))))
   @ fields_problems [] [] [] (rg_fields g)"

section \<open>The registered layer\<close>

record event_schema =
  es_merchant :: string
  es_source :: string
  es_topic :: string
  es_label :: "string option"
  es_fields :: "catalog_field list"
  es_registered :: bool
  es_version :: nat
  es_by :: "string option"
  es_first_seen :: "time option"

type_synonym schema_key = "string \<times> string \<times> string"

definition row_key :: "event_schema \<Rightarrow> schema_key" where
  "row_key e = (es_merchant e, es_source e, es_topic e)"

definition insert_detected_schema :: "time \<Rightarrow> schema_key \<Rightarrow> event_schema list \<Rightarrow> event_schema list" where
  "insert_detected_schema now key ss =
     (if list_ex (\<lambda>e. row_key e = key) ss then ss
      else case key of (m, s, t) \<Rightarrow> ss @ [\<lparr>es_merchant = m, es_source = s, es_topic = t, es_label = None, es_fields = [],
        es_registered = False, es_version = 0, es_by = None, es_first_seen = Some now\<rparr>])"

definition registered_again :: "string \<Rightarrow> catalog_field list \<Rightarrow> string \<Rightarrow> event_schema \<Rightarrow> event_schema" where
  "registered_again label fs who e =
     e\<lparr>es_label := Some label, es_fields := fs, es_registered := True, es_version := es_version e + 1, es_by := Some who\<rparr>"

definition upsert_schema :: "schema_key \<Rightarrow> string \<Rightarrow> catalog_field list \<Rightarrow> string \<Rightarrow> event_schema list \<Rightarrow> event_schema list" where
  "upsert_schema key label fs who ss =
     (if list_ex (\<lambda>e. row_key e = key) ss
      then map (\<lambda>e. if row_key e = key then registered_again label fs who e else e) ss
      else case key of (m, s, t) \<Rightarrow> ss @ [\<lparr>es_merchant = m, es_source = s, es_topic = t, es_label = Some label, es_fields = fs,
        es_registered = True, es_version = 1, es_by = Some who, es_first_seen = None\<rparr>])"

definition get_schema :: "schema_key \<Rightarrow> event_schema list \<Rightarrow> event_schema option" where
  "get_schema key ss = find (\<lambda>e. row_key e = key) ss"

text \<open>What a row keeps of a field: the words of the code layer and the computed operators are not written.\<close>

definition stored_field :: "catalog_field \<Rightarrow> catalog_field" where
  "stored_field f = f\<lparr>cf_ops := [], cf_fallbacks := [], cf_derived := False\<rparr>"

definition dropped_paths :: "event_schema \<Rightarrow> registration \<Rightarrow> string list" where
  "dropped_paths previous g =
     filter (\<lambda>p. p \<notin> set (map cf_path (rg_fields g))) (map cf_path (es_fields previous))"

datatype registration_refusal = Breaks_law string registration_problem | Drops_path string

text \<open>The laws read \<open>seen\<close>; the row is written to \<open>ss\<close>, which others may have written in between.\<close>

definition register_schema ::
    "(string \<times> string) list \<Rightarrow> string \<Rightarrow> registration \<Rightarrow> string \<Rightarrow> event_schema list \<Rightarrow> event_schema list
     \<Rightarrow> registration_refusal list + event_schema list" where
  "register_schema code_keys merchant g who seen ss =
     (let key = (merchant, rg_source g, rg_topic g);
          problems = map (\<lambda>(p, x). Breaks_law p x) (validate_registration code_keys g)
            @ (case get_schema key seen of None \<Rightarrow> []
               | Some previous \<Rightarrow> (if es_registered previous then map Drops_path (dropped_paths previous g) else []))
      in if problems \<noteq> [] then Inl problems
         else Inr (upsert_schema key (rg_label g) (map stored_field (rg_fields g)) who ss))"

definition entry_from_row :: "event_schema \<Rightarrow> catalog_entry" where
  "entry_from_row e = \<lparr>ce_source = es_source e, ce_topic = es_topic e,
     ce_label = (case es_label e of Some l \<Rightarrow> (if l = [] then es_topic e else l) | None \<Rightarrow> es_topic e),
     ce_about = About_customer, ce_version = es_version e, ce_fields = map with_ops (es_fields e)\<rparr>"

section \<open>What the worker reads a letter by\<close>

definition code_spec :: "lib \<Rightarrow> (string \<times> string \<Rightarrow> catalog_entry option) \<Rightarrow> string \<Rightarrow> string \<Rightarrow> decode_spec option" where
  "code_spec L catalog source topic = map_option (\<lambda>e. spec_for_entry e (derive_for L source topic)) (catalog (source, topic))"

definition schema_cache_seconds :: int where
  "schema_cache_seconds = 60"

definition row_spec :: "event_schema option \<Rightarrow> decode_spec" where
  "row_spec row = (case row of None \<Rightarrow> empty_spec
     | Some e \<Rightarrow> (if es_registered e then spec_for_entry (entry_from_row e) [] else empty_spec))"

text \<open>\<open>ss\<close> is the table when the row is awaited, \<open>None\<close> a read that raises.\<close>

definition decode_spec_for ::
    "lib \<Rightarrow> (string \<times> string \<Rightarrow> catalog_entry option) \<Rightarrow> time \<Rightarrow> schema_key \<Rightarrow> event_schema list option
     \<Rightarrow> (schema_key \<times> time \<times> decode_spec) list \<Rightarrow> decode_spec option \<times> (schema_key \<times> time \<times> decode_spec) list" where
  "decode_spec_for L catalog now key ss cache =
     (case code_spec L catalog (fst (snd key)) (snd (snd key)) of
        Some spec \<Rightarrow> (Some spec, cache)
      | None \<Rightarrow>
          (let fetched = (case ss of None \<Rightarrow> (None, cache)
              | Some rows \<Rightarrow> (let spec = row_spec (get_schema key rows)
                  in (Some spec, AList.update key (now + schema_cache_seconds * second_us, spec) cache)))
           in case map_of cache key of
                None \<Rightarrow> fetched
              | Some (until, spec) \<Rightarrow> (if now < until then (Some spec, cache) else fetched)))"

end
