(* ===== verification/Event_Worker.thy ===== *)
theory Event_Worker
  imports Spine Extract
begin

text \<open>
  The event worker, \<open>app/crm/record/workers.py\<close>: a pass claims a batch, and each letter is extracted,
  attributed to a customer, described, heard by every consumer and stamped, inside a savepoint of the
  pass's transaction; a letter that keeps failing is quarantined.  Consumers, the resolution of a
  customer and the assertion of facts commit on their own: they act on a world \<open>'w\<close> that no rollback
  touches.
\<close>

section \<open>Outside calls\<close>

datatype resolved = Resolved string | Unresolvable string | Resolve_raises string

datatype worker_statement = Nudge | Stamp | Quarantine

type_synonym 'w consumer = "event_row \<Rightarrow> string option \<Rightarrow> (string \<times> string) list \<Rightarrow> dict \<Rightarrow> 'w \<Rightarrow> string option \<times> 'w"

text \<open>
  \<open>ow_fails\<close> is the text of the error a statement of the pass raises on a row, \<open>ow_why\<close> the text of
  the error extraction raises; a consumer answers the text of what it raised, if it did.
\<close>

record 'w outside =
  ow_fails :: "worker_statement \<Rightarrow> string \<Rightarrow> 'w \<Rightarrow> string option"
  ow_code :: "string \<times> string \<Rightarrow> catalog_entry option"
  ow_decode :: "event_row \<Rightarrow> 'w \<Rightarrow> (string + decode_spec) \<times> 'w"
  ow_why :: "event_row \<Rightarrow> string"
  ow_resolve :: "string \<Rightarrow> (string \<times> string) list \<Rightarrow> string \<Rightarrow> 'w \<Rightarrow> resolved \<times> 'w"
  ow_assert :: "string \<Rightarrow> string \<Rightarrow> dict \<Rightarrow> string \<Rightarrow> 'w \<Rightarrow> 'w"
  ow_consumers :: "'w consumer list"

text \<open>The two tables of the transaction, the world, and the topics the process knows.\<close>

record 'w reading =
  rd_events :: "event_row list"
  rd_schemas :: "event_schema list"
  rd_world :: 'w
  rd_known :: "schema_key list"

section \<open>Consumers\<close>

definition register_consumer :: "'c \<Rightarrow> 'c list \<Rightarrow> 'c list" where
  "register_consumer c cs = (if c \<in> set cs then cs else cs @ [c])"

fun hear_all :: "'w consumer list \<Rightarrow> event_row \<Rightarrow> string option \<Rightarrow> (string \<times> string) list \<Rightarrow> dict \<Rightarrow> 'w \<Rightarrow> string option \<times> 'w" where
  "hear_all [] e c handles vs w = (None, w)"
| "hear_all (consume # rest) e c handles vs w =
     (case consume e c handles vs w of (Some err, w') \<Rightarrow> (Some err, w') | (None, w') \<Rightarrow> hear_all rest e c handles vs w')"

section \<open>One row\<close>

definition discover_topic ::
    "'w outside \<Rightarrow> time \<Rightarrow> event_row \<Rightarrow> schema_key list \<Rightarrow> 'w reading \<Rightarrow> (string + schema_key option) \<times> 'w reading" where
  "discover_topic W now e discovered s =
     (let key = (ev_merchant e, ev_source e, ev_topic e)
      in if key \<in> set (rd_known s) \<or> key \<in> set discovered then (Inr None, s)
         else if ow_code W (ev_source e, ev_topic e) \<noteq> None then (Inr None, s\<lparr>rd_known := key # rd_known s\<rparr>)
         else case ow_fails W Nudge (ev_id e) (rd_world s) of
             Some err \<Rightarrow> (Inl err, s)
           | None \<Rightarrow> (Inr (Some key), s\<lparr>rd_schemas := insert_detected_schema now key (rd_schemas s)\<rparr>))"

definition flat_sources :: "string list" where
  "flat_sources = [''lead-api'', ''telephony'']"

definition extract_event :: "lib \<Rightarrow> event_row \<Rightarrow> decode_spec \<Rightarrow> extracted option" where
  "extract_event L e spec = (if ev_source e \<in> set flat_sources then flat_extract (ev_payload e) else extract_letter L (ev_payload e) spec)"

datatype processed = Quarantined | About "string option" "(string \<times> string) list" dict

definition quarantine :: "'w outside \<Rightarrow> time \<Rightarrow> event_row \<Rightarrow> string \<Rightarrow> 'w reading \<Rightarrow> (string + processed) \<times> 'w reading" where
  "quarantine W now e reason s = (case ow_fails W Quarantine (ev_id e) (rd_world s) of
      Some err \<Rightarrow> (Inl err, s)
    | None \<Rightarrow> (Inr Quarantined, s\<lparr>rd_events := quarantine_event now (ev_id e) reason (rd_events s)\<rparr>))"

text \<open>Facts that cannot be asserted are dropped with a log line.\<close>

definition described :: "'w outside \<Rightarrow> event_row \<Rightarrow> extracted \<Rightarrow> string \<Rightarrow> 'w reading \<Rightarrow> (string + processed) \<times> 'w reading" where
  "described W e x c s =
     (Inr (About (Some c) (ex_handles x) (ex_variables x)),
      if ex_facts x = [] then s else s\<lparr>rd_world := ow_assert W (ev_merchant e) c (ex_facts x) (ev_source e) (rd_world s)\<rparr>)"

definition attributed :: "'w outside \<Rightarrow> time \<Rightarrow> event_row \<Rightarrow> extracted \<Rightarrow> 'w reading \<Rightarrow> (string + processed) \<times> 'w reading" where
  "attributed W now e x s =
     (if opt_text (ev_customer e) then described W e x (the (ev_customer e)) s
      else if ex_about x = About_merchant then (Inr (About None [] (ex_variables x)), s)
      else if ex_handles x = [] then quarantine W now e ''no_handle'' s
      else case ow_resolve W (ev_merchant e) (ex_handles x) (ev_source e) (rd_world s) of
          (Resolved c, w) \<Rightarrow> described W e x c (s\<lparr>rd_world := w\<rparr>)
        | (Unresolvable t, w) \<Rightarrow> quarantine W now e (''unresolvable: '' @ t) (s\<lparr>rd_world := w\<rparr>)
        | (Resolve_raises t, w) \<Rightarrow> (Inl t, s\<lparr>rd_world := w\<rparr>))"

definition run_processor :: "'w outside \<Rightarrow> lib \<Rightarrow> time \<Rightarrow> event_row \<Rightarrow> 'w reading \<Rightarrow> (string + processed) \<times> 'w reading" where
  "run_processor W L now e s =
     (case (if ev_source e \<in> set flat_sources then (Inr empty_spec, rd_world s) else ow_decode W e (rd_world s)) of
        (Inl err, w) \<Rightarrow> (Inl err, s\<lparr>rd_world := w\<rparr>)
      | (Inr spec, w) \<Rightarrow> (case extract_event L e spec of
            None \<Rightarrow> quarantine W now e (''extractor_error: '' @ ow_why W e) (s\<lparr>rd_world := w\<rparr>)
          | Some x \<Rightarrow> attributed W now e x (s\<lparr>rd_world := w\<rparr>)))"

text \<open>The consumers, then the stamp.\<close>

definition heard_and_stamped ::
    "'w outside \<Rightarrow> time \<Rightarrow> event_row \<Rightarrow> string option \<Rightarrow> (string \<times> string) list \<Rightarrow> dict \<Rightarrow> schema_key option \<Rightarrow> 'w reading
     \<Rightarrow> (string + schema_key option) \<times> 'w reading" where
  "heard_and_stamped W now e c handles vs key s =
     (case hear_all (ow_consumers W) e c handles vs (rd_world s) of
        (Some err, w) \<Rightarrow> (Inl err, s\<lparr>rd_world := w\<rparr>)
      | (None, w) \<Rightarrow> (case ow_fails W Stamp (ev_id e) w of
            Some err \<Rightarrow> (Inl err, s\<lparr>rd_world := w\<rparr>)
          | None \<Rightarrow> (Inr key, s\<lparr>rd_world := w, rd_events := stamp_event now (ev_id e) c (rd_events s)\<rparr>)))"

definition process_one ::
    "'w outside \<Rightarrow> lib \<Rightarrow> time \<Rightarrow> schema_key list \<Rightarrow> event_row \<Rightarrow> 'w reading \<Rightarrow> (string + schema_key option) \<times> 'w reading" where
  "process_one W L now discovered e s =
     (case discover_topic W now e discovered s of
        (Inl err, s1) \<Rightarrow> (Inl err, s1)
      | (Inr key, s1) \<Rightarrow> (case run_processor W L now e s1 of
            (Inl err, s2) \<Rightarrow> (Inl err, s2)
          | (Inr Quarantined, s2) \<Rightarrow> (Inr key, s2)
          | (Inr (About c handles vs), s2) \<Rightarrow> heard_and_stamped W now e c handles vs key s2))"

definition after_failed_row :: "'w outside \<Rightarrow> nat \<Rightarrow> time \<Rightarrow> event_row \<Rightarrow> string \<Rightarrow> 'w reading \<Rightarrow> 'w reading" where
  "after_failed_row W max_attempts now e err s =
     (if er_attempts e < max_attempts then s
      else snd (quarantine W now e (''consumer_error after '' @ nat_text (er_attempts e) @ '' attempts: '' @ err) s))"

section \<open>A pass\<close>

text \<open>The savepoint: a raise puts the two tables back.\<close>

definition process_row ::
    "'w outside \<Rightarrow> lib \<Rightarrow> nat \<Rightarrow> time \<Rightarrow> event_row \<Rightarrow> schema_key list \<times> 'w reading \<Rightarrow> schema_key list \<times> 'w reading" where
  "process_row W L max_attempts now e ds = (case ds of (discovered, s) \<Rightarrow>
     (case process_one W L now discovered e s of
        (Inl err, s') \<Rightarrow> (discovered, after_failed_row W max_attempts now e err (s'\<lparr>rd_events := rd_events s, rd_schemas := rd_schemas s\<rparr>))
      | (Inr key, s') \<Rightarrow> (case key of None \<Rightarrow> discovered | Some k \<Rightarrow> (if k \<in> set discovered then discovered else discovered @ [k]), s')))"

definition pass_in_txn ::
    "'w outside \<Rightarrow> lib \<Rightarrow> nat \<Rightarrow> time \<Rightarrow> (string \<Rightarrow> bool) \<Rightarrow> nat \<Rightarrow> 'w reading \<Rightarrow> event_row list \<times> schema_key list \<times> 'w reading" where
  "pass_in_txn W L max_attempts now locked limit s =
     (case claim_pending_events locked limit (rd_events s) of (rows, es) \<Rightarrow>
        (rows, fold (process_row W L max_attempts now) rows ([], s\<lparr>rd_events := es\<rparr>)))"

definition run_pass ::
    "'w outside \<Rightarrow> lib \<Rightarrow> nat \<Rightarrow> time \<Rightarrow> (string \<Rightarrow> bool) \<Rightarrow> nat \<Rightarrow> 'w reading \<Rightarrow> event_row list \<times> 'w reading" where
  "run_pass W L max_attempts now locked limit s =
     (case pass_in_txn W L max_attempts now locked limit s of (rows, discovered, s') \<Rightarrow>
        (rows, s'\<lparr>rd_known := discovered @ rd_known s'\<rparr>))"

text \<open>
  The process dies in a pass, after \<open>rows_done\<close> rows and \<open>heard\<close> consumers of the next: the transaction
  never commits, and what resolutions, assertions and consumers committed stays.
\<close>

definition dies_in_pass ::
    "'w outside \<Rightarrow> lib \<Rightarrow> nat \<Rightarrow> time \<Rightarrow> (string \<Rightarrow> bool) \<Rightarrow> nat \<Rightarrow> nat \<Rightarrow> nat \<Rightarrow> 'w reading \<Rightarrow> 'w reading" where
  "dies_in_pass W L max_attempts now locked limit rows_done heard s =
     (case claim_pending_events locked limit (rd_events s) of (rows, es) \<Rightarrow>
        (let (discovered, t) = fold (process_row W L max_attempts now) (take rows_done rows) ([], s\<lparr>rd_events := es\<rparr>);
             u = (case drop rows_done rows of [] \<Rightarrow> t
                | e # _ \<Rightarrow> snd (process_one (W\<lparr>ow_consumers := take heard (ow_consumers W)\<rparr>) L now discovered e t))
         in s\<lparr>rd_world := rd_world u, rd_known := []\<rparr>))"

end
