(* ===== verification/Identity.thy ===== *)
theory Identity
  imports Normalize Field_Grammar "HOL-Library.List_Lexorder" "HOL-Library.Char_ord"
begin

text \<open>
  Who a person is, \<open>app/crm/identity\<close>: the table \<open>crm_customer\<close> with the statements of
  \<open>db/queries.py\<close> and the constraints and the history trigger of migration 049, the resolution of
  handles to one customer of \<open>resolve.py\<close>, and the assertion history of \<open>facts.py\<close>.  A uuid is its
  text, which orders as the uuid does.
\<close>

section \<open>Rows\<close>

datatype customer_status = Active | Merged_away | Erased

text \<open>The five handle columns are a dictionary of those that are not null.\<close>

record customer =
  cu_id :: string
  cu_merchant :: string
  cu_name :: "string option"
  cu_locale :: "string option"
  cu_zone :: "string option"
  cu_handles :: "(string \<times> string) list"
  cu_status :: customer_status
  cu_into :: "string option"
  cu_merged :: "time option"
  cu_first :: time
  cu_last :: time
  cu_attributes :: dict

definition handle_columns :: "string list" where
  "handle_columns = [''phone'', ''email'', ''igsid'', ''shopify_customer_id'', ''external_ref'']"

section \<open>Statements\<close>

datatype 'a written = Written 'a | Taken | Refused

definition holds_handle :: "string \<Rightarrow> string \<Rightarrow> string \<Rightarrow> customer \<Rightarrow> bool" where
  "holds_handle merchant column val c \<longleftrightarrow>
     cu_merchant c = merchant \<and> map_of (cu_handles c) column = Some val \<and> cu_status c = Active"

definition probe_customer :: "string \<Rightarrow> string \<Rightarrow> string \<Rightarrow> customer list \<Rightarrow> customer option" where
  "probe_customer merchant column val cs = find (holds_handle merchant column val) cs"

text \<open>The CHECKs of the phone and the email column.\<close>

definition handle_checks :: "(string \<times> string) list \<Rightarrow> bool" where
  "handle_checks hs \<longleftrightarrow> (case map_of hs ''phone'' of Some p \<Rightarrow> e164 p | None \<Rightarrow> True)
     \<and> (case map_of hs ''email'' of Some m \<Rightarrow> m = lower m | None \<Rightarrow> True)"

text \<open>\<open>i\<close> is the uuid the table draws.\<close>

definition insert_customer ::
    "time \<Rightarrow> string \<Rightarrow> string \<Rightarrow> (string \<times> string) list \<Rightarrow> customer list \<Rightarrow> (string \<times> customer list) written" where
  "insert_customer now i merchant handles cs =
     (let held = filter (\<lambda>(k, v). k \<in> set handle_columns \<and> v \<noteq> []) handles
      in if \<not> handle_checks held then Refused
         else if list_ex (\<lambda>(k, v). list_ex (holds_handle merchant k v) cs) held then Taken
         else Written (i, cs @ [\<lparr>cu_id = i, cu_merchant = merchant, cu_name = None, cu_locale = None, cu_zone = None,
           cu_handles = held, cu_status = Active, cu_into = None, cu_merged = None, cu_first = now, cu_last = now,
           cu_attributes = []\<rparr>]))"

text \<open>The trigger: an old value that is replaced goes into the history, column by column.\<close>

definition replaced :: "lib \<Rightarrow> time \<Rightarrow> (string \<times> string) list \<Rightarrow> (string \<times> string) list \<Rightarrow> json list" where
  "replaced L now old new =
     concat (map (\<lambda>k. case map_of old k of None \<Rightarrow> []
        | Some v \<Rightarrow> (if map_of new k = Some v then []
            else [JObj [(''handle'', JStr k), (''old'', JStr v), (''replaced_at'', JStr (iso_format L now))]])) handle_columns)"

definition handle_history :: "lib \<Rightarrow> time \<Rightarrow> (string \<times> string) list \<Rightarrow> customer \<Rightarrow> customer" where
  "handle_history L now old c =
     (let gone = replaced L now old (cu_handles c)
      in if gone = [] then c
         else c\<lparr>cu_attributes := AList.update ''_handle_history''
            (JList ((case dget (cu_attributes c) ''_handle_history'' of JList xs \<Rightarrow> xs | _ \<Rightarrow> []) @ gone)) (cu_attributes c)\<rparr>)"

definition with_handles :: "lib \<Rightarrow> time \<Rightarrow> (string \<times> string) list \<Rightarrow> customer \<Rightarrow> customer" where
  "with_handles L now writes c =
     (let c' = c\<lparr>cu_handles := dmerge (cu_handles c) writes, cu_last := now\<rparr> in handle_history L now (cu_handles c) c')"

definition update_customers :: "(customer \<Rightarrow> bool) \<Rightarrow> (customer \<Rightarrow> customer) \<Rightarrow> customer list \<Rightarrow> customer list" where
  "update_customers P f cs = map (\<lambda>c. if P c then f c else c) cs"

definition apply_handles ::
    "lib \<Rightarrow> time \<Rightarrow> string \<Rightarrow> (string \<times> string) list \<Rightarrow> customer list \<Rightarrow> customer list written" where
  "apply_handles L now i writes cs =
     (let held = filter (\<lambda>(k, v). k \<in> set handle_columns) writes;
          mine = list_ex (\<lambda>c. cu_id c = i \<and> cu_status c = Active) cs;
          shops = map cu_merchant (filter (\<lambda>c. cu_id c = i) cs)
      in if list_ex (\<lambda>c. cu_id c = i) cs \<and> \<not> handle_checks held then Refused
         else if mine \<and> list_ex (\<lambda>(k, v). list_ex (\<lambda>m. list_ex (\<lambda>c. cu_id c \<noteq> i \<and> holds_handle m k v c) cs) shops) held then Taken
         else Written (update_customers (\<lambda>c. cu_id c = i) (with_handles L now held) cs))"

definition merge_customer :: "time \<Rightarrow> string \<Rightarrow> string \<Rightarrow> customer list \<Rightarrow> customer list" where
  "merge_customer now loser survivor =
     update_customers (\<lambda>c. cu_id c = loser \<and> cu_status c = Active)
       (\<lambda>c. c\<lparr>cu_status := Merged_away, cu_into := Some survivor, cu_merged := Some now\<rparr>)"

definition get_customer :: "string \<Rightarrow> string \<Rightarrow> customer list \<Rightarrow> customer option" where
  "get_customer merchant i cs = find (\<lambda>c. cu_merchant c = merchant \<and> cu_id c = i) cs"

section \<open>Deciding\<close>

definition evidence_overwrites :: "string set" where
  "evidence_overwrites = {''declared'', ''observed''}"

definition resolve_evidence :: "string set" where
  "resolve_evidence = {''declared'', ''observed'', ''imported''}"

record resolution_plan =
  rp_create :: bool
  rp_survivor :: "string option"
  rp_losers :: "string list"
  rp_writes :: "(string \<times> string) list"

definition plan_handle_writes ::
    "(string \<times> string) list \<Rightarrow> (string \<times> string) list \<Rightarrow> string \<Rightarrow> (string \<times> string) list" where
  "plan_handle_writes current incoming evidence =
     filter (\<lambda>(k, v). case map_of current k of None \<Rightarrow> True
       | Some e \<Rightarrow> e \<noteq> v \<and> evidence \<in> evidence_overwrites) incoming"

text \<open>\<open>min\<close> by first sight and id: the first of the smallest.\<close>

definition older :: "customer \<Rightarrow> customer \<Rightarrow> bool" where
  "older c d \<longleftrightarrow> cu_first c < cu_first d \<or> cu_first c = cu_first d \<and> cu_id c < cu_id d"

definition pick_survivor :: "customer \<Rightarrow> customer list \<Rightarrow> customer" where
  "pick_survivor c cs = fold (\<lambda>d best. if older d best then d else best) cs c"

definition plan_resolution :: "customer list \<Rightarrow> (string \<times> string) list \<Rightarrow> string \<Rightarrow> resolution_plan" where
  "plan_resolution owners handles evidence =
     (case owners of
        [] \<Rightarrow> \<lparr>rp_create = True, rp_survivor = None, rp_losers = [], rp_writes = handles\<rparr>
      | c # cs \<Rightarrow>
          (let s = pick_survivor c cs
           in \<lparr>rp_create = False, rp_survivor = Some (cu_id s),
               rp_losers = map cu_id (filter (\<lambda>d. cu_id d \<noteq> cu_id s) owners),
               rp_writes = plan_handle_writes (cu_handles s) handles evidence\<rparr>))"

definition normalize_handle :: "string \<times> string \<Rightarrow> (string \<times> string) option" where
  "normalize_handle h = (case h of (k, v) \<Rightarrow>
     if k \<notin> set handle_columns \<or> v = [] then None
     else if k = ''phone'' then map_option (Pair k) (normalize_phone v)
     else if k = ''email'' then map_option (Pair k) (normalize_email v)
     else if strip v = [] then None else Some (k, strip v))"

definition normalize_handles :: "(string \<times> string) list \<Rightarrow> (string \<times> string) list" where
  "normalize_handles handles = List.map_filter normalize_handle handles"

section \<open>Resolving\<close>

text \<open>The probes in the order of the law; a row found again keeps its place.\<close>

definition gather_owners :: "string \<Rightarrow> (string \<times> string) list \<Rightarrow> customer list \<Rightarrow> customer list" where
  "gather_owners merchant handles cs =
     map snd (fold (\<lambda>k owners. case map_of handles k of None \<Rightarrow> owners
       | Some v \<Rightarrow> (if v = [] then owners else case probe_customer merchant k v cs of None \<Rightarrow> owners
           | Some c \<Rightarrow> AList.update (cu_id c) c owners)) handle_columns [])"

definition apply_resolution ::
    "lib \<Rightarrow> time \<Rightarrow> string \<Rightarrow> string \<Rightarrow> resolution_plan \<Rightarrow> (string \<times> string) list \<Rightarrow> customer list
     \<Rightarrow> (string \<times> customer list) written" where
  "apply_resolution L now i merchant p handles cs =
     (if rp_create p then insert_customer now i merchant handles cs
      else let s = the (rp_survivor p)
           in case apply_handles L now s (rp_writes p) (fold (\<lambda>loser. merge_customer now loser s) (rp_losers p) cs) of
                Written cs' \<Rightarrow> Written (s, cs') | Taken \<Rightarrow> Taken | Refused \<Rightarrow> Refused)"

text \<open>
  One transaction: its probes read \<open>seen\<close>, its writes land on \<open>cs\<close>, where others may have committed
  in between.
\<close>

definition resolve_in_txn ::
    "lib \<Rightarrow> time \<Rightarrow> string \<Rightarrow> string \<Rightarrow> (string \<times> string) list \<Rightarrow> string \<Rightarrow> customer list \<Rightarrow> customer list
     \<Rightarrow> (string \<times> customer list) written" where
  "resolve_in_txn L now i merchant handles evidence seen cs =
     apply_resolution L now i merchant (plan_resolution (gather_owners merchant handles seen) handles evidence) handles cs"

text \<open>
  A unique violation is answered by a second transaction, on what the table is by then; \<open>None\<close> is a
  raise, after which the rows are as the others left them.
\<close>

definition resolve_customer ::
    "lib \<Rightarrow> time \<Rightarrow> string \<Rightarrow> string \<Rightarrow> (string \<times> string) list \<Rightarrow> string
     \<Rightarrow> customer list \<times> customer list \<Rightarrow> customer list \<times> customer list \<Rightarrow> (string \<times> customer list) option" where
  "resolve_customer L now i merchant handles evidence once again =
     (let hs = normalize_handles handles
      in if merchant = [] \<or> evidence \<notin> resolve_evidence \<or> hs = [] then None
         else case resolve_in_txn L now i merchant hs evidence (fst once) (snd once) of
           Written r \<Rightarrow> Some r
         | Refused \<Rightarrow> None
         | Taken \<Rightarrow> (case resolve_in_txn L now i merchant hs evidence (fst again) (snd again) of
             Written r \<Rightarrow> Some r | _ \<Rightarrow> None))"
section \<open>The assertion history\<close>

definition evidence_rank :: "(string \<times> int) list" where
  "evidence_rank = [(''declared'', 3), (''observed'', 2), (''imported'', 1), (''inferred'', 0)]"

text \<open>Confidences are decimals.\<close>

definition default_confidence :: "(string \<times> rat) list" where
  "default_confidence = [(''declared'', 1), (''observed'', 9 / 10), (''imported'', 7 / 10), (''inferred'', 4 / 10)]"

definition inferred_confidence_cap :: rat where
  "inferred_confidence_cap = 1 / 2"

definition claim_confidence :: "string \<Rightarrow> rat option \<Rightarrow> rat option" where
  "claim_confidence evidence confidence =
     map_option (\<lambda>v. max 0 (min 1 (if evidence = ''inferred'' then min v inferred_confidence_cap else v)))
       (case confidence of None \<Rightarrow> map_of default_confidence evidence | Some c \<Rightarrow> Some c)"

definition materialized_columns :: "(string \<times> string) list" where
  "materialized_columns = [(''name'', ''display_name''), (''locale'', ''primary_locale''), (''timezone'', ''timezone'')]"

text \<open>
  The rank of a claim: a claim without its evidence or its moment raises, which is \<open>None\<close>, as does an
  evidence word that is unhashable and comparing moments of different kinds; a moment is a text or a
  number.
\<close>

definition claim_rank :: "dict \<Rightarrow> int option" where
  "claim_rank c = (if map_of c ''e'' = None \<or> map_of c ''at'' = None then None else case dget c ''e'' of
      JStr s \<Rightarrow> Some (case map_of evidence_rank s of None \<Rightarrow> -1 | Some r \<Rightarrow> r)
    | JList xs \<Rightarrow> None | JObj d \<Rightarrow> None | _ \<Rightarrow> Some (-1))"

definition json_less :: "json \<Rightarrow> json \<Rightarrow> bool option" where
  "json_less x y = (case (x, y) of
      (JStr s, JStr t) \<Rightarrow> Some (s < t)
    | _ \<Rightarrow> (case (eq_num x, eq_num y) of (Some a, Some b) \<Rightarrow> Some (a < b) | _ \<Rightarrow> None))"

definition claim_beats :: "dict \<Rightarrow> dict \<Rightarrow> bool option" where
  "claim_beats c best = (case (claim_rank c, claim_rank best) of
      (Some r, Some s) \<Rightarrow> (if r \<noteq> s then Some (s < r)
        else if py_equal (dget c ''at'') (dget best ''at'') then Some False else json_less (dget best ''at'') (dget c ''at''))
    | _ \<Rightarrow> None)"

fun best_claim :: "dict \<Rightarrow> dict list \<Rightarrow> dict option" where
  "best_claim best [] = (if claim_rank best = None then None else Some best)"
| "best_claim best (c # cs) = (case claim_beats c best of None \<Rightarrow> None
     | Some b \<Rightarrow> best_claim (if b then c else best) cs)"

definition winner :: "dict list \<Rightarrow> dict option" where
  "winner cs = (case cs of [] \<Rightarrow> None | c # ds \<Rightarrow> best_claim c ds)"

text \<open>Only the latest claim is looked at; \<open>None\<close> where it is no object.\<close>

definition is_drift :: "json list \<Rightarrow> json \<Rightarrow> string \<Rightarrow> string \<Rightarrow> bool option" where
  "is_drift claims val evidence source =
     (if claims = [] then Some True
      else case last claims of
        JObj d \<Rightarrow> Some (\<not> py_equal (dget d ''v'') val \<or> dget d ''e'' \<noteq> JStr evidence \<or> dget d ''src'' \<noteq> JStr source)
      | _ \<Rightarrow> None)"

fun claims_of :: "json list \<Rightarrow> dict list option" where
  "claims_of [] = Some []"
| "claims_of (JObj d # xs) = map_option (Cons d) (claims_of xs)"
| "claims_of (x # xs) = None"

text \<open>A bucket that is no list raises.\<close>

definition bucket :: "dict \<Rightarrow> string \<Rightarrow> json list option" where
  "bucket attributes name = (case map_of attributes name of None \<Rightarrow> Some [] | Some (JList xs) \<Rightarrow> Some xs | Some _ \<Rightarrow> None)"

text \<open>\<open>k\<close> is the confidence as the document carries it.\<close>

definition new_claim :: "json \<Rightarrow> string \<Rightarrow> json \<Rightarrow> string \<Rightarrow> string \<Rightarrow> dict" where
  "new_claim val evidence k source now =
     [(''v'', val), (''e'', JStr evidence), (''k'', k), (''src'', JStr source), (''at'', JStr now)]"

fun assert_each ::
    "string \<Rightarrow> json \<Rightarrow> string \<Rightarrow> string \<Rightarrow> dict \<Rightarrow> dict \<times> (string \<times> json) list \<Rightarrow> (dict \<times> (string \<times> json) list) option" where
  "assert_each evidence k source now [] s = Some s"
| "assert_each evidence k source now ((name, val) # facts) (attributes, columns) =
     (case bucket attributes name of None \<Rightarrow> None
      | Some claims \<Rightarrow>
          (let kept = (if map_of attributes name = None then AList.update name (JList []) attributes else attributes)
           in case is_drift claims val evidence source of
             None \<Rightarrow> None
           | Some False \<Rightarrow> assert_each evidence k source now facts (kept, columns)
           | Some True \<Rightarrow>
               (let claims' = claims @ [JObj (new_claim val evidence k source now)]
                in case Option.bind (claims_of claims') winner of None \<Rightarrow> None
                 | Some w \<Rightarrow> assert_each evidence k source now facts (AList.update name (JList claims') kept,
                     (case map_of materialized_columns name of None \<Rightarrow> columns
                      | Some col \<Rightarrow> (if dget w ''e'' = JStr ''inferred'' then columns
                          else AList.update col (dget w ''v'') columns))))))"

text \<open>The three text columns take a text or nothing; another value is refused by the driver.\<close>

fun column_text :: "json \<Rightarrow> string option option" where
  "column_text (JStr s) = Some (Some s)"
| "column_text JNull = Some None"
| "column_text _ = None"

definition set_column :: "string \<times> json \<Rightarrow> customer \<Rightarrow> customer" where
  "set_column kv c = (case kv of (col, v) \<Rightarrow>
     (let t = (case column_text v of Some t \<Rightarrow> t | None \<Rightarrow> None)
      in if col = ''display_name'' then c\<lparr>cu_name := t\<rparr>
         else if col = ''primary_locale'' then c\<lparr>cu_locale := t\<rparr> else c\<lparr>cu_zone := t\<rparr>))"

definition update_attributes ::
    "string \<Rightarrow> string \<Rightarrow> dict \<Rightarrow> (string \<times> json) list \<Rightarrow> customer list \<Rightarrow> customer list option" where
  "update_attributes merchant i attributes columns cs =
     (if list_ex (\<lambda>(col, v). column_text v = None) columns then None
      else Some (update_customers (\<lambda>c. cu_merchant c = merchant \<and> cu_id c = i)
             (\<lambda>c. fold set_column columns (c\<lparr>cu_attributes := attributes\<rparr>)) cs))"

text \<open>
  The answer is whether the customer exists; \<open>None\<close> is a raise, after which nothing is written.
  \<open>k\<close> reads a confidence as the document writes it.
\<close>

definition assert_facts ::
    "lib \<Rightarrow> (rat \<Rightarrow> json) \<Rightarrow> time \<Rightarrow> string \<Rightarrow> string \<Rightarrow> dict \<Rightarrow> string \<Rightarrow> string \<Rightarrow> rat option \<Rightarrow> customer list
     \<Rightarrow> (bool \<times> customer list) option" where
  "assert_facts L k now merchant i facts evidence source confidence cs =
     (case claim_confidence evidence confidence of None \<Rightarrow> None
      | Some conf \<Rightarrow>
          (let told = filter (\<lambda>(n, v). \<not> blank v) facts
           in if map_of evidence_rank evidence = None then None
              else if told = [] then Some (True, cs)
              else case get_customer merchant i cs of
                None \<Rightarrow> Some (False, cs)
              | Some c \<Rightarrow> (case assert_each evidence (k conf) source (iso_format L now) told (cu_attributes c, []) of
                  None \<Rightarrow> None
                | Some (attributes, columns) \<Rightarrow> map_option (Pair True) (update_attributes merchant i attributes columns cs))))"

section \<open>A key of the attributes, kept for another module\<close>

definition read_customer_attribute :: "string \<Rightarrow> string \<Rightarrow> customer list \<Rightarrow> (string \<times> string \<times> json) option" where
  "read_customer_attribute i key cs =
     map_option (\<lambda>c. (cu_id c, cu_merchant c, dget (cu_attributes c) key)) (find (\<lambda>c. cu_id c = i) cs)"

text \<open>\<open>mutation\<close> is the caller's pure function: the value to store and the answer to give back.\<close>

definition mutate_customer_attribute ::
    "string \<Rightarrow> string \<Rightarrow> (json \<Rightarrow> json \<times> 'r) \<Rightarrow> string option \<Rightarrow> customer list \<Rightarrow> (string \<times> 'r) option \<times> customer list" where
  "mutate_customer_attribute i key mutation expected cs =
     (case find (\<lambda>c. cu_id c = i) cs of
        None \<Rightarrow> (None, cs)
      | Some c \<Rightarrow>
          (if expected \<noteq> None \<and> expected \<noteq> Some (cu_merchant c) then (None, cs)
           else case mutation (dget (cu_attributes c) key) of (new, answer) \<Rightarrow>
             (Some (cu_merchant c, answer),
              case update_attributes (cu_merchant c) i (AList.update key new (cu_attributes c)) [] cs of
                Some cs' \<Rightarrow> cs' | None \<Rightarrow> cs)))"

section \<open>What others may read\<close>

definition usable_claims :: "json \<Rightarrow> dict list" where
  "usable_claims v = (case v of JList xs \<Rightarrow>
      List.map_filter (\<lambda>x. case x of JObj d \<Rightarrow> (if map_of d ''at'' \<noteq> None \<and> map_of d ''e'' \<noteq> None then Some d else None) | _ \<Rightarrow> None) xs
    | _ \<Rightarrow> [])"

fun winning_attributes :: "dict \<Rightarrow> dict option" where
  "winning_attributes [] = Some []"
| "winning_attributes ((name, claims) # rest) =
     (if name \<in> set handle_like \<or> prefix_of ''_'' name \<or> usable_claims claims = [] then winning_attributes rest
      else case winner (usable_claims claims) of None \<Rightarrow> None
        | Some w \<Rightarrow> (if dget w ''e'' = JStr ''inferred'' then winning_attributes rest
            else map_option (Cons (name, dget w ''v'')) (winning_attributes rest)))"

definition read_customer_facts :: "string \<Rightarrow> string \<Rightarrow> customer list \<Rightarrow> customer_facts option option" where
  "read_customer_facts merchant i cs =
     (case get_customer merchant i cs of None \<Rightarrow> Some None
      | Some c \<Rightarrow> map_option (\<lambda>w. Some \<lparr>cf_display_name = cu_name c, cf_primary_locale = cu_locale c, cf_timezone = cu_zone c,
            cf_has_phone = opt_text (map_of (cu_handles c) ''phone''), cf_has_email = opt_text (map_of (cu_handles c) ''email''),
            cf_attributes = w\<rparr>) (winning_attributes (cu_attributes c)))"

end
