(* ===== verification/Identity_Laws.thy ===== *)
theory Identity_Laws
  imports Identity
begin

text \<open>
  What identity promises: at most one active customer of a merchant carries a handle, every merge
  points to an older row, so that following merges ends at an active one, a letter's handles end up
  with one person, and the columns others read say what the assertion history says.
\<close>

section \<open>The table\<close>

definition shared :: "customer \<Rightarrow> customer \<Rightarrow> bool" where
  "shared c d \<longleftrightarrow> cu_merchant c = cu_merchant d \<and> cu_status c = Active \<and> cu_status d = Active
     \<and> list_ex (\<lambda>k. map_of (cu_handles c) k \<noteq> None \<and> map_of (cu_handles c) k = map_of (cu_handles d) k) handle_columns"

definition merge_ok :: "customer list \<Rightarrow> customer \<Rightarrow> bool" where
  "merge_ok cs c = (case cu_into c of None \<Rightarrow> cu_status c = Active
     | Some j \<Rightarrow> cu_status c = Merged_away \<and> list_ex (\<lambda>d. cu_id d = j \<and> cu_merchant d = cu_merchant c \<and> older d c) cs)"

definition customers_ok :: "customer list \<Rightarrow> bool" where
  "customers_ok cs \<longleftrightarrow> distinct (map cu_id cs) \<and> (\<forall>c\<in>set cs. \<forall>d\<in>set cs. shared c d \<longrightarrow> c = d)
     \<and> list_all (merge_ok cs) cs"

text \<open>A row is never deleted, and its id, its merchant and its first sight never change.\<close>

definition persists :: "customer list \<Rightarrow> customer list \<Rightarrow> bool" where
  "persists s cs \<longleftrightarrow> (\<forall>c\<in>set s. \<exists>d\<in>set cs. cu_id d = cu_id c \<and> cu_merchant d = cu_merchant c \<and> cu_first d = cu_first c)"

lemma persistsI: "(\<And>c. c \<in> set s \<Longrightarrow> \<exists>d\<in>set cs. cu_id d = cu_id c \<and> cu_merchant d = cu_merchant c \<and> cu_first d = cu_first c) \<Longrightarrow> persists s cs"
  by (simp add: persists_def)

lemma persistsE:
  assumes "persists s cs" and "c \<in> set s"
  obtains d where "d \<in> set cs" "cu_id d = cu_id c" "cu_merchant d = cu_merchant c" "cu_first d = cu_first c"
  using assms by (auto simp: persists_def)

lemma persists_refl: "persists cs cs"
  by (auto simp: persists_def)

lemma persists_trans: "persists s t \<Longrightarrow> persists t u \<Longrightarrow> persists s u"
  unfolding persists_def by metis

lemma older_linear: "cu_id c \<noteq> cu_id d \<Longrightarrow> \<not> older c d \<Longrightarrow> older d c"
  by (auto simp: older_def)

lemma older_trans: "older c d \<Longrightarrow> older d x \<Longrightarrow> older c x"
  by (auto simp: older_def)

lemma older_irrefl: "\<not> older c c"
  by (simp add: older_def)

lemma older_same: "older c d \<Longrightarrow> cu_id c' = cu_id c \<Longrightarrow> cu_first c' = cu_first c \<Longrightarrow> cu_id d' = cu_id d \<Longrightarrow> cu_first d' = cu_first d \<Longrightarrow> older c' d'"
  by (auto simp: older_def)

lemma row_unique: "customers_ok cs \<Longrightarrow> c \<in> set cs \<Longrightarrow> d \<in> set cs \<Longrightarrow> cu_id c = cu_id d \<Longrightarrow> c = d"
  by (auto simp: customers_ok_def distinct_map inj_on_def)

lemma shared_sym: "shared c d \<Longrightarrow> shared d c"
  unfolding shared_def list_ex_iff by metis

section \<open>An update that keeps a row's birth\<close>

definition keeps_birth :: "(customer \<Rightarrow> customer) \<Rightarrow> bool" where
  "keeps_birth f \<longleftrightarrow> (\<forall>c. cu_id (f c) = cu_id c \<and> cu_merchant (f c) = cu_merchant c \<and> cu_first (f c) = cu_first c)"

lemma set_update: "set (update_customers P f cs) = (\<lambda>c. if P c then f c else c) ` set cs"
  by (simp add: update_customers_def)

lemma update_persists: "keeps_birth f \<Longrightarrow> persists cs (update_customers P f cs)"
  unfolding persists_def set_update keeps_birth_def by auto

lemma update_ids: "keeps_birth f \<Longrightarrow> map cu_id (update_customers P f cs) = map cu_id cs"
  by (auto simp: update_customers_def keeps_birth_def)

lemma update_keeps_ok:
  assumes ok: "customers_ok cs" and f: "keeps_birth f"
    and apart: "\<And>c d. c \<in> set cs \<Longrightarrow> d \<in> set cs \<Longrightarrow> P c \<Longrightarrow> c \<noteq> d \<Longrightarrow> \<not> shared (f c) (if P d then f d else d)"
    and merge: "\<And>c. c \<in> set cs \<Longrightarrow> P c \<Longrightarrow> merge_ok cs (f c)"
  shows "customers_ok (update_customers P f cs)"
proof -
  let ?g = "\<lambda>c. if P c then f c else c"
  have g: "cu_id (?g c) = cu_id c" "cu_merchant (?g c) = cu_merchant c" "cu_first (?g c) = cu_first c" for c
    using f by (simp_all add: keeps_birth_def)
  have "distinct (map cu_id (update_customers P f cs))" using ok update_ids [OF f] by (simp add: customers_ok_def)
  moreover have "x = y" if x: "x \<in> set (update_customers P f cs)" and y: "y \<in> set (update_customers P f cs)" and s: "shared x y" for x y
  proof -
    obtain c where c: "c \<in> set cs" "x = ?g c" using x unfolding set_update by blast
    obtain d where d: "d \<in> set cs" "y = ?g d" using y unfolding set_update by blast
    have "c = d"
    proof (rule ccontr)
      assume n: "c \<noteq> d"
      show False
      proof (cases "P c")
        case True
        then show False using apart [OF c(1) d(1) True n] s c(2) d(2) by simp
      next
        case False
        show False
        proof (cases "P d")
          case True
          then show False using apart [OF d(1) c(1) True] n shared_sym [OF s] False c(2) d(2) by simp
        next
          case F: False
          then have "shared c d" using s c(2) d(2) False by simp
          then show False using ok c(1) d(1) n unfolding customers_ok_def by blast
        qed
      qed
    qed
    then show ?thesis using c(2) d(2) by simp
  qed
  moreover have "merge_ok (update_customers P f cs) x" if x: "x \<in> set (update_customers P f cs)" for x
  proof -
    obtain c where c: "c \<in> set cs" "x = ?g c" using x unfolding set_update by blast
    have m: "merge_ok cs x"
    proof (cases "P c")
      case True
      then show ?thesis using merge [OF c(1)] c(2) by simp
    next
      case False
      then show ?thesis using ok c by (simp add: customers_ok_def list_all_iff)
    qed
    show ?thesis
    proof (cases "cu_into x")
      case None
      then show ?thesis using m by (simp add: merge_ok_def)
    next
      case (Some j)
      then obtain d where d: "d \<in> set cs" "cu_id d = j" "cu_merchant d = cu_merchant x" "older d x" "cu_status x = Merged_away"
        using m by (auto simp: merge_ok_def list_ex_iff)
      have "?g d \<in> set (update_customers P f cs)" unfolding set_update using d(1) by (rule imageI)
      moreover have "older (?g d) x" by (rule older_same [OF d(4) g(1,3) refl refl])
      ultimately show ?thesis using d g [of d] Some unfolding merge_ok_def list_ex_iff by auto
    qed
  qed
  ultimately show ?thesis unfolding customers_ok_def list_all_iff by blast
qed
section \<open>The statements keep the table\<close>

lemma carries_shared:
  assumes "holds_handle merchant k v d" and "cu_merchant c = merchant" and "cu_status c = Active"
    and "map_of (cu_handles c) k = Some v" and "k \<in> set handle_columns"
  shows "shared c d"
  using assms unfolding shared_def holds_handle_def list_ex_iff by auto

lemma shared_carries:
  assumes "shared c d"
  obtains k v where "k \<in> set handle_columns" "map_of (cu_handles c) k = Some v" "holds_handle (cu_merchant c) k v d"
  using assms unfolding shared_def list_ex_iff holds_handle_def by (metis not_None_eq)

lemma insert_ok:
  assumes ok: "customers_ok cs" and new: "\<forall>c\<in>set cs. cu_id c \<noteq> i"
    and ins: "insert_customer now i merchant handles cs = Written (x, cs')"
  shows "x = i \<and> customers_ok cs' \<and> persists cs cs'"
proof -
  let ?held = "filter (\<lambda>(k, v). k \<in> set handle_columns \<and> v \<noteq> []) handles"
  let ?r = "\<lparr>cu_id = i, cu_merchant = merchant, cu_name = None, cu_locale = None, cu_zone = None,
     cu_handles = ?held, cu_status = Active, cu_into = None, cu_merged = None, cu_first = now, cu_last = now, cu_attributes = []\<rparr>"
  have cs': "cs' = cs @ [?r]" "x = i" and free: "\<not> list_ex (\<lambda>(k, v). list_ex (holds_handle merchant k v) cs) ?held"
    using ins by (auto simp: insert_customer_def Let_def split: if_splits)
  have alone: "\<not> shared ?r d" if d: "d \<in> set cs" for d
  proof
    assume "shared ?r d"
    then obtain k v where kv: "map_of ?held k = Some v" "holds_handle merchant k v d" by (rule shared_carries) simp
    have "(k, v) \<in> set ?held" using kv(1) by (rule map_of_SomeD)
    then show False using free kv(2) d unfolding list_ex_iff by blast
  qed
  have "distinct (map cu_id cs')" using ok new by (auto simp: customers_ok_def cs')
  moreover have "c = d" if "c \<in> set cs'" "d \<in> set cs'" "shared c d" for c d
  proof -
    have "c \<in> set cs \<or> c = ?r" "d \<in> set cs \<or> d = ?r" using that by (auto simp: cs')
    then show ?thesis using that(3) alone shared_sym ok unfolding customers_ok_def by blast
  qed
  moreover have "merge_ok cs' c" if "c \<in> set cs'" for c
  proof -
    have "c \<in> set cs \<or> c = ?r" using that by (auto simp: cs')
    then show ?thesis
    proof
      assume "c \<in> set cs"
      then have "merge_ok cs c" using ok by (simp add: customers_ok_def list_all_iff)
      then show ?thesis by (simp add: merge_ok_def cs' split: option.splits)
    qed (simp add: merge_ok_def)
  qed
  ultimately have "customers_ok cs'" unfolding customers_ok_def list_all_iff by blast
  moreover have "persists cs cs'" by (rule persistsI) (auto simp: cs')
  ultimately show ?thesis using cs'(2) by simp
qed

lemma with_handles_fields [simp]:
  "cu_id (with_handles L now w c) = cu_id c" "cu_merchant (with_handles L now w c) = cu_merchant c"
  "cu_first (with_handles L now w c) = cu_first c" "cu_status (with_handles L now w c) = cu_status c"
  "cu_into (with_handles L now w c) = cu_into c" "cu_handles (with_handles L now w c) = dmerge (cu_handles c) w"
  "cu_name (with_handles L now w c) = cu_name c" "cu_locale (with_handles L now w c) = cu_locale c"
  "cu_zone (with_handles L now w c) = cu_zone c"
  by (simp_all add: with_handles_def handle_history_def Let_def)

lemma dmerge_from: "map_of (dmerge a b) k = Some v \<Longrightarrow> (k, v) \<in> set b \<or> map_of a k = Some v"
  by (auto simp: map_of_dmerge map_add_def split: option.splits dest: map_of_SomeD)

lemma apply_handles_ok:
  assumes ok: "customers_ok cs" and ap: "apply_handles L now i writes cs = Written cs'"
  shows "customers_ok cs' \<and> persists cs cs'"
proof -
  let ?held = "filter (\<lambda>(k, v). k \<in> set handle_columns) writes"
  have cs': "cs' = update_customers (\<lambda>c. cu_id c = i) (with_handles L now ?held) cs"
    using ap by (auto simp: apply_handles_def Let_def split: if_splits)
  have f: "keeps_birth (with_handles L now ?held)" by (simp add: keeps_birth_def)
  have "customers_ok cs'"
    unfolding cs'
  proof (rule update_keeps_ok [OF ok f])
    fix c d assume c: "c \<in> set cs" "cu_id c = i" and d: "d \<in> set cs" "c \<noteq> d"
    have n: "cu_id d \<noteq> i" using row_unique [OF ok c(1) d(1)] c(2) d(2) by auto
    show "\<not> shared (with_handles L now ?held c) (if cu_id d = i then with_handles L now ?held d else d)"
    proof
      assume "shared (with_handles L now ?held c) (if cu_id d = i then with_handles L now ?held d else d)"
      then have s: "shared (with_handles L now ?held c) d" using n by simp
      obtain k v where kv: "k \<in> set handle_columns" "map_of (dmerge (cu_handles c) ?held) k = Some v" "holds_handle (cu_merchant c) k v d"
        using s by (rule shared_carries) simp
      have active: "cu_status c = Active" using s by (simp add: shared_def)
      from dmerge_from [OF kv(2)] show False
      proof
        assume kv': "(k, v) \<in> set ?held"
        have "list_ex (\<lambda>c. cu_id c \<noteq> i \<and> holds_handle (cu_merchant c') k v c) cs" if "c' = c" for c'
          using that kv(3) n d(1) by (auto simp: list_ex_iff)
        then have "list_ex (\<lambda>m. list_ex (\<lambda>c. cu_id c \<noteq> i \<and> holds_handle m k v c) cs) (map cu_merchant (filter (\<lambda>c. cu_id c = i) cs))"
          using c by (auto simp: list_ex_iff)
        then have "list_ex (\<lambda>(k, v). list_ex (\<lambda>m. list_ex (\<lambda>c. cu_id c \<noteq> i \<and> holds_handle m k v c) cs) (map cu_merchant (filter (\<lambda>c. cu_id c = i) cs))) ?held"
          unfolding list_ex_iff [of _ ?held] using kv' by (intro bexI [of _ "(k, v)"]) simp_all
        moreover have "list_ex (\<lambda>c. cu_id c = i \<and> cu_status c = Active) cs" using c active by (auto simp: list_ex_iff)
        ultimately show False using ap unfolding apply_handles_def Let_def by (auto split: if_splits)
      next
        assume "map_of (cu_handles c) k = Some v"
        then have "shared c d" using kv active by (intro carries_shared) simp_all
        then show False using ok c(1) d unfolding customers_ok_def by blast
      qed
    qed
  next
    fix c assume "c \<in> set cs"
    then have "merge_ok cs c" using ok by (simp add: customers_ok_def list_all_iff)
    then show "merge_ok cs (with_handles L now ?held c)" by (simp add: merge_ok_def older_def split: option.splits)
  qed
  then show ?thesis using update_persists [OF f] by (simp add: cs')
qed

lemma merge_customer_ok:
  assumes ok: "customers_ok cs" and s: "s \<in> set cs" and m: "\<And>c. c \<in> set cs \<Longrightarrow> cu_id c = loser \<Longrightarrow> cu_merchant c = cu_merchant s \<and> older s c"
  shows "customers_ok (merge_customer now loser (cu_id s) cs) \<and> persists cs (merge_customer now loser (cu_id s) cs)"
proof -
  let ?f = "\<lambda>c. c\<lparr>cu_status := Merged_away, cu_into := Some (cu_id s), cu_merged := Some now\<rparr>"
  have f: "keeps_birth ?f" by (simp add: keeps_birth_def)
  have "customers_ok (merge_customer now loser (cu_id s) cs)"
    unfolding merge_customer_def
  proof (rule update_keeps_ok [OF ok f])
    fix c assume c: "c \<in> set cs" "cu_id c = loser \<and> cu_status c = Active"
    then have "cu_merchant c = cu_merchant s" "older s c" using m by blast+
    then show "merge_ok cs (?f c)" using s by (auto simp: merge_ok_def list_ex_iff older_def)
  qed (simp add: shared_def)
  then show ?thesis using update_persists [OF f] by (simp add: merge_customer_def)
qed
section \<open>A resolution keeps the table\<close>

lemma probe_some: "probe_customer merchant k v cs = Some c \<Longrightarrow> c \<in> set cs \<and> holds_handle merchant k v c"
  unfolding probe_customer_def by (rule find_Some_set)

definition gather_step :: "string \<Rightarrow> (string \<times> string) list \<Rightarrow> customer list \<Rightarrow> string \<Rightarrow> (string \<times> customer) list \<Rightarrow> (string \<times> customer) list" where
  "gather_step merchant handles cs k owners = (case map_of handles k of None \<Rightarrow> owners
     | Some v \<Rightarrow> (if v = [] then owners else case probe_customer merchant k v cs of None \<Rightarrow> owners
         | Some c \<Rightarrow> AList.update (cu_id c) c owners))"

lemma gather_fold: "gather_owners merchant handles cs = map snd (fold (gather_step merchant handles cs) handle_columns [])"
  unfolding gather_owners_def gather_step_def [abs_def] by (rule refl)

text \<open>An owner is a row of the merchant that carries one of the handles.\<close>

definition owns :: "string \<Rightarrow> (string \<times> string) list \<Rightarrow> customer list \<Rightarrow> customer \<Rightarrow> bool" where
  "owns merchant handles cs c \<longleftrightarrow> (\<exists>k\<in>set handle_columns. \<exists>v. v \<noteq> [] \<and> map_of handles k = Some v
     \<and> probe_customer merchant k v cs = Some c)"

lemma gather_owns:
  assumes "\<forall>x\<in>set xs. fst x = cu_id (snd x) \<and> owns merchant handles cs (snd x)" and "set ks \<subseteq> set handle_columns"
    and "x \<in> set (fold (gather_step merchant handles cs) ks xs)"
  shows "fst x = cu_id (snd x) \<and> owns merchant handles cs (snd x)"
  using assms
proof (induction ks arbitrary: xs)
  case (Cons k ks)
  have "fst y = cu_id (snd y) \<and> owns merchant handles cs (snd y)" if y: "y \<in> set (gather_step merchant handles cs k xs)" for y
  proof (cases "y \<in> set xs")
    case True
    then show ?thesis using Cons.prems(1) by blast
  next
    case False
    then obtain v c where v: "map_of handles k = Some v" "v \<noteq> []" "probe_customer merchant k v cs = Some c"
        "y \<in> set (AList.update (cu_id c) c xs)"
      using y by (auto simp: gather_step_def split: option.splits if_splits)
    have "set (AList.update (cu_id c) c xs) \<subseteq> insert (cu_id c, c) (set xs)"
      by (induction xs) auto
    then have "y = (cu_id c, c)" using v(4) False by blast
    moreover have "k \<in> set handle_columns" using Cons.prems(2) by simp
    ultimately show ?thesis using v unfolding owns_def by auto
  qed
  then show ?case using Cons.IH [of "gather_step merchant handles cs k xs"] Cons.prems by simp
qed simp

lemma owners_own: "c \<in> set (gather_owners merchant handles cs) \<Longrightarrow> owns merchant handles cs c"
  unfolding gather_fold using gather_owns [of "[]" merchant handles cs handle_columns] by fastforce

lemma owns_row: "owns merchant handles cs c \<Longrightarrow> c \<in> set cs \<and> cu_merchant c = merchant \<and> cu_status c = Active"
  unfolding owns_def by (auto dest!: probe_some simp: holds_handle_def)

lemma survivor_in: "pick_survivor c cs \<in> set (c # cs)"
proof (induction cs arbitrary: c)
  case (Cons d cs)
  have "pick_survivor c (d # cs) = pick_survivor (if older d c then d else c) cs" by (simp add: pick_survivor_def)
  then show ?case using Cons.IH [of "if older d c then d else c"] by (auto split: if_splits)
qed (simp add: pick_survivor_def)

lemma not_older_trans: "\<not> older c d \<Longrightarrow> \<not> older d x \<Longrightarrow> \<not> older c x"
  by (auto simp: older_def)

lemma survivor_oldest: "d \<in> set (c # cs) \<Longrightarrow> \<not> older d (pick_survivor c cs)"
proof (induction cs arbitrary: c d)
  case Nil
  then show ?case by (simp add: pick_survivor_def older_irrefl)
next
  case (Cons e cs)
  let ?b = "if older e c then e else c"
  have s: "pick_survivor c (e # cs) = pick_survivor ?b cs" by (simp add: pick_survivor_def)
  have ih: "\<not> older x (pick_survivor c (e # cs))" if "x \<in> set (?b # cs)" for x
    unfolding s using that by (rule Cons.IH)
  consider "d \<in> set (?b # cs)" | "\<not> older d ?b" 
    using Cons.prems older_trans [of e c e] older_irrefl [of e] by (cases "older e c") auto
  then show ?case
  proof cases
    case 2
    then show ?thesis using not_older_trans ih [of ?b] by simp
  qed (rule ih)
qed

lemma plan_of_owners:
  assumes "gather_owners merchant handles seen = c # cs"
  obtains s where "owns merchant handles seen s"
    "plan_resolution (gather_owners merchant handles seen) handles evidence = \<lparr>rp_create = False, rp_survivor = Some (cu_id s),
       rp_losers = map cu_id (filter (\<lambda>d. cu_id d \<noteq> cu_id s) (c # cs)), rp_writes = plan_handle_writes (cu_handles s) handles evidence\<rparr>"
    "\<And>d. d \<in> set (c # cs) \<Longrightarrow> cu_id d \<noteq> cu_id s \<Longrightarrow> owns merchant handles seen d \<and> older s d"
proof
  let ?s = "pick_survivor c cs"
  show "owns merchant handles seen ?s" using owners_own [of ?s] survivor_in [of c cs] assms by simp
  show "plan_resolution (gather_owners merchant handles seen) handles evidence = \<lparr>rp_create = False, rp_survivor = Some (cu_id ?s),
       rp_losers = map cu_id (filter (\<lambda>d. cu_id d \<noteq> cu_id ?s) (c # cs)), rp_writes = plan_handle_writes (cu_handles ?s) handles evidence\<rparr>"
    unfolding assms plan_resolution_def list.case Let_def ..
  show "owns merchant handles seen d \<and> older ?s d" if "d \<in> set (c # cs)" "cu_id d \<noteq> cu_id ?s" for d
    using that owners_own [of d merchant handles seen] survivor_oldest [of d c cs] older_linear [of d ?s] assms by auto
qed

lemma merges_ok:
  assumes "customers_ok cs" and "s \<in> set cs"
    and "\<And>c. c \<in> set cs \<Longrightarrow> cu_id c \<in> set losers \<Longrightarrow> cu_merchant c = cu_merchant s \<and> older s c"
  shows "customers_ok (fold (\<lambda>l. merge_customer now l (cu_id s)) losers cs)
    \<and> persists cs (fold (\<lambda>l. merge_customer now l (cu_id s)) losers cs)"
  using assms
proof (induction losers arbitrary: cs s)
  case Nil
  then show ?case by (simp add: persists_refl)
next
  case (Cons l losers)
  let ?cs = "merge_customer now l (cu_id s) cs"
  have one: "customers_ok ?cs \<and> persists cs ?cs" by (rule merge_customer_ok [OF Cons.prems(1,2)]) (use Cons.prems(3) in simp)
  obtain s' where s': "s' \<in> set ?cs" "cu_id s' = cu_id s" "cu_merchant s' = cu_merchant s" "cu_first s' = cu_first s"
    using persistsE [OF conjunct2 [OF one] Cons.prems(2)] .
  have "cu_merchant c = cu_merchant s' \<and> older s' c" if c: "c \<in> set ?cs" "cu_id c \<in> set losers" for c
  proof -
    obtain d where "d \<in> set cs" "cu_id c = cu_id d" "cu_merchant c = cu_merchant d" "cu_first c = cu_first d"
      using c(1) by (auto simp: merge_customer_def set_update split: if_splits)
    then show ?thesis using Cons.prems(3) [of d] c(2) s' older_same [of s d s' c] by auto
  qed
  from Cons.IH [OF conjunct1 [OF one] s'(1) this]
  show ?case using persists_trans [OF conjunct2 [OF one]] s'(2) by simp
qed

lemma resolve_txn_ok:
  assumes ok: "customers_ok cs" and seen: "persists seen cs" and new: "\<forall>c\<in>set cs. cu_id c \<noteq> i"
    and r: "resolve_in_txn L now i merchant handles evidence seen cs = Written (x, cs')"
  shows "customers_ok cs' \<and> persists cs cs'"
proof (cases "gather_owners merchant handles seen")
  case Nil
  then have "insert_customer now i merchant handles cs = Written (x, cs')"
    using r by (simp add: resolve_in_txn_def apply_resolution_def plan_resolution_def)
  then show ?thesis using insert_ok [OF ok new] by blast
next
  case (Cons c ds)
  obtain s where s: "owns merchant handles seen s"
    "plan_resolution (gather_owners merchant handles seen) handles evidence = \<lparr>rp_create = False, rp_survivor = Some (cu_id s),
       rp_losers = map cu_id (filter (\<lambda>d. cu_id d \<noteq> cu_id s) (c # ds)), rp_writes = plan_handle_writes (cu_handles s) handles evidence\<rparr>"
    "\<And>d. d \<in> set (c # ds) \<Longrightarrow> cu_id d \<noteq> cu_id s \<Longrightarrow> owns merchant handles seen d \<and> older s d"
    by (rule plan_of_owners [OF Cons, of evidence]) (rule that)
  let ?losers = "map cu_id (filter (\<lambda>d. cu_id d \<noteq> cu_id s) (c # ds))"
  have ap: "apply_handles L now (cu_id s) (plan_handle_writes (cu_handles s) handles evidence)
      (fold (\<lambda>l. merge_customer now l (cu_id s)) ?losers cs) = Written cs'"
    using r unfolding resolve_in_txn_def apply_resolution_def s(2) resolution_plan.select_convs Let_def option.sel if_False
    by (simp only: split: written.splits) simp_all
  obtain t where t: "t \<in> set cs" "cu_id t = cu_id s" "cu_merchant t = cu_merchant s" "cu_first t = cu_first s"
    using persistsE [OF seen] owns_row [OF s(1)] by blast
  have "cu_merchant e = cu_merchant t \<and> older t e" if e: "e \<in> set cs" "cu_id e \<in> set ?losers" for e
  proof -
    obtain d where d: "d \<in> set (c # ds)" "cu_id d \<noteq> cu_id s" "cu_id e = cu_id d" 
      using e(2) unfolding set_map set_filter by blast
    have o: "owns merchant handles seen d" "older s d" using s(3) [OF d(1,2)] by blast+
    obtain d' where d': "d' \<in> set cs" "cu_id d' = cu_id d" "cu_merchant d' = cu_merchant d" "cu_first d' = cu_first d"
      using persistsE [OF seen] owns_row [OF o(1)] by blast
    have "e = d'" using row_unique [OF ok e(1) d'(1)] d(3) d'(2) by simp
    then show ?thesis using d' t o(2) owns_row [OF o(1)] owns_row [OF s(1)] older_same [OF o(2) t(2,4) d'(2,4)] by simp
  qed
  then have m: "customers_ok (fold (\<lambda>l. merge_customer now l (cu_id t)) ?losers cs)
      \<and> persists cs (fold (\<lambda>l. merge_customer now l (cu_id t)) ?losers cs)"
    by (rule merges_ok [OF ok t(1)])
  then show ?thesis using apply_handles_ok [OF _ ap] persists_trans unfolding t(2) by blast
qed
section \<open>A letter names one person\<close>

lemma normalized_key: "normalize_handle h = Some (k, v) \<Longrightarrow> fst h = k \<and> k \<in> set handle_columns \<and> v \<noteq> []"
  by (auto simp: normalize_handle_def normalize_email_def Let_def e164_def split: prod.splits if_splits
      dest!: normalize_e164)

lemma normalized_in:
  assumes "(k, v) \<in> set (normalize_handles handles)"
  shows "k \<in> set handle_columns \<and> v \<noteq> [] \<and> k \<in> fst ` set handles"
proof -
  obtain h where h: "h \<in> set handles" "normalize_handle h = Some (k, v)"
    using assms by (auto simp: normalize_handles_def List.map_filter_def)
  show ?thesis using normalized_key [OF h(2)] h(1) by force
qed

lemma normalized_distinct: "distinct (map fst handles) \<Longrightarrow> distinct (map fst (normalize_handles handles))"
proof (induction handles)
  case (Cons h hs)
  have ih: "distinct (map fst (normalize_handles hs))" using Cons by simp
  show ?case
  proof (cases "normalize_handle h")
    case None
    then show ?thesis using ih by (simp add: normalize_handles_def List.map_filter_simps)
  next
    case (Some kv)
    obtain k v where kv: "kv = (k, v)" by (cases kv)
    have "k \<notin> fst ` set (normalize_handles hs)"
    proof
      assume "k \<in> fst ` set (normalize_handles hs)"
      then obtain u where "(k, u) \<in> set (normalize_handles hs)" by auto
      then have "k \<in> fst ` set hs" using normalized_in by blast
      then show False using Cons.prems normalized_key [of h k v] Some kv by simp
    qed
    then show ?thesis using ih Some kv by (simp add: normalize_handles_def List.map_filter_simps)
  qed
qed (simp add: normalize_handles_def List.map_filter_simps)

lemma lower_lower [simp]: "lower (lower s) = lower s"
  by (simp add: lower_def lower_char_def is_upper_def)

lemma normalized_checks: "handle_checks (filter (\<lambda>(k, v). P k v) (normalize_handles handles))"
proof -
  have "e164 v" if "map_of (filter (\<lambda>(k, v). P k v) (normalize_handles handles)) ''phone'' = Some v" for v
    using map_of_SomeD [OF that]
    by (auto simp: normalize_handles_def List.map_filter_def normalize_handle_def normalize_e164 split: if_splits)
  moreover have "v = lower v" if "map_of (filter (\<lambda>(k, v). P k v) (normalize_handles handles)) ''email'' = Some v" for v
    using map_of_SomeD [OF that]
    by (auto simp: normalize_handles_def List.map_filter_def normalize_handle_def normalize_email_def Let_def split: if_splits)
  ultimately show ?thesis by (simp add: handle_checks_def split: option.split)
qed

lemma update_key: "fst ` set (AList.update k v xs) = insert k (fst ` set xs)"
  using dom_update [of k v xs] by (simp add: dom_map_of_conv_image_fst)

lemma gather_keeps: "fst ` set xs \<subseteq> fst ` set (fold (gather_step merchant handles cs) ks xs)"
proof (induction ks arbitrary: xs)
  case (Cons k ks)
  have "fst ` set xs \<subseteq> fst ` set (gather_step merchant handles cs k xs)"
    by (auto simp: gather_step_def update_key split: option.splits)
  then show ?case using Cons.IH [of "gather_step merchant handles cs k xs"] by simp
qed simp

lemma gather_complete:
  assumes "k \<in> set handle_columns" and "map_of handles k = Some v" and "v \<noteq> []" and "probe_customer merchant k v cs = Some c"
  shows "\<exists>d\<in>set (gather_owners merchant handles cs). cu_id d = cu_id c"
proof -
  have "cu_id c \<in> fst ` set (fold (gather_step merchant handles cs) ks xs)" if "k \<in> set ks" for ks and xs :: "(string \<times> customer) list"
    using that
  proof (induction ks arbitrary: xs)
    case (Cons j ks)
    show ?case
    proof (cases "j = k")
      case True
      have "cu_id c \<in> fst ` set (gather_step merchant handles cs k xs)"
        using assms by (simp add: gather_step_def update_key)
      then show ?thesis using gather_keeps [of "gather_step merchant handles cs k xs" merchant handles cs ks] True by auto
    next
      case False
      then show ?thesis using Cons.IH [of "gather_step merchant handles cs j xs"] Cons.prems by simp
    qed
  qed simp
  then obtain x where "x \<in> set (fold (gather_step merchant handles cs) handle_columns [])" "fst x = cu_id c"
    using assms(1) by (metis imageE)
  then show ?thesis using gather_owns [of "[]" merchant handles cs handle_columns x] unfolding gather_fold by force
qed

text \<open>Nobody but the survivor is left to carry one of the handles.\<close>

lemma merge_rows:
  "x \<in> set (fold (\<lambda>l. merge_customer now l s) losers cs) \<Longrightarrow> cu_status x = Active \<Longrightarrow> x \<in> set cs \<and> cu_id x \<notin> set losers"
proof (induction losers arbitrary: cs)
  case (Cons l losers)
  have "x \<in> set (merge_customer now l s cs) \<and> cu_id x \<notin> set losers" using Cons by simp
  then show ?case using Cons.prems(2) by (auto simp: merge_customer_def set_update split: if_splits)
qed simp

lemma merge_spares:
  "x \<in> set cs \<Longrightarrow> cu_id x \<notin> set losers \<Longrightarrow> x \<in> set (fold (\<lambda>l. merge_customer now l s) losers cs)"
proof (induction losers arbitrary: cs)
  case (Cons l losers)
  have "x \<in> set (merge_customer now l s cs)" using Cons.prems by (auto simp: merge_customer_def set_update intro!: image_eqI [of _ _ x])
  then show ?case using Cons by simp
qed simp

lemma nobody_else:
  assumes ok: "customers_ok cs" and kv: "k \<in> set handle_columns" "map_of handles k = Some v" "v \<noteq> []"
    and owners: "gather_owners merchant handles cs = c # ds"
    and x: "x \<in> set (fold (\<lambda>l. merge_customer now l s) (map cu_id (filter (\<lambda>d. cu_id d \<noteq> s) (c # ds))) cs)"
    and carry: "holds_handle merchant k v x"
  shows "cu_id x = s"
proof (rule ccontr)
  assume n: "cu_id x \<noteq> s"
  have x': "x \<in> set cs" "cu_id x \<notin> set (map cu_id (filter (\<lambda>d. cu_id d \<noteq> s) (c # ds)))"
    using merge_rows [OF x] carry unfolding holds_handle_def by blast+
  have "probe_customer merchant k v cs \<noteq> None" using x'(1) carry by (auto simp: probe_customer_def find_None_iff_set)
  then obtain y where y: "probe_customer merchant k v cs = Some y" by blast
  then have "y \<in> set cs" "holds_handle merchant k v y" using probe_some by blast+
  then have "shared x y" using carry kv(1) by (intro carries_shared) (auto simp: holds_handle_def)
  then have "x = y" using ok x'(1) \<open>y \<in> set cs\<close> unfolding customers_ok_def by blast
  then obtain d where d: "d \<in> set (c # ds)" "cu_id d = cu_id x" using gather_complete [OF kv y] owners by auto
  then have "d \<in> set (filter (\<lambda>d. cu_id d \<noteq> s) (c # ds))" using n unfolding set_filter by simp
  then have "cu_id x \<in> set (map cu_id (filter (\<lambda>d. cu_id d \<noteq> s) (c # ds)))"
    unfolding set_map d(2) [symmetric] by (rule imageI)
  then show False using x'(2) by contradiction
qed
lemma map_of_distinct: "distinct (map fst hs) \<Longrightarrow> (k, v) \<in> set hs \<Longrightarrow> map_of hs k = Some v"
  by simp

text \<open>Nobody is found: one row is born.\<close>

lemma born:
  assumes ok: "customers_ok cs" and hs: "hs = normalize_handles handles" "distinct (map fst hs)"
    and none: "gather_owners merchant hs cs = []"
  shows "\<exists>cs'. resolve_in_txn L now i merchant hs evidence cs cs = Written (i, cs')
    \<and> (\<exists>c\<in>set cs'. cu_id c = i \<and> cu_merchant c = merchant \<and> cu_status c = Active)
    \<and> (\<forall>(k, v)\<in>set hs. \<exists>c. probe_customer merchant k v cs' = Some c \<and> cu_id c = i)"
proof -
  have all: "k \<in> set handle_columns \<and> v \<noteq> [] \<and> map_of hs k = Some v" if "(k, v) \<in> set hs" for k v
    using normalized_in [of k v handles] map_of_distinct [OF hs(2) that] that unfolding hs(1) by blast
  have free: "probe_customer merchant k v cs = None" if kv: "(k, v) \<in> set hs" for k v
    using gather_complete [of k hs v merchant cs] all [OF kv] none by (cases "probe_customer merchant k v cs") auto
  have held: "filter (\<lambda>(k, v). k \<in> set handle_columns \<and> v \<noteq> []) hs = hs"
    by (rule filter_True) (use all in auto)
  have checks: "handle_checks hs" using normalized_checks [of "\<lambda>k v. True" handles] by (simp add: hs(1))
  have nobody: "\<not> list_ex (\<lambda>(k, v). list_ex (holds_handle merchant k v) cs) hs"
    using free unfolding list_ex_iff probe_customer_def find_None_iff_set by fast
  let ?r = "\<lparr>cu_id = i, cu_merchant = merchant, cu_name = None, cu_locale = None, cu_zone = None,
     cu_handles = hs, cu_status = Active, cu_into = None, cu_merged = None, cu_first = now, cu_last = now, cu_attributes = []\<rparr>"
  have "resolve_in_txn L now i merchant hs evidence cs cs = Written (i, cs @ [?r])"
    using checks nobody by (simp add: resolve_in_txn_def apply_resolution_def plan_resolution_def none insert_customer_def held Let_def)
  moreover have "probe_customer merchant k v (cs @ [?r]) = Some ?r" if kv: "(k, v) \<in> set hs" for k v
    using free [OF kv] all [OF kv] by (simp add: probe_customer_def find_append holds_handle_def)
  ultimately show ?thesis by auto
qed

text \<open>Somebody is found: the oldest stays, the others are merged into it.\<close>

lemma stapled:
  assumes ok: "customers_ok cs" and hs: "hs = normalize_handles handles" "distinct (map fst hs)"
    and owners: "gather_owners merchant hs cs = c # ds" and ev: "evidence \<in> resolve_evidence"
  shows "\<exists>x cs'. resolve_in_txn L now i merchant hs evidence cs cs = Written (x, cs')
    \<and> (\<exists>c\<in>set cs'. cu_id c = x \<and> cu_merchant c = merchant \<and> cu_status c = Active)
    \<and> (\<forall>(k, v)\<in>set hs. case probe_customer merchant k v cs' of None \<Rightarrow> evidence = ''imported'' | Some c \<Rightarrow> cu_id c = x)"
proof -
  obtain s where s: "owns merchant hs cs s"
    "plan_resolution (gather_owners merchant hs cs) hs evidence = \<lparr>rp_create = False, rp_survivor = Some (cu_id s),
       rp_losers = map cu_id (filter (\<lambda>d. cu_id d \<noteq> cu_id s) (c # ds)), rp_writes = plan_handle_writes (cu_handles s) hs evidence\<rparr>"
    "\<And>d. d \<in> set (c # ds) \<Longrightarrow> cu_id d \<noteq> cu_id s \<Longrightarrow> owns merchant hs cs d \<and> older s d"
    by (rule plan_of_owners [OF owners, of evidence]) (rule that)
  define x where "x = cu_id s"
  define losers where "losers = map cu_id (filter (\<lambda>d. cu_id d \<noteq> x) (c # ds))"
  define mid where "mid = fold (\<lambda>l. merge_customer now l x) losers cs"
  define held where "held = filter (\<lambda>(k, v). k \<in> set handle_columns) (plan_handle_writes (cu_handles s) hs evidence)"
  have all: "k \<in> set handle_columns \<and> v \<noteq> [] \<and> map_of hs k = Some v" if "(k, v) \<in> set hs" for k v
    using normalized_in [of k v handles] map_of_distinct [OF hs(2) that] that unfolding hs(1) by blast
  have only: "cu_id y = x" if "(k, v) \<in> set hs" "y \<in> set mid" "holds_handle merchant k v y" for k v y
    using nobody_else [OF ok _ _ _ owners, of k v y now x] all [OF that(1)] that(2,3) unfolding mid_def losers_def by blast
  have srow: "s \<in> set cs" "cu_merchant s = merchant" "cu_status s = Active" using owns_row [OF s(1)] by blast+
  have smid: "s \<in> set mid" unfolding mid_def losers_def
    by (rule merge_spares [OF srow(1)]) (auto simp: x_def)
  have mids: "cu_merchant y = merchant" if "y \<in> set mid" "cu_id y = x" for y
  proof -
    have d: "distinct (map cu_id mid)"
    proof -
      have "map cu_id (fold (\<lambda>l. merge_customer now l x) ls cs) = map cu_id cs" for ls and cs :: "customer list"
        by (induction ls arbitrary: cs) (simp_all add: merge_customer_def update_ids keeps_birth_def)
      then show ?thesis using ok by (simp add: mid_def customers_ok_def)
    qed
    then have "y = s" using that smid by (auto simp: distinct_map inj_on_def x_def)
    then show ?thesis using srow(2) by simp
  qed
  have held_in: "set held \<subseteq> set hs" by (auto simp: held_def plan_handle_writes_def)
  have checks: "handle_checks held"
    using normalized_checks [of "\<lambda>k v. k \<in> set handle_columns \<and> (case map_of (cu_handles s) k of None \<Rightarrow> True
       | Some e \<Rightarrow> e \<noteq> v \<and> evidence \<in> evidence_overwrites)" handles]
    by (simp add: held_def plan_handle_writes_def hs(1) case_prod_unfold conj_commute)
  have apart: "\<not> list_ex (\<lambda>(k, v). list_ex (\<lambda>m. list_ex (\<lambda>c. cu_id c \<noteq> x \<and> holds_handle m k v c) mid)
      (map cu_merchant (filter (\<lambda>c. cu_id c = x) mid))) held"
    using only mids held_in unfolding list_ex_iff by fastforce
  define cs' where "cs' = update_customers (\<lambda>c. cu_id c = x) (with_handles L now held) mid"
  have "apply_handles L now x (plan_handle_writes (cu_handles s) hs evidence) mid = Written cs'"
    using checks apart unfolding apply_handles_def Let_def held_def [symmetric] cs'_def by simp
  then have r: "resolve_in_txn L now i merchant hs evidence cs cs = Written (x, cs')"
    unfolding resolve_in_txn_def apply_resolution_def s(2) resolution_plan.select_convs Let_def option.sel if_False
      x_def [symmetric] losers_def [symmetric] mid_def [symmetric] by simp
  define t where "t = with_handles L now held s"
  have "(\<lambda>c. if cu_id c = x then with_handles L now held c else c) s \<in> set cs'"
    unfolding cs'_def set_update using smid by (rule imageI)
  then have t: "t \<in> set cs'" "cu_id t = x" "cu_merchant t = merchant" "cu_status t = Active"
      "cu_handles t = dmerge (cu_handles s) held"
    using srow by (simp_all add: t_def x_def)
  have dheld: "distinct (map fst held)"
    using hs(2) by (simp add: held_def plan_handle_writes_def distinct_map inj_on_def)
  have probed: "cu_id y = x" if kv: "(k, v) \<in> set hs" and y: "probe_customer merchant k v cs' = Some y" for k v y
  proof -
    obtain z where z: "z \<in> set mid" "y = (if cu_id z = x then with_handles L now held z else z)"
      using probe_some [OF y] unfolding cs'_def set_update by blast
    show ?thesis
    proof (cases "cu_id z = x")
      case False
      then show ?thesis using only [OF kv z(1)] probe_some [OF y] z(2) by simp
    qed (simp add: z(2))
  qed
  have found: "probe_customer merchant k v cs' \<noteq> None \<or> evidence = ''imported''" if kv: "(k, v) \<in> set hs" for k v
  proof -
    have k: "k \<in> set handle_columns" using all [OF kv] by blast
    consider "(k, v) \<in> set held" | "map_of (cu_handles s) k = Some v" "(k, v) \<notin> set held" | "evidence \<notin> evidence_overwrites"
      using kv k by (cases "map_of (cu_handles s) k") (auto simp: held_def plan_handle_writes_def)
    then show ?thesis
    proof cases
      case 1
      then have "map_of (cu_handles t) k = Some v" using dheld by (simp add: t(5) map_of_dmerge_distinct map_add_def)
      then have "holds_handle merchant k v t" using t by (simp add: holds_handle_def)
      then show ?thesis using t(1) by (auto simp: probe_customer_def find_None_iff_set)
    next
      case 2
      have "k \<notin> fst ` set held"
      proof
        assume "k \<in> fst ` set held"
        then obtain u where u: "(k, u) \<in> set held" by auto
        then have "map_of hs k = Some u" using map_of_distinct [OF hs(2)] held_in by blast
        then show False using u 2(2) all [OF kv] by simp
      qed
      then have "map_of (cu_handles t) k = Some v" using 2(1) by (simp add: t(5) map_of_dmerge_other)
      then have "holds_handle merchant k v t" using t by (simp add: holds_handle_def)
      then show ?thesis using t(1) by (auto simp: probe_customer_def find_None_iff_set)
    next
      case 3
      then show ?thesis using ev by (simp add: evidence_overwrites_def resolve_evidence_def)
    qed
  qed
  have "\<forall>(k, v)\<in>set hs. case probe_customer merchant k v cs' of None \<Rightarrow> evidence = ''imported'' | Some c \<Rightarrow> cu_id c = x"
    using probed found by (fastforce split: option.split)
  then show ?thesis using r t by blast
qed

text \<open>
  C28 A letter names one person.  Whatever customers its handles named before, resolving them succeeds
  and gives one active customer of the merchant; from then on each of the letter's handles names that
  customer and nobody else -- unless the evidence was only imported, where a handle the customer
  already had another value of may be left naming nobody.
\<close>

theorem a_letter_names_one_person:
  assumes "customers_ok cs" and "\<forall>c\<in>set cs. cu_id c \<noteq> i" and "distinct (map fst handles)" and "merchant \<noteq> []"
    and "evidence \<in> resolve_evidence" and "normalize_handles handles \<noteq> []"
  shows "\<exists>x cs'. resolve_customer L now i merchant handles evidence (cs, cs) again = Some (x, cs') \<and> customers_ok cs'
    \<and> (\<exists>c\<in>set cs'. cu_id c = x \<and> cu_merchant c = merchant \<and> cu_status c = Active)
    \<and> (\<forall>(k, v)\<in>set (normalize_handles handles). case probe_customer merchant k v cs' of
          None \<Rightarrow> evidence = ''imported'' | Some c \<Rightarrow> cu_id c = x)"
proof -
  let ?hs = "normalize_handles handles"
  have d: "distinct (map fst ?hs)" using assms(3) by (rule normalized_distinct)
  have "\<exists>x cs'. resolve_in_txn L now i merchant ?hs evidence cs cs = Written (x, cs')
    \<and> (\<exists>c\<in>set cs'. cu_id c = x \<and> cu_merchant c = merchant \<and> cu_status c = Active)
    \<and> (\<forall>(k, v)\<in>set ?hs. case probe_customer merchant k v cs' of None \<Rightarrow> evidence = ''imported'' | Some c \<Rightarrow> cu_id c = x)"
  proof (cases "gather_owners merchant ?hs cs")
    case Nil
    show ?thesis using born [OF assms(1) refl d Nil, of L now i evidence] by fastforce
  next
    case (Cons c ds)
    show ?thesis by (rule stapled [OF assms(1) refl d Cons assms(5)])
  qed
  then obtain x cs' where r: "resolve_in_txn L now i merchant ?hs evidence cs cs = Written (x, cs')"
      "\<exists>c\<in>set cs'. cu_id c = x \<and> cu_merchant c = merchant \<and> cu_status c = Active"
      "\<forall>(k, v)\<in>set ?hs. case probe_customer merchant k v cs' of None \<Rightarrow> evidence = ''imported'' | Some c \<Rightarrow> cu_id c = x"
    by blast
  have "resolve_customer L now i merchant handles evidence (cs, cs) again = Some (x, cs')"
    using assms(4-6) r(1) by (simp add: resolve_customer_def Let_def)
  moreover have "customers_ok cs'" using resolve_txn_ok [OF assms(1) persists_refl assms(2) r(1)] by blast
  ultimately show ?thesis using r by blast
qed
section \<open>The columns say what the history says\<close>

fun text_of :: "json \<Rightarrow> string option" where
  "text_of (JStr s) = Some s" | "text_of _ = None"

definition own_claim :: "dict \<Rightarrow> bool" where
  "own_claim d \<longleftrightarrow> map_of d ''e'' \<noteq> None \<and> map_of d ''at'' \<noteq> None
     \<and> (case dget d ''e'' of JStr e \<Rightarrow> map_of evidence_rank e \<noteq> None | _ \<Rightarrow> False)"

text \<open>What the history believes of one attribute: its winner, unless that is a guess.\<close>

definition believed :: "dict list \<Rightarrow> string option" where
  "believed ds = (case winner ds of None \<Rightarrow> None
     | Some w \<Rightarrow> (if dget w ''e'' = JStr ''inferred'' then None else text_of (dget w ''v'')))"

definition says :: "dict \<Rightarrow> string \<Rightarrow> string option \<Rightarrow> bool" where
  "says attributes name col \<longleftrightarrow> (case Option.bind (bucket attributes name) claims_of of None \<Rightarrow> False
     | Some ds \<Rightarrow> list_all own_claim ds \<and> col = believed ds)"

definition facts_ok :: "customer \<Rightarrow> bool" where
  "facts_ok c \<longleftrightarrow> says (cu_attributes c) ''name'' (cu_name c) \<and> says (cu_attributes c) ''locale'' (cu_locale c)
     \<and> says (cu_attributes c) ''timezone'' (cu_zone c)"

lemma best_claim_max:
  "best_claim b cs = Some w \<Longrightarrow> \<exists>r. claim_rank w = Some r \<and> (\<forall>c\<in>set (b # cs). \<exists>s. claim_rank c = Some s \<and> s \<le> r)"
proof (induction cs arbitrary: b)
  case Nil
  then show ?case by (auto split: if_splits)
next
  case (Cons c cs)
  obtain x where x: "claim_beats c b = Some x" "best_claim (if x then c else b) cs = Some w"
    using Cons.prems by (auto split: option.splits)
  obtain r where r: "claim_rank w = Some r" "\<forall>d\<in>set ((if x then c else b) # cs). \<exists>s. claim_rank d = Some s \<and> s \<le> r"
    using Cons.IH [OF x(2)] by blast
  obtain p q where pq: "claim_rank c = Some p" "claim_rank b = Some q" "if x then q \<le> p else p \<le> q"
    using x(1) by (auto simp: claim_beats_def split: option.splits if_splits)
  have "q \<le> r \<and> p \<le> r" using r(2) pq by (cases x) auto
  then show ?case using r pq by (cases x) auto
qed

lemma winner_max: "winner ds = Some w \<Longrightarrow> d \<in> set ds \<Longrightarrow> \<exists>r s. claim_rank w = Some r \<and> claim_rank d = Some s \<and> s \<le> r"
  using best_claim_max by (cases ds) (force simp: winner_def)+

lemma guess_rank: "own_claim d \<Longrightarrow> claim_rank d = Some r \<Longrightarrow> (dget d ''e'' = JStr ''inferred'') = (r = 0) \<and> 0 \<le> r"
  by (auto simp: own_claim_def claim_rank_def evidence_rank_def split: json.splits if_splits)

lemma best_claim_in: "best_claim b cs = Some w \<Longrightarrow> w \<in> set (b # cs)"
proof (induction cs arbitrary: b)
  case Nil
  then show ?case by (auto split: if_splits)
next
  case (Cons c cs)
  obtain x where "best_claim (if x then c else b) cs = Some w" using Cons.prems by (auto split: option.splits)
  then show ?case using Cons.IH by (cases x) auto
qed

lemma winner_in: "winner ds = Some w \<Longrightarrow> w \<in> set ds"
  using best_claim_in by (cases ds) (auto simp: winner_def)

text \<open>A guess wins only over guesses.\<close>

lemma guess_wins:
  assumes "list_all own_claim ds" and "own_claim n" and "winner (ds @ [n]) = Some w" and "dget w ''e'' = JStr ''inferred''"
  shows "believed ds = None"
proof (cases "winner ds")
  case (Some u)
  have u: "u \<in> set ds" using Some by (rule winner_in)
  obtain r s where rs: "claim_rank w = Some r" "claim_rank u = Some s" "s \<le> r"
    using winner_max [OF assms(3), of u] u by auto
  have "own_claim w" using winner_in [OF assms(3)] assms(1,2) by (auto simp: list_all_iff)
  moreover have "own_claim u" using u assms(1) by (simp add: list_all_iff)
  ultimately have "dget u ''e'' = JStr ''inferred''" using guess_rank rs assms(4) by fastforce
  then show ?thesis by (simp add: believed_def Some)
qed (simp add: believed_def)

lemma claims_of_snoc: "claims_of (xs @ [JObj d]) = map_option (\<lambda>ds. ds @ [d]) (claims_of xs)"
  by (induction xs rule: claims_of.induct) (simp_all add: option.map_comp o_def)

definition told :: "(string \<Rightarrow> string option) \<Rightarrow> (string \<times> json) list \<Rightarrow> string \<Rightarrow> string option" where
  "told base columns col = (case map_of columns col of None \<Rightarrow> base col | Some v \<Rightarrow> text_of v)"

definition all_says :: "(string \<Rightarrow> string option) \<Rightarrow> dict \<Rightarrow> (string \<times> json) list \<Rightarrow> bool" where
  "all_says base attributes columns \<longleftrightarrow> (\<forall>(name, col)\<in>set materialized_columns. says attributes name (told base columns col))
     \<and> distinct (map fst columns) \<and> fst ` set columns \<subseteq> snd ` set materialized_columns"

lemma bucket_update: "bucket (AList.update n (JList xs) A) m = (if m = n then Some xs else bucket A m)"
  by (simp add: bucket_def update_conv')

lemma says_update_other: "m \<noteq> n \<Longrightarrow> says (AList.update n (JList xs) A) m col = says A m col"
  by (simp add: says_def bucket_update)

lemma says_default: "map_of A n = None \<Longrightarrow> says (AList.update n (JList []) A) m col = says A m col"
  by (simp add: says_def bucket_update) (simp add: bucket_def)
lemma keys_inj: "(n, col) \<in> set materialized_columns \<Longrightarrow> (m, col') \<in> set materialized_columns \<Longrightarrow> (col = col') = (n = m)"
  by (auto simp: materialized_columns_def)

lemma all_saysD: "all_says base A C \<Longrightarrow> (n, col) \<in> set materialized_columns \<Longrightarrow> says A n (told base C col)"
  unfolding all_says_def by fast

text \<open>One claim.\<close>

lemma claim_says:
  assumes inv: "all_says base A C" and b: "bucket A name = Some xs" and ev: "map_of evidence_rank evidence \<noteq> None"
    and w: "Option.bind (claims_of (xs @ [JObj (new_claim val evidence k source now)])) winner = Some w"
  defines "A' \<equiv> AList.update name (JList (xs @ [JObj (new_claim val evidence k source now)])) A"
    and "C' \<equiv> (case map_of materialized_columns name of None \<Rightarrow> C
      | Some col \<Rightarrow> (if dget w ''e'' = JStr ''inferred'' then C else AList.update col (dget w ''v'') C))"
  shows "all_says base A' C'"
proof -
  let ?n = "new_claim val evidence k source now"
  have own: "own_claim ?n" using ev by (auto simp: own_claim_def new_claim_def dget_def)
  obtain ds where ds: "claims_of xs = Some ds" "winner (ds @ [?n]) = Some w"
    using w by (auto simp: claims_of_snoc bind_eq_Some_conv)
  have keys: "distinct (map fst C') \<and> fst ` set C' \<subseteq> snd ` set materialized_columns"
  proof -
    have "distinct (map fst C)" "fst ` set C \<subseteq> snd ` set materialized_columns" using inv by (simp_all add: all_says_def)
    moreover have "col \<in> snd ` set materialized_columns" if "map_of materialized_columns name = Some col" for col
      using map_of_SomeD [OF that] by force
    ultimately show ?thesis
      by (auto simp: C'_def update_key distinct_update split: option.split)
  qed
  have "says A' m (told base C' col)" if m: "(m, col) \<in> set materialized_columns" for m col
  proof (cases "m = name")
    case False
    have "told base C' col = told base C col"
    proof (cases "map_of materialized_columns name")
      case (Some c)
      then have "col \<noteq> c" using keys_inj [OF m map_of_SomeD] False by blast
      then show ?thesis by (simp add: C'_def Some told_def update_conv')
    qed (simp add: C'_def)
    then show ?thesis using all_saysD [OF inv m] False by (simp add: A'_def says_update_other)
  next
    case True
    have col: "map_of materialized_columns name = Some col" using m True by (auto simp: materialized_columns_def)
    have old: "list_all own_claim ds" "told base C col = believed ds"
      using all_saysD [OF inv m] True b ds(1) by (simp_all add: says_def)
    have "told base C' col = believed (ds @ [?n])"
    proof (cases "dget w ''e'' = JStr ''inferred''")
      case True
      then show ?thesis using guess_wins [OF old(1) own ds(2)] old(2) by (simp add: C'_def col believed_def ds(2))
    next
      case False
      then show ?thesis by (simp add: C'_def col believed_def ds(2) told_def update_conv')
    qed
    then show ?thesis using True old(1) own ds(1) by (simp add: says_def A'_def bucket_update claims_of_snoc)
  qed
  then show ?thesis using keys unfolding all_says_def by blast
qed

lemma assert_each_says:
  assumes "assert_each evidence k source now facts (A, C) = Some (A', C')" and "all_says base A C"
    and "map_of evidence_rank evidence \<noteq> None"
  shows "all_says base A' C'"
  using assms
proof (induction facts arbitrary: A C)
  case (Cons f facts)
  obtain name val where f: "f = (name, val)" by (cases f)
  obtain xs where xs: "bucket A name = Some xs" using Cons.prems(1) by (auto simp: f split: option.splits)
  let ?K = "if map_of A name = None then AList.update name (JList []) A else A"
  have K: "all_says base ?K C" using Cons.prems(2) by (simp add: all_says_def says_default)
  have Kb: "bucket ?K name = Some xs" using xs by (auto simp: bucket_def update_conv')
  obtain d where d: "is_drift xs val evidence source = Some d"
    using Cons.prems(1) by (auto simp: f xs Let_def split: option.splits)
  show ?case
  proof (cases d)
    case False
    then have "assert_each evidence k source now facts (?K, C) = Some (A', C')" using Cons.prems(1) by (simp add: f xs d Let_def)
    then show ?thesis using Cons.IH K Cons.prems(3) by blast
  next
    case True
    let ?n = "new_claim val evidence k source now"
    obtain w where w: "Option.bind (claims_of (xs @ [JObj ?n])) winner = Some w"
      using Cons.prems(1) True by (auto simp: f xs d Let_def split: option.splits)
    let ?A = "AList.update name (JList (xs @ [JObj ?n])) ?K"
    let ?C = "case map_of materialized_columns name of None \<Rightarrow> C
      | Some col \<Rightarrow> (if dget w ''e'' = JStr ''inferred'' then C else AList.update col (dget w ''v'') C)"
    have "assert_each evidence k source now facts (?A, ?C) = Some (A', C')"
      using Cons.prems(1) unfolding f by (simp only: assert_each.simps xs d True Let_def w option.case bool.case)
    moreover have "all_says base ?A ?C" by (rule claim_says [OF K Kb Cons.prems(3) w])
    ultimately show ?thesis using Cons.IH Cons.prems(3) by blast
  qed
qed simp

text \<open>The row the columns are written to.\<close>

definition column :: "customer \<Rightarrow> string \<Rightarrow> string option" where
  "column c col = (if col = ''display_name'' then cu_name c else if col = ''primary_locale'' then cu_locale c else cu_zone c)"

lemma set_columns:
  assumes "distinct (map fst C)" and "fst ` set C \<subseteq> snd ` set materialized_columns" and "\<forall>(col, v)\<in>set C. column_text v \<noteq> None"
    and "col \<in> snd ` set materialized_columns"
  shows "column (fold set_column C c) col = told (column c) C col"
  using assms(1-3)
proof (induction C arbitrary: c)
  case Nil
  then show ?case by (simp add: told_def)
next
  case (Cons kv C)
  obtain k v where kv: "kv = (k, v)" by (cases kv)
  have v: "(case column_text v of Some t \<Rightarrow> t | None \<Rightarrow> None) = text_of v" using Cons.prems(3) by (cases v) (auto simp: kv)
  have "k \<in> snd ` set materialized_columns" using Cons.prems(2) by (simp add: kv)
  then have one: "column (set_column kv c) j = (if j = k then text_of v else column c j)"
    if "j \<in> snd ` set materialized_columns" for j
    using that v by (auto simp: kv set_column_def column_def materialized_columns_def Let_def)
  have "column (fold set_column (kv # C) c) col = told (column (set_column kv c)) C col"
    using Cons.IH [of "set_column kv c"] Cons.prems by (simp add: kv)
  moreover have "map_of C k = None" using Cons.prems(1) by (simp add: kv map_of_eq_None_iff)
  ultimately show ?case using one [OF assms(4)] by (cases "col = k") (simp_all add: told_def kv split: option.split)
qed

lemma set_column_keeps: "cu_id (fold set_column C c) = cu_id c" "cu_merchant (fold set_column C c) = cu_merchant c"
    "cu_first (fold set_column C c) = cu_first c" "cu_status (fold set_column C c) = cu_status c"
    "cu_into (fold set_column C c) = cu_into c" "cu_handles (fold set_column C c) = cu_handles c"
    "cu_attributes (fold set_column C c) = cu_attributes c"
  by (induction C arbitrary: c) (simp_all add: set_column_def Let_def split: prod.splits)

lemma facts_ok_columns: "facts_ok c \<longleftrightarrow> (\<forall>(name, col)\<in>set materialized_columns. says (cu_attributes c) name (column c col))"
  by (auto simp: facts_ok_def materialized_columns_def column_def)

lemma asserted:
  assumes "assert_facts L k now merchant i facts evidence source confidence cs = Some (b, cs')"
    and "distinct (map cu_id cs)" and "list_all facts_ok cs"
  shows "cs' = cs \<or> (\<exists>C A. cs' = update_customers (\<lambda>c. cu_merchant c = merchant \<and> cu_id c = i)
      (\<lambda>c. fold set_column C (c\<lparr>cu_attributes := A\<rparr>)) cs) \<and> list_all facts_ok cs'"
proof -
  let ?told = "filter (\<lambda>(n, v). \<not> blank v) facts"
  obtain conf where conf: "claim_confidence evidence confidence = Some conf" using assms(1) by (auto simp: assert_facts_def split: option.splits)
  have rank: "map_of evidence_rank evidence \<noteq> None"
    using assms(1) by (auto simp: assert_facts_def conf Let_def split: if_splits)
  show ?thesis
  proof (cases "?told = [] \<or> get_customer merchant i cs = None")
    case True
    then have "cs' = cs" using assms(1) rank by (auto simp: assert_facts_def conf Let_def split: if_splits option.splits)
    then show ?thesis by simp
  next
    case False
    then obtain c where c: "?told \<noteq> []" "get_customer merchant i cs = Some c" by auto
    then obtain A C where each: "assert_each evidence (k conf) source (iso_format L now) ?told (cu_attributes c, []) = Some (A, C)"
        and up: "update_attributes merchant i A C cs = Some cs'"
      using assms(1) rank by (auto simp: assert_facts_def conf Let_def split: option.splits prod.splits)
    have crow: "c \<in> set cs" "cu_merchant c = merchant" "cu_id c = i"
      using c(2) by (auto simp: get_customer_def dest: find_Some_set)
    have cs': "cs' = update_customers (\<lambda>c. cu_merchant c = merchant \<and> cu_id c = i) (\<lambda>c. fold set_column C (c\<lparr>cu_attributes := A\<rparr>)) cs"
        and typed: "\<forall>(col, v)\<in>set C. column_text v \<noteq> None"
      using up by (auto simp: update_attributes_def list_ex_iff split: if_splits)
    have "facts_ok c" using assms(3) crow(1) by (simp add: list_all_iff)
    then have "all_says (column c) (cu_attributes c) []" by (auto simp: all_says_def told_def facts_ok_columns)
    then have all: "all_says (column c) A C" using assert_each_says [OF each _ rank] by blast
    have new: "facts_ok (fold set_column C (c\<lparr>cu_attributes := A\<rparr>))"
      unfolding facts_ok_columns
    proof clarify
      fix name col assume m: "(name, col) \<in> set materialized_columns"
      have "column (fold set_column C (c\<lparr>cu_attributes := A\<rparr>)) col = told (column (c\<lparr>cu_attributes := A\<rparr>)) C col"
      proof (rule set_columns [OF _ _ typed])
        show "distinct (map fst C)" "fst ` set C \<subseteq> snd ` set materialized_columns" using all by (simp_all add: all_says_def)
        show "col \<in> snd ` set materialized_columns" using imageI [OF m, of snd] by simp
      qed
      moreover have "column (c\<lparr>cu_attributes := A\<rparr>) = column c" by (simp add: column_def fun_eq_iff)
      ultimately show "says (cu_attributes (fold set_column C (c\<lparr>cu_attributes := A\<rparr>))) name
          (column (fold set_column C (c\<lparr>cu_attributes := A\<rparr>)) col)"
        using all_saysD [OF all m] by (simp add: set_column_keeps)
    qed
    have "facts_ok x" if x: "x \<in> set cs'" for x
    proof -
      obtain y where y: "y \<in> set cs" "x = (if cu_merchant y = merchant \<and> cu_id y = i then fold set_column C (y\<lparr>cu_attributes := A\<rparr>) else y)"
        using x unfolding cs' set_update by blast
      show ?thesis
      proof (cases "cu_merchant y = merchant \<and> cu_id y = i")
        case True
        then have "y = c" using assms(2) y(1) crow by (auto simp: distinct_map inj_on_def)
        then show ?thesis using new y(2) True by simp
      next
        case False
        have "x = y" unfolding y(2) using False by (rule if_not_P)
        then show ?thesis using y(1) assms(3) by (simp add: list_all_iff)
      qed
    qed
    then show ?thesis using cs' by (auto simp: list_all_iff)
  qed
qed

section \<open>Whatever is resolved and asserted, in any interleaving\<close>

text \<open>
  The states the table goes through, the latest first.  A resolution may have read any state before
  its writes land.
\<close>

inductive identity_past :: "lib \<Rightarrow> customer list list \<Rightarrow> bool" for L where
  begins: "identity_past L [[]]"
| resolves: "identity_past L (cs # past) \<Longrightarrow> seen \<in> set (cs # past) \<Longrightarrow> \<forall>c\<in>set cs. cu_id c \<noteq> i \<Longrightarrow>
    resolve_in_txn L now i merchant (normalize_handles handles) evidence seen cs = Written (x, cs') \<Longrightarrow>
    identity_past L (cs' # cs # past)"
| asserts: "identity_past L (cs # past) \<Longrightarrow>
    assert_facts L k now merchant i facts evidence source confidence cs = Some (b, cs') \<Longrightarrow> identity_past L (cs' # cs # past)"
| keeps: "identity_past L (cs # past) \<Longrightarrow> map_of materialized_columns key = None \<Longrightarrow>
    mutate_customer_attribute i key (mutation :: json \<Rightarrow> json \<times> json) expected cs = (r, cs') \<Longrightarrow> identity_past L (cs' # cs # past)"

text \<open>The one a customer is now: the end of its merges.\<close>

fun follow :: "nat \<Rightarrow> customer list \<Rightarrow> string \<Rightarrow> customer option" where
  "follow 0 cs i = None"
| "follow (Suc n) cs i = (case find (\<lambda>c. cu_id c = i) cs of None \<Rightarrow> None
     | Some c \<Rightarrow> (case cu_into c of None \<Rightarrow> Some c | Some j \<Rightarrow> follow n cs j))"

lemma find_row: "distinct (map cu_id cs) \<Longrightarrow> c \<in> set cs \<Longrightarrow> find (\<lambda>x. cu_id x = cu_id c) cs = Some c"
  by (induction cs) (auto simp: image_iff)

lemma follow_ends:
  assumes "customers_ok cs" and "c \<in> set cs" and "card {d \<in> set cs. older d c} < n"
  shows "\<exists>d\<in>set cs. follow n cs (cu_id c) = Some d \<and> cu_status d = Active \<and> cu_merchant d = cu_merchant c \<and> (d = c \<or> older d c)"
  using assms(2,3)
proof (induction n arbitrary: c)
  case (Suc n)
  have f: "follow (Suc n) cs (cu_id c) = (case cu_into c of None \<Rightarrow> Some c | Some j \<Rightarrow> follow n cs j)"
    using find_row [OF _ Suc.prems(1)] assms(1) by (simp add: customers_ok_def)
  have m: "merge_ok cs c" using assms(1) Suc.prems(1) by (simp add: customers_ok_def list_all_iff)
  show ?case
  proof (cases "cu_into c")
    case None
    then show ?thesis using f m Suc.prems(1) by (auto simp: merge_ok_def)
  next
    case (Some j)
    then obtain d where d: "d \<in> set cs" "cu_id d = j" "cu_merchant d = cu_merchant c" "older d c"
      using m by (auto simp: merge_ok_def list_ex_iff)
    have "{x \<in> set cs. older x d} \<subset> {x \<in> set cs. older x c}"
      using d older_trans older_irrefl by blast
    then have "card {x \<in> set cs. older x d} < card {x \<in> set cs. older x c}" by (simp add: psubset_card_mono)
    then have "card {x \<in> set cs. older x d} < n" using Suc.prems(2) by simp
    then obtain e where "e \<in> set cs" "follow n cs (cu_id d) = Some e" "cu_status e = Active" "cu_merchant e = cu_merchant d" "e = d \<or> older e d"
      using Suc.IH [OF d(1)] by blast
    then show ?thesis using f Some d older_trans by auto
  qed
qed simp

lemma resolved_facts:
  assumes "resolve_in_txn L now i merchant handles evidence seen cs = Written (x, cs')" and "list_all facts_ok cs"
  shows "list_all facts_ok cs'"
proof -
  have kept: "map_of (cu_attributes (with_handles L now w c)) n = map_of (cu_attributes c) n" if "n \<noteq> ''_handle_history''" for w c n
    using that by (simp add: with_handles_def handle_history_def Let_def update_conv')
  have says_handles: "facts_ok (with_handles L now w c) = facts_ok c" for w c
    by (simp add: facts_ok_def says_def bucket_def kept)
  have merged: "list_all facts_ok (fold (\<lambda>l. merge_customer now l s) ls cs)" if "list_all facts_ok cs" for s ls and cs :: "customer list"
    using that
  proof (induction ls arbitrary: cs)
    case (Cons l ls)
    have "facts_ok (c\<lparr>cu_status := u, cu_into := v, cu_merged := w\<rparr>) = facts_ok c" for c u v w by (simp add: facts_ok_def)
    then have "list_all facts_ok (merge_customer now l s cs)"
      using Cons.prems by (auto simp: merge_customer_def list_all_iff update_customers_def)
    then show ?case using Cons.IH by simp
  qed simp
  have fresh: "facts_ok \<lparr>cu_id = i, cu_merchant = m, cu_name = None, cu_locale = None, cu_zone = None, cu_handles = hs,
      cu_status = Active, cu_into = None, cu_merged = None, cu_first = t, cu_last = t, cu_attributes = []\<rparr>" for i m hs t
    by (simp add: facts_ok_def says_def bucket_def believed_def winner_def)
  show ?thesis
  proof (cases "rp_create (plan_resolution (gather_owners merchant handles seen) handles evidence)")
    case True
    then show ?thesis using assms fresh
      by (auto simp: resolve_in_txn_def apply_resolution_def insert_customer_def Let_def split: if_splits)
  next
    case False
    then obtain s w mid where "apply_handles L now s w mid = Written cs'" "list_all facts_ok mid"
      using assms(1) merged [OF assms(2)]
      by (auto simp: resolve_in_txn_def apply_resolution_def Let_def split: written.splits)
    then show ?thesis
      by (auto simp: apply_handles_def Let_def list_all_iff set_update says_handles split: if_splits)
  qed
qed

text \<open>Writing the attributes and the columns moves nothing the constraints read.\<close>

lemma attributes_written:
  assumes "customers_ok cs"
  shows "customers_ok (update_customers (\<lambda>c. cu_merchant c = merchant \<and> cu_id c = i)
      (\<lambda>c. fold set_column C (c\<lparr>cu_attributes := A\<rparr>)) cs)"
    and "persists cs (update_customers (\<lambda>c. cu_merchant c = merchant \<and> cu_id c = i)
      (\<lambda>c. fold set_column C (c\<lparr>cu_attributes := A\<rparr>)) cs)"
proof -
  let ?f = "\<lambda>c. fold set_column C (c\<lparr>cu_attributes := A\<rparr>)"
  have f: "keeps_birth ?f" by (simp add: keeps_birth_def set_column_keeps)
  have same: "shared (?f c) d = shared c d" "shared c (?f d) = shared c d" for c d
    by (simp_all add: shared_def set_column_keeps)
  show "customers_ok (update_customers (\<lambda>c. cu_merchant c = merchant \<and> cu_id c = i) ?f cs)"
  proof (rule update_keeps_ok [OF assms f])
    fix c d assume "c \<in> set cs" "d \<in> set cs" "cu_merchant c = merchant \<and> cu_id c = i" "c \<noteq> d"
    then show "\<not> shared (?f c) (if cu_merchant d = merchant \<and> cu_id d = i then ?f d else d)"
      using assms unfolding customers_ok_def same by (auto simp: same)
  next
    fix c assume "c \<in> set cs"
    then have "merge_ok cs c" using assms by (simp add: customers_ok_def list_all_iff)
    then show "merge_ok cs (?f c)" by (simp add: merge_ok_def set_column_keeps older_def split: option.splits)
  qed
  show "persists cs (update_customers (\<lambda>c. cu_merchant c = merchant \<and> cu_id c = i) ?f cs)" by (rule update_persists [OF f])
qed

text \<open>Another module's key is none of the history's.\<close>

lemma kept_for_another:
  assumes "customers_ok cs" and "list_all facts_ok cs" and "map_of materialized_columns key = None"
    and "mutate_customer_attribute i key mutation expected cs = (r, cs')"
  shows "cs' = cs \<or> (\<exists>merchant C A. cs' = update_customers (\<lambda>c. cu_merchant c = merchant \<and> cu_id c = i)
      (\<lambda>c. fold set_column C (c\<lparr>cu_attributes := A\<rparr>)) cs \<and> list_all facts_ok cs')"
proof (cases "find (\<lambda>c. cu_id c = i) cs")
  case None
  then show ?thesis using assms(4) by (simp add: mutate_customer_attribute_def)
next
  case (Some c)
  have c: "c \<in> set cs" "cu_id c = i" using Some by (auto simp: find_Some_iff)
  have only: "d = c" if "d \<in> set cs" "cu_id d = i" for d using row_unique [OF assms(1) that(1) c(1)] that c by simp
  have key: "key \<noteq> ''name''" "key \<noteq> ''locale''" "key \<noteq> ''timezone''" using assms(3) by (auto simp: materialized_columns_def)
  have "facts_ok (c\<lparr>cu_attributes := AList.update key new (cu_attributes c)\<rparr>)" for new
    using assms(2) c key by (simp add: facts_ok_def says_def bucket_def list_all_iff update_conv')
  then have "list_all facts_ok (update_customers (\<lambda>d. cu_merchant d = cu_merchant c \<and> cu_id d = i)
      (\<lambda>d. d\<lparr>cu_attributes := AList.update key new (cu_attributes c)\<rparr>) cs)" for new
    using assms(2) only by (auto simp: list_all_iff set_update)
  moreover have "cs' = cs \<or> (\<exists>new. cs' = update_customers (\<lambda>d. cu_merchant d = cu_merchant c \<and> cu_id d = i)
      (\<lambda>d. fold set_column [] (d\<lparr>cu_attributes := AList.update key new (cu_attributes c)\<rparr>)) cs)"
    using assms(4) Some by (auto simp: mutate_customer_attribute_def update_attributes_def split: if_splits prod.splits)
  ultimately show ?thesis by fastforce
qed

lemma written_on:
  assumes "cs' = cs \<or> (\<exists>merchant C A. cs' = update_customers (\<lambda>c. cu_merchant c = merchant \<and> cu_id c = i)
      (\<lambda>c. fold set_column C (c\<lparr>cu_attributes := A\<rparr>)) cs \<and> list_all facts_ok cs')"
    and "customers_ok cs" and "list_all facts_ok cs" and "\<forall>s\<in>set past. persists s cs"
  shows "customers_ok cs' \<and> list_all facts_ok cs' \<and> (\<forall>s\<in>set (cs' # past). persists s cs')"
  using assms(1)
proof (elim disjE exE conjE)
  fix merchant C A
  assume w: "cs' = update_customers (\<lambda>c. cu_merchant c = merchant \<and> cu_id c = i) (\<lambda>c. fold set_column C (c\<lparr>cu_attributes := A\<rparr>)) cs"
    and f: "list_all facts_ok cs'"
  have "customers_ok cs'" "persists cs cs'" unfolding w by (rule attributes_written [OF assms(2)])+
  then show ?thesis using f assms(4) persists_trans persists_refl by auto
qed (use assms persists_refl in auto)

lemma past_ok:
  assumes "identity_past L hist"
  shows "\<exists>cs past. hist = cs # past \<and> customers_ok cs \<and> list_all facts_ok cs \<and> (\<forall>s\<in>set hist. persists s cs)"
  using assms
proof (induction rule: identity_past.induct)
  case begins
  show ?case by (simp add: customers_ok_def persists_refl)
next
  case (resolves cs past seen i now merchant handles evidence x cs')
  have ok: "customers_ok cs" "list_all facts_ok cs" "\<forall>s\<in>set (cs # past). persists s cs" using resolves.IH by auto
  have "customers_ok cs' \<and> persists cs cs'"
    using resolve_txn_ok [OF ok(1) _ resolves.hyps(3,4)] ok(3) resolves.hyps(2) by blast
  then show ?case using resolved_facts [OF resolves.hyps(4) ok(2)] ok(3) persists_trans persists_refl by auto
next
  case (asserts cs past k now merchant i facts evidence source confidence b cs')
  have ok: "customers_ok cs" "list_all facts_ok cs" "\<forall>s\<in>set (cs # past). persists s cs" using asserts.IH by auto
  have d: "distinct (map cu_id cs)" using ok(1) by (simp add: customers_ok_def)
  show ?case using written_on [OF _ ok, of cs'] asserted [OF asserts.hyps(2) d ok(2)] by blast
next
  case (keeps cs past key i mutation expected r cs')
  have ok: "customers_ok cs" "list_all facts_ok cs" "\<forall>s\<in>set (cs # past). persists s cs" using keeps.IH by auto
  show ?case using written_on [OF kept_for_another [OF ok(1,2) keeps.hyps(2,3)] ok] by blast
qed

text \<open>
  C29 However resolutions, assertions and other modules' own keys interleave -- probes reading any earlier state of the table --
  no two active customers of a merchant carry the same handle, and following the merges from any
  customer that ever was ends, within the size of the table, at one active customer of the same
  merchant who is older than everyone on the way.
\<close>

theorem merges_end_at_one_person:
  assumes "identity_past L (cs # past)" and "s \<in> set (cs # past)" and "c \<in> set s"
  shows "(\<forall>x\<in>set cs. \<forall>y\<in>set cs. shared x y \<longrightarrow> x = y)
    \<and> (\<exists>d\<in>set cs. follow (length cs) cs (cu_id c) = Some d \<and> cu_status d = Active \<and> cu_merchant d = cu_merchant c
        \<and> (cu_id d = cu_id c \<or> older d c))"
proof -
  have ok: "customers_ok cs" "persists s cs" using past_ok [OF assms(1)] assms(2) by auto
  obtain t where t: "t \<in> set cs" "cu_id t = cu_id c" "cu_merchant t = cu_merchant c" "cu_first t = cu_first c"
    using persistsE [OF ok(2) assms(3)] .
  have "card {d \<in> set cs. older d t} \<le> card (set cs - {t})" using older_irrefl [of t] by (intro card_mono) auto
  also have "\<dots> < card (set cs)" using t(1) by (intro card_Diff1_less) simp_all
  also have "\<dots> \<le> length cs" by (rule card_length)
  finally obtain d where "d \<in> set cs" "follow (length cs) cs (cu_id t) = Some d" "cu_status d = Active" "cu_merchant d = cu_merchant t"
      "d = t \<or> older d t" using follow_ends [OF ok(1) t(1)] by blast
  then show ?thesis using t ok(1) older_same [of d t d c] unfolding customers_ok_def by auto
qed


section \<open>What a merge leaves behind\<close>

text \<open>
  The handles of a customer merged away that the letter does not carry do not attach to the
  survivor: after the merge they name nobody, so the next letter that carries one of them alone makes
  a second person.
\<close>

theorem staple_leaves_handles_behind:
  assumes "customers_ok cs" and "distinct (map fst hs)" and "l \<in> set cs" and "holds_handle merchant k v l" and "k \<in> set handle_columns"
    and "cu_id l \<in> set (map cu_id (gather_owners merchant hs cs))" and "map_of hs k \<noteq> Some v"
    and "resolve_in_txn L now i merchant hs evidence cs cs = Written (x, cs')" and "cu_id l \<noteq> x"
  shows "probe_customer merchant k v cs' = None"
proof (rule ccontr)
  assume "probe_customer merchant k v cs' \<noteq> None"
  then obtain y where y: "y \<in> set cs'" "holds_handle merchant k v y" using probe_some by fast
  have one: "z = l" if "z \<in> set cs" "holds_handle merchant k v z" for z
  proof -
    have "shared z l" using that(2) assms(4,5) by (intro carries_shared) (simp_all add: holds_handle_def)
    then show ?thesis using assms(1,3) that(1) unfolding customers_ok_def by blast
  qed
  obtain c ds where o: "gather_owners merchant hs cs = c # ds" using assms(6) by (cases "gather_owners merchant hs cs") auto
  obtain s where s: "owns merchant hs cs s" "plan_resolution (gather_owners merchant hs cs) hs evidence = \<lparr>rp_create = False, rp_survivor = Some (cu_id s),
       rp_losers = map cu_id (filter (\<lambda>d. cu_id d \<noteq> cu_id s) (c # ds)), rp_writes = plan_handle_writes (cu_handles s) hs evidence\<rparr>"
       "\<And>d. d \<in> set (c # ds) \<Longrightarrow> cu_id d \<noteq> cu_id s \<Longrightarrow> owns merchant hs cs d \<and> older s d"
    by (rule plan_of_owners [OF o, of evidence]) (rule that)
  define losers where "losers = map cu_id (filter (\<lambda>d. cu_id d \<noteq> cu_id s) (c # ds))"
  define mid where "mid = fold (\<lambda>l. merge_customer now l (cu_id s)) losers cs"
  define held where "held = filter (\<lambda>(k, v). k \<in> set handle_columns) (plan_handle_writes (cu_handles s) hs evidence)"
  have w: "x = cu_id s" "cs' = update_customers (\<lambda>c. cu_id c = cu_id s) (with_handles L now held) mid"
    using assms(8) unfolding resolve_in_txn_def apply_resolution_def s(2)
    by (auto simp: Let_def apply_handles_def losers_def mid_def held_def split: if_splits)
  have gone: "cu_id l \<in> set losers" using assms(6,9) o w(1) by (auto simp: losers_def)
  obtain z where z: "z \<in> set mid" "y = (if cu_id z = cu_id s then with_handles L now held z else z)"
    using y(1) unfolding w(2) set_update by blast
  have "cu_status z = Active" using y(2) z(2) by (auto simp: holds_handle_def split: if_splits)
  then have zc: "z \<in> set cs" "cu_id z \<notin> set losers" using merge_rows [of z now "cu_id s" losers cs] z(1) by (auto simp: mid_def)
  have "(k, v) \<notin> set held" using assms(2,7) by (auto simp: held_def plan_handle_writes_def)
  then have "holds_handle merchant k v z" using y(2) z(2) dmerge_from [of "cu_handles z" held k v]
    by (auto simp: holds_handle_def split: if_splits)
  then show False using one [OF zc(1)] zc(2) gone by blast
qed

section \<open>Examples\<close>

definition people_lib :: lib where
  "people_lib = \<lparr>iso_parse = (\<lambda>_. None), iso_format = int_text, zone_of = (\<lambda>_. undefined), date_iso = (\<lambda>_. []),
     naive_ts = (\<lambda>t. t), sha256_hex = (\<lambda>_. []), deriver = (\<lambda>_. []), derived_names = []\<rparr>"

definition people_after :: "time \<Rightarrow> string \<Rightarrow> (string \<times> string) list \<Rightarrow> customer list \<Rightarrow> customer list" where
  "people_after now i handles cs = (case resolve_in_txn people_lib now i ''m'' (normalize_handles handles) ''observed'' cs cs of
     Written r \<Rightarrow> snd r | _ \<Rightarrow> [])"

text \<open>A number writes, then a mail address with an Instagram id, then a letter with the number and the address.\<close>

definition two_people :: "customer list" where
  "two_people = people_after 2 ''b'' [(''email'', '' B@x.io''), (''igsid'', ''ig-7'')] (people_after 1 ''a'' [(''phone'', ''9876543210'')] [])"

definition both_handles :: "(string \<times> string) list" where
  "both_handles = [(''phone'', ''+91 98765-43210''), (''email'', ''b@x.io'')]"

definition one_person :: "customer list" where
  "one_person = people_after 3 ''c'' both_handles two_people"

lemma people_ok [simp]: "customers_ok two_people" "customers_ok one_person"
  by code_simp+

lemma both_normal: "normalize_handles both_handles = [(''phone'', ''+919876543210''), (''email'', ''b@x.io'')]"
  by code_simp

lemma both_named: "resolve_in_txn people_lib 3 ''c'' ''m'' (normalize_handles both_handles) ''observed'' two_people two_people = Written (''a'', one_person)"
  by code_simp

theorem a_letter_names_one_person_witness:
  "\<exists>x cs'. resolve_customer people_lib 3 ''c'' ''m'' both_handles ''observed'' (two_people, two_people) ([], []) = Some (x, cs') \<and> customers_ok cs'"
proof -
  have fresh: "\<forall>c\<in>set two_people. cu_id c \<noteq> ''c''" by code_simp
  have d: "distinct (map fst both_handles)" "''m'' \<noteq> []" "normalize_handles both_handles \<noteq> []" by (simp add: both_handles_def, simp, simp add: both_normal)
  have e: "''observed'' \<in> resolve_evidence" by (simp add: resolve_evidence_def)
  show ?thesis using a_letter_names_one_person [OF people_ok(1) fresh d(1,2) e d(3)] by blast
qed

text \<open>The mail address came with an Instagram id; after the merge the id names nobody, and its next letter makes a third row.\<close>

theorem staple_leaves_handles_behind_witness:
  "probe_customer ''m'' ''igsid'' ''ig-7'' two_people \<noteq> None \<and> probe_customer ''m'' ''igsid'' ''ig-7'' one_person = None
   \<and> map cu_status (people_after 4 ''d'' [(''igsid'', ''ig-7'')] one_person) = [Active, Merged_away, Active]"
proof -
  let ?l = "two_people ! 1"
  have l: "?l \<in> set two_people" "holds_handle ''m'' ''igsid'' ''ig-7'' ?l" "cu_id ?l \<noteq> ''a''" by code_simp+
  have o: "cu_id ?l \<in> set (map cu_id (gather_owners ''m'' (normalize_handles both_handles) two_people))" by code_simp
  have "probe_customer ''m'' ''igsid'' ''ig-7'' one_person = None"
    by (rule staple_leaves_handles_behind [OF people_ok(1) _ l(1,2) _ o _ both_named l(3)])
      (simp_all add: both_normal handle_columns_def)
  moreover have "probe_customer ''m'' ''igsid'' ''ig-7'' two_people \<noteq> None" by code_simp
  moreover have "map cu_status (people_after 4 ''d'' [(''igsid'', ''ig-7'')] one_person) = [Active, Merged_away, Active]" by code_simp
  ultimately show ?thesis by blast
qed

definition first_person :: "customer list" where
  "first_person = people_after 1 ''a'' [(''phone'', ''9876543210'')] []"

definition named_person :: "customer list" where
  "named_person = (case assert_facts people_lib (\<lambda>_. JNull) 4 ''m'' ''a'' [(''name'', JStr ''Anna'')] ''declared'' ''chat'' None one_person of
     Some r \<Rightarrow> snd r | None \<Rightarrow> [])"

lemma people_past: "identity_past people_lib [named_person, one_person, two_people, first_person, []]"
proof -
  have 1: "resolve_in_txn people_lib 1 ''a'' ''m'' (normalize_handles [(''phone'', ''9876543210'')]) ''observed'' [] [] = Written (''a'', first_person)"
    by code_simp
  have 2: "resolve_in_txn people_lib 2 ''b'' ''m'' (normalize_handles [(''email'', '' B@x.io''), (''igsid'', ''ig-7'')]) ''observed''
      first_person first_person = Written (''b'', two_people)"
    by code_simp
  have 4: "assert_facts people_lib (\<lambda>_. JNull) 4 ''m'' ''a'' [(''name'', JStr ''Anna'')] ''declared'' ''chat'' None one_person
      = Some (True, named_person)"
    by code_simp
  have fresh: "\<forall>c\<in>set first_person. cu_id c \<noteq> ''b''" "\<forall>c\<in>set two_people. cu_id c \<noteq> ''c''" by code_simp+
  have "identity_past people_lib [first_person, []]"
    by (rule identity_past.resolves [OF identity_past.begins _ _ 1]) simp_all
  then have "identity_past people_lib [two_people, first_person, []]"
    by (rule identity_past.resolves [OF _ _ fresh(1) 2]) simp
  then have "identity_past people_lib [one_person, two_people, first_person, []]"
    by (rule identity_past.resolves [OF _ _ fresh(2) both_named]) simp
  then show ?thesis by (rule identity_past.asserts [OF _ 4])
qed

theorem merges_end_at_one_person_witness:
  "\<exists>d. follow (length named_person) named_person ''b'' = Some d \<and> cu_status d = Active \<and> cu_merchant d = ''m''"
proof -
  have "two_people ! 1 \<in> set two_people" "cu_id (two_people ! 1) = ''b''" "cu_merchant (two_people ! 1) = ''m''" by code_simp+
  then show ?thesis using merges_end_at_one_person [OF people_past, of two_people "two_people ! 1"] by auto
qed


end
