(* ===== verification/Event_Worker_Laws.thy ===== *)
theory Event_Worker_Laws
  imports Event_Worker Identity_Laws
begin

text \<open>
  What the event worker promises: a pass leaves every letter untouched, heard by every consumer and
  stamped, quarantined with its reason, or pending with one more attempt; a settled letter is never
  read again; no letter holds the queue for good; and what the consumers and the customer table keep
  as invariants survives every pass and every death of a worker.
\<close>

section \<open>One row\<close>

text \<open>What becomes of a claimed row \<open>e\<close>.\<close>

definition heard_by_all :: "'w outside \<Rightarrow> event_row \<Rightarrow> string option \<Rightarrow> bool" where
  "heard_by_all W e c \<longleftrightarrow> (\<exists>handles vs w w'. hear_all (ow_consumers W) e c handles vs w = (None, w'))"

definition row_after :: "'w outside \<Rightarrow> nat \<Rightarrow> time \<Rightarrow> event_row \<Rightarrow> event_row \<Rightarrow> bool" where
  "row_after W N now e x \<longleftrightarrow>
     (\<exists>c. heard_by_all W e c \<and> x = e\<lparr>ev_customer := c, er_processed := Some now\<rparr>)
   \<or> (\<exists>reason. reason \<noteq> [] \<and> x = e\<lparr>er_quarantine := Some reason, er_processed := Some now\<rparr>)
   \<or> (x = e \<and> (er_attempts e < N \<or> (\<exists>w err. ow_fails W Quarantine (ev_id e) w = Some err)))"

definition only_row :: "string \<Rightarrow> (event_row \<Rightarrow> bool) \<Rightarrow> event_row list \<Rightarrow> event_row list \<Rightarrow> bool" where
  "only_row i P es es' \<longleftrightarrow> list_all2 (\<lambda>x x'. if ev_id x = i then P x' else x' = x) es es'"

lemma only_row_refl: "\<forall>x\<in>set es. ev_id x = i \<longrightarrow> P x \<Longrightarrow> only_row i P es es"
  by (induction es) (simp_all add: only_row_def)

lemma only_row_update:
  assumes "\<forall>x\<in>set es. ev_id x = i \<longrightarrow> P (f x)"
  shows "only_row i P es (update_events (\<lambda>x. ev_id x = i) f es)"
  using assms by (induction es) (simp_all add: only_row_def update_events_def)

lemma discover_events [simp]: "rd_events (snd (discover_topic W now e D s)) = rd_events s"
  by (simp add: discover_topic_def Let_def split: option.split)

lemma quarantine_events:
  "quarantine W now e reason s = (r, t) \<Longrightarrow> (case r of Inl err \<Rightarrow> rd_events t = rd_events s \<and> ow_fails W Quarantine (ev_id e) (rd_world s) = Some err
     | Inr p \<Rightarrow> p = Quarantined \<and> rd_events t = quarantine_event now (ev_id e) reason (rd_events s))"
  by (auto simp: quarantine_def split: option.splits)

lemma processor_events:
  assumes "run_processor W L now e s = (Inr p, t)"
  shows "(if p = Quarantined then (\<exists>reason. reason \<noteq> [] \<and> rd_events t = quarantine_event now (ev_id e) reason (rd_events s))
     else rd_events t = rd_events s)"
proof -
  have q: "if p = Quarantined then \<exists>reason. reason \<noteq> [] \<and> rd_events t = quarantine_event now (ev_id e) reason (rd_events u) else rd_events t = rd_events u"
    if "quarantine W now e r u = (Inr p, t)" "r \<noteq> []" for r u
    using quarantine_events [OF that(1)] that(2) by auto
  have d: "p \<noteq> Quarantined \<and> rd_events t = rd_events u" if "described W e x c u = (Inr p, t)" for x c u
    using that by (auto simp: described_def split: if_splits)
  have a: "if p = Quarantined then \<exists>reason. reason \<noteq> [] \<and> rd_events t = quarantine_event now (ev_id e) reason (rd_events u) else rd_events t = rd_events u"
    if "attributed W now e x u = (Inr p, t)" for x u
    using that q [of "''no_handle''" u] q d unfolding attributed_def
    by (fastforce split: if_splits prod.splits resolved.splits)
  show ?thesis
    using assms q a unfolding run_processor_def by (fastforce split: sum.splits prod.splits option.splits)
qed

lemma process_one_done:
  assumes "process_one W L now D e s = (Inr key, t)"
  shows "(\<exists>c. heard_by_all W e c \<and> rd_events t = stamp_event now (ev_id e) c (rd_events s))
     \<or> (\<exists>reason. reason \<noteq> [] \<and> rd_events t = quarantine_event now (ev_id e) reason (rd_events s))"
proof -
  obtain r s1 where 1: "discover_topic W now e D s = (r, s1)" by (cases "discover_topic W now e D s")
  have e1: "rd_events s1 = rd_events s" using discover_events [of W now e D s] 1 by simp
  obtain q s2 where 2: "run_processor W L now e s1 = (q, s2)" by (cases "run_processor W L now e s1")
  obtain k where k: "r = Inr k" using assms 1 by (cases r) (simp_all add: process_one_def)
  obtain pr where pr: "q = Inr pr" using assms 1 2 k by (cases q) (simp_all add: process_one_def)
  note ev = processor_events [OF 2 [unfolded pr]]
  show ?thesis
  proof (cases pr)
    case Quarantined
    then show ?thesis using assms 1 2 k pr ev e1 by (auto simp: process_one_def)
  next
    case (About c handles vs)
    have "heard_and_stamped W now e c handles vs k s2 = (Inr key, t)" using assms 1 2 k pr About by (simp add: process_one_def)
    then obtain w where "hear_all (ow_consumers W) e c handles vs (rd_world s2) = (None, w)"
        "rd_events t = stamp_event now (ev_id e) c (rd_events s2)"
      by (auto simp: heard_and_stamped_def split: prod.splits option.splits)
    moreover have "heard_by_all W e c" using calculation(1) unfolding heard_by_all_def by blast
    ultimately show ?thesis using ev e1 About by auto
  qed
qed

lemma process_row_events:
  assumes "e \<in> set (rd_events s)" and "distinct (map ev_id (rd_events s))"
  shows "only_row (ev_id e) (row_after W N now e) (rd_events s) (rd_events (snd (process_row W L N now e (D, s))))"
proof -
  have me: "x = e" if "x \<in> set (rd_events s)" "ev_id x = ev_id e" for x
    using that assms by (auto simp: distinct_map inj_on_def)
  have qu: "only_row (ev_id e) (row_after W N now e) (rd_events s) (quarantine_event now (ev_id e) reason (rd_events s))" if "reason \<noteq> []" for reason
    unfolding quarantine_event_def using that me by (intro only_row_update) (auto simp: row_after_def)
  obtain r t where p: "process_one W L now D e s = (r, t)" by (cases "process_one W L now D e s")
  show ?thesis
  proof (cases r)
    case (Inl err)
    let ?u = "t\<lparr>rd_events := rd_events s, rd_schemas := rd_schemas s\<rparr>"
    have e: "rd_events (snd (process_row W L N now e (D, s))) = rd_events (after_failed_row W N now e err ?u)"
      by (simp add: process_row_def p Inl)
    show ?thesis
    proof (cases "er_attempts e < N")
      case True
      then have "row_after W N now e e" by (simp add: row_after_def)
      then show ?thesis unfolding e using True me by (auto simp: after_failed_row_def intro!: only_row_refl)
    next
      case False
      let ?why = "''consumer_error after '' @ nat_text (er_attempts e) @ '' attempts: '' @ err"
      obtain q v where q: "quarantine W now e ?why ?u = (q, v)" by (cases "quarantine W now e ?why ?u")
      have "rd_events (snd (process_row W L N now e (D, s))) = rd_events v" using e False q by (simp add: after_failed_row_def)
      moreover have "only_row (ev_id e) (row_after W N now e) (rd_events s) (rd_events v)"
      proof (cases q)
        case (Inl er)
        then have "rd_events v = rd_events s" "row_after W N now e e" using quarantine_events [OF q] by (auto simp: row_after_def)
        then show ?thesis using me by (auto intro!: only_row_refl)
      next
        case (Inr b)
        then show ?thesis using quarantine_events [OF q] qu [of ?why] by simp
      qed
      ultimately show ?thesis by simp
    qed
  next
    case (Inr key)
    have e: "rd_events (snd (process_row W L N now e (D, s))) = rd_events t" by (simp add: process_row_def p Inr)
    have "only_row (ev_id e) (row_after W N now e) (rd_events s) (stamp_event now (ev_id e) c (rd_events s))" if "heard_by_all W e c" for c
      unfolding stamp_event_def
    proof (rule only_row_update, intro ballI impI)
      fix x assume "x \<in> set (rd_events s)" "ev_id x = ev_id e"
      then have "x = e" by (rule me)
      then show "row_after W N now e (x\<lparr>ev_customer := c, er_processed := Some now\<rparr>)" using that unfolding row_after_def by blast
    qed
    then show ?thesis unfolding e using process_one_done [OF p [unfolded Inr]] qu by auto
  qed
qed

section \<open>A pass\<close>

lemma row_after_id: "row_after W N now e x \<Longrightarrow> ev_id x = ev_id e"
  by (auto simp: row_after_def)

lemma only_row_ids: "only_row (ev_id e) (row_after W N now e) es es' \<Longrightarrow> map ev_id es' = map ev_id es"
  unfolding only_row_def by (induction rule: list_all2_induct) (auto dest: row_after_id split: if_splits)

lemma rows_after:
  assumes "set rows \<subseteq> set (rd_events s)" and "distinct (map ev_id (rd_events s))" and "distinct (map ev_id rows)"
  shows "list_all2 (\<lambda>x x'. if x \<in> set rows then row_after W N now x x' else x' = x) (rd_events s)
     (rd_events (snd (fold (process_row W L N now) rows (D, s))))"
  using assms
proof (induction rows arbitrary: D s)
  case Nil
  then show ?case by (simp add: list.rel_refl)
next
  case (Cons e rows)
  obtain D1 s1 where s1: "process_row W L N now e (D, s) = (D1, s1)" by (cases "process_row W L N now e (D, s)")
  have one: "only_row (ev_id e) (row_after W N now e) (rd_events s) (rd_events s1)"
    using process_row_events [of e s W N now L D] Cons.prems s1 by simp
  then have step: "list_all2 (\<lambda>a b. a \<in> set (rd_events s) \<and> (if ev_id a = ev_id e then row_after W N now e b else b = a)) (rd_events s) (rd_events s1)"
    unfolding only_row_def by (rule list.rel_mono_strong) simp
  have same: "r = e" if "r \<in> set (rd_events s)" "ev_id r = ev_id e" for r
    using that Cons.prems(1,2) by (auto simp: distinct_map inj_on_def)
  have kept: "r \<in> set (rd_events s1)" if "r \<in> set rows" for r
  proof -
    have r: "r \<in> set (rd_events s)" "ev_id r \<noteq> ev_id e" using that Cons.prems(1,3) by (auto simp: image_iff)
    obtain k where k: "k < length (rd_events s)" "rd_events s ! k = r" using r(1) by (auto simp: in_set_conv_nth)
    have "rd_events s1 ! k = r" "k < length (rd_events s1)"
      using step k r(2) list_all2_nthD [OF step k(1)] by (simp_all add: list_all2_lengthD)
    then show ?thesis by (auto simp: in_set_conv_nth)
  qed
  have "list_all2 (\<lambda>x x'. if x \<in> set rows then row_after W N now x x' else x' = x) (rd_events s1)
      (rd_events (snd (fold (process_row W L N now) rows (D1, s1))))"
    by (rule Cons.IH) (use kept only_row_ids [OF one] Cons.prems(2,3) in auto)
  then have "list_all2 (\<lambda>x x'. if x \<in> set (e # rows) then row_after W N now x x' else x' = x) (rd_events s)
      (rd_events (snd (fold (process_row W L N now) rows (D1, s1))))"
  proof (rule list_all2_trans [OF _ step, rotated])
    fix a b c
    assume p: "a \<in> set (rd_events s) \<and> (if ev_id a = ev_id e then row_after W N now e b else b = a)"
      "if b \<in> set rows then row_after W N now b c else c = b"
    show "if a \<in> set (e # rows) then row_after W N now a c else c = a"
    proof (cases "ev_id a = ev_id e")
      case True
      then have a: "a = e" "row_after W N now e b" using p(1) same by auto
      have "b \<notin> set rows" using row_after_id [OF a(2)] Cons.prems(3) by (auto simp: image_iff)
      then show ?thesis using p(2) a by simp
    next
      case False
      then show ?thesis using p by (auto split: if_splits)
    qed
  qed
  then show ?case by (simp add: s1)
qed

text \<open>The rows handed to a pass are the rows of the table after the claim.\<close>

lemma spent_id [simp]: "ev_id (spend_attempt x) = ev_id x" "ev_received (spend_attempt x) = ev_received x"
  by (simp_all add: spend_attempt_def)

lemma claimed_rows:
  assumes "claim_pending_events locked limit es = (rows, es1)" and "distinct (map ev_id es)"
  shows "set rows \<subseteq> set es1" and "distinct (map ev_id rows)"
    and "es1 = map (\<lambda>x. if ev_id x \<in> claimed_events locked limit es then spend_attempt x else x) es"
    and "\<And>x. x \<in> set es \<Longrightarrow> (if ev_id x \<in> claimed_events locked limit es then spend_attempt x else x) \<in> set rows
      \<longleftrightarrow> ev_id x \<in> claimed_events locked limit es"
proof -
  let ?P = "\<lambda>x. ev_id x \<in> claimed_events locked limit es"
  have r: "set rows = spend_attempt ` set (filter ?P es)" "es1 = map (\<lambda>x. if ?P x then spend_attempt x else x) es"
    using assms(1) by (auto simp: claim_pending_events_def Let_def update_events_def)
  show "set rows \<subseteq> set es1" unfolding r by auto
  show "es1 = map (\<lambda>x. if ?P x then spend_attempt x else x) es" by (rule r(2))
  have rows: "rows = sort_key ev_received (map spend_attempt (filter ?P es))" using assms(1) by (simp add: claim_pending_events_def Let_def)
  have "map ev_id (map spend_attempt (filter ?P es)) = map ev_id (filter ?P es)" by simp
  then have "distinct (map ev_id (map spend_attempt (filter ?P es)))" using distinct_map_filter [OF assms(2)] by (simp only:)
  then show "distinct (map ev_id rows)" unfolding rows distinct_map set_sort distinct_sort .
  show "(if ?P x then spend_attempt x else x) \<in> set rows \<longleftrightarrow> ?P x" if "x \<in> set es" for x
    using that unfolding r(1) by (auto split: if_splits)
qed

definition pass_after :: "'w outside \<Rightarrow> nat \<Rightarrow> time \<Rightarrow> string set \<Rightarrow> event_row \<Rightarrow> event_row \<Rightarrow> bool" where
  "pass_after W N now claimed x x' \<longleftrightarrow> (if ev_id x \<in> claimed then row_after W N now (spend_attempt x) x' else x' = x)"

lemma pass_events:
  assumes "distinct (map ev_id (rd_events s))"
  shows "list_all2 (pass_after W N now (claimed_events locked limit (rd_events s))) (rd_events s)
     (rd_events (snd (run_pass W L N now locked limit s)))"
proof -
  obtain rows es1 where c: "claim_pending_events locked limit (rd_events s) = (rows, es1)" by (cases "claim_pending_events locked limit (rd_events s)")
  note cl = claimed_rows [OF c assms]
  let ?s1 = "s\<lparr>rd_events := es1\<rparr>"
  have "map ev_id es1 = map ev_id (rd_events s)" unfolding cl(3) by simp
  then have "list_all2 (\<lambda>x x'. if x \<in> set rows then row_after W N now x x' else x' = x) es1
      (rd_events (snd (fold (process_row W L N now) rows ([], ?s1))))"
    using rows_after [of rows ?s1 W N now L "[]"] cl(1,2) assms by simp
  then have "list_all2 (pass_after W N now (claimed_events locked limit (rd_events s))) (rd_events s)
      (rd_events (snd (fold (process_row W L N now) rows ([], ?s1))))"
    unfolding cl(3) list_all2_map1
    by (rule list.rel_mono_strong) (use cl(4) in \<open>auto simp: pass_after_def split: if_splits\<close>)
  then show ?thesis by (cases "fold (process_row W L N now) rows ([], ?s1)") (simp add: run_pass_def pass_in_txn_def c)
qed

lemma claimed_pending:
  assumes "distinct (map ev_id es)" and "x \<in> set es" and "ev_id x \<in> claimed_events locked limit es"
  shows "is_pending x"
proof -
  obtain y where y: "y \<in> set (take limit (sort_key ev_received (filter (\<lambda>e. is_pending e \<and> \<not> locked (ev_id e)) es)))" "ev_id y = ev_id x"
    using assms(3) unfolding claimed_events_def by auto
  have "y \<in> set es" "is_pending y" using in_set_takeD [OF y(1)] by simp_all
  then show ?thesis using y(2) assms(1,2) by (auto simp: distinct_map inj_on_def)
qed

lemma list_all2_member: "list_all2 P xs ys \<Longrightarrow> x \<in> set xs \<Longrightarrow> \<exists>y\<in>set ys. P x y"
  by (induction rule: list_all2_induct) auto

lemma pass_id: "pass_after W N now claimed x x' \<Longrightarrow> ev_id x' = ev_id x"
  by (auto simp: pass_after_def dest: row_after_id split: if_splits)

lemma pass_ids: "list_all2 (pass_after W N now claimed) es es' \<Longrightarrow> map ev_id es' = map ev_id es"
  by (induction rule: list_all2_induct) (auto dest: pass_id)

text \<open>
  C23 A pass loses no letter: every letter of the spine is there once afterwards, and either untouched,
  or -- it was pending, and an attempt is spent on it -- heard by every consumer, in order and without
  a raise, before it was stamped; or quarantined with a reason; or still pending, below the limit of
  attempts, unless the quarantine itself failed.
\<close>

theorem a_pass_loses_no_letter:
  assumes "distinct (map ev_id (rd_events s))" and "x \<in> set (rd_events s)" and "run_pass W L N now locked limit s = (rows, s')"
  shows "\<exists>x'\<in>set (rd_events s'). (\<forall>y\<in>set (rd_events s'). ev_id y = ev_id x \<longrightarrow> y = x')
    \<and> (x' = x \<or> is_pending x \<and>
        ((\<exists>c. heard_by_all W (spend_attempt x) c \<and> x' = (spend_attempt x)\<lparr>ev_customer := c, er_processed := Some now\<rparr>)
       \<or> (\<exists>reason. reason \<noteq> [] \<and> x' = (spend_attempt x)\<lparr>er_quarantine := Some reason, er_processed := Some now\<rparr>)
       \<or> (x' = spend_attempt x \<and> (er_attempts x' < N \<or> (\<exists>w err. ow_fails W Quarantine (ev_id x) w = Some err)))))"
proof -
  let ?C = "claimed_events locked limit (rd_events s)"
  have all: "list_all2 (pass_after W N now ?C) (rd_events s) (rd_events s')"
    using pass_events [OF assms(1), of W N now locked limit L] assms(3) by simp
  obtain x' where x': "x' \<in> set (rd_events s')" "pass_after W N now ?C x x'" using list_all2_member [OF all assms(2)] by blast
  have "distinct (map ev_id (rd_events s'))" using pass_ids [OF all] assms(1) by simp
  then have "\<forall>y\<in>set (rd_events s'). ev_id y = ev_id x \<longrightarrow> y = x'"
    using x' pass_id [OF x'(2)] by (auto simp: distinct_map inj_on_def)
  moreover have "x' = x \<or> is_pending x \<and> row_after W N now (spend_attempt x) x'"
    using x'(2) claimed_pending [OF assms(1,2)] by (auto simp: pass_after_def split: if_splits)
  ultimately show ?thesis using x'(1) unfolding row_after_def spent_id by blast
qed

section \<open>A settled letter\<close>

inductive spine_step :: "'w outside \<Rightarrow> lib \<Rightarrow> nat \<Rightarrow> 'w reading \<Rightarrow> 'w reading \<Rightarrow> bool" for W L N where
  files: "insert_event now i m src t ext payload ver occ cust processed (rd_events s) = (r, es) \<Longrightarrow> i \<notin> ev_id ` set (rd_events s) \<Longrightarrow>
    spine_step W L N s (s\<lparr>rd_events := es\<rparr>)"
| passes: "run_pass W L N now locked limit s = (rows, s') \<Longrightarrow> spine_step W L N s s'"
| dies: "spine_step W L N s (dies_in_pass W L N now locked limit rows_done heard s)"
| elsewhere: "spine_step W L N s (s\<lparr>rd_world := w, rd_schemas := ss, rd_known := ks\<rparr>)"

definition same_letter :: "event_row \<Rightarrow> event_row \<Rightarrow> bool" where
  "same_letter x y \<longleftrightarrow> ev_id y = ev_id x \<and> ev_merchant y = ev_merchant x \<and> ev_source y = ev_source x \<and> ev_topic y = ev_topic x
     \<and> ev_payload y = ev_payload x \<and> ev_received y = ev_received x \<and> ev_occurred y = ev_occurred x
     \<and> er_external y = er_external x \<and> er_version y = er_version x \<and> er_attempts x \<le> er_attempts y"

definition letter_kept :: "event_row \<Rightarrow> event_row \<Rightarrow> bool" where
  "letter_kept x y \<longleftrightarrow> same_letter x y \<and> (er_processed x \<noteq> None \<longrightarrow> y = x)"

lemma letter_kept_refl: "letter_kept x x"
  by (simp add: letter_kept_def same_letter_def)

lemma letter_kept_trans: "letter_kept x y \<Longrightarrow> letter_kept y z \<Longrightarrow> letter_kept x z"
  unfolding letter_kept_def same_letter_def by (metis order_trans)

lemma dies_events [simp]: "rd_events (dies_in_pass W L N now locked limit rows_done heard s) = rd_events s"
  by (simp add: dies_in_pass_def Let_def split: prod.split)

lemma spine_step_keeps:
  assumes "spine_step W L N s s'" and "distinct (map ev_id (rd_events s))"
  shows "distinct (map ev_id (rd_events s')) \<and> (\<forall>x\<in>set (rd_events s). \<exists>y\<in>set (rd_events s'). letter_kept x y)"
  using assms
proof (induction rule: spine_step.induct)
  case (files now i m src t ext payload ver occ cust processed s r es)
  have "set (rd_events s) \<subseteq> set es" "distinct (map ev_id es)"
    using files by (auto simp: insert_event_def Let_def split: if_splits)
  then show ?case using letter_kept_refl by (auto intro: bexI)
next
  case (passes now locked limit s rows s')
  let ?C = "claimed_events locked limit (rd_events s)"
  have all: "list_all2 (pass_after W N now ?C) (rd_events s) (rd_events s')"
    using pass_events [OF passes(2), of W N now locked limit L] passes(1) by simp
  have "letter_kept x y" if "x \<in> set (rd_events s)" "pass_after W N now ?C x y" for x y
    using that claimed_pending [OF passes(2) that(1)]
    by (auto simp: pass_after_def row_after_def letter_kept_def same_letter_def spend_attempt_def is_pending_def split: if_splits)
  then show ?case using pass_ids [OF all] passes(2) list_all2_member [OF all] by metis
qed (auto intro: letter_kept_refl)

text \<open>
  C25 A letter is settled once: what was filed never changes, and once a letter is stamped or quarantined
  no pass, no death of a worker and no redelivery by its producer changes its row again.
\<close>

theorem a_letter_is_settled_once:
  assumes "(spine_step W L N)\<^sup>*\<^sup>* s s'" and "distinct (map ev_id (rd_events s))" and "x \<in> set (rd_events s)"
  shows "(\<exists>y\<in>set (rd_events s'). same_letter x y) \<and> (er_processed x \<noteq> None \<longrightarrow> x \<in> set (rd_events s'))"
proof -
  have "distinct (map ev_id (rd_events s')) \<and> (\<exists>y\<in>set (rd_events s'). letter_kept x y)"
    using assms
  proof (induction rule: rtranclp_induct)
    case base
    then show ?case using letter_kept_refl by blast
  next
    case (step t u)
    then show ?case using spine_step_keeps [OF step(2)] letter_kept_trans by metis
  qed
  then show ?thesis unfolding letter_kept_def by blast
qed

section \<open>Nothing holds the queue\<close>

definition attempts_left :: "nat \<Rightarrow> event_row \<Rightarrow> nat" where
  "attempts_left N x = (if is_pending x then max 1 (N - er_attempts x) else 0)"

lemma sum_no_more:
  "list_all2 P xs ys \<Longrightarrow> (\<And>x y. x \<in> set xs \<Longrightarrow> P x y \<Longrightarrow> f y \<le> f x) \<Longrightarrow> sum_list (map f ys) \<le> sum_list (map (f :: 'a \<Rightarrow> nat) xs)"
  by (induction rule: list_all2_induct) (auto intro: add_mono)

lemma sum_decreases:
  assumes "list_all2 P xs ys" and "\<And>x y. x \<in> set xs \<Longrightarrow> P x y \<Longrightarrow> f y \<le> f x" and "x \<in> set xs" and "\<And>y. P x y \<Longrightarrow> f y < f x"
  shows "sum_list (map f ys) < sum_list (map (f :: 'a \<Rightarrow> nat) xs)"
  using assms
proof (induction rule: list_all2_induct)
  case (Cons a as b bs)
  have le: "sum_list (map f bs) \<le> sum_list (map f as)"
    using Cons.prems(1) by (intro sum_no_more [OF Cons.hyps(2)]) simp
  show ?case
  proof (cases "x = a")
    case True
    then show ?thesis using Cons.prems(3) Cons.hyps(1) le by (simp add: add_less_le_mono)
  next
    case False
    then have "sum_list (map f bs) < sum_list (map f as)" using Cons by simp
    then show ?thesis using Cons.prems(1) [of a b] Cons.hyps(1) by (simp add: add_le_less_mono)
  qed
qed simp

lemma pass_spends:
  assumes "x \<in> set es" and "distinct (map ev_id es)" and "\<forall>i w. ow_fails W Quarantine i w = None" and "0 < N"
    and "pass_after W N now (claimed_events locked limit es) x y"
  shows "attempts_left N y \<le> attempts_left N x" and "ev_id x \<in> claimed_events locked limit es \<Longrightarrow> attempts_left N y < attempts_left N x"
  using assms(3-5) claimed_pending [OF assms(2,1)]
  by (auto simp: pass_after_def row_after_def attempts_left_def is_pending_def spend_attempt_def split: if_splits)

lemma something_claimed:
  assumes "x \<in> set es" and "is_pending x" and "0 < limit"
  shows "\<exists>y\<in>set es. ev_id y \<in> claimed_events (\<lambda>_. False) limit es"
proof -
  let ?q = "sort_key ev_received (filter (\<lambda>e. is_pending e \<and> \<not> False) es)"
  have "?q \<noteq> []" using assms(1,2) by (metis (mono_tags, lifting) empty_iff empty_set mem_Collect_eq set_filter set_sort)
  then obtain y where y: "y \<in> set (take limit ?q)" using assms(3) by (cases ?q; cases limit) auto
  then have "y \<in> set es" using in_set_takeD [OF y] by simp
  then show ?thesis using y unfolding claimed_events_def by blast
qed

definition passes_at :: "'w outside \<Rightarrow> lib \<Rightarrow> nat \<Rightarrow> nat \<Rightarrow> time list \<Rightarrow> 'w reading \<Rightarrow> 'w reading" where
  "passes_at W L N limit nows s = fold (\<lambda>now s. snd (run_pass W L N now (\<lambda>_. False) limit s)) nows s"

text \<open>
  C22 A poison letter cannot hold the queue: whatever extraction, resolution and consumers raise and
  whenever, after as many passes as the pending letters have attempts between them nothing is pending
  any more -- as long as the quarantine's own statement works.
\<close>

theorem the_queue_drains:
  assumes "distinct (map ev_id (rd_events s))" and "0 < limit" and "0 < N" and "\<forall>i w. ow_fails W Quarantine i w = None"
    and "N * length (filter is_pending (rd_events s)) \<le> length nows"
  shows "\<forall>x\<in>set (rd_events (passes_at W L N limit nows s)). er_processed x \<noteq> None"
proof -
  let ?left = "\<lambda>es. sum_list (map (attempts_left N) es)"
  have "?left es \<le> N * length (filter is_pending es)" for es
    by (induction es) (use assms(3) in \<open>auto simp: attempts_left_def intro: add_mono\<close>)
  then have "?left (rd_events s) \<le> length nows" using assms(5) order_trans by blast
  then show ?thesis using assms(1)
  proof (induction nows arbitrary: s)
    case Nil
    then have "\<forall>x\<in>set (rd_events s). attempts_left N x = 0" by simp
    then have "\<forall>x\<in>set (rd_events s). \<not> is_pending x" by (auto simp: attempts_left_def split: if_splits)
    then show ?case by (simp add: passes_at_def is_pending_def)
  next
    case (Cons now nows)
    define t where "t = snd (run_pass W L N now (\<lambda>_. False) limit s)"
    have all: "list_all2 (pass_after W N now (claimed_events (\<lambda>_. False) limit (rd_events s))) (rd_events s) (rd_events t)"
      unfolding t_def by (rule pass_events [OF Cons.prems(2)])
    note sp = pass_spends [OF _ Cons.prems(2) assms(4,3)]
    have "?left (rd_events t) \<le> length nows"
    proof (cases "\<exists>x\<in>set (rd_events s). is_pending x")
      case True
      then obtain y where y: "y \<in> set (rd_events s)" "ev_id y \<in> claimed_events (\<lambda>_. False) limit (rd_events s)"
        using something_claimed [OF _ _ assms(2)] by blast
      have "?left (rd_events t) < ?left (rd_events s)" by (rule sum_decreases [where f = "attempts_left N", OF all]) (rule sp(1), assumption+, rule y(1), rule sp(2) [OF y(1) _ y(2)])
      then show ?thesis using Cons.prems(1) by simp
    next
      case False
      then have "?left (rd_events s) = 0" by (auto simp: attempts_left_def)
      moreover have "?left (rd_events t) \<le> ?left (rd_events s)"
        by (rule sum_no_more [OF all]) (rule sp(1))
      ultimately show ?thesis by linarith
    qed
    then have "\<forall>x\<in>set (rd_events (passes_at W L N limit nows t)). er_processed x \<noteq> None"
      using Cons.IH [of t] pass_ids [OF all] Cons.prems(2) by simp
    then show ?case by (simp add: passes_at_def t_def)
  qed
qed

text \<open>
  A letter that kills its worker is not one of them: the attempt is spent by the transaction that dies
  with the worker, so the same letter is handed out again and again as the same attempt.
\<close>

theorem a_death_spends_no_attempt:
  "claim_pending_events locked limit
     (rd_events (fold (\<lambda>(now, rows_done, heard) s. dies_in_pass W L N now locked limit rows_done heard s) deaths s))
   = claim_pending_events locked limit (rd_events s)"
proof -
  have "rd_events (fold (\<lambda>(now, rows_done, heard) s. dies_in_pass W L N now locked limit rows_done heard s) deaths s) = rd_events s"
    by (induction deaths arbitrary: s) (simp_all add: case_prod_unfold)
  then show ?thesis by simp
qed

section \<open>What the calls of a pass keep, the worker keeps\<close>

text \<open>
  The contract between the worker and what it calls: \<open>good\<close> is kept by decoding, resolving, asserting
  and by every consumer, whether it answers or raises.
\<close>

locale letter_world =
  fixes W :: "'w outside" and good :: "'w \<Rightarrow> bool"
  assumes decode_keeps: "good w \<Longrightarrow> good (snd (ow_decode W e w))"
    and resolve_keeps: "good w \<Longrightarrow> good (snd (ow_resolve W m handles src w))"
    and assert_keeps: "good w \<Longrightarrow> good (ow_assert W m c facts src w)"
    and hear_keeps: "consume \<in> set (ow_consumers W) \<Longrightarrow> good w \<Longrightarrow> good (snd (consume e cust handles vs w))"
begin

lemma hear_all_keeps: "set cs \<subseteq> set (ow_consumers W) \<Longrightarrow> good w \<Longrightarrow> good (snd (hear_all cs e cust handles vs w))"
proof (induction cs arbitrary: w)
  case (Cons f cs)
  then have "good (snd (f e cust handles vs w))" by (intro hear_keeps) simp_all
  then show ?case using Cons by (auto split: prod.split option.split)
qed simp

lemma quarantine_keeps: "rd_world (snd (quarantine V now e reason s)) = rd_world s"
  by (simp add: quarantine_def split: option.split)

lemma described_keeps:
  "ow_assert V = ow_assert W \<Longrightarrow> good (rd_world s) \<Longrightarrow> good (rd_world (snd (described V e x c s)))"
  by (simp add: described_def assert_keeps)

lemma attributed_keeps:
  assumes "ow_assert V = ow_assert W" and "ow_resolve V = ow_resolve W" and "good (rd_world s)"
  shows "good (rd_world (snd (attributed V now e x s)))"
proof -
  have r: "good w" if "ow_resolve V m h src (rd_world s) = (r, w)" for m h src r w
    using resolve_keeps [OF assms(3), of m h src] that assms(2) by simp
  show ?thesis
    using assms(3) r described_keeps [OF assms(1)] by (auto simp: attributed_def quarantine_keeps split: prod.split resolved.split)
qed

lemma processor_keeps:
  assumes "ow_assert V = ow_assert W" and "ow_resolve V = ow_resolve W" and "ow_decode V = ow_decode W" and "good (rd_world s)"
  shows "good (rd_world (snd (run_processor V L now e s)))"
proof -
  let ?d = "if ev_source e \<in> set flat_sources then (Inr empty_spec, rd_world s) else ow_decode V e (rd_world s)"
  obtain r w where d: "?d = (r, w)" by (cases ?d)
  have g: "good w" using decode_keeps [OF assms(4), of e] d assms(3,4) by (auto split: if_splits)
  show ?thesis
    using g attributed_keeps [OF assms(1,2)] unfolding run_processor_def d
    by (auto simp: quarantine_keeps split: sum.split option.split)
qed

lemma process_one_keeps:
  assumes "set cs \<subseteq> set (ow_consumers W)" and "good (rd_world s)"
  shows "good (rd_world (snd (process_one (W\<lparr>ow_consumers := cs\<rparr>) L now D e s)))"
proof -
  let ?V = "W\<lparr>ow_consumers := cs\<rparr>"
  obtain r s1 where 1: "discover_topic ?V now e D s = (r, s1)" by (cases "discover_topic ?V now e D s")
  have g1: "good (rd_world s1)" using assms(2) 1 by (auto simp: discover_topic_def Let_def split: if_splits option.splits)
  obtain q s2 where 2: "run_processor ?V L now e s1 = (q, s2)" by (cases "run_processor ?V L now e s1")
  have g2: "good (rd_world s2)" using processor_keeps [of ?V s1 L now e] g1 2 by simp
  have h: "good (rd_world (snd (heard_and_stamped ?V now e c handles vs k s2)))" for c handles vs k
    using hear_all_keeps [OF assms(1) g2, of e c handles vs] by (auto simp: heard_and_stamped_def split: prod.split option.split)
  show ?thesis using g1 g2 h by (auto simp: process_one_def 1 2 split: sum.split processed.split)
qed

lemma process_row_keeps: "good (rd_world s) \<Longrightarrow> good (rd_world (snd (process_row W L N now e (D, s))))"
proof -
  assume g: "good (rd_world s)"
  have "good (rd_world (snd (process_one W L now D e s)))"
    using process_one_keeps [of "ow_consumers W" s L now D e] g by simp
  then show ?thesis by (auto simp: process_row_def after_failed_row_def quarantine_keeps split: prod.split sum.split)
qed

lemma rows_keep: "good (rd_world (snd ds)) \<Longrightarrow> good (rd_world (snd (fold (process_row W L N now) rows ds)))"
proof (induction rows arbitrary: ds)
  case (Cons e rows)
  show ?case using Cons.IH process_row_keeps [OF Cons.prems, of L N now e "fst ds"] by simp
qed simp

lemma pass_keeps: "good (rd_world s) \<Longrightarrow> good (rd_world (snd (run_pass W L N now locked limit s)))"
proof -
  assume g: "good (rd_world s)"
  obtain rows es where c: "claim_pending_events locked limit (rd_events s) = (rows, es)" by (cases "claim_pending_events locked limit (rd_events s)")
  have "good (rd_world (snd (fold (process_row W L N now) rows ([], s\<lparr>rd_events := es\<rparr>))))" by (rule rows_keep) (simp add: g)
  then show ?thesis by (cases "fold (process_row W L N now) rows ([], s\<lparr>rd_events := es\<rparr>)") (simp add: run_pass_def pass_in_txn_def c)
qed

lemma death_keeps: "good (rd_world s) \<Longrightarrow> good (rd_world (dies_in_pass W L N now locked limit rows_done heard s))"
proof -
  assume g: "good (rd_world s)"
  obtain rows es where c: "claim_pending_events locked limit (rd_events s) = (rows, es)" by (cases "claim_pending_events locked limit (rd_events s)")
  obtain D t where t: "fold (process_row W L N now) (take rows_done rows) ([], s\<lparr>rd_events := es\<rparr>) = (D, t)"
    by (cases "fold (process_row W L N now) (take rows_done rows) ([], s\<lparr>rd_events := es\<rparr>)")
  have gt: "good (rd_world t)" using rows_keep [of "([], s\<lparr>rd_events := es\<rparr>)" L N now "take rows_done rows"] t g by simp
  have "good (rd_world (snd (process_one (W\<lparr>ow_consumers := take heard (ow_consumers W)\<rparr>) L now D e t)))" for e
    by (rule process_one_keeps [OF set_take_subset gt])
  then show ?thesis using gt by (simp add: dies_in_pass_def c t split: list.split)
qed

end

section \<open>The customer table behind the worker\<close>

text \<open>
  The contracts of identity as the worker calls them, beside the consumers' own state \<open>'x\<close>: \<open>draw\<close> is
  the id the database draws, an id already taken is refused by the primary key.
\<close>

definition resolve_people ::
    "lib \<Rightarrow> time \<Rightarrow> (customer list \<Rightarrow> string) \<Rightarrow> string \<Rightarrow> (string \<times> string) list \<Rightarrow> customer list \<times> 'x \<Rightarrow> resolved \<times> customer list \<times> 'x" where
  "resolve_people L now draw m handles w = (case w of (cs, x) \<Rightarrow>
     (if m = [] \<or> normalize_handles handles = [] then (Unresolvable ''no usable handle'', w)
      else if list_ex (\<lambda>c. cu_id c = draw cs) cs then (Resolve_raises ''duplicate id'', w)
      else case resolve_customer L now (draw cs) m handles ''observed'' (cs, cs) (cs, cs) of
          None \<Rightarrow> (Resolve_raises ''refused'', w)
        | Some (i, cs') \<Rightarrow> (Resolved i, (cs', x))))"

definition assert_people ::
    "lib \<Rightarrow> time \<Rightarrow> (rat \<Rightarrow> json) \<Rightarrow> string \<Rightarrow> string \<Rightarrow> dict \<Rightarrow> string \<Rightarrow> customer list \<times> 'x \<Rightarrow> customer list \<times> 'x" where
  "assert_people L now k m c facts src w = (case w of (cs, x) \<Rightarrow>
     (case assert_facts L k now m c facts ''observed'' src None cs of None \<Rightarrow> w | Some (b, cs') \<Rightarrow> (cs', x)))"

definition beside :: "'x consumer \<Rightarrow> (customer list \<times> 'x) consumer" where
  "beside f e c handles vs w = (case w of (cs, x) \<Rightarrow> (case f e c handles vs x of (r, x') \<Rightarrow> (r, (cs, x'))))"

definition people_outside ::
    "lib \<Rightarrow> time \<Rightarrow> (rat \<Rightarrow> json) \<Rightarrow> (customer list \<Rightarrow> string) \<Rightarrow> (worker_statement \<Rightarrow> string \<Rightarrow> customer list \<times> 'x \<Rightarrow> string option)
     \<Rightarrow> (string \<times> string \<Rightarrow> catalog_entry option) \<Rightarrow> (event_row \<Rightarrow> string + decode_spec) \<Rightarrow> 'x consumer list
     \<Rightarrow> (customer list \<times> 'x) outside" where
  "people_outside L now k draw fails code spec fs =
     \<lparr>ow_fails = fails, ow_code = code, ow_decode = (\<lambda>e w. (spec e, w)), ow_why = (\<lambda>e. []),
      ow_resolve = (\<lambda>m handles src w. resolve_people L now draw m handles w),
      ow_assert = assert_people L now k, ow_consumers = map beside fs\<rparr>"

definition people_good :: "customer list \<times> 'x \<Rightarrow> bool" where
  "people_good w \<longleftrightarrow> customers_ok (fst w) \<and> list_all facts_ok (fst w)"

lemma resolve_people_good:
  assumes "people_good w"
  shows "people_good (snd (resolve_people L now draw m handles w))"
proof -
  obtain cs x where w: "w = (cs, x)" by (cases w)
  have ok: "customers_ok cs" "list_all facts_ok cs" using assms by (simp_all add: people_good_def w)
  have r: "customers_ok cs' \<and> list_all facts_ok cs'"
    if "resolve_customer L now i m handles ''observed'' (cs, cs) (cs, cs) = Some (j, cs')" "\<not> list_ex (\<lambda>c. cu_id c = i) cs" for i j cs'
  proof -
    have "resolve_in_txn L now i m (normalize_handles handles) ''observed'' cs cs = Written (j, cs')"
      using that(1) by (auto simp: resolve_customer_def Let_def split: if_splits written.splits)
    then show ?thesis
      using resolve_txn_ok [OF ok(1) persists_refl] resolved_facts ok(2) that(2) by (fastforce simp: list_ex_iff)
  qed
  show ?thesis using ok r unfolding resolve_people_def w people_good_def
    by (auto split: option.split prod.split)
qed

lemma assert_people_good:
  assumes "people_good w"
  shows "people_good (assert_people L now k m c facts src w)"
proof -
  obtain cs x where w: "w = (cs, x)" by (cases w)
  have ok: "customers_ok cs" "list_all facts_ok cs" using assms by (simp_all add: people_good_def w)
  have d: "distinct (map cu_id cs)" using ok(1) by (simp add: customers_ok_def)
  have "customers_ok cs' \<and> list_all facts_ok cs'" if "assert_facts L k now m c facts ''observed'' src None cs = Some (b, cs')" for b cs'
    using written_on [OF _ ok, of cs' c "[]"] asserted [OF that d ok(2)] by simp blast
  then show ?thesis using ok unfolding assert_people_def w people_good_def by (auto split: option.split prod.split)
qed

interpretation people: letter_world "people_outside L now k draw fails code spec fs" people_good
  for L now k draw fails code spec fs
proof (unfold_locales, goal_cases)
  case (2 w m handles src)
  then show ?case by (simp add: people_outside_def resolve_people_good)
next
  case (3 w m c facts src)
  then show ?case by (simp add: people_outside_def assert_people_good)
next
  case (4 consume w e cust handles vs)
  then show ?case by (auto simp: people_outside_def beside_def people_good_def split: prod.split)
qed (simp add: people_outside_def)

inductive worker_step ::
    "lib \<Rightarrow> (rat \<Rightarrow> json) \<Rightarrow> (customer list \<Rightarrow> string) \<Rightarrow> (worker_statement \<Rightarrow> string \<Rightarrow> customer list \<times> 'x \<Rightarrow> string option)
     \<Rightarrow> (string \<times> string \<Rightarrow> catalog_entry option) \<Rightarrow> (event_row \<Rightarrow> string + decode_spec) \<Rightarrow> 'x consumer list \<Rightarrow> nat
     \<Rightarrow> (customer list \<times> 'x) reading \<Rightarrow> (customer list \<times> 'x) reading \<Rightarrow> bool" for L k draw fails code spec fs N where
  passes: "worker_step L k draw fails code spec fs N s
    (snd (run_pass (people_outside L now k draw fails code spec fs) L N now locked limit s))"
| dies: "worker_step L k draw fails code spec fs N s
    (dies_in_pass (people_outside L now k draw fails code spec fs) L N now locked limit rows_done heard s)"
| files: "worker_step L k draw fails code spec fs N s
    (s\<lparr>rd_events := snd (insert_event now i m src t ext payload ver occ cust processed (rd_events s))\<rparr>)"

text \<open>
  C24 Whatever letters are filed, in whatever order passes and deaths of workers come and whatever the
  consumers do, the worker leaves a customer table where no two active customers of a merchant share a
  handle, every merge leads to an older customer and the columns say what the assertion history says.
\<close>

theorem letters_keep_the_customers:
  assumes "(worker_step L k draw fails code spec fs N)\<^sup>*\<^sup>* s s'" and "rd_world s = ([], x)"
  shows "customers_ok (fst (rd_world s')) \<and> list_all facts_ok (fst (rd_world s'))"
proof -
  have "people_good (rd_world s')"
    using assms(1)
  proof (induction rule: rtranclp_induct)
    case base
    then show ?case by (simp add: assms(2) people_good_def customers_ok_def)
  next
    case (step t u)
    from step(2,3) show ?case by cases (simp_all add: people.pass_keeps people.death_keeps)
  qed
  then show ?thesis by (simp add: people_good_def)
qed

section \<open>Examples\<close>

definition demo_consumer :: "nat consumer" where
  "demo_consumer e c handles vs n = (if ev_topic e = ''poison'' then (Some ''boom'', n) else (None, n + 1))"

definition drawn_id :: "customer list \<Rightarrow> string" where
  "drawn_id cs = CHR ''c'' # concat (map cu_id cs)"

definition demo_outside :: "(customer list \<times> nat) outside" where
  "demo_outside = people_outside people_lib 10 (\<lambda>_. JNull) drawn_id (\<lambda>_ _ _. None) (\<lambda>_. None) (\<lambda>_. Inr empty_spec) [demo_consumer]"

definition demo_spine :: "(customer list \<times> nat) reading" where
  "demo_spine = \<lparr>rd_events = snd (insert_event 2 ''e2'' ''m'' ''pos'' ''poison'' ''x2'' [(''customer_mobile_number'', JStr ''9876543210'')] ''1'' None None False
      (snd (insert_event 1 ''e1'' ''m'' ''pos'' ''sale'' ''x1'' [(''customer_mobile_number'', JStr ''098765 43210'')] ''1'' None None False []))),
     rd_schemas = [], rd_world = ([], 0), rd_known = []\<rparr>"

definition demo_drained :: "(customer list \<times> nat) reading" where
  "demo_drained = passes_at demo_outside people_lib 2 10 [10, 11, 12, 13] demo_spine"

definition demo_once :: "(customer list \<times> nat) reading" where
  "demo_once = snd (run_pass demo_outside people_lib 2 10 (\<lambda>_. False) 10 demo_spine)"

lemma demo_ids: "distinct (map ev_id (rd_events demo_spine))"
  by code_simp

theorem the_queue_drains_witness:
  "list_all (\<lambda>x. er_processed x \<noteq> None) (rd_events demo_drained)
   \<and> map er_quarantine (rd_events demo_drained) = [None, Some ''consumer_error after 2 attempts: boom'']
   \<and> length (fst (rd_world demo_drained)) = 1"
proof -
  have f: "\<forall>i w. ow_fails demo_outside Quarantine i w = None" by (simp add: demo_outside_def people_outside_def)
  have n: "2 * length (filter is_pending (rd_events demo_spine)) \<le> length [10, 11, 12, 13 :: int]" by code_simp
  have "\<forall>x\<in>set (rd_events demo_drained). er_processed x \<noteq> None"
    unfolding demo_drained_def by (rule the_queue_drains [OF demo_ids _ _ f n]) simp_all
  moreover have "map er_quarantine (rd_events demo_drained) = [None, Some ''consumer_error after 2 attempts: boom'']
     \<and> length (fst (rd_world demo_drained)) = 1" by code_simp
  ultimately show ?thesis by (simp add: list_all_iff)
qed

theorem a_pass_loses_no_letter_witness:
  "\<exists>x'\<in>set (rd_events demo_once). ev_id x' = ''e2'' \<and> er_attempts x' = 1 \<and> is_pending x'"
proof -
  have x: "rd_events demo_spine ! 1 \<in> set (rd_events demo_spine)" by code_simp
  have r: "run_pass demo_outside people_lib 2 10 (\<lambda>_. False) 10 demo_spine
      = (fst (run_pass demo_outside people_lib 2 10 (\<lambda>_. False) 10 demo_spine), demo_once)"
    by (simp add: demo_once_def)
  have d: "rd_events demo_once ! 1 \<in> set (rd_events demo_once) \<and> ev_id (rd_events demo_once ! 1) = ev_id (rd_events demo_spine ! 1)
      \<and> ev_id (rd_events demo_once ! 1) = ''e2'' \<and> er_attempts (rd_events demo_once ! 1) = 1 \<and> is_pending (rd_events demo_once ! 1)"
    by code_simp
  then show ?thesis using a_pass_loses_no_letter [OF demo_ids x r] by blast
qed

lemma demo_steps: "(spine_step demo_outside people_lib 2)\<^sup>*\<^sup>* demo_once (dies_in_pass demo_outside people_lib 2 20 (\<lambda>_. False) 10 0 1 demo_once)"
  by (rule r_into_rtranclp) (rule spine_step.dies)

theorem a_letter_is_settled_once_witness:
  "er_processed (rd_events demo_once ! 0) = Some 10
   \<and> rd_events demo_once ! 0 \<in> set (rd_events (dies_in_pass demo_outside people_lib 2 20 (\<lambda>_. False) 10 0 1 demo_once))"
proof -
  have d: "distinct (map ev_id (rd_events demo_once))" "rd_events demo_once ! 0 \<in> set (rd_events demo_once)" by code_simp+
  have "er_processed (rd_events demo_once ! 0) = Some 10" by code_simp
  then show ?thesis using a_letter_is_settled_once [OF demo_steps d] by simp
qed

theorem letters_keep_the_customers_witness:
  "customers_ok (fst (rd_world demo_once)) \<and> list_all facts_ok (fst (rd_world demo_once)) \<and> length (fst (rd_world demo_once)) = 1"
proof -
  have "(worker_step people_lib (\<lambda>_. JNull) drawn_id (\<lambda>_ _ _. None) (\<lambda>_. None) (\<lambda>_. Inr empty_spec) [demo_consumer] 2)\<^sup>*\<^sup>* demo_spine demo_once"
    unfolding demo_once_def demo_outside_def by (rule r_into_rtranclp) (rule worker_step.passes)
  moreover have "rd_world demo_spine = ([], 0)" by (simp add: demo_spine_def)
  ultimately have "customers_ok (fst (rd_world demo_once)) \<and> list_all facts_ok (fst (rd_world demo_once))"
    by (rule letters_keep_the_customers)
  moreover have "length (fst (rd_world demo_once)) = 1" by code_simp
  ultimately show ?thesis by blast
qed

end
