(* ===== verification/Extract_Laws.thy ===== *)
theory Extract_Laws
  imports Extract
begin

text \<open>
  What decoding promises: a signed field reaches the run under the name the editor shows, an accepted
  item format leaves no brace of its own in a message, a list is counted instead of cut, a variable
  is small, and re-registration keeps every path -- as long as signers do not race.
\<close>

section \<open>Item formats\<close>

lemma split_covers: "x \<in> set s \<Longrightarrow> x = c \<or> (\<exists>w\<in>set (split_on c s). x \<in> set w)"
proof (induction s)
  case (Cons y s)
  obtain w ws where w: "split_on c s = w # ws" by (cases "split_on c s") simp_all
  show ?case using Cons by (auto simp: w)
qed simp

lemma brace_chars:
  "\<not> is_upper (CHR ''{'')" "\<not> is_lower (CHR ''{'')" "\<not> is_digit (CHR ''{'')"
  "\<not> is_upper (CHR ''}'')" "\<not> is_lower (CHR ''}'')" "\<not> is_digit (CHR ''}'')"
  by code_simp+

lemma plain_no_brace: "plain_name s \<Longrightarrow> CHR ''{'' \<notin> set s" "plain_name s \<Longrightarrow> CHR ''}'' \<notin> set s"
  unfolding plain_name_def list_all_iff using brace_chars by (auto split: list.splits)

lemma dotted_no_brace: "dotted_name s \<Longrightarrow> CHR ''{'' \<notin> set s \<and> CHR ''}'' \<notin> set s"
  using split_covers [of _ s "CHR ''.''"] plain_no_brace unfolding dotted_name_def list_all_iff by fastforce

text \<open>
  The grammar the law reads a format by and the one the engine fills it by agree on every accepted
  format: each brace group is a blank the engine fills, so no brace of the format itself can reach a
  customer.
\<close>

theorem accepted_format_has_no_stray_brace:
  assumes "format_faults item_format = []"
  shows "item_pieces item_format = groups item_format \<and> Lit (CHR ''{'') \<notin> set (item_pieces item_format) \<and> Lit (CHR ''}'') \<notin> set (item_pieces item_format)"
proof -
  let ?inside = "\<lambda>g. case g of Blank n \<Rightarrow> Some n | Lit c \<Rightarrow> None"
  have f: "Lit (CHR ''{'') \<notin> set (groups item_format)" "Lit (CHR ''}'') \<notin> set (groups item_format)"
      "filter (\<lambda>n. \<not> dotted_name n) (List.map_filter ?inside (groups item_format)) = []"
    using assms unfolding format_faults_def Let_def by (auto split: if_splits)
  have no: "dotted_name n" if "Blank n \<in> set (groups item_format)" for n
  proof -
    have "n \<in> set (List.map_filter ?inside (groups item_format))" using that by (induction "groups item_format" rule: list.induct) (force simp: List.map_filter_def)+
    then show ?thesis using f(3) unfolding filter_empty_conv by blast
  qed
  have "item_pieces s = groups s" if "Lit (CHR ''{'') \<notin> set (groups s)" "\<forall>n. Blank n \<in> set (groups s) \<longrightarrow> dotted_name n" for s
    using that
  proof (induction s rule: groups.induct)
    case (2 c cs)
    let ?b = "\<lambda>x. x \<noteq> CHR ''{'' \<and> x \<noteq> CHR ''}''"
    let ?rest = "dropWhile ?b cs"
    show ?case
    proof (cases "c = CHR ''{'' \<and> ?rest \<noteq> [] \<and> hd ?rest = CHR ''}''")
      case True
      have d: "dotted_name (takeWhile ?b cs)" using 2(4) True by (simp add: Let_def)
      have s: "cs = takeWhile ?b cs @ ?rest" by simp
      obtain r where r: "?rest = CHR ''}'' # r" using True by (cases ?rest) auto
      have "\<forall>x\<in>set (takeWhile ?b cs). x \<noteq> CHR ''}''" using dotted_no_brace [OF d] by blast
      then have "takeWhile (\<lambda>x. x \<noteq> CHR ''}'') (takeWhile ?b cs @ CHR ''}'' # r) = takeWhile ?b cs"
          "dropWhile (\<lambda>x. x \<noteq> CHR ''}'') (takeWhile ?b cs @ CHR ''}'' # r) = CHR ''}'' # r"
        by (simp_all add: takeWhile_append2 dropWhile_append2)
      then have "takeWhile (\<lambda>x. x \<noteq> CHR ''}'') cs = takeWhile ?b cs" "dropWhile (\<lambda>x. x \<noteq> CHR ''}'') cs = ?rest"
        using s r by metis+
      then show ?thesis using 2 True d by (simp add: Let_def)
    next
      case False
      then have g: "groups (c # cs) = Lit c # groups cs" by (auto simp: Let_def)
      then have "c \<noteq> CHR ''{''" using 2(3) by auto
      then show ?thesis using 2(2-4) False g by (simp add: Let_def)
    qed
  qed simp
  then have "item_pieces item_format = groups item_format" using no f by blast
  then show ?thesis using f by simp
qed

section \<open>Lists in one line\<close>

text \<open>How many parts are kept, and that what is kept fits with its count.\<close>

lemma kept_spec:
  "\<exists>k\<le>length rest. kept_parts budget separator kept rest = kept @ take k rest
     \<and> (0 < k \<longrightarrow> length (join_with separator (kept @ take k rest)) + length (more_tail (length rest - k)) \<le> budget)"
proof (induction budget separator kept rest rule: kept_parts.induct)
  case (2 budget separator kept part rest)
  let ?over = "budget < length (join_with separator (kept @ [part])) + length (more_tail (length rest))"
  show ?case
  proof (cases ?over)
    case False
    then obtain k where k: "k \<le> length rest" "kept_parts budget separator (kept @ [part]) rest = (kept @ [part]) @ take k rest"
        "0 < k \<longrightarrow> length (join_with separator ((kept @ [part]) @ take k rest)) + length (more_tail (length rest - k)) \<le> budget"
      using 2 by blast
    have "length (join_with separator (kept @ part # take k rest)) + length (more_tail (length rest - k)) \<le> budget"
      using k(3) False by (cases "k = 0") simp_all
    then show ?thesis using k(1,2) False by (intro exI [of _ "Suc k"]) simp
  qed (auto intro: exI [of _ 0])
qed simp

lemma join_empty: "[] \<notin> set parts \<Longrightarrow> join_with separator parts = [] \<longleftrightarrow> parts = []"
  by (induction separator parts rule: join_with.induct) auto

text \<open>
  A list is counted, never cut: what a blank carries is the first parts of the list, whole, and --
  unless those are all -- how many more there are; and it keeps its budget.
\<close>

theorem a_list_is_counted_not_cut:
  assumes "[] \<notin> set parts" and "length (nat_text (length parts)) + 6 \<le> budget"
  shows "length (joined_within parts budget separator) \<le> budget
    \<and> (\<exists>k\<le>length parts. joined_within parts budget separator =
        (if k = length parts then join_with separator parts
         else (if k = 0 then [] else join_with separator (take k parts) @ '' '') @ ''+'' @ nat_text (length parts - k) @ '' more''))"
proof -
  obtain k where k: "k \<le> length parts" "kept_parts budget separator [] parts = take k parts"
      "0 < k \<longrightarrow> length (join_with separator (take k parts)) + length (more_tail (length parts - k)) \<le> budget"
    using kept_spec [of parts budget separator "[]"] by auto
  have n: "join_with separator (take k parts) = [] \<longleftrightarrow> k = 0 \<or> parts = []"
    using join_empty [of "take k parts" separator] assms(1) by (auto dest: in_set_takeD)
  let ?r = "if k = length parts then join_with separator parts
         else (if k = 0 then [] else join_with separator (take k parts) @ '' '') @ ''+'' @ nat_text (length parts - k) @ '' more''"
  have fits: "length ?r \<le> budget"
    using k(1,3) assms(2) by (cases "k = 0") (auto simp: more_tail_def)
  have l: "length (take k parts) = k" using k(1) by simp
  consider "k = length parts" | "k < length parts" "k = 0" | "k < length parts" "join_with separator (take k parts) \<noteq> []" "k \<noteq> 0"
    using k(1) n by fastforce
  then have "joined_within parts budget separator = ?r"
  proof cases
    case 1
    then have "length (join_with separator parts) \<le> budget" using fits by simp
    then show ?thesis using 1 by (simp add: joined_within_def k(2) Let_def)
  next
    case 2
    then show ?thesis using fits by (simp add: joined_within_def k(2) Let_def del: nat_text.simps)
  next
    case 3
    then show ?thesis using fits l unfolding joined_within_def k(2) Let_def by (simp del: nat_text.simps)
  qed
  then show ?thesis using fits k(1) by (intro conjI exI [of _ k]) (simp_all only:)
qed

text \<open>
  A list that fits whole can come out empty: every part is asked to leave room for a count that is
  needed only when something is left out.
\<close>

theorem a_list_that_fits_is_dropped:
  assumes "length part = 995"
  shows "length (join_with list_join [part, ''b'']) \<le> variable_max_chars
    \<and> joined_within [part, ''b''] variable_max_chars list_join = ''+2 more''"
  using assms by (simp add: joined_within_def Let_def variable_max_chars_def list_join_def more_tail_def nat_text.simps digit_char_def)

section \<open>Variables\<close>

lemma variables_put: "ex_variables (x\<lparr>ex_about := a, ex_variables := vs\<rparr>) = vs"
  by simp

definition small :: "decode_spec \<Rightarrow> string \<times> json \<Rightarrow> bool" where
  "small spec nv \<longleftrightarrow> fst nv \<in> fst ` set (ds_variables spec)
     \<and> (snd nv = JNull \<or> is_scalar (snd nv) \<and> length (py_str (snd nv)) \<le> variable_max_chars)"

lemma set_alist_update: "set (AList.update k v xs) \<subseteq> insert (k, v) (set xs)"
  by (induction xs) auto

lemma joined_length: "join_list vals f budget b = Some t \<Longrightarrow> length t \<le> budget"
proof -
  have "length (joined_within parts budget sep) \<le> budget" for parts sep by (simp add: joined_within_def Let_def)
  then show "join_list vals f budget b = Some t \<Longrightarrow> ?thesis"
    by (auto simp: join_list_def Let_def split: option.splits if_splits)
qed

lemma read_variable_small:
  assumes "np \<in> set (ds_variables spec)" and "\<forall>nv\<in>set vs. small spec nv"
  shows "\<forall>nv\<in>set (read_variable L payload spec np vs). small spec nv"
proof -
  obtain name path where np: "np = (name, path)" by (cases np)
  have n: "name \<in> fst ` set (ds_variables spec)" using assms(1) np by (force simp: image_iff)
  have put: "\<forall>nv\<in>set (AList.update name w vs). small spec nv" if "small spec (name, w)" for w
    using set_alist_update [of name w vs] assms(2) that by blast
  show ?thesis
  proof (cases "map_of (ds_lists spec) name")
    case None
    show ?thesis
    proof (cases "is_scalar (field_value payload path (ds_derive spec)) \<and> length (py_str (field_value payload path (ds_derive spec))) \<le> variable_max_chars")
      case True
      then have "small spec (name, field_value payload path (ds_derive spec))" using n by (simp add: small_def)
      then show ?thesis using put True None by (simp add: np read_variable_def Let_def)
    next
      case False
      then show ?thesis using assms(2) None by (auto simp: np read_variable_def Let_def)
    qed
  next
    case (Some f)
    have "small spec (name, case join_list vals f variable_max_chars b of None \<Rightarrow> JNull | Some t \<Rightarrow> if t = [] then JNull else JStr t)" for vals b
      using n joined_length [of vals f variable_max_chars b] by (simp add: small_def split: option.split)
    then show ?thesis using put unfolding np read_variable_def prod.case Some option.case Let_def by blast
  qed
qed

text \<open>
  What a letter hands to a run is small: every variable is one of the declared names and holds
  nothing, or a text, a number or a yes/no of at most a thousand characters.
\<close>

theorem letter_variables_are_small:
  assumes "extract_letter L payload spec = Some x" and "(name, v) \<in> set (ex_variables x)"
  shows "name \<in> fst ` set (ds_variables spec) \<and> (v = JNull \<or> is_scalar v \<and> length (py_str v) \<le> variable_max_chars)"
proof -
  have "\<forall>nv\<in>set (fold (read_variable L payload spec) nps vs). small spec nv"
    if "set nps \<subseteq> set (ds_variables spec)" "\<forall>nv\<in>set vs. small spec nv" for nps vs
    using that
  proof (induction nps arbitrary: vs)
    case (Cons np nps)
    have m: "np \<in> set (ds_variables spec)" "set nps \<subseteq> set (ds_variables spec)" using Cons.prems(1) by auto
    show ?case unfolding fold.simps comp_apply by (rule Cons.IH [OF m(2) read_variable_small [OF m(1) Cons.prems(2)]])
  qed simp
  then have f: "\<forall>nv\<in>set (fold (read_variable L payload spec) (ds_variables spec) []). small spec nv"
    by (metis empty_iff empty_set order_refl)
  have "ex_variables x = fold (read_variable L payload spec) (ds_variables spec) []"
  proof (cases "flat_extract payload")
    case None
    then show ?thesis using assms(1) unfolding extract_letter_def by (simp only: option.map option.distinct)
  next
    case (Some flat)
    then show ?thesis using assms(1) unfolding extract_letter_def Some option.map option.inject
      by (elim subst) (rule variables_put)
  qed
  then have "\<forall>nv\<in>set (ex_variables x). small spec nv" using f by (simp only:)
  then have "small spec (name, v)" using assms(2) by blast
  then show ?thesis by (simp add: small_def)
qed

section \<open>A registration is read as it was signed\<close>

definition live :: "catalog_field \<Rightarrow> bool" where
  "live f \<longleftrightarrow> cf_variable f \<and> \<not> cf_deprecated f"

definition live_names :: "catalog_field list \<Rightarrow> string list" where
  "live_names fs = map (\<lambda>f. variable_name (cf_path f)) (filter live fs)"

lemma when_nil [simp]: "when_problem b p = [] \<longleftrightarrow> \<not> b"
  by (simp add: when_problem_def)

text \<open>What a registration without problems has: its own words only, one field a role, one field a blank.\<close>

lemma no_problem_field:
  assumes "signed_field_problems f seen roles blanks = []"
  shows "cf_fallbacks f = []" "payload_path (cf_path f)" "live f \<Longrightarrow> map_of blanks (variable_name (cf_path f)) = None"
    "cf_identity f = Some role \<Longrightarrow> map_of roles role = None"
  using assms unfolding signed_field_problems_def live_def by (simp_all split: option.splits)

lemma no_problem_fields:
  "fields_problems seen roles blanks fs = [] \<Longrightarrow>
    distinct (live_names fs) \<and> (\<forall>n\<in>set (live_names fs). map_of blanks n = None)
    \<and> distinct (List.map_filter cf_identity fs) \<and> (\<forall>r\<in>set (List.map_filter cf_identity fs). map_of roles r = None)
    \<and> (\<forall>f\<in>set fs. cf_fallbacks f = [] \<and> payload_path (cf_path f))"
proof (induction fs arbitrary: seen roles blanks)
  case (Cons f fs)
  let ?roles = "case cf_identity f of None \<Rightarrow> roles | Some role \<Rightarrow> AList.update role (cf_path f) roles"
  let ?blanks = "if cf_variable f \<and> \<not> cf_deprecated f \<and> map_of blanks (variable_name (cf_path f)) = None
        then AList.update (variable_name (cf_path f)) (cf_path f) blanks else blanks"
  have p: "signed_field_problems f seen roles blanks = []" "fields_problems (cf_path f # seen) ?roles ?blanks fs = []"
    using Cons.prems by simp_all
  note one = no_problem_field [OF p(1)]
  note rest = Cons.IH [OF p(2)]
  have names: "distinct (live_names (f # fs)) \<and> (\<forall>n\<in>set (live_names (f # fs)). map_of blanks n = None)"
    using rest one(3) by (auto simp: live_names_def live_def update_conv' split: if_splits)
  have roles: "distinct (List.map_filter cf_identity (f # fs)) \<and> (\<forall>r\<in>set (List.map_filter cf_identity (f # fs)). map_of roles r = None)"
    using rest one(4) by (cases "cf_identity f") (auto simp: List.map_filter_simps update_conv' split: if_splits)
  show ?case using names roles rest one(1,2) by simp
qed (simp_all add: live_names_def List.map_filter_simps)

text \<open>How one name is read by a spec.\<close>

definition reads_as :: "decode_spec \<Rightarrow> string \<Rightarrow> string option \<times> string option option \<times> condition list option \<times> bool option" where
  "reads_as s n = (map_of (ds_variables s) n, map_of (ds_lists s) n, map_of (ds_filters s) n, map_of (ds_numbered s) n)"

lemma read_by_reads [simp]: "reads_as (read_by f s) n = reads_as s n"
  by (simp add: read_by_def reads_as_def split: option.split)

lemma delete_other: "n \<noteq> k \<Longrightarrow> map_of (AList.delete k xs) n = map_of xs n"
  by (simp add: delete_conv')

lemma spec_field_other: "\<not> (live f \<and> variable_name (cf_path f) = n) \<Longrightarrow> reads_as (spec_field f s) n = reads_as s n"
  by (auto simp: spec_field_def live_def Let_def fills_def reads_as_def read_by_def update_conv' delete_other split: option.split)

lemma spec_fields_other: "n \<notin> set (live_names fs) \<Longrightarrow> reads_as (fold spec_field fs s) n = reads_as s n"
proof (induction fs arbitrary: s)
  case (Cons f fs)
  have "\<not> (live f \<and> variable_name (cf_path f) = n)" "n \<notin> set (live_names fs)" using Cons.prems by (auto simp: live_names_def split: if_splits)
  then show ?case using Cons.IH spec_field_other by simp
qed simp

definition declared_as :: "catalog_field \<Rightarrow> string option \<times> string option option \<times> condition list option \<times> bool option" where
  "declared_as f = (Some (cf_path f), if cf_type f = T_list then Some (cf_item_format f) else None,
     if cf_type f = T_list \<and> cf_item_where f \<noteq> [] then Some (cf_item_where f) else None,
     if cf_type f = T_list \<and> cf_item_numbered f then Some True else None)"

lemma spec_field_own:
  "live f \<Longrightarrow> reads_as s (variable_name (cf_path f)) = (a, b, None, None) \<Longrightarrow> reads_as (spec_field f s) (variable_name (cf_path f)) = declared_as f"
  by (auto simp: spec_field_def live_def Let_def fills_def reads_as_def declared_as_def read_by_def update_conv' delete_conv' split: option.split)

lemma spec_reads_live:
  assumes "distinct (live_names fs)" and "f \<in> set fs" and "live f"
  shows "reads_as (fold spec_field fs empty_spec) (variable_name (cf_path f)) = declared_as f"
proof -
  obtain xs ys where s: "fs = xs @ f # ys" using split_list [OF assms(2)] by blast
  have n: "variable_name (cf_path f) \<notin> set (live_names xs)" "variable_name (cf_path f) \<notin> set (live_names ys)"
    using assms(1,3) by (auto simp: s live_names_def)
  have "reads_as (fold spec_field xs empty_spec) (variable_name (cf_path f)) = (None, None, None, None)"
    using spec_fields_other [OF n(1), of empty_spec] by (simp add: reads_as_def empty_spec_def)
  then show ?thesis using spec_fields_other [OF n(2)] spec_field_own [OF assms(3)] by (simp add: s)
qed

lemma spec_identity:
  "role \<notin> set (List.map_filter cf_identity fs) \<Longrightarrow> map_of (ds_identity (fold spec_field fs s)) role = map_of (ds_identity s) role"
proof (induction fs arbitrary: s)
  case (Cons f fs)
  have n: "cf_identity f \<noteq> Some role" "role \<notin> set (List.map_filter cf_identity fs)"
    using Cons.prems by (auto simp: List.map_filter_simps split: option.splits)
  have "map_of (ds_identity (spec_field f s)) role = map_of (ds_identity s) role"
    using n(1) by (auto simp: spec_field_def Let_def fills_def read_by_def update_conv' split: option.split)
  then show ?case using Cons.IH [OF n(2)] by simp
qed simp

lemma spec_reads_role:
  assumes "distinct (List.map_filter cf_identity fs)" and "f \<in> set fs" and "\<not> cf_deprecated f" and "cf_identity f = Some role"
  shows "map_of (ds_identity (fold spec_field fs empty_spec)) role = Some (cf_path f # cf_fallbacks f)"
proof -
  obtain xs ys where s: "fs = xs @ f # ys" using split_list [OF assms(2)] by blast
  have n: "role \<notin> set (List.map_filter cf_identity xs)" "role \<notin> set (List.map_filter cf_identity ys)"
    using assms(1,4) by (auto simp: s List.map_filter_def)
  have "map_of (ds_identity (fold spec_field xs empty_spec)) role = None" using spec_identity [OF n(1), of empty_spec] by (simp add: empty_spec_def)
  then have "map_of (ds_identity (spec_field f (fold spec_field xs empty_spec))) role = Some (cf_path f # cf_fallbacks f)"
    using assms(3,4) by (simp add: spec_field_def Let_def fills_def read_by_def update_conv')
  then show ?thesis using spec_identity [OF n(2)] by (simp add: s)
qed

text \<open>The row reads as what was signed.\<close>

lemma upsert_found:
  "\<exists>e. get_schema key (upsert_schema key label fs who ss) = Some e \<and> es_registered e \<and> es_fields e = fs"
proof (cases "list_ex (\<lambda>e. row_key e = key) ss")
  case True
  have "\<exists>e. find (\<lambda>e. row_key e = key) (map (\<lambda>e. if row_key e = key then registered_again label fs who e else e) ss) = Some e
      \<and> es_registered e \<and> es_fields e = fs"
    using True by (induction ss) (auto simp: registered_again_def row_key_def)
  then show ?thesis using True by (simp add: get_schema_def upsert_schema_def)
next
  case False
  then have "find (\<lambda>e. row_key e = key) ss = None" by (auto simp: find_None_iff list_ex_iff)
  then show ?thesis using False
    by (cases key) (simp add: get_schema_def upsert_schema_def find_append row_key_def)
qed

lemma stored_spec: "cf_fallbacks f = [] \<Longrightarrow> spec_field (with_ops (stored_field f)) = spec_field f"
  by (rule ext) (simp add: spec_field_def read_by_def fills_def with_ops_def stored_field_def Let_def split: option.split)

lemma registered_row_spec:
  assumes "register_schema ck m g who seen ss = Inr ss'"
  shows "row_spec (get_schema (m, rg_source g, rg_topic g) ss') = (fold spec_field (rg_fields g) empty_spec)\<lparr>ds_derive := [], ds_about := About_customer\<rparr>"
    and "fields_problems [] [] [] (rg_fields g) = []"
proof -
  have w: "ss' = upsert_schema (m, rg_source g, rg_topic g) (rg_label g) (map stored_field (rg_fields g)) who ss"
      "validate_registration ck g = []"
    using assms by (auto simp: register_schema_def Let_def split: if_splits)
  show p: "fields_problems [] [] [] (rg_fields g) = []" using w(2) by (simp add: validate_registration_def)
  obtain e where e: "get_schema (m, rg_source g, rg_topic g) ss' = Some e" "es_registered e" "es_fields e = map stored_field (rg_fields g)"
    using upsert_found unfolding w(1) by blast
  have "fold spec_field (map with_ops (map stored_field (rg_fields g))) empty_spec = fold spec_field (rg_fields g) empty_spec"
    using no_problem_fields [OF p] by (auto simp: fold_map comp_def stored_spec intro!: fold_cong)
  then show "row_spec (get_schema (m, rg_source g, rg_topic g) ss') = (fold spec_field (rg_fields g) empty_spec)\<lparr>ds_derive := [], ds_about := About_customer\<rparr>"
    using e by (simp add: row_spec_def spec_for_entry_def entry_from_row_def)
qed

lemma variables_distinct: "distinct (map fst (ds_variables s)) \<Longrightarrow> distinct (map fst (ds_variables (fold spec_field fs s)))"
proof (induction fs arbitrary: s)
  case (Cons f fs)
  have "distinct (map fst (ds_variables (spec_field f s)))"
    using Cons.prems by (simp add: spec_field_def Let_def fills_def read_by_def distinct_update split: option.split)
  then show ?case using Cons.IH by simp
qed simp

text \<open>What the loop over the variables leaves under one name.\<close>

definition variable_value :: "lib \<Rightarrow> dict \<Rightarrow> decode_spec \<Rightarrow> string \<Rightarrow> string \<Rightarrow> json option" where
  "variable_value L payload spec name path = map_of (read_variable L payload spec (name, path) []) name"

lemma read_variable_at:
  "map_of (read_variable L payload spec (n, p) vs) k = (if k = n \<and> variable_value L payload spec n p \<noteq> None
     then variable_value L payload spec n p else map_of vs k)"
  by (cases "map_of (ds_lists spec) n") (simp_all add: variable_value_def read_variable_def Let_def update_conv')

lemma read_variables_at:
  assumes "distinct (map fst nps)"
  shows "map_of (fold (read_variable L payload spec) nps vs) k = (case map_of nps k of None \<Rightarrow> map_of vs k
     | Some p \<Rightarrow> (case variable_value L payload spec k p of None \<Rightarrow> map_of vs k | Some v \<Rightarrow> Some v))"
  using assms
proof (induction nps arbitrary: vs)
  case (Cons np nps)
  obtain n p where np: "np = (n, p)" by (cases np)
  have d: "distinct (map fst nps)" "map_of nps n = None" using Cons.prems by (auto simp: np map_of_eq_None_iff)
  show ?case unfolding fold.simps comp_apply np Cons.IH [OF d(1)] read_variable_at using d(2) by (auto split: option.split)
qed simp

lemma extracted_variable:
  assumes "distinct (map fst (ds_variables spec))" and "map_of (ds_variables spec) n = Some p" and "extract_letter L payload spec = Some x"
  shows "map_of (ex_variables x) n = variable_value L payload spec n p"
proof -
  have "ex_variables x = fold (read_variable L payload spec) (ds_variables spec) []"
    using assms(3) unfolding extract_letter_def by (cases "flat_extract payload") (auto simp only: option.map option.inject option.distinct variables_put)
  then show ?thesis using read_variables_at [OF assms(1), of L payload spec "[]" n] assms(2) by (simp split: option.splits)
qed

lemma declared_value:
  assumes "reads_as spec n = declared_as f" and "prefix_of payload_prefix (cf_path f)"
  shows "variable_value L payload spec n (cf_path f) =
    (if cf_type f = T_list
     then Some (case join_list (list_values L payload (cf_path f) (cf_item_where f)) (cf_item_format f) variable_max_chars (cf_item_numbered f) of
         None \<Rightarrow> JNull | Some t \<Rightarrow> (if t = [] then JNull else JStr t))
     else let v = dig (JObj payload) (drop (length payload_prefix) (cf_path f))
          in if is_scalar v \<and> length (py_str v) \<le> variable_max_chars then Some v else None)"
proof -
  have v: "field_value payload (cf_path f) d = dig (JObj payload) (drop (length payload_prefix) (cf_path f))" for d
    using assms(2) by (simp add: field_value_def)
  have r: "map_of (ds_lists spec) n = (if cf_type f = T_list then Some (cf_item_format f) else None)"
      "map_of (ds_filters spec) n = (if cf_type f = T_list \<and> cf_item_where f \<noteq> [] then Some (cf_item_where f) else None)"
      "map_of (ds_numbered spec) n = (if cf_type f = T_list \<and> cf_item_numbered f then Some True else None)"
    using assms(1) by (simp_all add: reads_as_def declared_as_def)
  show ?thesis
    by (cases "cf_type f = T_list"; cases "cf_item_where f = []"; cases "cf_item_numbered f")
      (simp_all add: variable_value_def read_variable_def v r Let_def)
qed

text \<open>
  C26 A signed field reaches the run.  Once a registration is accepted -- whatever was registered before
  -- a letter gives the run, under the name the editor shows, what it carries at the signed path: the
  value itself, or for a list its items by the signed format, filter and numbering.
\<close>

theorem signed_field_reaches_the_run:
  assumes "register_schema ck m g who seen ss = Inr ss'" and "f \<in> set (rg_fields g)" and "cf_variable f" and "\<not> cf_deprecated f"
    and "extract_letter L payload (row_spec (get_schema (m, rg_source g, rg_topic g) ss')) = Some x"
  shows "map_of (ex_variables x) (variable_name (cf_path f)) =
    (if cf_type f = T_list
     then Some (case join_list (list_values L payload (cf_path f) (cf_item_where f)) (cf_item_format f) variable_max_chars (cf_item_numbered f) of
         None \<Rightarrow> JNull | Some t \<Rightarrow> (if t = [] then JNull else JStr t))
     else let v = dig (JObj payload) (drop (length payload_prefix) (cf_path f))
          in if is_scalar v \<and> length (py_str v) \<le> variable_max_chars then Some v else None)"
proof -
  let ?base = "fold spec_field (rg_fields g) empty_spec"
  let ?spec = "?base\<lparr>ds_derive := [], ds_about := About_customer\<rparr>"
  note s = registered_row_spec [OF assms(1)]
  note ok = no_problem_fields [OF s(2)]
  have l: "live f" using assms(3,4) by (simp add: live_def)
  have "distinct (live_names (rg_fields g))" using ok by blast
  then have r: "reads_as ?base (variable_name (cf_path f)) = declared_as f" using spec_reads_live assms(2) l by blast
  have p: "prefix_of payload_prefix (cf_path f)" using ok assms(2) by (auto simp: payload_path_def)
  have d: "distinct (map fst (ds_variables ?spec))" using variables_distinct [of empty_spec] by (simp add: empty_spec_def)
  have r': "reads_as ?spec n = reads_as ?base n" for n by (simp add: reads_as_def)
  have "map_of (ds_variables ?spec) (variable_name (cf_path f)) = Some (cf_path f)" using r by (simp add: reads_as_def declared_as_def)
  then have "map_of (ex_variables x) (variable_name (cf_path f)) = variable_value L payload ?spec (variable_name (cf_path f)) (cf_path f)"
    using extracted_variable [OF d] assms(5) unfolding s(1) by blast
  then show ?thesis using declared_value [OF r' [of "variable_name (cf_path f)", unfolded r] p] by simp
qed

lemma read_role_other: "role \<noteq> fst rp \<Longrightarrow> map_of (ex_handles (read_role payload D rp x)) role = map_of (ex_handles x) role"
  by (cases rp) (simp add: read_role_def Let_def update_conv' split: option.split)

lemma read_roles_other: "role \<notin> fst ` set rps \<Longrightarrow> map_of (ex_handles (fold (read_role payload D) rps x)) role = map_of (ex_handles x) role"
proof (induction rps arbitrary: x)
  case (Cons rp rps)
  then show ?case using read_role_other [of role rp payload D x] by simp
qed simp

lemma identity_distinct: "distinct (map fst (ds_identity s)) \<Longrightarrow> distinct (map fst (ds_identity (fold spec_field fs s)))"
proof (induction fs arbitrary: s)
  case (Cons f fs)
  have "distinct (map fst (ds_identity (spec_field f s)))"
    using Cons.prems by (simp add: spec_field_def Let_def fills_def read_by_def distinct_update split: option.split)
  then show ?case using Cons.IH by simp
qed simp

text \<open>
  The person is found by the signed phone: what the letter carries at the path signed as the phone,
  however it is written, is the handle the customer is resolved by -- over any flat number beside it.
\<close>

theorem signed_phone_is_the_handle:
  assumes "register_schema ck m g who seen ss = Inr ss'" and "f \<in> set (rg_fields g)" and "cf_identity f = Some ''phone''" and "\<not> cf_deprecated f"
    and "extract_letter L payload (row_spec (get_schema (m, rg_source g, rg_topic g) ss')) = Some x"
    and "normalize_phone (py_str (dig (JObj payload) (drop (length payload_prefix) (cf_path f)))) = Some p"
    and "\<not> blank (dig (JObj payload) (drop (length payload_prefix) (cf_path f)))" and "p \<noteq> []"
  shows "map_of (ex_handles x) ''phone'' = Some p"
proof -
  let ?base = "fold spec_field (rg_fields g) empty_spec"
  note s = registered_row_spec [OF assms(1)]
  note ok = no_problem_fields [OF s(2)]
  have i: "map_of (ds_identity ?base) ''phone'' = Some [cf_path f]"
    using spec_reads_role [OF _ assms(2,4,3)] ok assms(2) by simp
  have "distinct (map fst (ds_identity ?base))" using identity_distinct [of empty_spec] by (simp add: empty_spec_def)
  moreover obtain xs ys where xy: "ds_identity ?base = xs @ (''phone'', [cf_path f]) # ys"
    using split_list [OF map_of_SomeD [OF i]] by blast
  ultimately have n: "''phone'' \<notin> fst ` set ys" by auto
  have "prefix_of payload_prefix (cf_path f)" using ok assms(2) by (auto simp: payload_path_def)
  then have v: "first_present payload [cf_path f] [] = dig (JObj payload) (drop (length payload_prefix) (cf_path f))"
    using assms(7) by (simp add: first_present_def field_value_def)
  have one: "map_of (ex_handles (read_role payload [] (''phone'', [cf_path f]) y)) ''phone'' = Some p" for y
    using assms(6-8) by (simp add: read_role_def v handle_of_def update_conv' blank_def Let_def)
  obtain flat where "ex_handles x = ex_handles (fold (read_role payload []) (ds_identity ?base) flat)"
    using assms(5) unfolding s(1) extract_letter_def by (cases "flat_extract payload") auto
  then show ?thesis using read_roles_other [OF n] one by (simp add: xy)
qed

section \<open>Registering again\<close>

definition schema_paths :: "event_schema \<Rightarrow> string set" where
  "schema_paths e = set (map cf_path (es_fields e))"

text \<open>The states of the table while signers come one at a time, the latest first.\<close>

inductive schema_past :: "event_schema list list \<Rightarrow> bool" where
  begins: "schema_past [[]]"
| detects: "schema_past (ss # past) \<Longrightarrow> schema_past (insert_detected_schema now key ss # ss # past)"
| registers: "schema_past (ss # past) \<Longrightarrow> register_schema ck m g who ss ss = Inr ss' \<Longrightarrow> schema_past (ss' # ss # past)"

definition still_declares :: "event_schema list \<Rightarrow> event_schema \<Rightarrow> bool" where
  "still_declares ss e \<longleftrightarrow> (\<exists>d\<in>set ss. row_key d = row_key e \<and> es_registered d \<and> schema_paths e \<subseteq> schema_paths d \<and> es_version e \<le> es_version d)"

lemma still_trans: "still_declares ss e \<Longrightarrow> (\<And>d. d \<in> set ss \<Longrightarrow> es_registered d \<Longrightarrow> still_declares ss' d) \<Longrightarrow> still_declares ss' e"
  unfolding still_declares_def by (metis order_trans)

lemma still_refl: "e \<in> set ss \<Longrightarrow> es_registered e \<Longrightarrow> still_declares ss e"
  unfolding still_declares_def by blast

lemma upsert_keys:
  assumes "distinct (map row_key ss)"
  shows "distinct (map row_key (upsert_schema key label fs who ss))"
proof (cases "list_ex (\<lambda>e. row_key e = key) ss")
  case True
  have k: "row_key (registered_again label fs who e) = row_key e" for e by (simp add: registered_again_def row_key_def)
  have "map row_key (map (\<lambda>e. if row_key e = key then registered_again label fs who e else e) ss) = map row_key ss"
    by (rule map_equality_iff [THEN iffD2]) (simp add: k)
  then show ?thesis using assms True by (simp only: upsert_schema_def if_True)
next
  case False
  then show ?thesis using assms by (cases key) (auto simp: upsert_schema_def row_key_def list_ex_iff)
qed

lemma registered_keeps:
  assumes "distinct (map row_key ss)" and "register_schema ck m g who ss ss = Inr ss'" and "e \<in> set ss" and "es_registered e"
  shows "still_declares ss' e"
proof -
  let ?key = "(m, rg_source g, rg_topic g)"
  have w: "ss' = upsert_schema ?key (rg_label g) (map stored_field (rg_fields g)) who ss"
    using assms(2) by (auto simp: register_schema_def Let_def split: if_splits)
  show ?thesis
  proof (cases "row_key e = ?key")
    case True
    have "get_schema ?key ss = Some e"
      unfolding get_schema_def True [symmetric] using assms(1,3) by (induction ss) (auto simp: image_iff)
    then have "dropped_paths e g = []"
      using assms(2,4) by (auto simp: register_schema_def Let_def split: if_splits)
    then have p: "schema_paths e \<subseteq> set (map cf_path (rg_fields g))"
      by (auto simp: dropped_paths_def filter_empty_conv schema_paths_def)
    let ?d = "registered_again (rg_label g) (map stored_field (rg_fields g)) who e"
    have "?d \<in> set ss'" using assms(3) True by (force simp: w upsert_schema_def list_ex_iff)
    moreover have "schema_paths ?d = set (map cf_path (rg_fields g))" by (simp add: schema_paths_def registered_again_def stored_field_def image_image)
    ultimately show ?thesis using p unfolding still_declares_def
      by (intro bexI [of _ ?d]) (simp_all add: registered_again_def row_key_def)
  next
    case False
    have "e \<in> set ss'" using assms(3) False by (cases ?key) (auto simp: w upsert_schema_def)
    then show ?thesis using assms(4) by (rule still_refl)
  qed
qed

lemma schema_past_ok:
  assumes "schema_past hist"
  shows "\<exists>ss past. hist = ss # past \<and> distinct (map row_key ss) \<and> (\<forall>s\<in>set hist. \<forall>e\<in>set s. es_registered e \<longrightarrow> still_declares ss e)"
  using assms
proof (induction rule: schema_past.induct)
  case (detects ss past now key)
  let ?new = "insert_detected_schema now key ss"
  have d: "distinct (map row_key ss)" "\<forall>s\<in>set (ss # past). \<forall>e\<in>set s. es_registered e \<longrightarrow> still_declares ss e" using detects.IH by auto
  have k: "distinct (map row_key ?new)" using d(1)
    by (cases key) (auto simp: insert_detected_schema_def row_key_def list_ex_iff)
  have n: "still_declares ?new e" if "e \<in> set ?new" "es_registered e" for e using that by (rule still_refl)
  have "still_declares ?new e" if "e \<in> set ss" "es_registered e" for e
    using that n [of e] by (cases key) (auto simp: insert_detected_schema_def)
  then show ?case using d(2) k n still_trans by (metis set_ConsD)
next
  case (registers ss past ck m g who ss')
  have d: "distinct (map row_key ss)" "\<forall>s\<in>set (ss # past). \<forall>e\<in>set s. es_registered e \<longrightarrow> still_declares ss e" using registers.IH by auto
  have "ss' = upsert_schema (m, rg_source g, rg_topic g) (rg_label g) (map stored_field (rg_fields g)) who ss"
    using registers.hyps(2) by (auto simp: register_schema_def Let_def split: if_splits)
  then have k: "distinct (map row_key ss')" using upsert_keys [OF d(1)] by simp
  show ?case using d(2) k registered_keeps [OF d(1) registers.hyps(2)] still_refl still_trans by (metis set_ConsD)
qed simp

text \<open>
  C27 A signed path is never taken back: while signers come one at a time, every row that was ever
  registered is still registered, with at least its paths and its version, so no plan is left waiting
  for a field that no letter may fill.
\<close>

theorem signed_paths_stay:
  assumes "schema_past (ss # past)" and "s \<in> set (ss # past)" and "e \<in> set s" and "es_registered e"
  shows "\<exists>d\<in>set ss. row_key d = row_key e \<and> es_registered d \<and> schema_paths e \<subseteq> schema_paths d \<and> es_version e \<le> es_version d"
proof -
  have "still_declares ss e" using schema_past_ok [OF assms(1)] assms(2-4) by blast
  then show ?thesis by (simp add: still_declares_def)
qed

section \<open>Examples\<close>

definition text_field :: "string \<Rightarrow> catalog_field" where
  "text_field p = \<lparr>cf_path = p, cf_type = T_text, cf_label = p, cf_keyable = False, cf_variable = True, cf_values = [],
     cf_identity = None, cf_derived = False, cf_deprecated = False, cf_fallbacks = [], cf_ops = [], cf_item_format = None,
     cf_item_where = [], cf_item_numbered = False\<rparr>"

definition items_field :: catalog_field where
  "items_field = (text_field ''payload.items'')\<lparr>cf_type := T_list, cf_item_format := Some ''{title} x{quantity}'', cf_item_numbered := True\<rparr>"

definition rider_field :: catalog_field where
  "rider_field = (text_field ''payload.rider_phone'')\<lparr>cf_type := T_phone, cf_variable := False, cf_identity := Some ''phone''\<rparr>"

definition signed :: "catalog_field list \<Rightarrow> registration" where
  "signed fs = \<lparr>rg_source = ''pos'', rg_topic = ''sale'', rg_label = ''Sale'', rg_fields = fs\<rparr>"

definition sale_table :: "event_schema list" where
  "sale_table = (case register_schema [] ''m'' (signed [items_field, rider_field]) ''ops'' [] [] of Inr ss \<Rightarrow> ss | Inl ps \<Rightarrow> [])"

definition sale_letter :: dict where
  "sale_letter = [(''rider_phone'', JStr ''98765 43210''),
     (''items'', JList [JObj [(''title'', JStr ''Socks''), (''quantity'', JInt 2)], JObj [(''quantity'', JInt 1)],
        JObj [(''title'', JStr '' Hat ''), (''quantity'', JInt 1)]])]"

definition extract_lib :: lib where
  "extract_lib = \<lparr>iso_parse = (\<lambda>_. None), iso_format = int_text, zone_of = (\<lambda>_. undefined), date_iso = (\<lambda>_. []),
     naive_ts = (\<lambda>t. t), sha256_hex = (\<lambda>_. []), deriver = (\<lambda>_. []), derived_names = []\<rparr>"

definition sale_read :: extracted where
  "sale_read = (case extract_letter extract_lib sale_letter (row_spec (get_schema (''m'', ''pos'', ''sale'') sale_table)) of
     Some x \<Rightarrow> x | None \<Rightarrow> \<lparr>ex_handles = [], ex_facts = [], ex_about = About_customer, ex_variables = []\<rparr>)"

lemma sale_registered: "register_schema [] ''m'' (signed [items_field, rider_field]) ''ops'' [] [] = Inr sale_table"
  by code_simp

lemma sale_extracted:
  "extract_letter extract_lib sale_letter (row_spec (get_schema (''m'', rg_source (signed [items_field, rider_field]),
     rg_topic (signed [items_field, rider_field])) sale_table)) = Some sale_read"
  by code_simp

theorem accepted_format_has_no_stray_brace_witness:
  "item_pieces ''{title} x{quantity}'' = groups ''{title} x{quantity}'' \<and> format_faults ''{title} x{quantity'' \<noteq> []"
proof -
  have "format_faults ''{title} x{quantity}'' = []" "format_faults ''{title} x{quantity'' \<noteq> []" by code_simp+
  then show ?thesis using accepted_format_has_no_stray_brace [of "''{title} x{quantity}''"] by blast
qed

theorem a_list_is_counted_not_cut_witness:
  "length (joined_within [''Socks'', ''Shoes'', ''Hat''] 14 list_join) \<le> 14
   \<and> joined_within [''Socks'', ''Shoes'', ''Hat''] 14 list_join = ''Socks +2 more''"
proof -
  have "[] \<notin> set [''Socks'', ''Shoes'', ''Hat'']" "length (nat_text (length [''Socks'', ''Shoes'', ''Hat''])) + 6 \<le> 14" by code_simp+
  then have "length (joined_within [''Socks'', ''Shoes'', ''Hat''] 14 list_join) \<le> 14" using a_list_is_counted_not_cut by blast
  moreover have "joined_within [''Socks'', ''Shoes'', ''Hat''] 14 list_join = ''Socks +2 more''" by code_simp
  ultimately show ?thesis by blast
qed

theorem a_list_that_fits_is_dropped_witness:
  "joined_within [replicate 995 (CHR ''a''), ''b''] variable_max_chars list_join = ''+2 more''"
  using a_list_that_fits_is_dropped [of "replicate 995 (CHR ''a'')"] by (simp only: length_replicate)

theorem letter_variables_are_small_witness:
  "map_of (ex_variables sale_read) ''items'' = Some (JStr (''1. Socks x2'' @ CHR 0x0A # ''2. Hat x1''))
   \<and> length (py_str (JStr (''1. Socks x2'' @ CHR 0x0A # ''2. Hat x1''))) \<le> variable_max_chars"
proof -
  have m: "map_of (ex_variables sale_read) ''items'' = Some (JStr (''1. Socks x2'' @ CHR 0x0A # ''2. Hat x1''))" by code_simp
  then show ?thesis using letter_variables_are_small [OF sale_extracted map_of_SomeD [OF m]] by blast
qed

theorem signed_field_reaches_the_run_witness:
  "map_of (ex_variables sale_read) ''items'' = Some (case join_list (list_values extract_lib sale_letter ''payload.items'' [])
      (Some ''{title} x{quantity}'') variable_max_chars True of None \<Rightarrow> JNull | Some t \<Rightarrow> (if t = [] then JNull else JStr t))"
proof -
  have f: "items_field \<in> set (rg_fields (signed [items_field, rider_field]))" "cf_variable items_field" "\<not> cf_deprecated items_field"
    by (simp_all add: signed_def items_field_def text_field_def)
  have n: "variable_name (cf_path items_field) = ''items''" by code_simp
  show ?thesis using signed_field_reaches_the_run [OF sale_registered f sale_extracted] unfolding n
    by (simp add: items_field_def text_field_def)
qed

theorem signed_phone_is_the_handle_witness: "map_of (ex_handles sale_read) ''phone'' = Some ''+919876543210''"
proof -
  have f: "rider_field \<in> set (rg_fields (signed [items_field, rider_field]))" "cf_identity rider_field = Some ''phone''" "\<not> cf_deprecated rider_field"
    by (simp_all add: signed_def rider_field_def text_field_def)
  have "normalize_phone (py_str (dig (JObj sale_letter) (drop (length payload_prefix) (cf_path rider_field)))) = Some ''+919876543210''"
      "\<not> blank (dig (JObj sale_letter) (drop (length payload_prefix) (cf_path rider_field)))" "''+919876543210'' \<noteq> []"
    by code_simp+
  then show ?thesis by (rule signed_phone_is_the_handle [OF sale_registered f sale_extracted])
qed

definition sale_again :: "event_schema list" where
  "sale_again = (case register_schema [] ''m'' (signed [items_field, rider_field, text_field ''payload.till'']) ''ops'' sale_table sale_table of
     Inr ss \<Rightarrow> ss | Inl ps \<Rightarrow> [])"

theorem signed_paths_stay_witness:
  "\<exists>d\<in>set sale_again. schema_paths (hd sale_table) \<subseteq> schema_paths d \<and> es_version (hd sale_table) \<le> es_version d"
proof -
  have "register_schema [] ''m'' (signed [items_field, rider_field, text_field ''payload.till'']) ''ops'' sale_table sale_table = Inr sale_again"
    by code_simp
  then have "schema_past [sale_again, sale_table, []]"
    by (rule schema_past.registers [OF schema_past.registers [OF schema_past.begins sale_registered]])
  moreover have "hd sale_table \<in> set sale_table" "es_registered (hd sale_table)" by code_simp+
  ultimately show ?thesis using signed_paths_stay [of sale_again "[sale_table, []]" sale_table "hd sale_table"] by auto
qed

text \<open>
  Two signers who both read the row before either wrote it: each keeps what it read, and the path the
  first one signed is gone, though a plan may already be published on it.
\<close>

theorem racing_signers_drop_a_path:
  "\<exists>ss1 ss2. register_schema [] ''m'' (signed [items_field, rider_field, text_field ''payload.till'']) ''a'' sale_table sale_table = Inr ss1
     \<and> register_schema [] ''m'' (signed [items_field, rider_field, text_field ''payload.shop'']) ''b'' sale_table ss1 = Inr ss2
     \<and> map es_version ss2 = [3] \<and> list_ex (\<lambda>e. ''payload.till'' \<in> set (map cf_path (es_fields e))) ss1
     \<and> \<not> list_ex (\<lambda>e. ''payload.till'' \<in> set (map cf_path (es_fields e))) ss2"
proof -
  let ?go = "case register_schema [] ''m'' (signed [items_field, rider_field, text_field ''payload.till'']) ''a'' sale_table sale_table of
     Inl ps \<Rightarrow> False | Inr ss1 \<Rightarrow> (case register_schema [] ''m'' (signed [items_field, rider_field, text_field ''payload.shop'']) ''b'' sale_table ss1 of
       Inl ps \<Rightarrow> False | Inr ss2 \<Rightarrow> map es_version ss2 = [3] \<and> list_ex (\<lambda>e. ''payload.till'' \<in> set (map cf_path (es_fields e))) ss1
         \<and> \<not> list_ex (\<lambda>e. ''payload.till'' \<in> set (map cf_path (es_fields e))) ss2)"
  have ?go by code_simp
  then show ?thesis by (simp split: sum.splits)
qed

text \<open>The law of paths lets a line break through at the end, and the blank it fills is one no template can name.\<close>

theorem a_path_may_end_in_a_line_break:
  "validate_registration [] (signed [text_field (''payload.till'' @ [CHR 0x0A])]) = []
   \<and> variable_name (''payload.till'' @ [CHR 0x0A]) = ''till'' @ [CHR 0x0A]"
  by code_simp

end
