(* ===== verification/Templates.thy ===== *)
theory Templates
  imports Registry Spine
begin

text \<open>
  The registry of message templates, \<open>crm_channel_template\<close>: its statements
  (\<open>connectivity/db/queries/template.py\<close>), the connectors and WhatsApp's template face
  (\<open>connectors.py\<close>, \<open>providers/whatsapp/templates.py\<close>), the four transitions of
  \<open>templates/lifecycle.py\<close> and the consumer of the provider's letters, \<open>templates/events.py\<close>.  Meta's
  Graph is the argument \<open>G\<close>.  Where a transition awaits between a read and a write, the table it read
  (\<open>seen\<close>) and the table it writes are two arguments.  \<open>updated_at\<close> and \<open>last_synced_at\<close> are read by
  the console alone and left out; dashes in the words of a refusal are hyphens here.
\<close>

section \<open>Words\<close>

definition status_draft :: string where "status_draft = ''draft''"
definition status_submitting :: string where "status_submitting = ''submitting''"
definition status_pending :: string where "status_pending = ''pending''"
definition status_rejected :: string where "status_rejected = ''rejected''"
definition status_paused :: string where "status_paused = ''paused''"
definition status_deleted :: string where "status_deleted = ''deleted''"

definition local_edit :: "string set" where "local_edit = {status_draft}"

definition in_place_edit :: "string set" where
  "in_place_edit = {template_approved, status_rejected, status_paused}"

definition topic_template_status :: string where "topic_template_status = ''template.status''"
definition topic_template_category :: string where "topic_template_category = ''template.category''"
definition topic_template_quality :: string where "topic_template_quality = ''template.quality''"

definition template_topics :: "string list" where
  "template_topics = [topic_template_status, topic_template_category, topic_template_quality]"

section \<open>Reads\<close>

definition owns_template :: "string \<Rightarrow> string \<Rightarrow> template_row \<Rightarrow> bool" where
  "owns_template merchant i t \<longleftrightarrow> tp_merchant t = merchant \<and> tp_id t = i"

definition template_by_id :: "string \<Rightarrow> string \<Rightarrow> template_row list \<Rightarrow> template_row option" where
  "template_by_id merchant i ts = find (owns_template merchant i) ts"

definition natural_key :: "template_row \<Rightarrow> string \<times> string \<times> string \<times> string \<times> string" where
  "natural_key t = (tp_merchant t, tp_channel t, tp_account t, tp_name t, tp_language t)"

definition template_by_natural_key ::
    "string \<times> string \<times> string \<times> string \<times> string \<Rightarrow> template_row list \<Rightarrow> template_row option" where
  "template_by_natural_key key ts = find (\<lambda>t. natural_key t = key) ts"

definition list_templates :: "string \<Rightarrow> string option \<Rightarrow> string option \<Rightarrow> template_row list \<Rightarrow> template_row list" where
  "list_templates merchant channel status ts =
     sort_key (\<lambda>t. - tp_created t) (filter (\<lambda>t. tp_merchant t = merchant
        \<and> (case channel of None \<Rightarrow> True | Some c \<Rightarrow> tp_channel t = c)
        \<and> (case status of None \<Rightarrow> True | Some s \<Rightarrow> tp_status t = s)) ts)"

definition template_by_provider_id :: "string \<Rightarrow> string \<Rightarrow> template_row list \<Rightarrow> template_row option" where
  "template_by_provider_id merchant provider ts = find (\<lambda>t. tp_merchant t = merchant \<and> tp_provider t = Some provider) ts"

definition is_stale_claim :: "int \<Rightarrow> time \<Rightarrow> template_row \<Rightarrow> bool" where
  "is_stale_claim crashed_after now t \<longleftrightarrow>
     tp_status t = status_submitting \<and> tp_provider t = None \<and> tp_status_at t < now - crashed_after * second_us"

definition stale_submit_claims ::
    "int \<Rightarrow> time \<Rightarrow> string \<Rightarrow> string \<Rightarrow> string \<Rightarrow> string \<Rightarrow> template_row list \<Rightarrow> template_row list" where
  "stale_submit_claims crashed_after now merchant channel name language ts =
     filter (\<lambda>t. is_template merchant channel name t \<and> tp_language t = language \<and> is_stale_claim crashed_after now t) ts"

section \<open>Statements\<close>

text \<open>An \<open>UPDATE ... RETURNING\<close> that names one row.\<close>

definition rewrite_templates ::
    "(template_row \<Rightarrow> bool) \<Rightarrow> (template_row \<Rightarrow> template_row) \<Rightarrow> template_row list \<Rightarrow> template_row option \<times> template_row list" where
  "rewrite_templates P f ts = (map_option f (find P ts), map (\<lambda>t. if P t then f t else t) ts)"

text \<open>The same where it writes a provider id; \<open>None\<close> violates the unique index on that id.\<close>

definition provider_taken :: "string \<Rightarrow> (template_row \<Rightarrow> bool) \<Rightarrow> template_row list \<Rightarrow> bool" where
  "provider_taken provider P ts \<longleftrightarrow> list_ex P ts \<and> list_ex (\<lambda>t. tp_provider t = Some provider \<and> \<not> P t) ts"

definition stamp_provider ::
    "string \<Rightarrow> (template_row \<Rightarrow> bool) \<Rightarrow> (template_row \<Rightarrow> template_row) \<Rightarrow> template_row list
     \<Rightarrow> (template_row option \<times> template_row list) option" where
  "stamp_provider provider P f ts = (if provider_taken provider P ts then None else Some (rewrite_templates P f ts))"

definition new_draft ::
    "time \<Rightarrow> string \<Rightarrow> string \<times> string \<times> string \<times> string \<times> string \<Rightarrow> json list \<Rightarrow> string option \<Rightarrow> template_row" where
  "new_draft now i key components category = (case key of (merchant, channel, account, name, language) \<Rightarrow>
     \<lparr>tp_id = i, tp_merchant = merchant, tp_channel = channel, tp_account = account, tp_name = name, tp_language = language,
      tp_provider = None, tp_category = None, tp_submitted_category = category, tp_category_at = None,
      tp_components = components, tp_status = status_draft, tp_status_at = now, tp_rejection = None,
      tp_quality = ''UNKNOWN'', tp_quality_at = None, tp_created = now\<rparr>)"

text \<open>\<open>None\<close> violates the natural key or the drawn id.\<close>

definition insert_template_draft ::
    "time \<Rightarrow> string \<Rightarrow> string \<times> string \<times> string \<times> string \<times> string \<Rightarrow> json list \<Rightarrow> string option \<Rightarrow> template_row list
     \<Rightarrow> (template_row \<times> template_row list) option" where
  "insert_template_draft now i key components category ts =
     (if list_ex (\<lambda>t. natural_key t = key \<or> tp_id t = i) ts then None
      else let t = new_draft now i key components category in Some (t, ts @ [t]))"

definition is_draft :: "string \<Rightarrow> string \<Rightarrow> template_row \<Rightarrow> bool" where
  "is_draft merchant i t \<longleftrightarrow> owns_template merchant i t \<and> tp_status t = status_draft"

definition redraw :: "json list \<Rightarrow> string option \<Rightarrow> template_row \<Rightarrow> template_row" where
  "redraw components category t = t\<lparr>tp_components := components,
     tp_submitted_category := (case category of None \<Rightarrow> tp_submitted_category t | Some c \<Rightarrow> Some c)\<rparr>"

definition update_draft_components ::
    "string \<Rightarrow> string \<Rightarrow> json list \<Rightarrow> string option \<Rightarrow> template_row list \<Rightarrow> template_row option \<times> template_row list" where
  "update_draft_components merchant i components category = rewrite_templates (is_draft merchant i) (redraw components category)"

definition claimed_for :: "time \<Rightarrow> string \<Rightarrow> template_row \<Rightarrow> template_row" where
  "claimed_for now category t =
     t\<lparr>tp_status := status_submitting, tp_submitted_category := Some category, tp_status_at := now\<rparr>"

definition claim_for_submit ::
    "time \<Rightarrow> string \<Rightarrow> string \<Rightarrow> string \<Rightarrow> template_row list \<Rightarrow> template_row option \<times> template_row list" where
  "claim_for_submit now merchant i category = rewrite_templates (is_draft merchant i) (claimed_for now category)"

definition is_claim :: "string \<Rightarrow> string \<Rightarrow> template_row \<Rightarrow> bool" where
  "is_claim merchant i t \<longleftrightarrow> owns_template merchant i t \<and> tp_status t = status_submitting"

definition released :: "time \<Rightarrow> template_row \<Rightarrow> template_row" where
  "released now t = t\<lparr>tp_status := status_draft, tp_status_at := now\<rparr>"

definition release_submit_claim ::
    "time \<Rightarrow> string \<Rightarrow> string \<Rightarrow> template_row list \<Rightarrow> template_row option \<times> template_row list" where
  "release_submit_claim now merchant i = rewrite_templates (\<lambda>t. is_claim merchant i t \<and> tp_provider t = None) (released now)"

definition submitted_as :: "time \<Rightarrow> string \<Rightarrow> string option \<Rightarrow> string \<Rightarrow> string \<Rightarrow> template_row \<Rightarrow> template_row" where
  "submitted_as now provider category submitted status t =
     t\<lparr>tp_provider := Some provider, tp_category := category, tp_submitted_category := Some submitted,
       tp_category_at := Some now, tp_status := status, tp_status_at := now, tp_rejection := None\<rparr>"

definition record_submission ::
    "time \<Rightarrow> string \<Rightarrow> string \<Rightarrow> string \<Rightarrow> string option \<Rightarrow> string \<Rightarrow> string \<Rightarrow> template_row list
     \<Rightarrow> (template_row option \<times> template_row list) option" where
  "record_submission now merchant i provider category submitted status =
     stamp_provider provider (is_claim merchant i) (submitted_as now provider category submitted status)"

definition edited_as :: "time \<Rightarrow> json list \<Rightarrow> string \<Rightarrow> template_row \<Rightarrow> template_row" where
  "edited_as now components status t =
     t\<lparr>tp_components := components, tp_status := status, tp_status_at := now, tp_rejection := None\<rparr>"

definition record_in_place_edit ::
    "time \<Rightarrow> string \<Rightarrow> string \<Rightarrow> json list \<Rightarrow> string \<Rightarrow> string \<Rightarrow> template_row list \<Rightarrow> template_row option \<times> template_row list" where
  "record_in_place_edit now merchant i components status expected =
     rewrite_templates (\<lambda>t. owns_template merchant i t \<and> tp_status t \<in> {status, expected}) (edited_as now components status)"

definition retired_at :: "time \<Rightarrow> template_row \<Rightarrow> template_row" where
  "retired_at now t = t\<lparr>tp_status := status_deleted, tp_status_at := now\<rparr>"

definition retire_template ::
    "time \<Rightarrow> string \<Rightarrow> string \<Rightarrow> template_row list \<Rightarrow> template_row option \<times> template_row list" where
  "retire_template now merchant i = rewrite_templates (owns_template merchant i) (retired_at now)"

subsection \<open>What a provider decided\<close>

definition whole_second :: "time \<Rightarrow> time" where
  "whole_second t = t div second_us * second_us"

definition not_older_than :: "int \<Rightarrow> time option \<Rightarrow> time option \<Rightarrow> bool" where
  "not_older_than skew column occurred = (case occurred of None \<Rightarrow> True
     | Some t \<Rightarrow> (case column of None \<Rightarrow> True | Some c \<Rightarrow> whole_second c \<le> t + skew * second_us))"

definition open_to_letters :: "string \<Rightarrow> string \<Rightarrow> string \<Rightarrow> template_row \<Rightarrow> bool" where
  "open_to_letters merchant i account t \<longleftrightarrow>
     owns_template merchant i t \<and> tp_account t = account \<and> tp_status t \<noteq> status_deleted"

definition status_given :: "string \<Rightarrow> time option \<Rightarrow> string option \<Rightarrow> template_row \<Rightarrow> template_row" where
  "status_given status occurred reason t =
     t\<lparr>tp_status := status, tp_status_at := (case occurred of None \<Rightarrow> tp_status_at t | Some x \<Rightarrow> x), tp_rejection := reason\<rparr>"

definition apply_status_event ::
    "int \<Rightarrow> string \<Rightarrow> string \<Rightarrow> string \<Rightarrow> string \<Rightarrow> time option \<Rightarrow> string option \<Rightarrow> template_row list
     \<Rightarrow> template_row option \<times> template_row list" where
  "apply_status_event skew merchant i account status occurred reason =
     rewrite_templates (\<lambda>t. open_to_letters merchant i account t \<and> not_older_than skew (Some (tp_status_at t)) occurred)
       (status_given status occurred reason)"

definition category_given :: "string \<Rightarrow> time option \<Rightarrow> template_row \<Rightarrow> template_row" where
  "category_given category occurred t =
     t\<lparr>tp_category := Some category, tp_category_at := (case occurred of None \<Rightarrow> tp_category_at t | Some x \<Rightarrow> Some x)\<rparr>"

definition apply_category_event ::
    "int \<Rightarrow> string \<Rightarrow> string \<Rightarrow> string \<Rightarrow> string \<Rightarrow> time option \<Rightarrow> template_row list \<Rightarrow> template_row option \<times> template_row list" where
  "apply_category_event skew merchant i account category occurred =
     rewrite_templates (\<lambda>t. open_to_letters merchant i account t \<and> not_older_than skew (tp_category_at t) occurred)
       (category_given category occurred)"

definition quality_given :: "string \<Rightarrow> time option \<Rightarrow> template_row \<Rightarrow> template_row" where
  "quality_given quality occurred t =
     t\<lparr>tp_quality := quality, tp_quality_at := (case occurred of None \<Rightarrow> tp_quality_at t | Some x \<Rightarrow> Some x)\<rparr>"

definition apply_quality_event ::
    "int \<Rightarrow> string \<Rightarrow> string \<Rightarrow> string \<Rightarrow> string \<Rightarrow> time option \<Rightarrow> template_row list \<Rightarrow> template_row option \<times> template_row list" where
  "apply_quality_event skew merchant i account quality occurred =
     rewrite_templates (\<lambda>t. open_to_letters merchant i account t \<and> not_older_than skew (tp_quality_at t) occurred)
       (quality_given quality occurred)"

definition resumed_as :: "string \<Rightarrow> string \<Rightarrow> time option \<Rightarrow> string option \<Rightarrow> template_row \<Rightarrow> template_row" where
  "resumed_as provider status occurred reason t = (status_given status occurred reason t)\<lparr>tp_provider := Some provider\<rparr>"

definition resume_submitted_template ::
    "string \<Rightarrow> string \<Rightarrow> string \<Rightarrow> string \<Rightarrow> string \<Rightarrow> time option \<Rightarrow> string option \<Rightarrow> template_row list
     \<Rightarrow> (template_row option \<times> template_row list) option" where
  "resume_submitted_template merchant i account provider status occurred reason =
     stamp_provider provider (\<lambda>t. is_claim merchant i t \<and> tp_account t = account \<and> tp_provider t = None)
       (resumed_as provider status occurred reason)"

end
