(* ===== verification/Lifecycle.thy ===== *)
theory Lifecycle
  imports Templates
begin

text \<open>
  The transitions of a template, \<open>connectivity/templates/lifecycle.py\<close>, and the consumer of what a
  provider decided, \<open>templates/events.py\<close>, with the connectors (\<open>connectors.py\<close>) and WhatsApp's template
  face (\<open>providers/whatsapp/templates.py\<close>) they go through.
\<close>

section \<open>Meta's Graph\<close>

record graph_request =
  gq_method :: string
  gq_path :: string
  gq_token :: string
  gq_json :: dict
  gq_params :: "(string \<times> string) list"

text \<open>A body, the detail of a \<open>GraphError\<close> (no answer in time is one too), or any other raise.\<close>

datatype graph_answer = Graph_body dict | Graph_error string | Graph_breaks

type_synonym graph = "graph_request \<Rightarrow> graph_answer"

text \<open>What leaves a face: a declared refusal with its text, or an exception of another kind.\<close>

datatype face_error = Refuses string | Breaks

definition meta_call :: "graph \<Rightarrow> graph_request \<Rightarrow> face_error + dict" where
  "meta_call G q = (case G q of Graph_body body \<Rightarrow> Inr body
     | Graph_error detail \<Rightarrow> Inl (Refuses (if detail = [] then ''Meta refused this template operation'' else detail))
     | Graph_breaks \<Rightarrow> Inl Breaks)"

definition big_hex :: "nat \<Rightarrow> char" where
  "big_hex d = ''0123456789ABCDEF'' ! d"

definition url_char :: "char \<Rightarrow> string" where
  "url_char c = (if is_upper c \<or> is_lower c \<or> is_digit c \<or> c \<in> set ''_.-~'' then [c]
     else let n = (of_char c :: nat) in [CHR ''%'', big_hex (n div 16), big_hex (n mod 16)])"

definition url_segment :: "string \<Rightarrow> string" where
  "url_segment s = concat (map url_char s)"

section \<open>The template face\<close>

record template_draft =
  td_name :: string
  td_language :: string
  td_category :: string
  td_components :: "json list"

record provider_template =
  ps_id :: "string option"
  ps_name :: "string option"
  ps_language :: "string option"
  ps_status :: "string option"
  ps_category :: "string option"
  ps_quality :: "string option"
  ps_rejection :: "string option"

definition no_state :: provider_template where
  "no_state = \<lparr>ps_id = None, ps_name = None, ps_language = None, ps_status = None, ps_category = None,
     ps_quality = None, ps_rejection = None\<rparr>"

record template_face =
  fc_edits_in_place :: bool
  fc_submit :: "dict \<Rightarrow> string \<Rightarrow> template_draft \<Rightarrow> face_error + provider_template"
  fc_edit :: "dict \<Rightarrow> string \<Rightarrow> string \<Rightarrow> json list \<Rightarrow> face_error + provider_template"
  fc_retire :: "dict \<Rightarrow> string \<Rightarrow> string \<Rightarrow> string \<Rightarrow> string \<Rightarrow> face_error + unit"
  fc_normalize :: "string \<Rightarrow> dict \<Rightarrow> face_error + provider_template option"

section \<open>WhatsApp's face\<close>

definition from_meta :: "json \<Rightarrow> string option" where
  "from_meta v = (if v = JNull then None
     else let s = lower (strip (py_str v)) in if s = [] then None else Some s)"

definition whatsapp_token :: "dict \<Rightarrow> face_error + string" where
  "whatsapp_token bundle = (case dget bundle ''system_user_token'' of
     JStr s \<Rightarrow> (if s = [] then Inl (Refuses ''the stored credential has no usable token'') else Inr s)
   | _ \<Rightarrow> Inl (Refuses ''the stored credential has no usable token''))"

text \<open>An optional text of a pydantic model; \<open>None\<close> raises.\<close>

definition optional_text :: "json \<Rightarrow> string option option" where
  "optional_text v = (case v of JNull \<Rightarrow> Some None | JStr s \<Rightarrow> Some (Some s) | _ \<Rightarrow> None)"

definition whatsapp_submit :: "graph \<Rightarrow> dict \<Rightarrow> string \<Rightarrow> template_draft \<Rightarrow> face_error + provider_template" where
  "whatsapp_submit G bundle account d = (case whatsapp_token bundle of Inl e \<Rightarrow> Inl e
     | Inr token \<Rightarrow> (case meta_call G \<lparr>gq_method = ''POST'', gq_path = url_segment account @ ''/message_templates'',
           gq_token = token, gq_json = [(''name'', JStr (td_name d)), (''language'', JStr (td_language d)),
             (''category'', JStr (td_category d)), (''components'', JList (td_components d))], gq_params = []\<rparr> of
          Inl e \<Rightarrow> Inl e
        | Inr body \<Rightarrow>
            (if \<not> truthy (dget body ''id'') then Inl (Refuses ''Meta accepted the template but returned no id'')
             else case (if truthy (dget body ''category'') then optional_text (dget body ''category'') else Some (Some (td_category d))) of
               None \<Rightarrow> Inl Breaks
             | Some category \<Rightarrow> Inr (no_state\<lparr>ps_id := Some (py_str (dget body ''id'')), ps_name := Some (td_name d),
                 ps_language := Some (td_language d), ps_category := category,
                 ps_status := Some (case from_meta (dget body ''status'') of None \<Rightarrow> status_pending | Some s \<Rightarrow> s)\<rparr>))))"

definition whatsapp_edit :: "graph \<Rightarrow> dict \<Rightarrow> string \<Rightarrow> string \<Rightarrow> json list \<Rightarrow> face_error + provider_template" where
  "whatsapp_edit G bundle account provider components = (case whatsapp_token bundle of Inl e \<Rightarrow> Inl e
     | Inr token \<Rightarrow> (case meta_call G \<lparr>gq_method = ''POST'', gq_path = url_segment provider, gq_token = token,
           gq_json = [(''components'', JList components)], gq_params = []\<rparr> of
          Inl e \<Rightarrow> Inl e
        | Inr body \<Rightarrow> Inr (no_state\<lparr>ps_id := Some provider, ps_status := Some status_pending\<rparr>)))"

definition whatsapp_retire :: "graph \<Rightarrow> dict \<Rightarrow> string \<Rightarrow> string \<Rightarrow> string \<Rightarrow> string \<Rightarrow> face_error + unit" where
  "whatsapp_retire G bundle account provider name language = (case whatsapp_token bundle of Inl e \<Rightarrow> Inl e
     | Inr token \<Rightarrow> (case meta_call G \<lparr>gq_method = ''DELETE'', gq_path = url_segment account @ ''/message_templates'',
           gq_token = token, gq_json = [], gq_params = [(''name'', name), (''hsm_id'', provider)]\<rparr> of
          Inl e \<Rightarrow> Inl e | Inr body \<Rightarrow> Inr ()))"

definition rejection_of :: "json \<Rightarrow> string option" where
  "rejection_of v = (if truthy v \<and> lower (py_str v) \<noteq> ''none'' then Some (py_str v) else None)"

definition whatsapp_normalize :: "string \<Rightarrow> dict \<Rightarrow> face_error + provider_template option" where
  "whatsapp_normalize topic v =
     (case (optional_text (dget v ''message_template_name''), optional_text (dget v ''message_template_language'')) of
        (Some name, Some language) \<Rightarrow>
          (let i = dget v ''message_template_id'';
               state = no_state\<lparr>ps_id := (if truthy i then Some (py_str i) else None), ps_name := name, ps_language := language\<rparr>
           in if topic = topic_template_status
              then (case from_meta (dget v ''event'') of None \<Rightarrow> Inr None
                    | Some s \<Rightarrow> Inr (Some (state\<lparr>ps_status := Some s, ps_rejection := rejection_of (dget v ''reason'')\<rparr>)))
              else if topic = topic_template_category
              then (if \<not> truthy (dget v ''new_category'') then Inr None
                    else Inr (Some (state\<lparr>ps_category := Some (py_str (dget v ''new_category''))\<rparr>)))
              else if topic = topic_template_quality
              then (if \<not> truthy (dget v ''new_quality_score'') then Inr None
                    else Inr (Some (state\<lparr>ps_quality := Some (py_str (dget v ''new_quality_score''))\<rparr>)))
              else Inr None)
      | _ \<Rightarrow> Inl Breaks)"

definition whatsapp_templates :: "graph \<Rightarrow> template_face" where
  "whatsapp_templates G = \<lparr>fc_edits_in_place = True, fc_submit = whatsapp_submit G, fc_edit = whatsapp_edit G,
     fc_retire = whatsapp_retire G, fc_normalize = whatsapp_normalize\<rparr>"

section \<open>Connectors\<close>

record connector_spec =
  sp_key :: string
  sp_source :: string
  sp_channel :: "string option"
  sp_templates :: "template_face option"

definition connectors :: "graph \<Rightarrow> (string \<times> connector_spec) list" where
  "connectors G =
     [(''whatsapp'', \<lparr>sp_key = ''whatsapp'', sp_source = ''whatsapp'', sp_channel = Some ''whatsapp'',
         sp_templates = Some (whatsapp_templates G)\<rparr>),
      (''shopify'', \<lparr>sp_key = ''shopify'', sp_source = ''shopify'', sp_channel = None, sp_templates = None\<rparr>)]"

definition connector_for_channel :: "graph \<Rightarrow> string \<Rightarrow> connector_spec option" where
  "connector_for_channel G channel =
     (if channel = [] then None else find (\<lambda>s. sp_channel s = Some channel) (map snd (connectors G)))"

definition connector_for_source :: "graph \<Rightarrow> string \<Rightarrow> connector_spec option" where
  "connector_for_source G source =
     (if source = [] then None else find (\<lambda>s. sp_source s = source) (map snd (connectors G)))"

definition connector_accounts :: "string \<Rightarrow> string \<Rightarrow> installation list \<Rightarrow> installation list" where
  "connector_accounts merchant key ins = filter (\<lambda>x. in_merchant x = merchant \<and> in_connector x = key) ins"

section \<open>Refusals\<close>

text \<open>\<open>Template_raises\<close> is what is no \<open>TemplateError\<close>: the violation of a unique index.\<close>

datatype template_error = Template_not_found | Template_in_use nat nat | Template_error string | Template_raises

definition quoted :: "string \<Rightarrow> string" where
  "quoted s = [CHR 0x27] @ s @ [CHR 0x27]"

definition as_template_error :: "face_error \<Rightarrow> template_error" where
  "as_template_error e = (case e of
     Refuses text \<Rightarrow> Template_error (if text = [] then ''the provider refused this template'' else text)
   | Breaks \<Rightarrow> Template_error ''could not complete the template operation'')"

definition spec_for :: "graph \<Rightarrow> string \<Rightarrow> template_error + connector_spec" where
  "spec_for G channel = (case connector_for_channel G channel of
     None \<Rightarrow> Inl (Template_error (''no connector serves channel '' @ quoted channel)) | Some s \<Rightarrow> Inr s)"

definition face_of :: "connector_spec \<Rightarrow> template_error + template_face" where
  "face_of s = (case sp_templates s of
     None \<Rightarrow> Inl (Template_error (''connector '' @ quoted (sp_key s) @ '' registers no templates'')) | Some f \<Rightarrow> Inr f)"

text \<open>The connector of a channel, the healthy account behind it and its secrets.\<close>

definition account_bundle :: "channel_db \<Rightarrow> string \<Rightarrow> connector_spec \<Rightarrow> string \<Rightarrow> template_error + dict" where
  "account_bundle db merchant s account =
     (case healthy_installation merchant (sp_key s) account (cd_installations db) of
        Inl text \<Rightarrow> Inl (Template_error text)
      | Inr x \<Rightarrow> (case bundle_for (cd_vault db) x of Inl text \<Rightarrow> Inl (Template_error text) | Inr b \<Rightarrow> Inr b))"

definition face_and_bundle :: "graph \<Rightarrow> channel_db \<Rightarrow> string \<Rightarrow> string \<Rightarrow> string \<Rightarrow> template_error + template_face \<times> dict" where
  "face_and_bundle G db merchant channel account = (case spec_for G channel of Inl e \<Rightarrow> Inl e
     | Inr s \<Rightarrow> (case account_bundle db merchant s account of Inl e \<Rightarrow> Inl e
        | Inr b \<Rightarrow> (case face_of s of Inl e \<Rightarrow> Inl e | Inr f \<Rightarrow> Inr (f, b))))"

section \<open>Create\<close>

definition create_draft_in_txn ::
    "time \<Rightarrow> string \<Rightarrow> string \<times> string \<times> string \<times> string \<times> string \<Rightarrow> json list \<Rightarrow> string option
     \<Rightarrow> template_row list \<Rightarrow> template_row list \<Rightarrow> (template_error + template_row) \<times> template_row list" where
  "create_draft_in_txn now i key components category seen ts = (case template_by_natural_key key seen of
     None \<Rightarrow> (case insert_template_draft now i key components category ts of
        None \<Rightarrow> (Inl Template_raises, ts) | Some (t, ts') \<Rightarrow> (Inr t, ts'))
   | Some t \<Rightarrow>
      (if tp_status t \<noteq> status_draft
       then (Inl (Template_error (''a template named '' @ quoted (tp_name t) @ '' ('' @ tp_language t
               @ '') already exists on this account and is '' @ quoted (tp_status t) @ '' - edit it instead of recreating it'')), ts)
       else case update_draft_components (tp_merchant t) (tp_id t) components category ts of
          (None, ts') \<Rightarrow> (Inl (Template_error ''the draft changed while it was being updated''), ts')
        | (Some t', ts') \<Rightarrow> (Inr t', ts')))"

definition create_draft ::
    "graph \<Rightarrow> channel_db \<Rightarrow> time \<Rightarrow> string \<Rightarrow> string \<times> string \<times> string \<times> string \<times> string \<Rightarrow> json list \<Rightarrow> string option
     \<Rightarrow> template_row list \<Rightarrow> template_row list \<Rightarrow> (template_error + template_row) \<times> template_row list" where
  "create_draft G db now i key components category seen ts = (case key of (merchant, channel, account, name, language) \<Rightarrow>
     (case spec_for G channel of Inl e \<Rightarrow> (Inl e, ts)
      | Inr s \<Rightarrow> (case healthy_installation merchant (sp_key s) account (cd_installations db) of
           Inl text \<Rightarrow> (Inl (Template_error text), ts)
         | Inr x \<Rightarrow> create_draft_in_txn now i key components category seen ts)))"

section \<open>Submit\<close>

text \<open>The three stretches between its awaits: the claim, the provider, the settling.\<close>

definition submit_claim ::
    "time \<Rightarrow> string \<Rightarrow> string \<Rightarrow> string \<Rightarrow> template_row list \<Rightarrow> template_row list
     \<Rightarrow> (template_error + template_row) \<times> template_row list" where
  "submit_claim now merchant i category seen ts = (case template_by_id merchant i seen of
     None \<Rightarrow> (Inl Template_not_found, ts)
   | Some t \<Rightarrow>
      (if tp_status t \<noteq> status_draft
       then (Inl (Template_error (''this template is '' @ quoted (tp_status t) @ '' - only a draft can be submitted''
               @ (if tp_status t = status_rejected then ''; edit it to send the corrected version for review'' else []))), ts)
       else case claim_for_submit now merchant i category ts of
          (None, ts') \<Rightarrow> (Inl (Template_error ''this template is already being submitted''), ts')
        | (Some claimed, ts') \<Rightarrow> (Inr claimed, ts')))"

definition submit_asks :: "graph \<Rightarrow> channel_db \<Rightarrow> string \<Rightarrow> string \<Rightarrow> template_row \<Rightarrow> template_error + provider_template" where
  "submit_asks G db merchant category claimed =
     (case face_and_bundle G db merchant (tp_channel claimed) (tp_account claimed) of Inl e \<Rightarrow> Inl e
      | Inr (f, b) \<Rightarrow> (case fc_submit f b (tp_account claimed) \<lparr>td_name = tp_name claimed, td_language = tp_language claimed,
             td_category = category, td_components = tp_components claimed\<rparr> of
           Inl e \<Rightarrow> Inl (as_template_error e) | Inr st \<Rightarrow> Inr st))"

definition or_text :: "string option \<Rightarrow> string \<Rightarrow> string" where
  "or_text x other = (if opt_text x then the x else other)"

definition submit_settles ::
    "time \<Rightarrow> string \<Rightarrow> string \<Rightarrow> string \<Rightarrow> template_error + provider_template \<Rightarrow> template_row list
     \<Rightarrow> (template_error + template_row) \<times> template_row list" where
  "submit_settles now merchant i category answer ts = (case answer of
     Inl e \<Rightarrow> (Inl e, snd (release_submit_claim now merchant i ts))
   | Inr st \<Rightarrow> (case record_submission now merchant i (or_text (ps_id st) []) (ps_category st) category
                     (or_text (ps_status st) status_pending) ts of
        None \<Rightarrow> (Inl Template_raises, ts)
      | Some (None, ts') \<Rightarrow> (Inl (Template_error ''the template changed while its submission was recorded''), ts')
      | Some (Some t, ts') \<Rightarrow> (Inr t, ts')))"

text \<open>\<open>seen\<close> is read first; \<open>meanwhile\<close> is what others commit while the provider is asked.\<close>

definition submit ::
    "graph \<Rightarrow> channel_db \<Rightarrow> time \<Rightarrow> time \<Rightarrow> string \<Rightarrow> string \<Rightarrow> string \<Rightarrow> (template_row list \<Rightarrow> template_row list)
     \<Rightarrow> template_row list \<Rightarrow> template_row list \<Rightarrow> (template_error + template_row) \<times> template_row list" where
  "submit G db now later merchant i category meanwhile seen ts = (case submit_claim now merchant i category seen ts of
     (Inl e, ts') \<Rightarrow> (Inl e, ts')
   | (Inr claimed, ts') \<Rightarrow> submit_settles later merchant i category (submit_asks G db merchant category claimed) (meanwhile ts'))"

section \<open>Edit\<close>

definition edit_asks ::
    "graph \<Rightarrow> channel_db \<Rightarrow> string \<Rightarrow> json list \<Rightarrow> template_row \<Rightarrow> template_error + provider_template" where
  "edit_asks G db merchant components t = (case spec_for G (tp_channel t) of Inl e \<Rightarrow> Inl e
     | Inr s \<Rightarrow>
        (if tp_status t \<notin> in_place_edit
         then Inl (Template_error (''this template is '' @ quoted (tp_status t) @ '' - it cannot be edited from that state''))
         else case face_of s of Inl e \<Rightarrow> Inl e
          | Inr f \<Rightarrow>
             (if \<not> fc_edits_in_place f
              then Inl (Template_error (''templates on '' @ quoted (tp_channel t)
                     @ '' cannot be edited once registered - retire this one and register a new one''))
              else case tp_provider t of
                None \<Rightarrow> Inl (Template_error ''this template has no provider id yet - its submission has not been confirmed'')
              | Some p \<Rightarrow> (case account_bundle db merchant s (tp_account t) of Inl e \<Rightarrow> Inl e
                 | Inr b \<Rightarrow> (case fc_edit f b (tp_account t) p components of
                      Inl e \<Rightarrow> Inl (as_template_error e) | Inr st \<Rightarrow> Inr st)))))"

definition edit_template ::
    "graph \<Rightarrow> channel_db \<Rightarrow> time \<Rightarrow> string \<Rightarrow> string \<Rightarrow> json list \<Rightarrow> string option
     \<Rightarrow> template_row list \<Rightarrow> template_row list \<Rightarrow> (template_error + template_row) \<times> template_row list" where
  "edit_template G db now merchant i components category seen ts = (case template_by_id merchant i seen of
     None \<Rightarrow> (Inl Template_not_found, ts)
   | Some t \<Rightarrow>
      (if tp_status t \<in> local_edit
       then (case update_draft_components merchant i components category ts of
          (None, ts') \<Rightarrow> (Inl (Template_error ''this template is no longer a draft''), ts')
        | (Some t', ts') \<Rightarrow> (Inr t', ts'))
       else if category \<noteq> None
       then (Inl (Template_error (''this template is '' @ quoted (tp_status t) @ '' - only a draft''
              @ [CHR 0x27] @ ''s category can be changed'')), ts)
       else case edit_asks G db merchant components t of
          Inl e \<Rightarrow> (Inl e, ts)
        | Inr st \<Rightarrow> (case record_in_place_edit now merchant i components (or_text (ps_status st) status_pending) (tp_status t) ts of
             (None, ts') \<Rightarrow> (Inl (Template_error ''the template changed while it was being edited - reload it and try again''), ts')
           | (Some t', ts') \<Rightarrow> (Inr t', ts'))))"

section \<open>Retire\<close>

text \<open>
  \<open>guard\<close> is the slot of \<open>retire_guard.py\<close>: how many open runs and how many live or paused plans name
  the template.
\<close>

type_synonym retire_guard = "(string \<Rightarrow> string \<Rightarrow> string \<Rightarrow> nat \<times> nat) option"

definition workflows_naming :: "retire_guard \<Rightarrow> string \<Rightarrow> template_row \<Rightarrow> template_error + nat \<times> nat" where
  "workflows_naming guard merchant t = (case guard of
     None \<Rightarrow> Inl (Template_error ''template retirement is not wired: the workflow guard is not registered'')
   | Some count \<Rightarrow> Inr (count merchant (tp_channel t) (tp_name t)))"

definition retire_in_txn ::
    "retire_guard \<Rightarrow> time \<Rightarrow> string \<Rightarrow> template_row \<Rightarrow> template_row list \<Rightarrow> template_error + template_row option \<times> template_row list" where
  "retire_in_txn guard now merchant t ts = (case workflows_naming guard merchant t of Inl e \<Rightarrow> Inl e
     | Inr (runs, plans) \<Rightarrow>
        (if runs \<noteq> 0 \<or> plans \<noteq> 0 then Inl (Template_in_use runs plans) else Inr (retire_template now merchant (tp_id t) ts)))"

definition withdraw :: "graph \<Rightarrow> channel_db \<Rightarrow> string \<Rightarrow> template_row \<Rightarrow> string \<Rightarrow> template_error + unit" where
  "withdraw G db merchant t p = (case face_and_bundle G db merchant (tp_channel t) (tp_account t) of Inl e \<Rightarrow> Inl e
     | Inr (f, b) \<Rightarrow> (case fc_retire f b (tp_account t) p (tp_name t) (tp_language t) of
          Inl e \<Rightarrow> Inl (as_template_error e) | Inr u \<Rightarrow> Inr u))"

text \<open>The second part is what became of the withdrawal at the provider, if it was asked for at all.\<close>

definition retire ::
    "graph \<Rightarrow> channel_db \<Rightarrow> retire_guard \<Rightarrow> time \<Rightarrow> string \<Rightarrow> string \<Rightarrow> template_row list \<Rightarrow> template_row list
     \<Rightarrow> (template_error + template_row) \<times> (template_error + unit) option \<times> template_row list" where
  "retire G db guard now merchant i seen ts = (case template_by_id merchant i seen of
     None \<Rightarrow> (Inl Template_not_found, None, ts)
   | Some t \<Rightarrow> (case retire_in_txn guard now merchant t ts of
        Inl e \<Rightarrow> (Inl e, None, ts)
      | Inr (None, ts') \<Rightarrow> (Inl Template_not_found, None, ts')
      | Inr (Some gone, ts') \<Rightarrow> (Inr gone, map_option (withdraw G db merchant t) (tp_provider t), ts')))"

section \<open>What a provider decided\<close>

definition apply_letter ::
    "int \<Rightarrow> letter \<Rightarrow> template_row \<Rightarrow> provider_template \<Rightarrow> template_row list \<Rightarrow> template_row option \<times> template_row list" where
  "apply_letter skew ev t st ts =
     (if ev_topic ev = topic_template_status
      then (if \<not> opt_text (ps_status st) then (None, ts)
            else apply_status_event skew (ev_merchant ev) (tp_id t) (tp_account t) (the (ps_status st)) (ev_occurred ev) (ps_rejection st) ts)
      else if ev_topic ev = topic_template_category
      then (if \<not> opt_text (ps_category st) then (None, ts)
            else apply_category_event skew (ev_merchant ev) (tp_id t) (tp_account t) (the (ps_category st)) (ev_occurred ev) ts)
      else if ev_topic ev = topic_template_quality
      then (if \<not> opt_text (ps_quality st) then (None, ts)
            else apply_quality_event skew (ev_merchant ev) (tp_id t) (tp_account t) (the (ps_quality st)) (ev_occurred ev) ts)
      else (None, ts))"

definition account_of_letter :: "installation list \<Rightarrow> letter \<Rightarrow> connector_spec \<Rightarrow> string option" where
  "account_of_letter ins ev s = (case connector_accounts (ev_merchant ev) (sp_key s) ins of [x] \<Rightarrow> Some (in_account x) | _ \<Rightarrow> None)"

text \<open>\<open>None\<close> raises: the provider id is on a row of another merchant.\<close>

definition resume_crashed_submit ::
    "int \<Rightarrow> installation list \<Rightarrow> time \<Rightarrow> letter \<Rightarrow> connector_spec \<Rightarrow> provider_template \<Rightarrow> template_row list \<Rightarrow> template_row list
     \<Rightarrow> template_row list option" where
  "resume_crashed_submit crashed_after ins now ev s st seen ts =
     (if ev_topic ev \<noteq> topic_template_status \<or> \<not> opt_text (ps_status st) \<or> \<not> opt_text (ps_id st) \<or> \<not> opt_text (ps_name st)
         \<or> \<not> opt_text (ps_language st) \<or> \<not> opt_text (sp_channel s) then Some ts
      else let claims = stale_submit_claims crashed_after now (ev_merchant ev) (the (sp_channel s)) (the (ps_name st)) (the (ps_language st)) seen
           in if claims = [] then Some ts
              else case account_of_letter ins ev s of None \<Rightarrow> Some ts
                | Some account \<Rightarrow> (case find (\<lambda>c. tp_account c = account) claims of None \<Rightarrow> Some ts
                   | Some c \<Rightarrow> map_option snd (resume_submitted_template (ev_merchant ev) (tp_id c) (tp_account c) (the (ps_id st))
                        (the (ps_status st)) (ev_occurred ev) (ps_rejection st) ts)))"

text \<open>The settings: the tolerance of clocks and the age of a crashed claim, in seconds.\<close>

record template_dials =
  dl_skew :: int
  dl_crashed :: int

text \<open>\<open>None\<close> raises, and the letter stays pending.\<close>

definition consume_template_event ::
    "template_dials \<Rightarrow> graph \<Rightarrow> installation list \<Rightarrow> time \<Rightarrow> letter \<Rightarrow> template_row list \<Rightarrow> template_row list \<Rightarrow> template_row list option" where
  "consume_template_event D G ins now ev seen ts =
     (if ev_topic ev \<notin> set template_topics then Some ts
      else case connector_for_source G (ev_source ev) of None \<Rightarrow> Some ts
       | Some s \<Rightarrow> (case sp_templates s of None \<Rightarrow> Some ts
          | Some f \<Rightarrow> (case fc_normalize f (ev_topic ev) (ev_payload ev) of
               Inl e \<Rightarrow> None
             | Inr None \<Rightarrow> Some ts
             | Inr (Some st) \<Rightarrow>
                (if \<not> opt_text (ps_id st) then Some ts
                 else case template_by_provider_id (ev_merchant ev) (the (ps_id st)) seen of
                    None \<Rightarrow> resume_crashed_submit (dl_crashed D) ins now ev s st seen ts
                  | Some t \<Rightarrow> Some (snd (apply_letter (dl_skew D) ev t st ts))))))"

end
