(* ===== verification/Lifecycle_Laws.thy ===== *)
theory Lifecycle_Laws
  imports Lifecycle
begin

text \<open>
  What the transitions and the letters keep of the registry in every interleaving: rows only move
  forward, a retired row is a tombstone, one submit at a time asks the provider, and a template that
  is registered is never submitted again.  Then what the letters of a template settle at, and what the
  module does not repair.
\<close>

section \<open>Rows\<close>

text \<open>The words that are this program's own and no provider's.\<close>

definition our_words :: "string set" where
  "our_words = {status_draft, status_submitting}"

definition birth :: "template_row \<Rightarrow> string \<times> (string \<times> string \<times> string \<times> string \<times> string) \<times> time" where
  "birth t = (tp_id t, natural_key t, tp_created t)"

definition template_fits :: "template_row \<Rightarrow> bool" where
  "template_fits t \<longleftrightarrow> (tp_status t \<in> our_words \<longrightarrow> tp_provider t = None)"

definition restamped :: "template_row \<Rightarrow> template_row \<Rightarrow> bool" where
  "restamped t t' \<longleftrightarrow> t' = t\<lparr>tp_status_at := tp_status_at t'\<rparr>"

definition later :: "template_row \<Rightarrow> template_row \<Rightarrow> bool" where
  "later t t' \<longleftrightarrow> birth t' = birth t
     \<and> (tp_status t = status_deleted \<longrightarrow> restamped t t')
     \<and> (tp_status t \<notin> our_words \<longrightarrow> tp_status t' \<notin> our_words)
     \<and> (tp_provider t \<noteq> None \<longrightarrow> tp_provider t' = tp_provider t)"

lemma restamped_refl: "restamped t t"
  by (simp add: restamped_def)

lemma restamped_at [simp]: "restamped t (t\<lparr>tp_status_at := x\<rparr>)"
  by (simp add: restamped_def)

lemma restamped_status: "restamped t u \<Longrightarrow> tp_status u = tp_status t"
  by (cases u) (simp add: restamped_def)

lemma restamped_trans: "restamped t u \<Longrightarrow> restamped u v \<Longrightarrow> restamped t v"
  by (cases t; cases u; cases v) (simp add: restamped_def)

lemma later_refl: "later t t"
  by (simp add: later_def restamped_refl)

lemma later_trans: "later t u \<Longrightarrow> later u v \<Longrightarrow> later t v"
  using restamped_trans [of t u v] restamped_status [of t u] unfolding later_def by (elim conjE) simp

lemma status_words [simp]:
  "status_draft \<noteq> status_submitting" "status_submitting \<noteq> status_draft" "status_draft \<noteq> status_deleted"
  "status_deleted \<noteq> status_draft" "status_submitting \<noteq> status_deleted" "status_deleted \<noteq> status_submitting"
  "status_draft \<noteq> template_approved" "status_draft \<noteq> status_pending" "status_pending \<noteq> status_draft"
  "status_pending \<noteq> status_submitting" "status_pending \<noteq> status_deleted" "template_approved \<noteq> status_deleted"
  "template_approved \<noteq> status_draft" "template_approved \<noteq> status_submitting" "template_approved \<noteq> status_pending"
  "status_pending \<noteq> template_approved" "status_rejected \<noteq> status_deleted" "status_paused \<noteq> status_deleted"
  "status_rejected \<noteq> status_draft" "status_paused \<noteq> status_draft"
  by (simp_all add: status_draft_def status_submitting_def status_deleted_def status_pending_def template_approved_def
      status_rejected_def status_paused_def)

definition one_owner :: "template_row list \<Rightarrow> bool" where
  "one_owner ts \<longleftrightarrow> (\<forall>t\<in>set ts. \<forall>u\<in>set ts. tp_provider t \<noteq> None \<and> tp_provider t = tp_provider u \<longrightarrow> tp_id t = tp_id u)"

definition templates_ok :: "template_row list \<Rightarrow> bool" where
  "templates_ok ts \<longleftrightarrow> distinct (map tp_id ts) \<and> distinct (map natural_key ts) \<and> one_owner ts \<and> (\<forall>t\<in>set ts. template_fits t)"

definition forward :: "template_row list \<Rightarrow> template_row list \<Rightarrow> bool" where
  "forward ts ts' \<longleftrightarrow> (\<forall>t\<in>set ts. \<exists>t'\<in>set ts'. later t t')"

lemma forward_refl: "forward ts ts"
  using later_refl by (auto simp: forward_def)

lemma forward_trans: "forward ts us \<Longrightarrow> forward us vs \<Longrightarrow> forward ts vs"
  unfolding forward_def by (meson later_trans)

lemma owners:
  "templates_ok ts \<Longrightarrow> t \<in> set ts \<Longrightarrow> u \<in> set ts \<Longrightarrow> tp_provider t \<noteq> None \<Longrightarrow> tp_provider t = tp_provider u
   \<Longrightarrow> tp_id t = tp_id u"
  unfolding templates_ok_def one_owner_def by blast

lemma same_id: "templates_ok ts \<Longrightarrow> t \<in> set ts \<Longrightarrow> u \<in> set ts \<Longrightarrow> tp_id t = tp_id u \<Longrightarrow> t = u"
  by (auto simp: templates_ok_def distinct_map inj_on_def)

text \<open>A row that is a draft now was one, or is new.\<close>

definition no_new_draft :: "template_row list \<Rightarrow> template_row list \<Rightarrow> bool" where
  "no_new_draft ts ts' \<longleftrightarrow> (\<forall>t'\<in>set ts'. tp_status t' = status_draft
     \<longrightarrow> (\<exists>t\<in>set ts. tp_id t = tp_id t' \<and> tp_status t = status_draft) \<or> tp_id t' \<notin> tp_id ` set ts)"

definition sound_move :: "template_row list \<Rightarrow> template_row list \<Rightarrow> bool" where
  "sound_move ts ts' \<longleftrightarrow> (templates_ok ts \<longrightarrow> templates_ok ts' \<and> forward ts ts' \<and> no_new_draft ts ts')"

lemma sound_refl: "sound_move ts ts"
  using forward_refl by (auto simp: sound_move_def no_new_draft_def)

section \<open>The contract of a statement\<close>

text \<open>A guard that names one row at most, and a set that moves it forward.\<close>

locale template_statement =
  fixes P :: "template_row \<Rightarrow> bool" and f :: "template_row \<Rightarrow> template_row" and i :: string
  assumes names: "P t \<Longrightarrow> tp_id t = i"
    and fit: "P t \<Longrightarrow> template_fits t \<Longrightarrow> template_fits (f t)"
    and ahead: "P t \<Longrightarrow> template_fits t \<Longrightarrow> later t (f t)"
begin

definition performed :: "template_row list \<Rightarrow> template_row list" where
  "performed ts = snd (rewrite_templates P f ts)"

lemma performed_map: "performed ts = map (\<lambda>t. if P t then f t else t) ts"
  by (simp add: performed_def rewrite_templates_def)

lemma ahead_birth: "P t \<Longrightarrow> template_fits t \<Longrightarrow> birth (f t) = birth t"
  using ahead by (simp add: later_def)

lemma births: "\<forall>t\<in>set ts. template_fits t \<Longrightarrow> map birth (performed ts) = map birth ts"
  unfolding performed_map map_map comp_def
  by (rule map_cong [OF refl]) (simp add: ahead_birth)

lemma goes_forward: "\<forall>t\<in>set ts. template_fits t \<Longrightarrow> forward ts (performed ts)"
  unfolding forward_def
proof (intro ballI)
  fix t assume "\<forall>t\<in>set ts. template_fits t" and t: "t \<in> set ts"
  then have "later t (if P t then f t else t)" using ahead later_refl by simp
  moreover have "(if P t then f t else t) \<in> set (performed ts)" using t by (simp add: performed_map)
  ultimately show "\<exists>t'\<in>set (performed ts). later t t'" by blast
qed

lemma rows_fit: "\<forall>t\<in>set ts. template_fits t \<Longrightarrow> \<forall>t\<in>set (performed ts). template_fits t"
  using fit by (auto simp: performed_map)

lemma keys_kept:
  assumes "\<forall>t\<in>set ts. template_fits t"
  shows "map tp_id (performed ts) = map tp_id ts" and "map natural_key (performed ts) = map natural_key ts"
proof -
  have "map fst (map birth (performed ts)) = map fst (map birth ts)"
    and "map (fst \<circ> snd) (map birth (performed ts)) = map (fst \<circ> snd) (map birth ts)"
    using births [OF assms] by simp_all
  then show "map tp_id (performed ts) = map tp_id ts" and "map natural_key (performed ts) = map natural_key ts"
    by (simp_all add: comp_def birth_def)
qed

text \<open>A provider id comes from the row before, or is written on the named row alone.\<close>

lemma keeps_ok:
  assumes ok: "templates_ok ts"
    and new: "\<And>t u. t \<in> set ts \<Longrightarrow> u \<in> set ts \<Longrightarrow> P t \<Longrightarrow> \<not> P u \<Longrightarrow> tp_provider (f t) \<noteq> None
          \<Longrightarrow> tp_provider (f t) = tp_provider u \<Longrightarrow> tp_id t = tp_id u"
  shows "templates_ok (performed ts)"
proof -
  have fits: "\<forall>t\<in>set ts. template_fits t" using ok by (simp add: templates_ok_def)
  have same: "tp_id (f t) = tp_id t" if "P t" "t \<in> set ts" for t
    using ahead_birth [OF that(1)] fits that(2) by (simp add: birth_def)
  have "one_owner (performed ts)"
    unfolding one_owner_def
  proof (intro ballI impI)
    fix a b assume ab: "a \<in> set (performed ts)" "b \<in> set (performed ts)" and eq: "tp_provider a \<noteq> None \<and> tp_provider a = tp_provider b"
    obtain t where t: "t \<in> set ts" "a = (if P t then f t else t)" using ab(1) by (auto simp: performed_map)
    obtain u where u: "u \<in> set ts" "b = (if P u then f u else u)" using ab(2) by (auto simp: performed_map)
    have own: "tp_provider t \<noteq> None \<Longrightarrow> tp_provider t = tp_provider u \<Longrightarrow> tp_id t = tp_id u"
      using owners [OF ok t(1) u(1)] .
    show "tp_id a = tp_id b"
    proof (cases "P t"; cases "P u")
      assume *: "P t" "P u"
      have "tp_id a = tp_id t" and "tp_id b = tp_id u" using t u same * by simp_all
      then show ?thesis using names [OF *(1)] names [OF *(2)] by simp
    next
      assume *: "P t" "\<not> P u"
      then have ab: "a = f t" "b = u" using t u by simp_all
      have "tp_id t = tp_id u" using eq unfolding ab by (intro new [OF t(1) u(1) *]) (elim conjE, assumption)+
      then show ?thesis using same [OF *(1) t(1)] ab by simp
    next
      assume *: "\<not> P t" "P u"
      then have ab: "a = t" "b = f u" using t u by simp_all
      have "tp_provider (f u) \<noteq> None" "tp_provider (f u) = tp_provider t" using eq unfolding ab by (elim conjE, simp)+
      then have "tp_id u = tp_id t" by (rule new [OF u(1) t(1) *(2,1)])
      then show ?thesis using same [OF *(2) u(1)] ab by simp
    next
      assume "\<not> P t" "\<not> P u"
      then have ab: "a = t" "b = u" using t u by simp_all
      show ?thesis using eq unfolding ab by (intro own) (elim conjE, assumption)+
    qed
  qed
  then show ?thesis
    using ok keys_kept [OF fits] rows_fit [OF fits] by (simp add: templates_ok_def)
qed

lemma keeps_ok_same:
  assumes "templates_ok ts" and "\<And>t. P t \<Longrightarrow> tp_provider (f t) = tp_provider t"
  shows "templates_ok (performed ts)"
proof (rule keeps_ok [OF assms(1)])
  fix t u assume *: "t \<in> set ts" "u \<in> set ts" "P t" "tp_provider (f t) \<noteq> None" "tp_provider (f t) = tp_provider u"
  then have "tp_provider t \<noteq> None" "tp_provider t = tp_provider u" using assms(2) [OF *(3)] by simp_all
  then show "tp_id t = tp_id u" by (rule owners [OF assms(1) *(1,2)])
qed

lemma keeps_ok_stamped:
  assumes "templates_ok ts" and "\<And>t. P t \<Longrightarrow> tp_provider (f t) = Some p" and free: "\<not> provider_taken p P ts"
  shows "templates_ok (performed ts)"
  using assms by (intro keeps_ok) (auto simp: provider_taken_def list_ex_iff)

lemma elsewhere: "t \<in> set ts \<Longrightarrow> tp_id t \<noteq> i \<Longrightarrow> t \<in> set (performed ts)"
  unfolding performed_map set_map using names by (intro image_eqI [of _ _ t]) auto

lemma comes_from: "t' \<in> set (performed ts) \<Longrightarrow> \<exists>t\<in>set ts. t' = (if P t then f t else t)"
  by (auto simp: performed_map)

end

text \<open>A statement that makes no draft.\<close>

locale forward_statement = template_statement +
  assumes undrafted: "P t \<Longrightarrow> tp_status (f t) = status_draft \<Longrightarrow> tp_status t = status_draft"
begin

lemma drafts_were:
  assumes "\<forall>t\<in>set ts. template_fits t" and "t' \<in> set (performed ts)" and "tp_status t' = status_draft"
  shows "\<exists>t\<in>set ts. tp_id t = tp_id t' \<and> tp_status t = status_draft"
proof -
  obtain t where t: "t \<in> set ts" "t' = (if P t then f t else t)" using comes_from [OF assms(2)] by blast
  have "tp_id t' = tp_id t" using t ahead_birth [of t] assms(1) by (auto simp: birth_def)
  moreover have "tp_status t = status_draft" using t assms(3) undrafted [of t] by (cases "P t") simp_all
  ultimately show ?thesis using t(1) by auto
qed

lemma sound_same:
  assumes "\<And>t. P t \<Longrightarrow> tp_provider (f t) = tp_provider t"
  shows "sound_move ts (performed ts)"
  unfolding sound_move_def
proof (intro impI conjI)
  assume ok: "templates_ok ts"
  then have fits: "\<forall>t\<in>set ts. template_fits t" by (simp add: templates_ok_def)
  show "templates_ok (performed ts)" using ok assms by (rule keeps_ok_same)
  show "forward ts (performed ts)" using fits by (rule goes_forward)
  show "no_new_draft ts (performed ts)" unfolding no_new_draft_def using drafts_were [OF fits] by blast
qed

lemma sound_stamped:
  assumes "\<And>t. P t \<Longrightarrow> tp_provider (f t) = Some p" and "\<not> provider_taken p P ts"
  shows "sound_move ts (performed ts)"
  unfolding sound_move_def
proof (intro impI conjI)
  assume ok: "templates_ok ts"
  then have fits: "\<forall>t\<in>set ts. template_fits t" by (simp add: templates_ok_def)
  show "templates_ok (performed ts)" using ok assms by (rule keeps_ok_stamped)
  show "forward ts (performed ts)" using fits by (rule goes_forward)
  show "no_new_draft ts (performed ts)" unfolding no_new_draft_def using drafts_were [OF fits] by blast
qed

end

section \<open>The module's statements\<close>

lemmas statement_simps = owns_template_def is_draft_def is_claim_def open_to_letters_def template_fits_def later_def birth_def natural_key_def
  restamped_def our_words_def redraw_def claimed_for_def released_def submitted_as_def edited_as_def retired_at_def
  status_given_def category_given_def quality_given_def resumed_as_def

interpretation redrawn: forward_statement "is_draft m i" "redraw components category" i for m i components category
  by unfold_locales (auto simp: statement_simps)

interpretation claiming: forward_statement "is_draft m i" "claimed_for now category" i for m i now category
  by unfold_locales (auto simp: statement_simps)

interpretation releasing: template_statement "\<lambda>t. is_claim m i t \<and> tp_provider t = None" "released now" i for m i now
  by unfold_locales (auto simp: statement_simps)

interpretation retiring: forward_statement "owns_template m i" "retired_at now" i for m i now
  by unfold_locales (auto simp: statement_simps)

interpretation recategorised: forward_statement
    "\<lambda>t. open_to_letters m i a t \<and> not_older_than skew (tp_category_at t) occurred" "category_given category occurred" i
    for m i a skew occurred category
  by unfold_locales (auto simp: statement_simps)

interpretation requalified: forward_statement
    "\<lambda>t. open_to_letters m i a t \<and> not_older_than skew (tp_quality_at t) occurred" "quality_given quality occurred" i
    for m i a skew occurred quality
  by unfold_locales (auto simp: statement_simps)

text \<open>The ones that write a provider's word, for a word that is not ours.\<close>

lemma deciding: "status \<notin> our_words \<Longrightarrow>
   forward_statement (\<lambda>t. open_to_letters m i a t \<and> not_older_than skew (Some (tp_status_at t)) occurred) (status_given status occurred reason) i"
  by unfold_locales (auto simp: statement_simps)

lemma submitting: "status \<notin> our_words \<Longrightarrow>
   forward_statement (\<lambda>t. is_claim m i t) (submitted_as now p category submitted status) i"
  by unfold_locales (auto simp: statement_simps)

lemma resuming: "status \<notin> our_words \<Longrightarrow>
   forward_statement (\<lambda>t. is_claim m i t \<and> tp_account t = a \<and> tp_provider t = None) (resumed_as p status occurred reason) i"
  by unfold_locales (auto simp: statement_simps)

lemma in_place_words: "s \<in> in_place_edit \<Longrightarrow> s \<noteq> status_deleted \<and> s \<noteq> status_draft \<and> s \<notin> our_words"
  by (auto simp: in_place_edit_def our_words_def status_rejected_def status_paused_def status_submitting_def status_deleted_def
      status_draft_def template_approved_def)

lemma pending_word: "status_pending \<notin> our_words"
  by (simp add: our_words_def)

lemma editing:
  assumes "expected \<in> in_place_edit"
  shows "forward_statement (\<lambda>t. owns_template m i t \<and> tp_status t \<in> {status_pending, expected}) (edited_as now components status_pending) i"
proof (unfold_locales, goal_cases)
  case (1 t) then show ?case by (simp add: owns_template_def)
next
  case (2 t) then show ?case using pending_word by (simp add: template_fits_def edited_as_def)
next
  case (3 t)
  then have "tp_status t \<noteq> status_deleted" using in_place_words [OF assms] by auto
  then show ?case using pending_word by (simp add: later_def edited_as_def birth_def natural_key_def)
next
  case (4 t) then show ?case by (simp add: edited_as_def)
qed

section \<open>The transitions\<close>

lemma insert_moves:
  assumes "insert_template_draft now i key components category ts = Some (t, ts')"
  shows "sound_move ts ts'"
  unfolding sound_move_def
proof (intro impI conjI)
  assume ok: "templates_ok ts"
  have t: "t = new_draft now i key components category" and ts': "ts' = ts @ [t]"
    and free: "\<forall>u\<in>set ts. natural_key u \<noteq> key \<and> tp_id u \<noteq> i"
    using assms by (auto simp: insert_template_draft_def Let_def list_ex_iff split: if_splits)
  have made: "tp_id t = i" "natural_key t = key" "tp_provider t = None"
    by (simp_all add: t new_draft_def natural_key_def split: prod.split)
  have "one_owner ts'"
    unfolding one_owner_def ts'
  proof (intro ballI impI)
    fix a b assume ab: "a \<in> set (ts @ [t])" "b \<in> set (ts @ [t])" and eq: "tp_provider a \<noteq> None \<and> tp_provider a = tp_provider b"
    then have "a \<noteq> t" "b \<noteq> t" using made(3) by auto
    then have "a \<in> set ts" "b \<in> set ts" using ab by simp_all
    then show "tp_id a = tp_id b" using owners [OF ok] eq by blast
  qed
  moreover have "template_fits t" using made(3) by (simp add: template_fits_def)
  moreover have "i \<notin> tp_id ` set ts" "key \<notin> natural_key ` set ts" using free by auto
  ultimately show "templates_ok ts'" using ok made(1,2) unfolding templates_ok_def by (simp add: ts')
  show "forward ts ts'" using later_refl by (auto simp: forward_def ts')
  have "tp_id t \<notin> tp_id ` set ts" using free made(1) by auto
  then show "no_new_draft ts ts'" by (auto simp: no_new_draft_def ts')
qed

text \<open>What a statement of the contract does to the table.\<close>

lemma performed_rewrite: "forward_statement P f i \<Longrightarrow> template_statement.performed P f ts = snd (rewrite_templates P f ts)"
  using template_statement.performed_def [OF forward_statement.axioms(1)] by blast

lemma rewrite_moves:
  assumes "forward_statement P f i" and "\<And>t. P t \<Longrightarrow> tp_provider (f t) = tp_provider t"
  shows "sound_move ts (snd (rewrite_templates P f ts))"
  using forward_statement.sound_same [OF assms] performed_rewrite [OF assms(1)] by simp

lemma stamp_moves:
  assumes "forward_statement P f i" and "\<And>t. P t \<Longrightarrow> tp_provider (f t) = Some p"
    and "stamp_provider p P f ts = Some (r, ts')"
  shows "sound_move ts ts'"
proof -
  have free: "\<not> provider_taken p P ts" and ts': "ts' = snd (rewrite_templates P f ts)"
    using assms(3) by (auto simp: stamp_provider_def rewrite_templates_def split: if_splits)
  show ?thesis unfolding ts'
    using forward_statement.sound_stamped [OF assms(1,2) free] performed_rewrite [OF assms(1)] by simp
qed

lemma redraw_moves: "sound_move ts (snd (update_draft_components m i components category ts))"
  unfolding update_draft_components_def
  by (rule rewrite_moves [OF redrawn.forward_statement_axioms]) (simp add: redraw_def)

lemma create_moves: "sound_move ts (snd (create_draft G db now i key components category seen ts))"
proof (cases key)
  case (fields m ch a n l)
  have "sound_move ts (snd (create_draft_in_txn now i key components category seen ts))"
    using redraw_moves insert_moves sound_refl
    by (auto simp: create_draft_in_txn_def split: option.splits prod.splits if_splits) (metis snd_conv)+
  then show ?thesis using sound_refl by (auto simp: create_draft_def fields split: sum.splits)
qed

lemma claim_moves: "sound_move ts (snd (submit_claim now m i category seen ts))"
proof -
  have "sound_move ts (snd (claim_for_submit now m i category ts))"
    unfolding claim_for_submit_def
    by (rule rewrite_moves [OF claiming.forward_statement_axioms]) (simp add: claimed_for_def)
  then show ?thesis using sound_refl
    by (auto simp: submit_claim_def split: option.splits prod.splits if_splits)
qed

definition foreign_answer :: "template_error + provider_template \<Rightarrow> bool" where
  "foreign_answer answer \<longleftrightarrow> (case answer of Inl e \<Rightarrow> True | Inr st \<Rightarrow> or_text (ps_status st) status_pending \<notin> our_words)"

lemma record_moves:
  assumes "foreign_answer (Inr st)"
  shows "sound_move ts (snd (submit_settles now m i category (Inr st) ts))"
proof -
  have "sound_move ts ts'"
    if "record_submission now m i p c category (or_text (ps_status st) status_pending) ts = Some (r, ts')" for p c r ts'
    using stamp_moves [OF submitting _ that [unfolded record_submission_def]] assms
    by (simp add: foreign_answer_def submitted_as_def)
  then show ?thesis using sound_refl by (auto simp: submit_settles_def split: option.splits)
qed

lemma edit_answer: "edit_asks G db m components t = Inr st \<Longrightarrow> ps_status st = Some status_pending \<and> tp_status t \<in> in_place_edit"
  by (auto simp: edit_asks_def spec_for_def connector_for_channel_def connectors_def face_of_def whatsapp_templates_def
      whatsapp_edit_def split: sum.splits if_splits option.splits)

lemma edit_moves: "sound_move ts (snd (edit_template G db now m i components category seen ts))"
proof -
  have "sound_move ts (snd (record_in_place_edit now m i components status_pending expected ts))" if "expected \<in> in_place_edit" for expected
    unfolding record_in_place_edit_def by (rule rewrite_moves [OF editing [OF that]]) (simp add: edited_as_def)
  moreover have "or_text (Some status_pending) x = status_pending" for x by (simp add: or_text_def opt_text_def status_pending_def)
  ultimately show ?thesis using redraw_moves sound_refl edit_answer
    by (auto simp: edit_template_def split: option.splits prod.splits if_splits sum.splits) (metis snd_conv)+
qed

lemma retire_moves: "sound_move ts (snd (snd (retire G db guard now m i seen ts)))"
proof -
  have "sound_move ts (snd (retire_template now m j ts))" for j
    unfolding retire_template_def by (rule rewrite_moves [OF retiring.forward_statement_axioms]) (simp add: retired_at_def)
  then show ?thesis using sound_refl
    by (auto simp: retire_def retire_in_txn_def split: option.splits sum.splits prod.splits if_splits) (metis snd_conv)+
qed

text \<open>A letter that does not speak our own words.\<close>

definition foreign_letter :: "letter \<Rightarrow> bool" where
  "foreign_letter ev \<longleftrightarrow> (\<forall>s. from_meta (dget (ev_payload ev) ''event'') = Some s \<longrightarrow> s \<notin> our_words)"

lemma normalized_status:
  "whatsapp_normalize topic v = Inr (Some st) \<Longrightarrow> topic = topic_template_status \<Longrightarrow> ps_status st = from_meta (dget v ''event'')"
  by (auto simp: whatsapp_normalize_def Let_def split: option.splits)

lemma connector_of_source:
  "connector_for_source G source = Some s \<Longrightarrow> sp_templates s = Some f \<Longrightarrow>
   source = ''whatsapp'' \<and> sp_key s = ''whatsapp'' \<and> sp_channel s = Some ''whatsapp'' \<and> f = whatsapp_templates G"
  by (auto simp: connector_for_source_def connectors_def split: if_splits)

lemma apply_moves:
  assumes "ev_topic ev = topic_template_status \<Longrightarrow> the (ps_status st) \<notin> our_words"
  shows "sound_move ts (snd (apply_letter skew ev t st ts))"
proof -
  have "sound_move ts (snd (apply_status_event skew m i a s occurred reason ts))" if "s \<notin> our_words" for m i a s occurred reason
    unfolding apply_status_event_def by (rule rewrite_moves [OF deciding [OF that]]) (simp add: status_given_def)
  moreover have "sound_move ts (snd (apply_category_event skew m i a c occurred ts))" for m i a c occurred
    unfolding apply_category_event_def
    by (rule rewrite_moves [OF recategorised.forward_statement_axioms]) (simp add: category_given_def)
  moreover have "sound_move ts (snd (apply_quality_event skew m i a q occurred ts))" for m i a q occurred
    unfolding apply_quality_event_def
    by (rule rewrite_moves [OF requalified.forward_statement_axioms]) (simp add: quality_given_def)
  ultimately show ?thesis using assms sound_refl unfolding apply_letter_def by simp
qed

lemma resume_moves:
  assumes "the (ps_status st) \<notin> our_words" and "resume_crashed_submit crashed ins now ev s st seen ts = Some ts'"
  shows "sound_move ts ts'"
proof -
  have "sound_move ts us"
    if "resume_submitted_template m i a p (the (ps_status st)) occurred reason ts = Some (r, us)" for m i a p occurred reason r us
    using stamp_moves [OF resuming [OF assms(1)] _ that [unfolded resume_submitted_template_def]]
    by (simp add: resumed_as_def)
  then show ?thesis using assms(2) sound_refl
    by (auto simp: resume_crashed_submit_def Let_def split: if_splits option.splits)
qed

lemma consume_cases:
  assumes "consume_template_event D G ins now ev seen ts = Some ts'"
  shows "ts' = ts \<or> (\<exists>s f st. connector_for_source G (ev_source ev) = Some s \<and> sp_templates s = Some f
     \<and> fc_normalize f (ev_topic ev) (ev_payload ev) = Inr (Some st)
     \<and> (resume_crashed_submit (dl_crashed D) ins now ev s st seen ts = Some ts' \<or> (\<exists>t. ts' = snd (apply_letter (dl_skew D) ev t st ts))))"
proof (cases "connector_for_source G (ev_source ev)")
  case (Some s)
  note source = this
  show ?thesis
  proof (cases "sp_templates s")
    case (Some f)
    note face = this
    show ?thesis
    proof (cases "fc_normalize f (ev_topic ev) (ev_payload ev)")
      case (Inr x)
      show ?thesis
      proof (cases x)
        case None
        then show ?thesis using assms source face Inr by (simp add: consume_template_event_def split: if_splits)
      next
        case (Some st)
        have "ts' = ts \<or> resume_crashed_submit (dl_crashed D) ins now ev s st seen ts = Some ts'
            \<or> (\<exists>t. ts' = snd (apply_letter (dl_skew D) ev t st ts))"
          using assms source face Inr Some
          by (cases "template_by_provider_id (ev_merchant ev) (the (ps_id st)) seen")
            (auto simp: consume_template_event_def split: if_splits)
        then show ?thesis using source face Inr Some by blast
      qed
    qed (use assms source face in \<open>simp add: consume_template_event_def split: if_splits\<close>)
  qed (use assms source in \<open>simp add: consume_template_event_def split: if_splits\<close>)
qed (use assms in \<open>simp add: consume_template_event_def split: if_splits\<close>)

lemma letter_moves:
  assumes "foreign_letter ev" and "consume_template_event D G ins now ev seen ts = Some ts'"
  shows "sound_move ts ts'"
proof -
  consider "ts' = ts"
    | s f st where "connector_for_source G (ev_source ev) = Some s" "sp_templates s = Some f"
        "fc_normalize f (ev_topic ev) (ev_payload ev) = Inr (Some st)"
        "resume_crashed_submit (dl_crashed D) ins now ev s st seen ts = Some ts' \<or> (\<exists>t. ts' = snd (apply_letter (dl_skew D) ev t st ts))"
    using consume_cases [OF assms(2)] by blast
  then show ?thesis
  proof cases
    case 1
    then show ?thesis using sound_refl by simp
  next
    case 2
    have norm: "whatsapp_normalize (ev_topic ev) (ev_payload ev) = Inr (Some st)"
      using 2(3) connector_of_source [OF 2(1,2)] by (simp add: whatsapp_templates_def)
    have word: "the (ps_status st) \<notin> our_words" if "ev_topic ev = topic_template_status" "ps_status st \<noteq> None"
      using normalized_status [OF norm that(1)] assms(1) that(2) by (auto simp: foreign_letter_def)
    show ?thesis
    proof (cases "ps_status st = None \<or> ev_topic ev \<noteq> topic_template_status")
      case True
      have "resume_crashed_submit (dl_crashed D) ins now ev s st seen ts = Some ts' \<Longrightarrow> ts' = ts"
        using True by (auto simp: resume_crashed_submit_def opt_text_def)
      moreover have "sound_move ts (snd (apply_letter (dl_skew D) ev t st ts))" for t
        using True apply_moves [of ev st] sound_refl by (auto simp: apply_letter_def opt_text_def)
      ultimately show ?thesis using 2(4) sound_refl by auto
    next
      case False
      then show ?thesis using 2(4) word resume_moves apply_moves by blast
    qed
  qed
qed

section \<open>Interleavings\<close>

text \<open>A submit in the air holds the row its claim returned.\<close>

record submit_flight =
  fl_merchant :: string
  fl_id :: string
  fl_category :: string
  fl_row :: template_row

record template_world =
  tw_rows :: "template_row list"
  tw_flights :: "submit_flight list"

text \<open>
  One step: a commit of a transition, a letter heard, or a worker that dies with its submit in the air.
  Whatever a transition read before is any table at all.
\<close>

inductive template_step :: "template_dials \<Rightarrow> template_world \<Rightarrow> template_world \<Rightarrow> bool" for D where
  creates: "template_step D w (w\<lparr>tw_rows := snd (create_draft G db now i key components category seen (tw_rows w))\<rparr>)"
| claims: "submit_claim now m i category seen (tw_rows w) = (Inr c, ts) \<Longrightarrow>
    template_step D w \<lparr>tw_rows = ts, tw_flights = \<lparr>fl_merchant = m, fl_id = i, fl_category = category, fl_row = c\<rparr> # tw_flights w\<rparr>"
| settles: "x \<in> set (tw_flights w) \<Longrightarrow> answer = submit_asks G db (fl_merchant x) (fl_category x) (fl_row x) \<Longrightarrow> foreign_answer answer \<Longrightarrow>
    template_step D w \<lparr>tw_rows = snd (submit_settles now (fl_merchant x) (fl_id x) (fl_category x) answer (tw_rows w)),
                       tw_flights = remove1 x (tw_flights w)\<rparr>"
| dies: "x \<in> set (tw_flights w) \<Longrightarrow> template_step D w (w\<lparr>tw_flights := remove1 x (tw_flights w)\<rparr>)"
| edits: "template_step D w (w\<lparr>tw_rows := snd (edit_template G db now m i components category seen (tw_rows w))\<rparr>)"
| retires: "template_step D w (w\<lparr>tw_rows := snd (snd (retire G db guard now m i seen (tw_rows w)))\<rparr>)"
| hears: "foreign_letter ev \<Longrightarrow> consume_template_event D G ins now ev seen (tw_rows w) = Some ts \<Longrightarrow>
    template_step D w (w\<lparr>tw_rows := ts\<rparr>)"

definition no_templates :: template_world where
  "no_templates = \<lparr>tw_rows = [], tw_flights = []\<rparr>"

inductive template_path :: "template_dials \<Rightarrow> template_world \<Rightarrow> template_world \<Rightarrow> bool" for D where
  stays: "template_path D w w"
| goes: "template_path D w v \<Longrightarrow> template_step D v u \<Longrightarrow> template_path D w u"

definition flights_ok :: "template_world \<Rightarrow> bool" where
  "flights_ok w \<longleftrightarrow> distinct (map fl_id (tw_flights w))
     \<and> (\<forall>x\<in>set (tw_flights w). \<exists>t\<in>set (tw_rows w). tp_id t = fl_id x \<and> tp_status t \<noteq> status_draft)"

definition world_ok :: "template_world \<Rightarrow> bool" where
  "world_ok w \<longleftrightarrow> templates_ok (tw_rows w) \<and> flights_ok w"

lemma keeps_flights:
  assumes "templates_ok ts" and "templates_ok ts'" and "forward ts ts'" and "no_new_draft ts ts'"
    and "t \<in> set ts" and "tp_status t \<noteq> status_draft"
  shows "\<exists>t'\<in>set ts'. tp_id t' = tp_id t \<and> tp_status t' \<noteq> status_draft"
proof -
  obtain t' where t': "t' \<in> set ts'" "later t t'" using assms(3,5) by (auto simp: forward_def)
  then have same: "tp_id t' = tp_id t" by (simp add: later_def birth_def)
  have "tp_status t' \<noteq> status_draft"
  proof
    assume "tp_status t' = status_draft"
    then obtain u where u: "u \<in> set ts" "tp_id u = tp_id t'" "tp_status u = status_draft"
      using assms(4,5) t'(1) same unfolding no_new_draft_def by force
    then have "u = t" using same_id [OF assms(1) u(1) assms(5)] same by simp
    then show False using u(3) assms(6) by simp
  qed
  then show ?thesis using t'(1) same by blast
qed

lemma release_keeps:
  assumes "templates_ok ts"
  shows "templates_ok (snd (release_submit_claim now m i ts))" "forward ts (snd (release_submit_claim now m i ts))"
    "t \<in> set ts \<Longrightarrow> tp_id t \<noteq> i \<Longrightarrow> t \<in> set (snd (release_submit_claim now m i ts))"
proof -
  have same: "template_statement.performed (\<lambda>t. is_claim m i t \<and> tp_provider t = None) (released now) ts = snd (release_submit_claim now m i ts)"
    by (simp add: release_submit_claim_def releasing.performed_def)
  have fits: "\<forall>t\<in>set ts. template_fits t" using assms by (simp add: templates_ok_def)
  show "templates_ok (snd (release_submit_claim now m i ts))"
    unfolding same [symmetric] using assms by (rule releasing.keeps_ok_same) (simp add: released_def)
  show "forward ts (snd (release_submit_claim now m i ts))"
    unfolding same [symmetric] using fits by (rule releasing.goes_forward)
  show "t \<in> set ts \<Longrightarrow> tp_id t \<noteq> i \<Longrightarrow> t \<in> set (snd (release_submit_claim now m i ts))"
    unfolding same [symmetric] by (rule releasing.elsewhere)
qed

lemma moves_keep:
  assumes "world_ok w" and "sound_move (tw_rows w) ts" and "tw_rows v = ts"
    and fewer: "set (tw_flights v) \<subseteq> set (tw_flights w)" and "distinct (map fl_id (tw_flights v))"
  shows "world_ok v \<and> forward (tw_rows w) (tw_rows v)"
proof -
  have ok: "templates_ok (tw_rows w)" using assms(1) by (simp add: world_ok_def)
  have kept: "templates_ok ts" "forward (tw_rows w) ts" "no_new_draft (tw_rows w) ts"
    using assms(2) ok by (simp_all add: sound_move_def)
  have "\<exists>t'\<in>set ts. tp_id t' = fl_id x \<and> tp_status t' \<noteq> status_draft" if x: "x \<in> set (tw_flights v)" for x
  proof -
    obtain t where t: "t \<in> set (tw_rows w)" "tp_id t = fl_id x" "tp_status t \<noteq> status_draft"
      using assms(1) fewer x by (auto simp: world_ok_def flights_ok_def)
    show ?thesis using keeps_flights [OF ok kept t(1,3)] t(2) by simp
  qed
  then show ?thesis using kept assms(3,5) by (simp add: world_ok_def flights_ok_def)
qed

lemma claim_Inr:
  assumes "submit_claim now m i category seen ts = (Inr c, ts')"
  shows "claim_for_submit now m i category ts = (Some c, ts')"
  using assms by (auto simp: submit_claim_def split: option.splits prod.splits if_splits)

lemma claim_row:
  assumes "claim_for_submit now m i category ts = (Some c, ts')"
  shows "\<exists>t\<in>set ts. is_draft m i t \<and> c = claimed_for now category t" and "c \<in> set ts'"
proof -
  obtain t where t: "find (is_draft m i) ts = Some t" "c = claimed_for now category t"
    using assms by (auto simp: claim_for_submit_def rewrite_templates_def)
  have hit: "t \<in> set ts" "is_draft m i t" using find_Some_set [OF t(1)] by simp_all
  then show "\<exists>t\<in>set ts. is_draft m i t \<and> c = claimed_for now category t" using t(2) by blast
  have "ts' = map (\<lambda>t. if is_draft m i t then claimed_for now category t else t) ts"
    using assms by (auto simp: claim_for_submit_def rewrite_templates_def)
  then show "c \<in> set ts'" using hit t(2) by (auto intro!: image_eqI [of _ _ t])
qed

lemma one_less:
  assumes "distinct (map fl_id xs)" and "x \<in> set xs"
  shows "set (remove1 x xs) \<subseteq> set xs" "distinct (map fl_id (remove1 x xs))" "y \<in> set (remove1 x xs) \<Longrightarrow> fl_id y \<noteq> fl_id x"
proof -
  have "distinct xs" using assms(1) by (simp add: distinct_map)
  then have rest: "set (remove1 x xs) = set xs - {x}" by (rule set_remove1_eq)
  then show "set (remove1 x xs) \<subseteq> set xs" by blast
  show "distinct (map fl_id (remove1 x xs))"
    using assms(1) \<open>distinct xs\<close> rest by (auto simp: distinct_map inj_on_def distinct_remove1)
  show "y \<in> set (remove1 x xs) \<Longrightarrow> fl_id y \<noteq> fl_id x"
    using assms rest by (auto simp: distinct_map inj_on_def)
qed

lemma template_step_keeps: "template_step D w v \<Longrightarrow> world_ok w \<Longrightarrow> world_ok v \<and> forward (tw_rows w) (tw_rows v)"
proof (induction rule: template_step.induct)
  case (creates w G db now i key components category seen)
  show ?case by (rule moves_keep [OF creates create_moves]) (use creates in \<open>auto simp: world_ok_def flights_ok_def\<close>)
next
  case (claims now m i category seen w c ts)
  let ?v = "\<lparr>tw_rows = ts, tw_flights = tw_flights w\<rparr>"
  have move: "sound_move (tw_rows w) ts" using claim_moves [of "tw_rows w" now m i category seen] claims.hyps by simp
  have v: "world_ok ?v \<and> forward (tw_rows w) (tw_rows ?v)"
    by (rule moves_keep [OF claims.prems move]) (use claims.prems in \<open>auto simp: world_ok_def flights_ok_def\<close>)
  note row = claim_row [OF claim_Inr [OF claims.hyps]]
  obtain t where t: "t \<in> set (tw_rows w)" "is_draft m i t" "c = claimed_for now category t" using row(1) by blast
  have names: "tp_id t = i" "tp_status t = status_draft" using t(2) by (simp_all add: is_draft_def owns_template_def)
  have "i \<notin> fl_id ` set (tw_flights w)"
  proof
    assume "i \<in> fl_id ` set (tw_flights w)"
    then obtain u where u: "u \<in> set (tw_rows w)" "tp_id u = i" "tp_status u \<noteq> status_draft"
      using claims.prems by (auto simp: world_ok_def flights_ok_def)
    have "u = t" using same_id [of "tw_rows w" u t] claims.prems u t(1) names by (simp add: world_ok_def)
    then show False using u(3) names by simp
  qed
  moreover have "tp_id c = i" "tp_status c \<noteq> status_draft" using t(3) names by (simp_all add: claimed_for_def)
  ultimately show ?case using v row(2) by (auto simp: world_ok_def flights_ok_def)
next
  case (settles x w answer G db now)
  let ?fs = "remove1 x (tw_flights w)" and ?m = "fl_merchant x" and ?i = "fl_id x" and ?c = "fl_category x"
  have dist: "distinct (map fl_id (tw_flights w))" using settles.prems by (simp add: world_ok_def flights_ok_def)
  note fewer = one_less [OF dist settles.hyps(1)]
  show ?case
  proof (cases answer)
    case (Inr st)
    have "sound_move (tw_rows w) (snd (submit_settles now ?m ?i ?c answer (tw_rows w)))"
      using record_moves [of st] settles.hyps(3) Inr by simp
    then show ?thesis by (rule moves_keep [OF settles.prems]) (use fewer in simp_all)
  next
    case (Inl e)
    let ?ts = "snd (release_submit_claim now ?m ?i (tw_rows w))"
    have ok: "templates_ok (tw_rows w)" using settles.prems by (simp add: world_ok_def)
    have "\<exists>t\<in>set ?ts. tp_id t = fl_id y \<and> tp_status t \<noteq> status_draft" if y: "y \<in> set ?fs" for y
    proof -
      obtain t where t: "t \<in> set (tw_rows w)" "tp_id t = fl_id y" "tp_status t \<noteq> status_draft"
        using settles.prems fewer(1) y by (auto simp: world_ok_def flights_ok_def)
      have "t \<in> set ?ts" using t(2) fewer(3) y by (intro release_keeps(3) [OF ok t(1)]) simp
      then show ?thesis using t(2,3) by blast
    qed
    then have "flights_ok \<lparr>tw_rows = ?ts, tw_flights = ?fs\<rparr>" using fewer(2) by (simp add: flights_ok_def)
    then show ?thesis using release_keeps(1,2) [OF ok, of now ?m ?i] Inl by (simp add: world_ok_def submit_settles_def)
  qed
next
  case (dies x w)
  have dist: "distinct (map fl_id (tw_flights w))" using dies.prems by (simp add: world_ok_def flights_ok_def)
  show ?case by (rule moves_keep [OF dies.prems sound_refl]) (use one_less [OF dist dies.hyps] in simp_all)
next
  case (edits w G db now m i components category seen)
  show ?case by (rule moves_keep [OF edits edit_moves]) (use edits in \<open>auto simp: world_ok_def flights_ok_def\<close>)
next
  case (retires w G db guard now m i seen)
  show ?case by (rule moves_keep [OF retires retire_moves]) (use retires in \<open>auto simp: world_ok_def flights_ok_def\<close>)
next
  case (hears ev G ins now seen w ts)
  show ?case by (rule moves_keep [OF hears.prems letter_moves [OF hears.hyps]])
      (use hears.prems in \<open>auto simp: world_ok_def flights_ok_def\<close>)
qed

lemma path_keeps: "template_path D w v \<Longrightarrow> world_ok w \<Longrightarrow> world_ok v \<and> forward (tw_rows w) (tw_rows v)"
proof (induction rule: template_path.induct)
  case (stays w)
  then show ?case using forward_refl by simp
next
  case (goes w v u)
  then have "world_ok v" "forward (tw_rows w) (tw_rows v)" by simp_all
  then show ?case using template_step_keeps [OF goes.hyps(2)] forward_trans by blast
qed

lemma start_ok: "world_ok no_templates"
  by (simp add: world_ok_def no_templates_def templates_ok_def one_owner_def flights_ok_def)

lemma later_row:
  assumes "template_path D no_templates w" "template_path D w w'" "t \<in> set (tw_rows w)"
  shows "templates_ok (tw_rows w')" "\<exists>t'\<in>set (tw_rows w'). later t t'"
proof -
  have "world_ok w" using path_keeps [OF assms(1) start_ok] by blast
  then have "world_ok w' \<and> forward (tw_rows w) (tw_rows w')" using path_keeps [OF assms(2)] by blast
  then show "templates_ok (tw_rows w')" "\<exists>t'\<in>set (tw_rows w'). later t t'"
    using assms(3) by (simp_all add: world_ok_def forward_def)
qed

lemma no_claim:
  assumes "templates_ok ts" "t \<in> set ts" "tp_status t \<noteq> status_draft"
  shows "\<exists>e. submit_claim now m (tp_id t) category seen ts = (Inl e, ts)"
proof -
  have "\<not> is_draft m (tp_id t) u" if "u \<in> set ts" for u
    using same_id [OF assms(1) that assms(2)] assms(3) by (auto simp: is_draft_def owns_template_def)
  then have "find (is_draft m (tp_id t)) ts = None" "map (\<lambda>u. if is_draft m (tp_id t) u then claimed_for now category u else u) ts = ts"
    by (auto simp: find_None_iff_set intro: map_idI)
  then have "claim_for_submit now m (tp_id t) category ts = (None, ts)"
    by (simp add: claim_for_submit_def rewrite_templates_def)
  then show ?thesis by (simp add: submit_claim_def split: option.split)
qed

section \<open>A template's life\<close>

definition shop_doors :: channel_db where
  "shop_doors = \<lparr>cd_bindings = [],
     cd_installations = [\<lparr>in_id = ''i1'', in_merchant = ''shop'', in_connector = ''whatsapp'', in_account = ''waba'',
        in_label = None, in_credential = Some ''c1'', in_status = ''healthy''\<rparr>],
     cd_templates = [], cd_vault = [\<lparr>cr_id = ''c1'', cr_active = True, cr_value = [(''system_user_token'', JStr ''secret'')]\<rparr>]\<rparr>"

definition willing :: graph where
  "willing q = Graph_body [(''id'', JStr ''p1''), (''status'', JStr ''APPROVED'')]"

definition greeting_key :: "string \<times> string \<times> string \<times> string \<times> string" where
  "greeting_key = (''shop'', ''whatsapp'', ''waba'', ''greeting'', ''en'')"

definition unnamed :: "time \<Rightarrow> string \<Rightarrow> string \<Rightarrow> string \<Rightarrow> (nat \<times> nat)" where
  "unnamed x m c n = (0, 0)"

definition drafted_rows :: "template_row list" where
  "drafted_rows = [new_draft 10 ''t1'' greeting_key [] None]"

definition claimed_rows :: "template_row list" where
  "claimed_rows = map (claimed_for 20 ''UTILITY'') drafted_rows"

definition approved_rows :: "template_row list" where
  "approved_rows = map (submitted_as 30 ''p1'' (Some ''UTILITY'') ''UTILITY'' template_approved) claimed_rows"

definition greeting_flight :: submit_flight where
  "greeting_flight = \<lparr>fl_merchant = ''shop'', fl_id = ''t1'', fl_category = ''UTILITY'', fl_row = hd claimed_rows\<rparr>"

lemma greeting_drafted: "create_draft willing shop_doors 10 ''t1'' greeting_key [] None [] [] = (Inr (hd drafted_rows), drafted_rows)"
  by code_simp

lemma greeting_claimed: "submit_claim 20 ''shop'' ''t1'' ''UTILITY'' drafted_rows drafted_rows = (Inr (hd claimed_rows), claimed_rows)"
  by code_simp

lemma greeting_asked: "submit_asks willing shop_doors ''shop'' ''UTILITY'' (hd claimed_rows)
   = Inr (no_state\<lparr>ps_id := Some ''p1'', ps_name := Some ''greeting'', ps_language := Some ''en'', ps_category := Some ''UTILITY'',
       ps_status := Some template_approved\<rparr>)"
  by code_simp

lemma greeting_approved: "submit_settles 30 ''shop'' ''t1'' ''UTILITY'' (submit_asks willing shop_doors ''shop'' ''UTILITY'' (hd claimed_rows)) claimed_rows
   = (Inr (hd approved_rows), approved_rows)"
  by code_simp

lemma greeting_retired: "retire willing shop_doors (Some (unnamed 0)) 40 ''shop'' ''t1'' approved_rows approved_rows
   = (Inr (retired_at 40 (hd approved_rows)), Some (Inr ()), map (retired_at 40) approved_rows)"
  by code_simp

definition in_the_air :: template_world where
  "in_the_air = \<lparr>tw_rows = claimed_rows, tw_flights = [greeting_flight]\<rparr>"

definition approved_world :: template_world where
  "approved_world = \<lparr>tw_rows = approved_rows, tw_flights = []\<rparr>"

definition retired_world :: template_world where
  "retired_world = \<lparr>tw_rows = map (retired_at 40) approved_rows, tw_flights = []\<rparr>"

lemma first_draft: "template_step D no_templates \<lparr>tw_rows = drafted_rows, tw_flights = []\<rparr>"
  using template_step.creates [of D no_templates willing shop_doors 10 "''t1''" greeting_key "[]" None "[]"] greeting_drafted
  by (simp add: no_templates_def)

lemma path_to_air: "template_path D no_templates in_the_air"
  using template_path.goes [OF template_path.goes [OF template_path.stays first_draft]
      template_step.claims [of 20 "''shop''" "''t1''" "''UTILITY''" drafted_rows "\<lparr>tw_rows = drafted_rows, tw_flights = []\<rparr>"]]
    greeting_claimed
  by (simp add: in_the_air_def greeting_flight_def)

lemma lands: "template_step D in_the_air approved_world"
  using template_step.settles [of greeting_flight in_the_air _ willing shop_doors D 30, OF _ refl] greeting_asked greeting_approved
  by (simp add: in_the_air_def greeting_flight_def approved_world_def foreign_answer_def or_text_def opt_text_def
      template_approved_def our_words_def status_draft_def status_submitting_def)

lemma path_to_approved: "template_path D no_templates approved_world"
  using path_to_air lands by (rule template_path.goes)

lemma withdrawn: "template_step D approved_world retired_world"
  using template_step.retires [of D approved_world willing shop_doors "Some (unnamed 0)" 40 "''shop''" "''t1''" approved_rows] greeting_retired
  by (simp add: approved_world_def retired_world_def)

lemma path_to_retired: "template_path D approved_world retired_world"
  using template_path.stays withdrawn by (rule template_path.goes)

lemma retired_path: "template_path D no_templates retired_world"
  using path_to_approved withdrawn by (rule template_path.goes)

section \<open>What the lifecycle promises\<close>

text \<open>
  C32 In every interleaving of creates, submits, edits, retirements, letters and deaths one
  submit of a template at most is at the provider, and while it is nobody else's submit of that template
  gets past its claim.
\<close>

theorem one_submit_at_a_time:
  assumes "template_path D no_templates w"
  shows "distinct (map fl_id (tw_flights w))
    \<and> (\<forall>x\<in>set (tw_flights w). \<exists>e. submit_claim now m (fl_id x) category seen (tw_rows w) = (Inl e, tw_rows w))"
proof -
  have ok: "world_ok w" using path_keeps [OF assms start_ok] by blast
  have "\<exists>e. submit_claim now m (fl_id x) category seen (tw_rows w) = (Inl e, tw_rows w)" if x: "x \<in> set (tw_flights w)" for x
  proof -
    obtain t where t: "t \<in> set (tw_rows w)" "tp_id t = fl_id x" "tp_status t \<noteq> status_draft"
      using ok x by (auto simp: world_ok_def flights_ok_def)
    show ?thesis using no_claim [OF _ t(1,3), of now m category seen] ok t(2) by (simp add: world_ok_def)
  qed
  then show ?thesis using ok by (simp add: world_ok_def flights_ok_def)
qed

theorem one_submit_at_a_time_witness:
  "distinct (map fl_id (tw_flights in_the_air))
   \<and> (\<exists>e. submit_claim 25 ''shop'' (fl_id greeting_flight) ''MARKETING'' drafted_rows (tw_rows in_the_air) = (Inl e, tw_rows in_the_air))"
  using one_submit_at_a_time [OF path_to_air, of 25 "''shop''" "''MARKETING''" drafted_rows]
  by (simp add: in_the_air_def)

text \<open>
  A template the provider has registered is never submitted again: whatever happens, its
  row keeps the provider's id, never becomes a draft or a claim again, and every later submit of it is
  refused without a change.
\<close>

theorem registered_once:
  assumes "template_path D no_templates w" and "template_path D w w'"
    and "t \<in> set (tw_rows w)" and "tp_provider t = Some p"
  shows "\<exists>t'\<in>set (tw_rows w'). tp_id t' = tp_id t \<and> tp_provider t' = Some p \<and> tp_status t' \<notin> our_words
    \<and> (\<exists>e. submit_claim now m (tp_id t) category seen (tw_rows w') = (Inl e, tw_rows w'))"
proof -
  have "templates_ok (tw_rows w)" using path_keeps [OF assms(1) start_ok] by (simp add: world_ok_def)
  then have t: "tp_status t \<notin> our_words" using assms(3,4) by (auto simp: templates_ok_def template_fits_def)
  obtain t' where t': "t' \<in> set (tw_rows w')" "later t t'" using later_row(2) [OF assms(1-3)] by blast
  then have same: "tp_id t' = tp_id t" "tp_provider t' = Some p" "tp_status t' \<notin> our_words"
    using assms(4) t by (simp_all add: later_def birth_def)
  then have "tp_status t' \<noteq> status_draft" by (auto simp: our_words_def)
  then show ?thesis using no_claim [OF later_row(1) [OF assms(1-3)] t'(1)] same t'(1) by auto
qed

theorem registered_once_witness:
  "\<exists>t'\<in>set (tw_rows retired_world). tp_id t' = tp_id (hd approved_rows) \<and> tp_provider t' = Some ''p1'' \<and> tp_status t' \<notin> our_words
    \<and> (\<exists>e. submit_claim 50 ''shop'' (tp_id (hd approved_rows)) ''UTILITY'' drafted_rows (tw_rows retired_world) = (Inl e, tw_rows retired_world))"
  by (rule registered_once [OF path_to_approved path_to_retired])
    (simp_all add: approved_world_def approved_rows_def claimed_rows_def drafted_rows_def submitted_as_def)

text \<open>
  C31 A retired template is a tombstone: no transition and no letter ever changes it again but
  for the clock of a second retirement, and its name cannot be drafted anew on its account.
\<close>

theorem retired_stays_retired:
  assumes "template_path D no_templates w" and "template_path D w w'"
    and "t \<in> set (tw_rows w)" and "tp_status t = status_deleted"
  shows "(\<exists>moment. t\<lparr>tp_status_at := moment\<rparr> \<in> set (tw_rows w'))
    \<and> (\<exists>e. create_draft G db now i (natural_key t) components category (tw_rows w') (tw_rows w') = (Inl e, tw_rows w'))"
proof -
  obtain t' where t': "t' \<in> set (tw_rows w')" "later t t'" using later_row(2) [OF assms(1-3)] by blast
  then have dead: "restamped t t'" using assms(4) by (simp add: later_def)
  then have gone: "t' = t\<lparr>tp_status_at := tp_status_at t'\<rparr>" by (simp add: restamped_def)
  have key: "natural_key t' = natural_key t" using t'(2) by (simp add: later_def birth_def)
  obtain u where u: "template_by_natural_key (natural_key t) (tw_rows w') = Some u"
    using t'(1) key find_None_iff_set [of "\<lambda>t'. natural_key t' = natural_key t" "tw_rows w'"]
    unfolding template_by_natural_key_def by (cases "find (\<lambda>t'. natural_key t' = natural_key t) (tw_rows w')") auto
  then have "u \<in> set (tw_rows w')" "natural_key u = natural_key t'"
    using key find_Some_set unfolding template_by_natural_key_def by fastforce+
  then have "u = t'" using later_row(1) [OF assms(1-3)] t'(1) by (auto simp: templates_ok_def distinct_map inj_on_def)
  then have "tp_status u \<noteq> status_draft" using restamped_status [OF dead] assms(4) by simp
  then have "\<exists>e. create_draft_in_txn now i (natural_key t) components category (tw_rows w') (tw_rows w') = (Inl e, tw_rows w')"
    using u by (simp add: create_draft_in_txn_def)
  then have "\<exists>e. create_draft G db now i (natural_key t) components category (tw_rows w') (tw_rows w') = (Inl e, tw_rows w')"
    by (auto simp: create_draft_def split: prod.splits sum.splits)
  moreover have "t\<lparr>tp_status_at := tp_status_at t'\<rparr> \<in> set (tw_rows w')" unfolding gone [symmetric] by (rule t'(1))
  ultimately show ?thesis by blast
qed

theorem retired_stays_retired_witness:
  "(\<exists>moment. (retired_at 40 (hd approved_rows))\<lparr>tp_status_at := moment\<rparr> \<in> set (tw_rows retired_world))
   \<and> (\<exists>e. create_draft willing shop_doors 60 ''t2'' (natural_key (retired_at 40 (hd approved_rows))) [] None (tw_rows retired_world) (tw_rows retired_world)
          = (Inl e, tw_rows retired_world))"
  by (rule retired_stays_retired [OF retired_path template_path.stays])
    (simp_all add: retired_world_def approved_rows_def claimed_rows_def drafted_rows_def retired_at_def)

end
