(* ===== verification/Template_Letters.thy ===== *)
theory Template_Letters
  imports Lifecycle_Laws
begin

text \<open>
  What the letters about one template settle at.  A provider promises no order, so each topic keeps
  the time of the letter it last applied and refuses an older one; the tolerance for the difference of
  two clocks makes that a reference only for decisions that are further apart than it.
\<close>

section \<open>A stamped column\<close>

type_synonym 'v column = "time option \<times> 'v"

definition offered :: "int \<Rightarrow> 'v column \<Rightarrow> time \<times> 'v \<Rightarrow> 'v column" where
  "offered skew c d = (if not_older_than skew (fst c) (Some (fst d)) then (Some (fst d), snd d) else c)"

text \<open>What was decided: the column's own stamp and the decisions offered to it.\<close>

definition decided :: "'v column \<Rightarrow> (time \<times> 'v) list \<Rightarrow> (time \<times> 'v) list" where
  "decided c ds = (case fst c of None \<Rightarrow> ds | Some x \<Rightarrow> (x, snd c) # ds)"

text \<open>Two decisions are one, or further apart than the tolerance and the second it is compared at.\<close>

definition spaced :: "int \<Rightarrow> (time \<times> 'v) list \<Rightarrow> bool" where
  "spaced skew ds \<longleftrightarrow> (\<forall>a\<in>set ds. \<forall>b\<in>set ds. a = b \<or> (skew + 1) * second_us \<le> \<bar>fst a - fst b\<bar>)"

definition stands_latest :: "(time \<times> 'v) list \<Rightarrow> 'v column \<Rightarrow> 'v column \<Rightarrow> bool" where
  "stands_latest ds c c' \<longleftrightarrow> (ds = [] \<and> c' = c) \<or> (\<exists>d\<in>set ds. c' = (Some (fst d), snd d) \<and> (\<forall>e\<in>set ds. fst e \<le> fst d))"

lemma whole_second_bounds: "whole_second t \<le> t" "t - second_us < whole_second t"
  by (simp_all add: whole_second_def second_us_def minus_mod_eq_div_mult [symmetric])

lemma guard_is_order:
  assumes "0 \<le> skew" and "x = t \<or> (skew + 1) * second_us \<le> \<bar>x - t\<bar>"
  shows "whole_second x \<le> t + skew * second_us \<longleftrightarrow> x \<le> t"
proof -
  have "0 \<le> skew * second_us" using assms(1) by (simp add: second_us_def)
  moreover have "(skew + 1) * second_us = skew * second_us + second_us" by (simp add: distrib_right)
  ultimately show ?thesis using assms(2) whole_second_bounds [of x] by (auto simp: abs_if split: if_splits)
qed

lemma offered_latest:
  assumes "0 \<le> skew" and "spaced skew (decided c (d # ds))"
  shows "spaced skew (decided (offered skew c d) ds)"
    and "set (decided (offered skew c d) ds) \<subseteq> set (decided c (d # ds))"
    and "\<forall>e\<in>set (decided c (d # ds)). \<exists>f\<in>set (decided (offered skew c d) ds). fst e \<le> fst f"
proof -
  have order: "not_older_than skew (fst c) (Some (fst d)) \<longleftrightarrow> (case fst c of None \<Rightarrow> True | Some x \<Rightarrow> x \<le> fst d)"
  proof (cases "fst c")
    case (Some x)
    then have "(x, snd c) = d \<or> (skew + 1) * second_us \<le> \<bar>x - fst d\<bar>"
      using assms(2) by (simp add: spaced_def decided_def)
    then have "x = fst d \<or> (skew + 1) * second_us \<le> \<bar>x - fst d\<bar>" by auto
    then show ?thesis using guard_is_order [OF assms(1)] Some by (simp add: not_older_than_def)
  qed (simp add: not_older_than_def)
  show sub: "set (decided (offered skew c d) ds) \<subseteq> set (decided c (d # ds))"
    by (auto simp: decided_def offered_def split: option.splits)
  show "spaced skew (decided (offered skew c d) ds)"
    using assms(2) sub unfolding spaced_def by blast
  show "\<forall>e\<in>set (decided c (d # ds)). \<exists>f\<in>set (decided (offered skew c d) ds). fst e \<le> fst f"
    using order by (auto simp: decided_def offered_def split: option.splits)
qed

lemma column_settles:
  assumes "0 \<le> skew" and "spaced skew (decided c ds)"
  shows "stands_latest (decided c ds) c (foldl (offered skew) c ds)"
  using assms(2)
proof (induction ds arbitrary: c)
  case Nil
  then show ?case by (cases c) (auto simp: stands_latest_def decided_def split: option.split)
next
  case (Cons d ds)
  note one = offered_latest [OF assms(1) Cons.prems]
  have ih: "stands_latest (decided (offered skew c d) ds) (offered skew c d) (foldl (offered skew) c (d # ds))"
    using Cons.IH [OF one(1)] by simp
  have "decided (offered skew c d) ds \<noteq> []" using one(3) by (auto simp: decided_def split: option.splits)
  then obtain f where f: "f \<in> set (decided (offered skew c d) ds)" "foldl (offered skew) c (d # ds) = (Some (fst f), snd f)"
      "\<forall>e\<in>set (decided (offered skew c d) ds). fst e \<le> fst f"
    using ih by (auto simp: stands_latest_def)
  have "fst e \<le> fst f" if "e \<in> set (decided c (d # ds))" for e
    using one(3) that f(3) by (meson order_trans)
  then show ?case using f(1,2) one(2) unfolding stands_latest_def by blast
qed

section \<open>A letter on its row\<close>

definition status_column :: "template_row \<Rightarrow> (string \<times> string option) column" where
  "status_column t = (Some (tp_status_at t), (tp_status t, tp_rejection t))"

definition category_column :: "template_row \<Rightarrow> string option column" where
  "category_column t = (tp_category_at t, tp_category t)"

definition quality_column :: "template_row \<Rightarrow> string column" where
  "quality_column t = (tp_quality_at t, tp_quality t)"

definition letter_state :: "letter \<Rightarrow> provider_template" where
  "letter_state ev = (case whatsapp_normalize (ev_topic ev) (ev_payload ev) of Inr (Some st) \<Rightarrow> st | _ \<Rightarrow> no_state)"

text \<open>A letter of the row's merchant that tells a decision on its template, short of its
  deletion and in a word that is not ours, with its time.\<close>

definition decides :: "template_row \<Rightarrow> string \<Rightarrow> letter \<Rightarrow> bool" where
  "decides t p ev \<longleftrightarrow> ev_merchant ev = tp_merchant t \<and> ev_source ev = ''whatsapp'' \<and> ev_occurred ev \<noteq> None
     \<and> whatsapp_normalize (ev_topic ev) (ev_payload ev) = Inr (Some (letter_state ev)) \<and> ps_id (letter_state ev) = Some p
     \<and> (if ev_topic ev = topic_template_status
        then opt_text (ps_status (letter_state ev)) \<and> the (ps_status (letter_state ev)) \<notin> insert status_deleted our_words
        else if ev_topic ev = topic_template_category then opt_text (ps_category (letter_state ev))
        else ev_topic ev = topic_template_quality \<and> opt_text (ps_quality (letter_state ev)))"

definition status_decisions :: "letter list \<Rightarrow> (time \<times> string \<times> string option) list" where
  "status_decisions evs = map (\<lambda>ev. (the (ev_occurred ev), the (ps_status (letter_state ev)), ps_rejection (letter_state ev)))
     (filter (\<lambda>ev. ev_topic ev = topic_template_status) evs)"

definition category_decisions :: "letter list \<Rightarrow> (time \<times> string option) list" where
  "category_decisions evs = map (\<lambda>ev. (the (ev_occurred ev), ps_category (letter_state ev)))
     (filter (\<lambda>ev. ev_topic ev = topic_template_category) evs)"

definition quality_decisions :: "letter list \<Rightarrow> (time \<times> string) list" where
  "quality_decisions evs = map (\<lambda>ev. (the (ev_occurred ev), the (ps_quality (letter_state ev))))
     (filter (\<lambda>ev. ev_topic ev = topic_template_quality) evs)"

text \<open>What one letter makes of the row.\<close>

definition told :: "int \<Rightarrow> letter \<Rightarrow> template_row \<Rightarrow> template_row" where
  "told skew ev t = (let st = letter_state ev; occurred = ev_occurred ev in
     if ev_topic ev = topic_template_status
     then (if not_older_than skew (Some (tp_status_at t)) occurred then status_given (the (ps_status st)) occurred (ps_rejection st) t else t)
     else if ev_topic ev = topic_template_category
     then (if not_older_than skew (tp_category_at t) occurred then category_given (the (ps_category st)) occurred t else t)
     else (if not_older_than skew (tp_quality_at t) occurred then quality_given (the (ps_quality st)) occurred t else t))"

lemma topics_differ [simp]:
  "topic_template_status \<noteq> topic_template_category" "topic_template_category \<noteq> topic_template_status"
  "topic_template_status \<noteq> topic_template_quality" "topic_template_quality \<noteq> topic_template_status"
  "topic_template_category \<noteq> topic_template_quality" "topic_template_quality \<noteq> topic_template_category"
  by (simp_all add: topic_template_status_def topic_template_category_def topic_template_quality_def)

lemma told_keeps: "birth (told skew ev t) = birth t" "tp_provider (told skew ev t) = tp_provider t"
    "tp_components (told skew ev t) = tp_components t" "tp_submitted_category (told skew ev t) = tp_submitted_category t"
  by (auto simp: told_def Let_def status_given_def category_given_def quality_given_def birth_def natural_key_def)

lemma told_columns:
  assumes "decides u p ev"
  shows "status_column (told skew ev t) = foldl (offered skew) (status_column t) (status_decisions [ev])"
    and "category_column (told skew ev t) = foldl (offered skew) (category_column t) (category_decisions [ev])"
    and "quality_column (told skew ev t) = foldl (offered skew) (quality_column t) (quality_decisions [ev])"
  using assms
  by (auto simp: told_def Let_def decides_def status_column_def category_column_def quality_column_def offered_def
      status_decisions_def category_decisions_def quality_decisions_def status_given_def category_given_def quality_given_def opt_text_def
      split: if_splits option.splits)

text \<open>The table after a letter: the row told, the others as they were.\<close>

definition row_told :: "int \<Rightarrow> letter \<Rightarrow> string \<Rightarrow> template_row list \<Rightarrow> template_row list" where
  "row_told skew ev i ts = map (\<lambda>u. if tp_id u = i then told skew ev u else u) ts"

lemma whatsapp_source: "\<exists>s. connector_for_source G ''whatsapp'' = Some s \<and> sp_templates s = Some (whatsapp_templates G)"
  by (simp add: connector_for_source_def connectors_def)

lemma found_by_provider:
  assumes "templates_ok ts" "t \<in> set ts" "tp_provider t = Some p"
  shows "template_by_provider_id (tp_merchant t) p ts = Some t"
proof -
  obtain u where u: "template_by_provider_id (tp_merchant t) p ts = Some u"
    using assms(2,3) find_None_iff_set [of "\<lambda>u. tp_merchant u = tp_merchant t \<and> tp_provider u = Some p" ts]
    unfolding template_by_provider_id_def by (cases "find (\<lambda>u. tp_merchant u = tp_merchant t \<and> tp_provider u = Some p) ts") auto
  then have mem: "u \<in> set ts" "tp_provider u = Some p"
    using find_Some_set unfolding template_by_provider_id_def by fastforce+
  have "u = t" by (rule same_id [OF assms(1) mem(1) assms(2)]) (use owners [OF assms(1) mem(1) assms(2)] mem(2) assms(3) in simp)
  then show ?thesis using u by simp
qed

lemma one_row:
  assumes "templates_ok ts" "t \<in> set ts" "u \<in> set ts"
  shows "open_to_letters (tp_merchant t) (tp_id t) (tp_account t) u \<longleftrightarrow> u = t \<and> tp_status t \<noteq> status_deleted"
  using same_id [OF assms(1,3,2)] by (auto simp: open_to_letters_def owns_template_def)

lemma rewrite_told:
  assumes "templates_ok ts" "t \<in> set ts"
    and "\<And>u. u \<in> set ts \<Longrightarrow> (if P u then f u else u) = (if u = t then told skew ev t else u)"
  shows "snd (rewrite_templates P f ts) = row_told skew ev (tp_id t) ts"
proof -
  have "(if P u then f u else u) = (if tp_id u = tp_id t then told skew ev u else u)" if "u \<in> set ts" for u
    using assms(3) [OF that] same_id [OF assms(1) that assms(2)] by auto
  then show ?thesis by (simp add: rewrite_templates_def row_told_def)
qed

lemma letter_tells:
  assumes ok: "templates_ok ts" and t: "t \<in> set ts" "tp_provider t = Some p" "p \<noteq> []" "tp_status t \<noteq> status_deleted"
    and ev: "decides t p ev"
  shows "consume_template_event D G ins now ev ts ts = Some (row_told (dl_skew D) ev (tp_id t) ts)"
proof -
  have topic: "ev_topic ev \<in> set template_topics" using ev by (auto simp: decides_def template_topics_def split: if_splits)
  have m: "ev_merchant ev = tp_merchant t" and src: "ev_source ev = ''whatsapp''" and i: "ps_id (letter_state ev) = Some p"
    and norm: "whatsapp_normalize (ev_topic ev) (ev_payload ev) = Inr (Some (letter_state ev))"
    using ev by (simp_all add: decides_def)
  obtain s where s: "connector_for_source G ''whatsapp'' = Some s" "sp_templates s = Some (whatsapp_templates G)"
    using whatsapp_source by blast
  have "consume_template_event D G ins now ev ts ts = Some (snd (apply_letter (dl_skew D) ev t (letter_state ev) ts))"
    using topic m i s norm t(3) found_by_provider [OF ok t(1,2)] src
    by (simp add: consume_template_event_def whatsapp_templates_def opt_text_def)
  moreover have "snd (apply_letter (dl_skew D) ev t (letter_state ev) ts) = row_told (dl_skew D) ev (tp_id t) ts"
  proof -
    consider "ev_topic ev = topic_template_status" "opt_text (ps_status (letter_state ev))"
      | "ev_topic ev = topic_template_category" "opt_text (ps_category (letter_state ev))"
      | "ev_topic ev = topic_template_quality" "opt_text (ps_quality (letter_state ev))"
      using ev by (auto simp: decides_def split: if_splits)
    then show ?thesis
    proof cases
      case 1
      show ?thesis unfolding apply_letter_def apply_status_event_def
        by (simp add: 1, rule rewrite_told [OF ok t(1)]) (use one_row [OF ok t(1)] t(4) m 1 in \<open>simp add: told_def Let_def\<close>)
    next
      case 2
      show ?thesis unfolding apply_letter_def apply_category_event_def
        by (simp add: 2, rule rewrite_told [OF ok t(1)]) (use one_row [OF ok t(1)] t(4) m 2 in \<open>simp add: told_def Let_def\<close>)
    next
      case 3
      show ?thesis unfolding apply_letter_def apply_quality_event_def
        by (simp add: 3, rule rewrite_told [OF ok t(1)]) (use one_row [OF ok t(1)] t(4) m 3 in \<open>simp add: told_def Let_def\<close>)
    qed
  qed
  ultimately show ?thesis by simp
qed

section \<open>A stream of letters\<close>

fun hear_letters ::
    "template_dials \<Rightarrow> graph \<Rightarrow> installation list \<Rightarrow> (time \<times> letter) list \<Rightarrow> template_row list \<Rightarrow> template_row list option" where
  "hear_letters D G ins [] ts = Some ts"
| "hear_letters D G ins ((now, ev) # rest) ts = (case consume_template_event D G ins now ev ts ts of
     None \<Rightarrow> None | Some ts' \<Rightarrow> hear_letters D G ins rest ts')"

definition told_all :: "int \<Rightarrow> letter list \<Rightarrow> template_row \<Rightarrow> template_row" where
  "told_all skew evs t = foldl (\<lambda>u ev. told skew ev u) t evs"

lemma row_told_ok:
  assumes "templates_ok ts" "t \<in> set ts" "tp_provider t = Some p" "p \<noteq> []" "tp_status t \<noteq> status_deleted" "decides t p ev"
  shows "templates_ok (row_told skew ev (tp_id t) ts)"
proof -
  let ?D = "\<lparr>dl_skew = skew, dl_crashed = 0\<rparr>"
  have "consume_template_event ?D G [] 0 ev ts ts = Some (row_told skew ev (tp_id t) ts)" for G
    using letter_tells [OF assms, of ?D] by simp
  then have row: "consume_template_event ?D (\<lambda>q. Graph_breaks) [] 0 ev ts ts = Some (row_told skew ev (tp_id t) ts)" by blast
  have "foreign_letter ev \<or> ev_topic ev \<noteq> topic_template_status"
    using assms(6) normalized_status [of "ev_topic ev" "ev_payload ev" "letter_state ev"]
    by (auto simp: decides_def foreign_letter_def)
  then have "sound_move ts (row_told skew ev (tp_id t) ts)"
  proof
    assume "foreign_letter ev"
    then show ?thesis by (rule letter_moves [OF _ row])
  next
    assume other: "ev_topic ev \<noteq> topic_template_status"
    from consume_cases [OF row] show ?thesis
    proof (elim disjE exE conjE)
      assume "row_told skew ev (tp_id t) ts = ts" then show ?thesis using sound_refl by simp
    next
      fix s st assume "resume_crashed_submit (dl_crashed ?D) [] 0 ev s st ts ts = Some (row_told skew ev (tp_id t) ts)"
      then have "row_told skew ev (tp_id t) ts = ts" using other by (simp add: resume_crashed_submit_def)
      then show ?thesis using sound_refl by simp
    next
      fix st u assume "row_told skew ev (tp_id t) ts = snd (apply_letter (dl_skew ?D) ev u st ts)"
      then show ?thesis using apply_moves [of ev st] other by simp
    qed
  qed
  then show ?thesis using assms(1) by (simp add: sound_move_def)
qed

lemma told_alive: "decides u p ev \<Longrightarrow> tp_status t \<noteq> status_deleted \<Longrightarrow> tp_status (told skew ev t) \<noteq> status_deleted"
  by (auto simp: told_def Let_def decides_def status_given_def category_given_def quality_given_def split: if_splits)

lemma told_id: "tp_id (told skew ev t) = tp_id t" "tp_merchant (told skew ev t) = tp_merchant t"
  using told_keeps(1) [of skew ev t] by (simp_all add: birth_def natural_key_def)

lemma letters_told:
  assumes "templates_ok ts" "t \<in> set ts" "tp_provider t = Some p" "p \<noteq> []" "tp_status t \<noteq> status_deleted"
    and "\<forall>ev\<in>snd ` set evs. decides t p ev"
  shows "hear_letters D G ins evs ts
    = Some (map (\<lambda>u. if tp_id u = tp_id t then told_all (dl_skew D) (map snd evs) u else u) ts)"
  using assms
proof (induction evs arbitrary: t ts)
  case Nil
  then show ?case by (auto simp: told_all_def intro!: map_idI [symmetric])
next
  case (Cons x evs)
  obtain now ev where x: "x = (now, ev)" by (cases x)
  let ?t = "told (dl_skew D) ev t" and ?ts = "row_told (dl_skew D) ev (tp_id t) ts"
  have ev: "decides t p ev" and rest: "\<forall>ev\<in>snd ` set evs. decides t p ev" using Cons.prems(6) x by auto
  have "decides ?t p ev'" if "decides t p ev'" for ev' using that unfolding decides_def told_id .
  then have rest': "\<forall>ev\<in>snd ` set evs. decides ?t p ev" using rest by blast
  have "?t \<in> set ?ts" using Cons.prems(2) by (force simp: row_told_def)
  then have "hear_letters D G ins evs ?ts
      = Some (map (\<lambda>u. if tp_id u = tp_id ?t then told_all (dl_skew D) (map snd evs) u else u) ?ts)"
    by (intro Cons.IH row_told_ok [OF Cons.prems(1-5) ev] rest' told_alive [OF ev Cons.prems(5)] Cons.prems(4))
      (simp_all add: told_keeps Cons.prems(3))
  also have "map (\<lambda>u. if tp_id u = tp_id ?t then told_all (dl_skew D) (map snd evs) u else u) ?ts
      = map (\<lambda>u. if tp_id u = tp_id t then told_all (dl_skew D) (map snd (x # evs)) u else u) ts"
    by (auto simp: row_told_def told_id told_all_def x)
  finally show ?case using letter_tells [OF Cons.prems(1-5) ev] by (simp add: x)
qed

lemma decisions_Cons:
  "status_decisions (ev # evs) = status_decisions [ev] @ status_decisions evs"
  "category_decisions (ev # evs) = category_decisions [ev] @ category_decisions evs"
  "quality_decisions (ev # evs) = quality_decisions [ev] @ quality_decisions evs"
  by (simp_all add: status_decisions_def category_decisions_def quality_decisions_def)

lemma told_all_columns:
  assumes "\<forall>ev\<in>set evs. decides t p ev"
  shows "status_column (told_all skew evs u) = foldl (offered skew) (status_column u) (status_decisions evs)"
    and "category_column (told_all skew evs u) = foldl (offered skew) (category_column u) (category_decisions evs)"
    and "quality_column (told_all skew evs u) = foldl (offered skew) (quality_column u) (quality_decisions evs)"
  using assms
proof (induction evs arbitrary: u)
  case Nil
  {
    case 1 show ?case by (simp add: told_all_def status_decisions_def)
  next
    case 2 show ?case by (simp add: told_all_def category_decisions_def)
  next
    case 3 show ?case by (simp add: told_all_def quality_decisions_def)
  }
next
  case (Cons ev evs)
  have step: "told_all skew (ev # evs) u = told_all skew evs (told skew ev u)" for u by (simp add: told_all_def)
  {
    case 1
    then show ?case using Cons.IH(1) [of "told skew ev u"] told_columns(1) [of t p ev]
      by (subst decisions_Cons) (simp add: step)
  next
    case 2
    then show ?case using Cons.IH(2) [of "told skew ev u"] told_columns(2) [of t p ev]
      by (subst decisions_Cons) (simp add: step)
  next
    case 3
    then show ?case using Cons.IH(3) [of "told skew ev u"] told_columns(3) [of t p ev]
      by (subst decisions_Cons) (simp add: step)
  }
qed

lemma told_all_keeps: "birth (told_all skew evs t) = birth t \<and> tp_provider (told_all skew evs t) = tp_provider t
    \<and> tp_components (told_all skew evs t) = tp_components t \<and> tp_submitted_category (told_all skew evs t) = tp_submitted_category t"
  by (induction evs arbitrary: t) (simp_all add: told_all_def told_keeps)


definition greeting_letter :: "string \<Rightarrow> string \<Rightarrow> string \<Rightarrow> time option \<Rightarrow> letter" where
  "greeting_letter topic key word occurred = \<lparr>ev_id = ''e'', ev_merchant = ''shop'', ev_source = ''whatsapp'', ev_topic = topic,
     ev_payload = [(''message_template_id'', JStr ''p1''), (''message_template_name'', JStr ''greeting''),
                   (''message_template_language'', JStr ''en''), (key, JStr word)],
     ev_received = 300000000, ev_occurred = occurred, ev_customer = None\<rparr>"

definition greeting_news :: "(time \<times> letter) list" where
  "greeting_news =
     [(0, greeting_letter topic_template_status ''event'' ''PAUSED'' (Some 200000000)),
      (1, greeting_letter topic_template_status ''event'' ''APPROVED'' (Some 100000000)),
      (2, greeting_letter topic_template_category ''new_category'' ''MARKETING'' (Some 150000000)),
      (3, greeting_letter topic_template_status ''event'' ''PAUSED'' (Some 200000000)),
      (4, greeting_letter topic_template_quality ''new_quality_score'' ''RED'' (Some 90000000))]"

definition ten_seconds :: template_dials where
  "ten_seconds = \<lparr>dl_skew = 10, dl_crashed = 300\<rparr>"

lemma greeting_news_decide: "list_all (\<lambda>ev. decides (hd approved_rows) ''p1'' ev) (map snd greeting_news)"
  by code_simp

lemma greeting_news_spaced:
  "spaced 10 (decided (status_column (hd approved_rows)) (status_decisions (map snd greeting_news)))"
  "spaced 10 (decided (category_column (hd approved_rows)) (category_decisions (map snd greeting_news)))"
  "spaced 10 (decided (quality_column (hd approved_rows)) (quality_decisions (map snd greeting_news)))"
  by code_simp+

lemma approved_rows_ok: "templates_ok approved_rows" "hd approved_rows \<in> set approved_rows"
    "tp_provider (hd approved_rows) = Some ''p1''" "tp_status (hd approved_rows) = template_approved"
  by (simp_all add: approved_rows_def claimed_rows_def drafted_rows_def submitted_as_def templates_ok_def one_owner_def template_fits_def
      our_words_def)


end
