(* ===== verification/Template_Gaps.thy ===== *)
theory Template_Gaps
  imports Template_Letters
begin

text \<open>
  Where the registry of templates is left behind by its provider: an answer that was lost, a letter
  that is faster than the transition it answers, a retirement in the middle of a submit, and a letter
  without a clock.
\<close>

section \<open>Letters nobody hears\<close>

lemma unheard:
  assumes "ev_source ev = ''whatsapp''" and "whatsapp_normalize (ev_topic ev) (ev_payload ev) = Inr (Some st)"
    and "ps_id st = Some p" and "template_by_provider_id (ev_merchant ev) p ts = None"
    and "stale_submit_claims (dl_crashed D) now (ev_merchant ev) ''whatsapp'' (the (ps_name st)) (the (ps_language st)) ts = []"
  shows "consume_template_event D G ins now ev ts ts = Some ts"
proof -
  obtain s where s: "connector_for_source G ''whatsapp'' = Some s" "sp_templates s = Some (whatsapp_templates G)"
    using whatsapp_source by blast
  then have "sp_channel s = Some ''whatsapp''" using connector_of_source by blast
  then have "resume_crashed_submit (dl_crashed D) ins now ev s st ts ts = Some ts"
    using assms(5) by (simp add: resume_crashed_submit_def)
  then show ?thesis
    using assms(1-4) s by (simp add: consume_template_event_def whatsapp_templates_def)
qed

text \<open>The only row under its name, and it holds no claim.\<close>

definition alone :: "template_row \<Rightarrow> template_row list \<Rightarrow> bool" where
  "alone t ts \<longleftrightarrow> (\<forall>u\<in>set ts. is_template (tp_merchant t) (tp_channel t) (tp_name t) u \<and> tp_language u = tp_language t \<longrightarrow> u = t)"

definition names_row :: "template_row \<Rightarrow> string \<Rightarrow> letter \<Rightarrow> bool" where
  "names_row t p ev \<longleftrightarrow> ev_source ev = ''whatsapp'' \<and> ev_merchant ev = tp_merchant t
     \<and> whatsapp_normalize (ev_topic ev) (ev_payload ev) = Inr (Some (letter_state ev))
     \<and> ps_id (letter_state ev) = Some p \<and> ps_name (letter_state ev) = Some (tp_name t) \<and> ps_language (letter_state ev) = Some (tp_language t)"

lemma no_stale_claim:
  assumes "alone t ts" "tp_channel t = ''whatsapp''" "\<not> is_stale_claim crashed now t"
  shows "stale_submit_claims crashed now (tp_merchant t) ''whatsapp'' (tp_name t) (tp_language t) ts = []"
  using assms by (auto simp: stale_submit_claims_def filter_empty_conv alone_def)

lemma unheard_row:
  assumes "alone t ts" "tp_channel t = ''whatsapp''" "\<not> is_stale_claim (dl_crashed D) now t" "names_row t p ev"
    and "template_by_provider_id (tp_merchant t) p ts = None"
  shows "consume_template_event D G ins now ev ts ts = Some ts"
  using assms by (intro unheard [of ev "letter_state ev" p]) (simp_all add: names_row_def no_stale_claim)

lemma one_rewritten:
  assumes "templates_ok ts" "t \<in> set ts" "P t" and "\<And>u. u \<in> set ts \<Longrightarrow> P u \<Longrightarrow> tp_id u = tp_id t"
  shows "rewrite_templates P f ts = (Some (f t), map (\<lambda>u. if u = t then f t else u) ts)"
proof -
  have only: "P u \<longleftrightarrow> u = t" if "u \<in> set ts" for u
    using same_id [OF assms(1) that assms(2)] assms(3,4) that by blast
  obtain u where u: "find P ts = Some u"
    using assms(2,3) find_None_iff_set [of P ts] by (cases "find P ts") auto
  then have "u = t" using find_Some_set only by fastforce
  moreover have "map (\<lambda>u. if P u then f u else u) ts = map (\<lambda>u. if u = t then f t else u) ts"
    using only by (intro map_cong) auto
  ultimately show ?thesis using u by (simp add: rewrite_templates_def)
qed

lemma unprovided:
  assumes "template_by_provider_id m p ts = None" and "tp_provider t' \<noteq> Some p"
  shows "template_by_provider_id m p (map (\<lambda>u. if u = t then t' else u) ts) = None"
proof -
  have "\<not> (tp_merchant u = m \<and> tp_provider u = Some p)" if "u \<in> set ts" for u
    using assms(1) that unfolding template_by_provider_id_def find_None_iff_set by blast
  then show ?thesis unfolding template_by_provider_id_def find_None_iff_set using assms(2) by auto
qed

section \<open>An answer that is lost\<close>

lemma released_alone:
  assumes "templates_ok ts" "t \<in> set ts" "alone t ts" "birth t' = birth t"
  shows "alone t' (map (\<lambda>u. if u = t then t' else u) ts)"
proof -
  have "is_template (tp_merchant t) (tp_channel t) (tp_name t) t' \<longleftrightarrow> True" "tp_language t' = tp_language t" "tp_merchant t' = tp_merchant t"
    "tp_channel t' = tp_channel t" "tp_name t' = tp_name t"
    using assms(4) by (simp_all add: birth_def natural_key_def is_template_def)
  then show ?thesis using assms(3) by (auto simp: alone_def)
qed

text \<open>
  When the request of a submit ends in an error (no answer in time is one), the claim is released and
  the row is a draft; if the provider took the template nonetheless, no letter about it is ever heard:
  its id is on no row, and only a row still claimed is resumed.
\<close>

theorem lost_answer_is_never_repaired:
  assumes "templates_ok ts" "t \<in> set ts" "is_claim m (tp_id t) t" "alone t ts" "tp_channel t = ''whatsapp''"
    and "submit_asks G db m category t = Inl e"
    and "template_by_provider_id m p ts = None" and "names_row t p ev"
  shows "\<exists>ts'. submit_settles now m (tp_id t) category (submit_asks G db m category t) ts = (Inl e, ts')
     \<and> released now t \<in> set ts' \<and> tp_status (released now t) = status_draft
     \<and> consume_template_event D G' ins after ev ts' ts' = Some ts'"
proof -
  let ?t = "released now t" and ?ts = "map (\<lambda>u. if u = t then released now t else u) ts"
  have m: "tp_merchant t = m" and st: "tp_status t = status_submitting" using assms(3) by (simp_all add: is_claim_def owns_template_def)
  have none: "tp_provider t = None" using assms(1,2) st by (auto simp: templates_ok_def template_fits_def our_words_def)
  have "rewrite_templates (\<lambda>u. is_claim m (tp_id t) u \<and> tp_provider u = None) (released now) ts = (Some ?t, ?ts)"
    using assms(3) none by (intro one_rewritten [OF assms(1,2)]) (auto simp: is_claim_def owns_template_def)
  then have out: "submit_settles now m (tp_id t) category (submit_asks G db m category t) ts = (Inl e, ?ts)"
    by (simp add: submit_settles_def release_submit_claim_def assms(6))
  have mem: "?t \<in> set ?ts" using assms(2) by (auto intro!: image_eqI [of _ _ t])
  have same: "tp_merchant ?t = tp_merchant t" "tp_name ?t = tp_name t" "tp_language ?t = tp_language t" "tp_channel ?t = ''whatsapp''" "birth ?t = birth t"
    using assms(5) by (simp_all add: released_def birth_def natural_key_def)
  have "template_by_provider_id (tp_merchant ?t) p ?ts = None"
    unfolding same(1) m by (rule unprovided [OF assms(7)]) (use none in \<open>simp_all add: released_def\<close>)
  moreover have "names_row ?t p ev" using assms(8) same by (simp add: names_row_def)
  moreover have "\<not> is_stale_claim (dl_crashed D) after ?t" by (simp add: is_stale_claim_def released_def)
  ultimately have "consume_template_event D G' ins after ev ?ts ?ts = Some ?ts"
    using unheard_row [OF released_alone [OF assms(1,2,4) same(5)] same(4)] by simp
  then show ?thesis using out mem by (auto simp: released_def)
qed

section \<open>A letter faster than what it answers\<close>

text \<open>
  A decision that is heard between the provider's answer to a submit and its recording names an id no
  row carries and a claim too young to have crashed: it changes nothing, and the submit then records the
  word the provider answered before it decided.
\<close>

theorem letter_ahead_of_its_submit_is_dropped:
  assumes "templates_ok ts" "t \<in> set ts" "is_claim m (tp_id t) t" "alone t ts" "tp_channel t = ''whatsapp''"
    and "\<not> is_stale_claim (dl_crashed D) heard t" and "template_by_provider_id m p ts = None" and "names_row t p ev"
    and "list_all (\<lambda>u. tp_provider u \<noteq> Some p) ts"
    and "ps_id st = Some p" "p \<noteq> []" "ps_status st = Some status_pending"
  shows "consume_template_event D G ins heard ev ts ts = Some ts
    \<and> (\<exists>t' ts'. submit_settles now m (tp_id t) category (Inr st) ts = (Inr t', ts') \<and> t' \<in> set ts'
         \<and> tp_status t' = status_pending \<and> tp_status_at t' = now)"
proof -
  have m: "tp_merchant t = m" using assms(3) by (simp add: is_claim_def owns_template_def)
  have "consume_template_event D G ins heard ev ts ts = Some ts"
    using unheard_row [OF assms(4,5,6,8)] assms(7) m by simp
  moreover
  let ?f = "submitted_as now p (ps_category st) category status_pending"
  have word: "or_text (ps_id st) [] = p" "or_text (ps_status st) status_pending = status_pending"
    using assms(10-12) by (simp_all add: or_text_def opt_text_def status_pending_def)
  have free: "\<not> provider_taken p (is_claim m (tp_id t)) ts"
    using assms(9) by (auto simp: provider_taken_def list_ex_iff list_all_iff)
  have "rewrite_templates (is_claim m (tp_id t)) ?f ts = (Some (?f t), map (\<lambda>u. if u = t then ?f t else u) ts)"
    using assms(3) by (intro one_rewritten [OF assms(1,2)]) (auto simp: is_claim_def owns_template_def)
  then have "submit_settles now m (tp_id t) category (Inr st) ts = (Inr (?f t), map (\<lambda>u. if u = t then ?f t else u) ts)"
    using free by (simp add: submit_settles_def record_submission_def stamp_provider_def word)
  moreover have "?f t \<in> set (map (\<lambda>u. if u = t then ?f t else u) ts)" using assms(2) by (auto intro!: image_eqI [of _ _ t])
  ultimately show ?thesis by (auto simp: submitted_as_def)
qed

text \<open>
  An approval of an edit that is heard before the edit is recorded is overwritten: the guard of the
  edit compares the word the row had with the word it has, and both are approved.  The row is pending
  again, and no letter that old will be taken once the tolerance has passed.
\<close>

theorem edit_forgets_an_approval:
  assumes ok: "templates_ok ts" and t: "t \<in> set ts" "tp_merchant t = m" "tp_provider t = Some p" "p \<noteq> []" "tp_status t = template_approved"
    and ev: "decides t p ev" "ev_topic ev = topic_template_status" "ps_status (letter_state ev) = Some template_approved"
      "not_older_than (dl_skew D) (Some (tp_status_at t)) (ev_occurred ev)"
    and taken: "edit_asks G db m components t = Inr st"
  shows "\<exists>ts1 t1 t2 ts2. consume_template_event D G' ins heard ev ts ts = Some ts1 \<and> t1 \<in> set ts1 \<and> tp_status t1 = template_approved
     \<and> Some (tp_status_at t1) = ev_occurred ev
     \<and> edit_template G db now m (tp_id t) components None ts ts1 = (Inr t2, ts2) \<and> t2 \<in> set ts2
     \<and> tp_status t2 = status_pending \<and> tp_status_at t2 = now"
proof -
  let ?t1 = "told (dl_skew D) ev t" and ?ts1 = "row_told (dl_skew D) ev (tp_id t) ts"
  have live: "tp_status t \<noteq> status_deleted" using t(5) by simp
  have heard: "consume_template_event D G' ins heard ev ts ts = Some ?ts1" by (rule letter_tells [OF ok t(1,3,4) live ev(1)])
  have ok1: "templates_ok ?ts1" by (rule row_told_ok [OF ok t(1,3,4) live ev(1)])
  have mem: "?t1 \<in> set ?ts1" using t(1) by (force simp: row_told_def)
  obtain x where x: "ev_occurred ev = Some x" using ev(1) by (auto simp: decides_def)
  have one: "?t1 = status_given template_approved (Some x) (ps_rejection (letter_state ev)) t"
    using ev(2-4) x by (simp add: told_def Let_def)
  let ?f = "edited_as now components status_pending"
  have guard: "owns_template m (tp_id t) ?t1 \<and> tp_status ?t1 \<in> {status_pending, template_approved}"
    using t(2) by (simp add: one status_given_def owns_template_def)
  have "rewrite_templates (\<lambda>u. owns_template m (tp_id t) u \<and> tp_status u \<in> {status_pending, template_approved}) ?f ?ts1
      = (Some (?f ?t1), map (\<lambda>u. if u = ?t1 then ?f ?t1 else u) ?ts1)"
    using guard by (intro one_rewritten [OF ok1 mem]) (auto simp: owns_template_def told_id)
  then have written: "record_in_place_edit now m (tp_id t) components status_pending template_approved ?ts1
      = (Some (?f ?t1), map (\<lambda>u. if u = ?t1 then ?f ?t1 else u) ?ts1)"
    by (simp add: record_in_place_edit_def)
  have word: "or_text (ps_status st) status_pending = status_pending"
    using edit_answer [OF taken] by (simp add: or_text_def opt_text_def status_pending_def)
  obtain u where u: "template_by_id m (tp_id t) ts = Some u"
    using t(1,2) find_None_iff_set [of "owns_template m (tp_id t)" ts]
    unfolding template_by_id_def by (cases "find (owns_template m (tp_id t)) ts") (auto simp: owns_template_def)
  then have "u = t" using find_Some_set [of "owns_template m (tp_id t)" ts u] same_id [OF ok _ t(1)]
    by (auto simp: template_by_id_def owns_template_def)
  then have "edit_template G db now m (tp_id t) components None ts ?ts1 = (Inr (?f ?t1), map (\<lambda>u. if u = ?t1 then ?f ?t1 else u) ?ts1)"
    using u written taken t(5) word by (simp add: edit_template_def local_edit_def)
  moreover have "?f ?t1 \<in> set (map (\<lambda>u. if u = ?t1 then ?f ?t1 else u) ?ts1)"
    unfolding set_map using mem by (intro image_eqI [of _ _ ?t1]) simp_all
  moreover have "tp_status ?t1 = template_approved" "Some (tp_status_at ?t1) = ev_occurred ev"
    using x by (simp_all add: one status_given_def)
  moreover have "tp_status (?f ?t1) = status_pending" "tp_status_at (?f ?t1) = now" by (simp_all add: edited_as_def)
  ultimately show ?thesis using heard mem by blast
qed

section \<open>A letter without a clock\<close>

text \<open>
  A letter that is filed without a time carries the time it was received, so it moves the row's
  clock, and a letter with a time more than the tolerance before that is refused.
\<close>

theorem clockless_letter_moves_the_clock:
  assumes "insert_event now i m source topic external payload version None customer False es = (Some i', es')"
    and ok: "templates_ok ts" "t \<in> set ts" "tp_provider t = Some p" "p \<noteq> []" "tp_status t \<noteq> status_deleted"
    and "decides t p (letter_of (last es'))" "topic = topic_template_status"
    and "tp_status_at t \<le> now" "0 \<le> dl_skew D"
    and "ev_topic late = topic_template_status" "ev_occurred late = Some x" "x + dl_skew D * second_us < whole_second now"
  shows "consume_template_event D G ins heard (letter_of (last es')) ts ts = Some (row_told (dl_skew D) (letter_of (last es')) (tp_id t) ts)
    \<and> tp_status_at (told (dl_skew D) (letter_of (last es')) t) = now
    \<and> told (dl_skew D) late (told (dl_skew D) (letter_of (last es')) t) = told (dl_skew D) (letter_of (last es')) t"
proof -
  let ?ev = "letter_of (last es')"
  have filed: "ev_occurred ?ev = Some now" "ev_topic ?ev = topic_template_status"
    using assms(1,8) by (auto simp: insert_event_def least_now_def split: if_splits)
  have "whole_second (tp_status_at t) \<le> now + dl_skew D * second_us"
    using whole_second_bounds(1) [of "tp_status_at t"] assms(9,10) mult_nonneg_nonneg [of "dl_skew D" second_us]
    by (simp add: second_us_def)
  then have "tp_status_at (told (dl_skew D) ?ev t) = now"
    using filed by (simp add: told_def Let_def not_older_than_def status_given_def)
  moreover from this have "told (dl_skew D) late (told (dl_skew D) ?ev t) = told (dl_skew D) ?ev t"
    using assms(11-13) by (simp add: told_def [of _ late] Let_def not_older_than_def)
  ultimately show ?thesis using letter_tells [OF ok assms(7)] by simp
qed

section \<open>Two that come at once\<close>

text \<open>
  A template that is retired while its submit is at the provider carries no provider id, so the
  provider is not asked to withdraw it; the submit then finds no claim, and no letter resumes a retired
  row: what the provider registered stays registered and unknown here.
\<close>

theorem retired_in_the_air_stays_registered:
  assumes ok: "templates_ok ts" and t: "t \<in> set ts" "is_claim m (tp_id t) t" "alone t ts" "tp_channel t = ''whatsapp''"
    and unnamed: "guard = Some count" "count m ''whatsapp'' (tp_name t) = (0, 0)"
    and unknown: "list_all (\<lambda>u. tp_provider u \<noteq> Some p) ts" and ev: "names_row t p ev"
  shows "\<exists>ts' e. retire G db guard now m (tp_id t) ts ts = (Inr (retired_at now t), None, ts')
    \<and> submit_settles recorded m (tp_id t) category (Inr st) ts' = (Inl e, ts')
    \<and> consume_template_event D G' ins heard ev ts' ts' = Some ts'"
proof -
  let ?t = "retired_at now t" and ?ts = "map (\<lambda>u. if u = t then retired_at now t else u) ts"
  have m: "tp_merchant t = m" and st: "tp_status t = status_submitting" using t(2) by (simp_all add: is_claim_def owns_template_def)
  have none: "tp_provider t = None" using ok t(1) st by (auto simp: templates_ok_def template_fits_def our_words_def)
  have "rewrite_templates (owns_template m (tp_id t)) (retired_at now) ts = (Some ?t, ?ts)"
    using m by (intro one_rewritten [OF ok t(1)]) (auto simp: owns_template_def)
  moreover have "template_by_id m (tp_id t) ts = Some t"
  proof -
    obtain u where u: "find (owns_template m (tp_id t)) ts = Some u"
      using t(1) m find_None_iff_set [of "owns_template m (tp_id t)" ts]
      by (cases "find (owns_template m (tp_id t)) ts") (auto simp: owns_template_def)
    then have "u = t" using find_Some_set [OF u] same_id [OF ok _ t(1)] by (auto simp: owns_template_def)
    then show ?thesis using u by (simp add: template_by_id_def)
  qed
  ultimately have gone: "retire G db guard now m (tp_id t) ts ts = (Inr ?t, None, ?ts)"
    using unnamed t(4) none by (simp add: retire_def retire_in_txn_def workflows_naming_def retire_template_def)
  have same: "birth ?t = birth t" "tp_merchant ?t = m" "tp_channel ?t = ''whatsapp''" "tp_name ?t = tp_name t" "tp_language ?t = tp_language t"
    using t(4) m by (simp_all add: retired_at_def birth_def natural_key_def)
  have unclaimed: "\<not> is_claim m (tp_id t) u" if "u \<in> set ?ts" for u
    using that same_id [OF ok _ t(1)] by (auto simp: is_claim_def owns_template_def retired_at_def split: if_splits)
  have "submit_settles recorded m (tp_id t) category (Inr st) ?ts
      = (Inl (Template_error ''the template changed while its submission was recorded''), ?ts)"
  proof -
    have "find (is_claim m (tp_id t)) ?ts = None" unfolding find_None_iff_set using unclaimed by blast
    moreover have "map (\<lambda>u. if is_claim m (tp_id t) u then f u else u) ?ts = ?ts" for f
      using unclaimed by (intro map_idI) simp
    moreover have "\<not> provider_taken q (is_claim m (tp_id t)) ?ts" for q
      using unclaimed unfolding provider_taken_def list_ex_iff by blast
    ultimately show ?thesis
      by (simp add: submit_settles_def record_submission_def stamp_provider_def rewrite_templates_def del: map_map)
  qed
  moreover have "consume_template_event D G' ins heard ev ?ts ?ts = Some ?ts"
  proof (rule unheard_row [OF released_alone [OF ok t(1,3) same(1)] same(3)])
    show "\<not> is_stale_claim (dl_crashed D) heard ?t" by (simp add: is_stale_claim_def retired_at_def)
    show "names_row ?t p ev" using ev same m by (simp add: names_row_def)
    have "template_by_provider_id m p ts = None"
      using unknown by (auto simp: template_by_provider_id_def find_None_iff_set list_all_iff)
    then show "template_by_provider_id (tp_merchant ?t) p ?ts = None"
      unfolding same(2) by (rule unprovided) (simp add: retired_at_def none)
  qed
  ultimately show ?thesis using gone by blast
qed

text \<open>Two creates of one template that both find no row: the second meets the unique index.\<close>

theorem racing_creates_raise:
  assumes "create_draft_in_txn now i key components category seen ts = (Inr t, ts')"
    and "template_by_natural_key key seen = None"
  shows "create_draft_in_txn after j key components' category' seen ts' = (Inl Template_raises, ts')"
proof -
  have made: "insert_template_draft now i key components category ts = Some (t, ts')"
    using assms by (auto simp: create_draft_in_txn_def split: option.splits prod.splits)
  then have "t \<in> set ts'" "natural_key t = key"
    by (auto simp: insert_template_draft_def Let_def new_draft_def natural_key_def split: if_splits prod.splits)
  then have "insert_template_draft after j key components' category' ts' = None"
    by (auto simp: insert_template_draft_def list_ex_iff)
  then show ?thesis by (simp add: create_draft_in_txn_def assms(2))
qed

section \<open>On the greeting\<close>

definition silent :: graph where
  "silent q = Graph_error ''graph transport failure''"

definition approval :: "time option \<Rightarrow> letter" where
  "approval occurred = greeting_letter topic_template_status ''event'' ''APPROVED'' occurred"

lemma claimed_rows_ok: "templates_ok claimed_rows" "hd claimed_rows \<in> set claimed_rows"
    "is_claim ''shop'' (tp_id (hd claimed_rows)) (hd claimed_rows)" "alone (hd claimed_rows) claimed_rows" "tp_channel (hd claimed_rows) = ''whatsapp''"
    "template_by_provider_id ''shop'' ''p1'' claimed_rows = None"
proof -
  show "templates_ok claimed_rows"
    by (simp add: claimed_rows_def drafted_rows_def new_draft_def greeting_key_def claimed_for_def templates_ok_def one_owner_def
        template_fits_def our_words_def)
  show "hd claimed_rows \<in> set claimed_rows" "alone (hd claimed_rows) claimed_rows"
    by (simp_all add: claimed_rows_def drafted_rows_def alone_def)
qed code_simp+

lemma approval_names: "names_row (hd claimed_rows) ''p1'' (approval (Some 25))"
  by code_simp

theorem lost_answer_is_never_repaired_witness:
  "\<exists>ts'. submit_settles 60 ''shop'' ''t1'' ''UTILITY'' (submit_asks silent shop_doors ''shop'' ''UTILITY'' (hd claimed_rows)) claimed_rows
      = (Inl (Template_error ''graph transport failure''), ts')
     \<and> released 60 (hd claimed_rows) \<in> set ts'
     \<and> consume_template_event ten_seconds willing (cd_installations shop_doors) 900000000 (approval (Some 25)) ts' ts' = Some ts'"
proof -
  have lost: "submit_asks silent shop_doors ''shop'' ''UTILITY'' (hd claimed_rows) = Inl (Template_error ''graph transport failure'')"
    by code_simp
  have "tp_id (hd claimed_rows) = ''t1''" by code_simp
  then show ?thesis
    using lost_answer_is_never_repaired [OF claimed_rows_ok(1-5) lost claimed_rows_ok(6) approval_names,
        where now = 60 and D = ten_seconds and G' = willing and ins = "cd_installations shop_doors" and after = 900000000] lost
    by auto
qed

theorem letter_ahead_of_its_submit_is_dropped_witness:
  "consume_template_event ten_seconds willing (cd_installations shop_doors) 26 (approval (Some 25)) claimed_rows claimed_rows = Some claimed_rows
   \<and> (\<exists>t' ts'. submit_settles 30 ''shop'' ''t1'' ''UTILITY'' (Inr (no_state\<lparr>ps_id := Some ''p1'', ps_status := Some status_pending\<rparr>)) claimed_rows
          = (Inr t', ts') \<and> tp_status t' = status_pending)"
proof -
  have "tp_id (hd claimed_rows) = ''t1''" "\<not> is_stale_claim (dl_crashed ten_seconds) 26 (hd claimed_rows)"
    "list_all (\<lambda>u. tp_provider u \<noteq> Some ''p1'') claimed_rows" by code_simp+
  then show ?thesis
    using letter_ahead_of_its_submit_is_dropped [OF claimed_rows_ok(1-5) _ claimed_rows_ok(6) approval_names,
        where D = ten_seconds and heard = 26 and st = "no_state\<lparr>ps_id := Some ''p1'', ps_status := Some status_pending\<rparr>"
          and G = willing and ins = "cd_installations shop_doors" and category = "''UTILITY''" and now = 30]
    by auto
qed

theorem edit_forgets_an_approval_witness:
  "\<exists>ts1 t2 ts2. consume_template_event ten_seconds willing [] 45 (approval (Some 44)) approved_rows approved_rows = Some ts1
     \<and> edit_template willing shop_doors 46 ''shop'' ''t1'' [] None approved_rows ts1 = (Inr t2, ts2) \<and> tp_status t2 = status_pending"
proof -
  have "tp_merchant (hd approved_rows) = ''shop''" "tp_id (hd approved_rows) = ''t1''"
    "decides (hd approved_rows) ''p1'' (approval (Some 44))" "ev_topic (approval (Some 44)) = topic_template_status"
    "ps_status (letter_state (approval (Some 44))) = Some template_approved"
    "not_older_than (dl_skew ten_seconds) (Some (tp_status_at (hd approved_rows))) (ev_occurred (approval (Some 44)))"
    "edit_asks willing shop_doors ''shop'' [] (hd approved_rows) = Inr (no_state\<lparr>ps_id := Some ''p1'', ps_status := Some status_pending\<rparr>)"
    by code_simp+
  then show ?thesis
    using edit_forgets_an_approval [OF approved_rows_ok(1,2) _ approved_rows_ok(3) _ approved_rows_ok(4),
        where m = "''shop''" and ev = "approval (Some 44)" and D = ten_seconds and G = willing and db = shop_doors
          and components = "[]" and G' = willing and ins = "[]" and heard = 45 and now = 46]
    by auto
qed

end
