(* ===== verification/Retiring.thy ===== *)
theory Retiring
  imports Lifecycle_Laws Enrol
begin

text \<open>
  Who would still send a template: \<open>template_references\<close> of \<open>outreach/versions.py\<close>, the guard that the
  composition root puts into connectivity's slot, over the tables of plans, versions and runs; and what
  it buys: a retirement takes no template from a run in flight or from a plan that can start one.
\<close>

section \<open>The guard\<close>

text \<open>A square of the stored document, as the SQL reads it.\<close>

definition raw_send :: "string \<Rightarrow> string \<Rightarrow> json \<Rightarrow> bool" where
  "raw_send channel name v \<longleftrightarrow> (case v of
     JObj d \<Rightarrow> pg_text (dget d ''type'') = Some ''send'' \<and> pg_text (dget d ''channel'') = Some channel
       \<and> pg_text (dget d ''template'') = Some name
   | _ \<Rightarrow> False)"

definition document_names :: "string \<Rightarrow> string \<Rightarrow> dict \<Rightarrow> bool" where
  "document_names channel name doc \<longleftrightarrow>
     (case dget doc ''nodes'' of JList xs \<Rightarrow> list_ex (raw_send channel name) xs | _ \<Rightarrow> False)"

definition pinned_names :: "string \<Rightarrow> string \<Rightarrow> plan_db \<Rightarrow> run \<Rightarrow> bool" where
  "pinned_names channel name db r \<longleftrightarrow> (case get_definition (r_merchant r) (r_workflow r) (r_version r) db of
     None \<Rightarrow> False | Some doc \<Rightarrow> document_names channel name doc)"

definition runs_referencing_template :: "string \<Rightarrow> string \<Rightarrow> string \<Rightarrow> plan_db \<Rightarrow> nat" where
  "runs_referencing_template merchant channel name db =
     length (filter (\<lambda>r. r_merchant r = merchant \<and> is_open r \<and> pinned_names channel name db r) (s_rows (db_runs db)))"

definition live_plans_naming_template :: "string \<Rightarrow> string \<Rightarrow> string \<Rightarrow> plan_db \<Rightarrow> nat" where
  "live_plans_naming_template merchant channel name db =
     length (filter (\<lambda>p. pl_merchant p = merchant \<and> pl_status p \<in> {''live'', ''paused''}
        \<and> (case pl_definition p of None \<Rightarrow> False | Some doc \<Rightarrow> document_names channel name doc)) (db_plans db))"

definition template_references :: "plan_db \<Rightarrow> string \<Rightarrow> string \<Rightarrow> string \<Rightarrow> nat \<times> nat" where
  "template_references db merchant channel name =
     (runs_referencing_template merchant channel name db, live_plans_naming_template merchant channel name db)"

section \<open>What it protects\<close>

text \<open>A document that is executed: an open run is pinned to it, or a live or paused plan starts runs on it.\<close>

definition in_force :: "readers \<Rightarrow> plan_db \<Rightarrow> string \<Rightarrow> workflow_definition \<Rightarrow> bool" where
  "in_force R db merchant d \<longleftrightarrow>
     (\<exists>r\<in>set (s_rows (db_runs db)). r_merchant r = merchant \<and> is_open r
        \<and> (\<exists>doc. get_definition merchant (r_workflow r) (r_version r) db = Some doc \<and> rd_definition R doc = Inr d))
   \<or> (\<exists>p\<in>set (db_plans db). pl_merchant p = merchant \<and> pl_status p \<in> {''live'', ''paused''}
        \<and> (\<exists>doc. pl_definition p = Some doc \<and> rd_definition R doc = Inr d))"

text \<open>Pydantic keeps the words of a send square: what the model names stands in the document.\<close>

definition reads_sends :: "readers \<Rightarrow> bool" where
  "reads_sends R \<longleftrightarrow> (\<forall>doc d channel name. rd_definition R doc = Inr d \<longrightarrow> (channel, name) \<in> set (send_templates d)
      \<longrightarrow> document_names channel name doc)"

lemma counted:
  assumes "reads_sends R" "in_force R db merchant d" "(channel, name) \<in> set (send_templates d)"
  shows "template_references db merchant channel name \<noteq> (0, 0)"
proof -
  have names: "document_names channel name doc" if "rd_definition R doc = Inr d" for doc
    using assms(1,3) that by (auto simp: reads_sends_def)
  from assms(2) consider
      r doc where "r \<in> set (s_rows (db_runs db))" "r_merchant r = merchant" "is_open r"
        "get_definition merchant (r_workflow r) (r_version r) db = Some doc" "rd_definition R doc = Inr d"
    | p doc where "p \<in> set (db_plans db)" "pl_merchant p = merchant" "pl_status p \<in> {''live'', ''paused''}"
        "pl_definition p = Some doc" "rd_definition R doc = Inr d"
    unfolding in_force_def by blast
  then show ?thesis
  proof cases
    case 1
    then have "pinned_names channel name db r" using names by (simp add: pinned_names_def)
    then have "runs_referencing_template merchant channel name db \<noteq> 0"
      using 1(1-3) unfolding runs_referencing_template_def length_0_conv filter_empty_conv by blast
    then show ?thesis by (simp add: template_references_def)
  next
    case 2
    then have "live_plans_naming_template merchant channel name db \<noteq> 0"
      using names unfolding live_plans_naming_template_def length_0_conv filter_empty_conv by fastforce
    then show ?thesis by (simp add: template_references_def)
  qed
qed

text \<open>A successful retirement passed the guard and rewrote the row it read.\<close>

lemma retired_rows:
  assumes "retire G tdb (Some count) now m i seen ts = (Inr gone, w, ts')"
  shows "\<exists>t. template_by_id m i seen = Some t \<and> count m (tp_channel t) (tp_name t) = (0, 0)
    \<and> ts' = map (\<lambda>u. if owns_template m i u then retired_at now u else u) ts"
proof (cases "template_by_id m i seen")
  case None
  then show ?thesis using assms by (simp add: retire_def)
next
  case (Some t)
  obtain a b where ab: "count m (tp_channel t) (tp_name t) = (a, b)" by (cases "count m (tp_channel t) (tp_name t)")
  have i: "tp_id t = i" using Some find_Some_set unfolding template_by_id_def owns_template_def by fastforce
  show ?thesis
    using assms Some ab i
    by (auto simp: retire_def retire_in_txn_def workflows_naming_def retire_template_def rewrite_templates_def
        split: if_splits option.splits)
qed

lemma filter_map_same:
  assumes "\<And>u. u \<in> set xs \<Longrightarrow> P u \<Longrightarrow> \<not> Q u \<and> \<not> Q (f u)"
  shows "filter Q (map (\<lambda>u. if P u then f u else u) xs) = filter Q xs"
  using assms by (induction xs) auto

text \<open>
  C33 A retirement that the guard lets through changes nothing for a run in flight or a plan
  that can start one: whatever template a document in force names, on whatever account, the send door
  finds the row it found before.
\<close>

theorem retiring_spares_the_runs:
  assumes "reads_sends R" and "templates_ok ts" and "forward seen ts"
    and "retire G tdb (Some (template_references db)) now m i seen ts = (Inr gone, w, ts')"
    and "in_force R db merchant d" and "(channel, name) \<in> set (send_templates d)"
  shows "approved_template merchant channel account name ts' = approved_template merchant channel account name ts"
proof -
  obtain t where t: "template_by_id m i seen = Some t" "template_references db m (tp_channel t) (tp_name t) = (0, 0)"
    and ts': "ts' = map (\<lambda>u. if owns_template m i u then retired_at now u else u) ts"
    using retired_rows [OF assms(4)] by blast
  have seen: "t \<in> set seen" "owns_template m i t" using find_Some_set t(1) unfolding template_by_id_def by fastforce+
  have other: "\<not> is_template merchant channel name u" if u: "u \<in> set ts" "owns_template m i u" for u
  proof
    assume named: "is_template merchant channel name u"
    obtain t' where t': "t' \<in> set ts" "later t t'" using assms(3) seen(1) by (auto simp: forward_def)
    have "tp_id t' = i" "tp_merchant t' = m" "tp_channel t' = tp_channel t" "tp_name t' = tp_name t"
      using t'(2) seen(2) by (auto simp: later_def birth_def natural_key_def owns_template_def)
    moreover from this have "u = t'" using same_id [OF assms(2) u(1) t'(1)] u(2) by (simp add: owns_template_def)
    ultimately have "merchant = m" "channel = tp_channel t" "name = tp_name t" using named by (simp_all add: is_template_def)
    then show False using counted [OF assms(1,5,6)] t(2) by simp
  qed
  have "filter (\<lambda>u. is_template merchant channel name u \<and> tp_account u = account \<and> tp_status u = template_approved) ts'
      = filter (\<lambda>u. is_template merchant channel name u \<and> tp_account u = account \<and> tp_status u = template_approved) ts"
    unfolding ts' by (rule filter_map_same) (use other in \<open>auto simp: retired_at_def is_template_def\<close>)
  then show ?thesis by (simp add: approved_template_def approved_templates_for_send_def)
qed

text \<open>The shop's plan sends hello; greeting is retired and hello stays.\<close>

definition hello_doc :: dict where
  "hello_doc = [(''nodes'', JList [JObj [(''id'', JStr ''s''), (''type'', JStr ''send''), (''channel'', JStr ''whatsapp''),
     (''template'', JStr ''hello'')]])]"

definition hello_plan :: workflow_definition where
  "hello_plan = board_plan\<lparr>d_nodes := [(blank_node ''s'' Send)\<lparr>n_channel := Some ''whatsapp'', n_template := Some ''hello''\<rparr>]\<rparr>"

definition hello_readers :: readers where
  "hello_readers = demo_readers\<lparr>rd_definition := \<lambda>doc. if document_names ''whatsapp'' ''hello'' doc then Inr hello_plan else Inl []\<rparr>"

definition hello_db :: plan_db where
  "hello_db = no_plans\<lparr>
     db_plans := [\<lparr>pl_id = ''w1'', pl_merchant = ''shop'', pl_name = ''Plan'', pl_status = ''archived'', pl_version = 1,
        pl_definition = Some hello_doc, pl_draft = None, pl_created_by = None\<rparr>],
     db_versions := [\<lparr>vr_merchant = ''shop'', vr_workflow = ''w1'', vr_version = 1, vr_definition = hello_doc, vr_mode = d_on_publish board_plan, vr_by = None\<rparr>],
     db_runs := no_store\<lparr>s_rows := [born 0 ''r1'' ''shop'' ''w1'' 1 ''c1'' ''s'' 0 [] ''c1'']\<rparr>\<rparr>"

definition two_templates :: "template_row list" where
  "two_templates = approved_rows @ [(hd approved_rows)\<lparr>tp_id := ''t2'', tp_name := ''hello'', tp_provider := Some ''p2''\<rparr>]"

definition one_retired :: "template_row list" where
  "one_retired = [retired_at 40 (hd approved_rows), two_templates ! 1]"

lemma hello_sends: "send_templates hello_plan = [(''whatsapp'', ''hello'')]"
  by (simp add: send_templates_def hello_plan_def opt_text_def blank_node_def)

lemma hello_reads: "reads_sends hello_readers"
  by (auto simp: reads_sends_def hello_readers_def hello_sends split: if_splits)

lemma two_templates_ok: "templates_ok two_templates"
  by (simp add: two_templates_def approved_rows_def claimed_rows_def drafted_rows_def new_draft_def greeting_key_def claimed_for_def
      submitted_as_def templates_ok_def one_owner_def template_fits_def natural_key_def our_words_def)

lemma greeting_retires:
  "retire willing shop_doors (Some (template_references hello_db)) 40 ''shop'' ''t1'' two_templates two_templates
   = (Inr (retired_at 40 (hd approved_rows)), Some (Inr ()), one_retired)"
  by code_simp

lemma hello_in_force: "in_force hello_readers hello_db ''shop'' hello_plan"
proof -
  let ?r = "born 0 ''r1'' ''shop'' ''w1'' 1 ''c1'' ''s'' 0 [] ''c1''"
  have "document_names ''whatsapp'' ''hello'' hello_doc" by code_simp
  then have "rd_definition hello_readers hello_doc = Inr hello_plan" by (simp add: hello_readers_def)
  moreover have "get_definition ''shop'' (r_workflow ?r) (r_version ?r) hello_db = Some hello_doc" by code_simp
  moreover have "?r \<in> set (s_rows (db_runs hello_db))" "r_merchant ?r = ''shop''" "is_open ?r"
    by (simp_all add: hello_db_def born_def is_open_def)
  ultimately show ?thesis unfolding in_force_def by blast
qed

theorem retiring_spares_the_runs_witness:
  "approved_template ''shop'' ''whatsapp'' ''waba'' ''hello'' one_retired = approved_template ''shop'' ''whatsapp'' ''waba'' ''hello'' two_templates
   \<and> approved_template ''shop'' ''whatsapp'' ''waba'' ''hello'' two_templates \<noteq> None"
proof
  show "approved_template ''shop'' ''whatsapp'' ''waba'' ''hello'' one_retired = approved_template ''shop'' ''whatsapp'' ''waba'' ''hello'' two_templates"
    by (rule retiring_spares_the_runs [OF hello_reads two_templates_ok forward_refl greeting_retires hello_in_force]) (simp add: hello_sends)
  show "approved_template ''shop'' ''whatsapp'' ''waba'' ''hello'' two_templates \<noteq> None" by code_simp
qed

section \<open>What it does not\<close>

text \<open>
  The plan an enrolment starts from was read before its atom and is not read again under the lock on
  the templates.  So a plan that is archived or republished in between, and is no longer counted, still
  starts a run after the retirement went through, pinned to a document that names the retired template.
\<close>

theorem a_stale_plan_starts_on_a_retired_template:
  assumes "retire G tdb (Some (template_references db)) now m i seen ts = (Inr gone, w, ts')"
    and "template_by_id m i seen = Some t"
    and "enrol R L wall later_on rid p c ctx key door (db_runs db) = (Enrolled r, s')"
    and "pl_merchant p = m" "get_definition m (pl_id p) (pl_version p) db = Some doc"
    and "document_names (tp_channel t) (tp_name t) doc"
  shows "template_references db m (tp_channel t) (tp_name t) = (0, 0)
    \<and> template_references (db\<lparr>db_runs := s'\<rparr>) m (tp_channel t) (tp_name t) \<noteq> (0, 0)
    \<and> r \<in> set (s_rows s') \<and> is_open r"
proof -
  have counts: "template_references db m (tp_channel t) (tp_name t) = (0, 0)"
    using retired_rows [OF assms(1)] assms(2) by auto
  obtain nd wake k where "insert_enrollment later_on rid m (pl_id p) (pl_version p) c nd wake ctx k (db_runs db) = Some (r, s')"
    using assms(3,4) by (auto simp: enrol_def enrol_in_txn_def Let_def split: if_splits option.splits sum.splits prod.splits)
  then have r: "r = born later_on rid m (pl_id p) (pl_version p) c nd wake ctx k" "s' = (db_runs db)\<lparr>s_rows := s_rows (db_runs db) @ [r]\<rparr>"
    by (simp_all add: insert_enrollment_Some)
  then have mem: "r \<in> set (s_rows s')" "is_open r" by (simp_all add: born_def is_open_def)
  have "pinned_names (tp_channel t) (tp_name t) (db\<lparr>db_runs := s'\<rparr>) r"
  proof -
    have "get_definition m (pl_id p) (pl_version p) (db\<lparr>db_runs := s'\<rparr>) = Some doc"
      using assms(5) by (simp add: get_definition_def)
    then show ?thesis using assms(6) by (simp add: pinned_names_def r(1) born_def)
  qed
  then have "runs_referencing_template m (tp_channel t) (tp_name t) (db\<lparr>db_runs := s'\<rparr>) \<noteq> 0"
    using mem r(1) unfolding runs_referencing_template_def length_0_conv filter_empty_conv by (auto simp: born_def)
  then show ?thesis using counts mem by (simp add: template_references_def)
qed

definition idle_db :: plan_db where
  "idle_db = hello_db\<lparr>db_runs := no_store\<rparr>"

definition hello_live :: plan_row where
  "hello_live = (hd (db_plans hello_db))\<lparr>pl_status := ''live''\<rparr>"

lemma hello_retires: "template_by_id ''shop'' ''t2'' two_templates = Some (two_templates ! 1)"
  "\<exists>w ts'. retire willing shop_doors (Some (template_references idle_db)) 40 ''shop'' ''t2'' two_templates two_templates
     = (Inr (retired_at 40 (two_templates ! 1)), w, ts')"
proof -
  show "template_by_id ''shop'' ''t2'' two_templates = Some (two_templates ! 1)" by code_simp
  have "fst (retire willing shop_doors (Some (template_references idle_db)) 40 ''shop'' ''t2'' two_templates two_templates)
     = Inr (retired_at 40 (two_templates ! 1))" by code_simp
  then show "\<exists>w ts'. retire willing shop_doors (Some (template_references idle_db)) 40 ''shop'' ''t2'' two_templates two_templates
     = (Inr (retired_at 40 (two_templates ! 1)), w, ts')"
    by (metis prod.exhaust_sel)
qed

lemma hello_enrols: "\<exists>r s'. enrol hello_readers india_lib 50 50 ''r9'' hello_live ''c1'' demo_context None
    (Some (cart_door\<lparr>e_start := ''s''\<rparr>)) (db_runs idle_db) = (Enrolled r, s')"
proof -
  have "case fst (enrol hello_readers india_lib 50 50 ''r9'' hello_live ''c1'' demo_context None
      (Some (cart_door\<lparr>e_start := ''s''\<rparr>)) (db_runs idle_db)) of Enrolled r \<Rightarrow> True | _ \<Rightarrow> False" by code_simp
  then show ?thesis by (auto split: enrolment.splits) (metis prod.exhaust_sel)
qed

theorem a_stale_plan_starts_on_a_retired_template_witness:
  "\<exists>r s'. enrol hello_readers india_lib 50 50 ''r9'' hello_live ''c1'' demo_context None
       (Some (cart_door\<lparr>e_start := ''s''\<rparr>)) (db_runs idle_db) = (Enrolled r, s')
     \<and> template_references (idle_db\<lparr>db_runs := s'\<rparr>) ''shop'' ''whatsapp'' ''hello'' \<noteq> (0, 0)"
proof -
  obtain r s' where e: "enrol hello_readers india_lib 50 50 ''r9'' hello_live ''c1'' demo_context None
      (Some (cart_door\<lparr>e_start := ''s''\<rparr>)) (db_runs idle_db) = (Enrolled r, s')" using hello_enrols by blast
  obtain w ts' where g: "retire willing shop_doors (Some (template_references idle_db)) 40 ''shop'' ''t2'' two_templates two_templates
      = (Inr (retired_at 40 (two_templates ! 1)), w, ts')" using hello_retires(2) by blast
  have "tp_channel (two_templates ! 1) = ''whatsapp''" "tp_name (two_templates ! 1) = ''hello''" by code_simp+
  moreover have "pl_merchant hello_live = ''shop''" by code_simp
  moreover have "get_definition ''shop'' (pl_id hello_live) (pl_version hello_live) idle_db = Some hello_doc" by code_simp
  moreover have "document_names ''whatsapp'' ''hello'' hello_doc" by code_simp
  ultimately show ?thesis
    using a_stale_plan_starts_on_a_retired_template [OF g hello_retires(1) e, of hello_doc] e by auto
qed

end
